(* ===== verification/KFS_Prelude.thy ===== *)
theory KFS_Prelude
  imports Main "HOL-Library.Word"
begin

text \<open>
  Shared vocabulary of the KFS development: the machine integers of \<open>include/types.h\<close>, the
  result type of kernel code (a value, a kernel panic, or a computation that never returns),
  byte-addressed physical memory with little-endian 32-bit accesses, and the generic lemmas on
  words, lists and memory that the component theories use.
\<close>

unbundle bit_operations_syntax

named_theorems kresult_simps \<open>evaluation of the kernel result combinators\<close>
named_theorems mem_simps \<open>reading memory after a write\<close>

section \<open>Machine integers\<close>

type_synonym u8 = "8 word"
type_synonym u16 = "16 word"
type_synonym u32 = "32 word"

text \<open>C's conversion of a \<open>uint32_t\<close> to \<open>int\<close> is \<open>sint\<close>; arithmetic on \<open>int\<close> wraps with this
  function.\<close>

definition i32 :: "int \<Rightarrow> int" where
  "i32 x = sint (word_of_int x :: u32)"

section \<open>Results of kernel code\<close>

text \<open>
  \<open>None\<close>: the code never returns (a loop that does not end). \<open>Some (Inl msg)\<close>: the code
  called \<open>kernel_panic(msg)\<close>, which halts the machine. \<open>Some (Inr x)\<close>: it returned \<open>x\<close>.
\<close>

type_synonym 'a kresult = "(string + 'a) option"

definition kret :: "'a \<Rightarrow> 'a kresult" where
  "kret x = Some (Inr x)"

definition kernel_panic :: "string \<Rightarrow> 'a kresult" where
  "kernel_panic msg = Some (Inl msg)"

definition kbind :: "'a kresult \<Rightarrow> ('a \<Rightarrow> 'b kresult) \<Rightarrow> 'b kresult" where
  "kbind r f = Option.bind r (\<lambda>x. case x of Inl e \<Rightarrow> Some (Inl e) | Inr y \<Rightarrow> f y)"

text \<open>A computation that may fail to return but does not panic, as a kernel result.\<close>

definition klift :: "'a option \<Rightarrow> 'a kresult" where
  "klift r = map_option Inr r"

text \<open>A loop over a list of values.\<close>

fun kfold :: "('b \<Rightarrow> 's \<Rightarrow> 's kresult) \<Rightarrow> 'b list \<Rightarrow> 's \<Rightarrow> 's kresult" where
  "kfold f [] s = kret s"
| "kfold f (x # xs) s = kbind (f x s) (kfold f xs)"

section \<open>Physical memory\<close>

text \<open>
  Physical memory is a function from byte addresses to bytes. The kernel identity-maps the
  memory it uses (\<open>paging_init\<close>), so a C pointer \<open>p\<close> of the kernel denotes the bytes from
  address \<open>unat p\<close>. The address 0 is the null pointer.
\<close>

type_synonym memory = "nat \<Rightarrow> u8"

definition wr8 :: "memory \<Rightarrow> nat \<Rightarrow> u8 \<Rightarrow> memory" where
  "wr8 m a v = m(a := v)"

definition rd32 :: "memory \<Rightarrow> nat \<Rightarrow> u32" where
  "rd32 m a = ucast (m a) OR push_bit 8 (ucast (m (a + 1)))
     OR push_bit 16 (ucast (m (a + 2))) OR push_bit 24 (ucast (m (a + 3)))"

definition wr32 :: "memory \<Rightarrow> nat \<Rightarrow> u32 \<Rightarrow> memory" where
  "wr32 m a v = wr8 (wr8 (wr8 (wr8 m a (ucast v)) (a + 1) (ucast (drop_bit 8 v)))
     (a + 2) (ucast (drop_bit 16 v))) (a + 3) (ucast (drop_bit 24 v))"

definition rd16 :: "memory \<Rightarrow> nat \<Rightarrow> u16" where
  "rd16 m a = ucast (m a) OR push_bit 8 (ucast (m (a + 1)))"

definition wr16 :: "memory \<Rightarrow> nat \<Rightarrow> u16 \<Rightarrow> memory" where
  "wr16 m a v = wr8 (wr8 m a (ucast v)) (a + 1) (ucast (drop_bit 8 v))"

section \<open>Lemmas: kernel results\<close>

lemma kbind_kret [simp, kresult_simps]: "kbind (kret x) f = f x"
  by (simp add: kbind_def kret_def)

lemma kbind_Inr [simp, kresult_simps]: "kbind (Some (Inr x)) f = f x"
  by (simp add: kbind_def)

lemma kbind_Inl [simp, kresult_simps]: "kbind (Some (Inl e)) f = Some (Inl e)"
  by (simp add: kbind_def)

lemma kbind_None [simp, kresult_simps]: "kbind None f = None"
  by (simp add: kbind_def)

lemma kbind_panic [simp, kresult_simps]: "kbind (kernel_panic e) f = kernel_panic e"
  by (simp add: kbind_def kernel_panic_def)

lemma kbind_assoc: "kbind (kbind r f) g = kbind r (\<lambda>x. kbind (f x) g)"
  by (simp add: kbind_def split: option.split sum.split Option.bind_split)

lemma klift_Some [simp, kresult_simps]: "klift (Some x) = kret x"
  by (simp add: klift_def kret_def)

lemma klift_None [simp, kresult_simps]: "klift None = None"
  by (simp add: klift_def)

lemma kret_inject [simp]: "kret x = kret y \<longleftrightarrow> x = y"
  by (simp add: kret_def)

lemma kret_not_panic [simp]: "kret x \<noteq> kernel_panic e" "kernel_panic e \<noteq> kret x"
  by (simp_all add: kret_def kernel_panic_def)

lemma kret_not_None [simp]: "kret x \<noteq> None" "None \<noteq> kret x"
  by (simp_all add: kret_def)

lemma kernel_panic_not_None [simp]: "kernel_panic e \<noteq> None" "None \<noteq> kernel_panic e"
  by (simp_all add: kernel_panic_def)

lemma kbind_eq_kret: "kbind r f = kret y \<longleftrightarrow> (\<exists>x. r = kret x \<and> f x = kret y)"
  by (auto simp: kbind_def kret_def split: sum.splits Option.bind_splits)

lemma kbind_mono [partial_function_mono]:
  assumes "mono_option B" and "\<And>y. mono_option (\<lambda>f. C y f)"
  shows "mono_option (\<lambda>f. kbind (B f) (\<lambda>y. C y f))"
  unfolding kbind_def
proof (rule bind_mono)
  show "mono_option B" by (rule assms(1))
  show "mono_option (\<lambda>f. case x of Inl e \<Rightarrow> Some (Inl e) | Inr y \<Rightarrow> C y f)" for x
    by (cases x) (simp_all add: assms(2) option.const_mono)
qed

section \<open>Lemmas: words\<close>

lemma word_of_nat_unat [simp]: "word_of_nat (unat w) = (w :: 'a::len word)"
  by (simp add: of_nat_unat)

lemma ucast_up_down [simp]: "ucast (ucast v :: u16) = (v :: u8)" "ucast (ucast v :: u32) = (v :: u8)"
  by (rule bit_word_eqI, simp add: bit_simps)+

lemma unat_add_u32: "unat a + unat b < 2 ^ 32 \<Longrightarrow> unat (a + b :: u32) = unat a + unat b"
  by (simp add: unat_word_ariths)

lemma unat_ucast_up: "unat (ucast (x :: u16) :: u32) = unat x" "unat (ucast (y :: u8) :: u32) = unat y"
proof -
  have "unat x < 2 ^ LENGTH(16)" "unat y < 2 ^ LENGTH(8)" by (rule unsigned_less)+
  then show "unat (ucast x :: u32) = unat x" "unat (ucast y :: u32) = unat y"
    by (simp_all add: unsigned_ucast_eq take_bit_nat_eq_self)
qed

lemma unat_exp_u32: "k < 32 \<Longrightarrow> unat (2 ^ k :: u32) = 2 ^ k"
proof -
  assume "k < 32"
  then have "unat (word_of_nat (2 ^ k) :: u32) = 2 ^ k"
    by (simp only: unsigned_of_nat) (simp add: take_bit_nat_eq_self)
  then show ?thesis by simp
qed

lemma unat_sub_u32: "unat b \<le> unat a \<Longrightarrow> unat (a - b :: u32) = unat a - unat b"
  by (simp add: unat_sub word_le_nat_alt)

lemma and_not_mask_eq: "x AND NOT (mask n) = x - take_bit n (x :: 'a::len word)"
proof -
  have "x = (x AND NOT (mask n)) + (x AND mask n)"
    by (subst disjunctive_add) (auto simp: bit_simps intro!: bit_word_eqI)
  then show ?thesis by (simp add: take_bit_eq_mask algebra_simps)
qed

lemma unat_take_bit: "unat (take_bit n x :: 'a::len word) = unat x mod 2 ^ n"
  by (metis unsigned_take_bit_eq take_bit_eq_mod)

lemma unat_drop_bit: "unat (drop_bit n x :: 'a::len word) = unat x div 2 ^ n"
  by (simp add: unsigned_drop_bit_eq drop_bit_nat_def take_bit_nat_eq_self)

lemma unat_and_not_mask:
  "unat (x AND NOT (mask n) :: 'a::len word) = unat x div 2 ^ n * 2 ^ n"
proof -
  have "unat (take_bit n x) \<le> unat x"
    by (simp add: unat_take_bit)
  then have "unat (x AND NOT (mask n)) = unat x - unat (take_bit n x)"
    by (simp add: and_not_mask_eq unat_sub word_le_nat_alt)
  also have "\<dots> = unat x div 2 ^ n * 2 ^ n"
    by (simp only: unat_take_bit minus_mod_eq_div_mult)
  finally show ?thesis .
qed

text \<open>Rounding an address up to a multiple of a power of two.\<close>

lemma unat_align_up:
  assumes "unat x + 2 ^ k < 2 ^ 32" "k < 32"
  defines "y \<equiv> (x + 2 ^ k - 1) AND NOT (2 ^ k - 1) :: u32"
  shows "2 ^ k dvd unat y" "unat x \<le> unat y" "unat y < unat x + 2 ^ k"
proof -
  have "unat (x + 2 ^ k - 1) = unat x + 2 ^ k - 1"
    using assms(1,2) by (subst unat_sub_u32) (simp_all add: unat_add_u32 unat_exp_u32 Suc_leI)
  then have y: "unat y = (unat x + 2 ^ k - 1) div 2 ^ k * 2 ^ k"
    unfolding y_def mask_eq_exp_minus_1 [symmetric] by (simp only: unat_and_not_mask)
  then show "2 ^ k dvd unat y" by simp
  have "0 < (2 ^ k :: nat)" by simp
  with y show "unat x \<le> unat y" "unat y < unat x + 2 ^ k"
    using div_mult_mod_eq [of "unat x + 2 ^ k - 1" "2 ^ k"]
      mod_less_divisor [of "2 ^ k" "unat x + 2 ^ k - 1"] by linarith+
qed

lemma uint_pos_iff [simp]: "0 < uint (x :: 'a::len word) \<longleftrightarrow> x \<noteq> 0"
  by (metis word_less_def uint_0_eq word_gt_0)

lemma i32_small: "- (2 ^ 31) \<le> x \<Longrightarrow> x < 2 ^ 31 \<Longrightarrow> i32 x = x"
  by (simp add: i32_def signed_of_int signed_take_bit_int_eq_self)

section \<open>Lemmas: memory\<close>

lemma sint_small: "unat (w :: u32) < 2 ^ 31 \<Longrightarrow> sint w = int (unat w)"
proof -
  assume "unat w < 2 ^ 31"
  then have "uint w < 2 ^ 31" by (metis of_nat_less_iff of_nat_numeral of_nat_power uint_nat)
  moreover have "- (2 ^ 31) \<le> uint w" using order_trans [of _ 0 "uint w"] by simp
  ultimately show ?thesis using i32_small [of "uint w"] by (simp add: i32_def)
qed

lemma rd32_cong:
  assumes "\<And>i. i < 4 \<Longrightarrow> m (a + i) = m' (a + i)"
  shows "rd32 m a = rd32 m' a"
  using assms [of 0] assms [of 1] assms [of 2] assms [of 3] by (simp add: rd32_def)

lemma wr8_same [simp, mem_simps]: "wr8 m a v a = v"
  by (simp add: wr8_def)

lemma wr8_other [simp, mem_simps]: "b \<noteq> a \<Longrightarrow> wr8 m a v b = m b"
  by (simp add: wr8_def)

lemma wr8_apply: "wr8 m a v b = (if b = a then v else m b)"
  by (simp add: wr8_def)

lemma wr32_other [mem_simps]: "b < a \<or> a + 4 \<le> b \<Longrightarrow> wr32 m a v b = m b"
  by (auto simp: wr32_def)

lemma rd32_wr32_same [simp, mem_simps]: "rd32 (wr32 m a v) a = v"
proof (rule bit_word_eqI)
  fix n assume "n < LENGTH(32)"
  then consider "n < 8" | "8 \<le> n" "n < 16" | "16 \<le> n" "n < 24" | "24 \<le> n" "n < 32"
    by fastforce
  then show "bit (rd32 (wr32 m a v) a) n = bit v n"
    by cases (auto simp: rd32_def wr32_def bit_simps)
qed

lemma rd32_wr32_other [mem_simps]:
  "b + 4 \<le> a \<or> a + 4 \<le> b \<Longrightarrow> rd32 (wr32 m a v) b = rd32 m b"
  by (rule rd32_cong) (auto simp: wr32_other)

lemma wr16_other [mem_simps]: "b < a \<or> a + 2 \<le> b \<Longrightarrow> wr16 m a v b = m b"
  by (auto simp: wr16_def)

lemma rd16_wr16_same [simp, mem_simps]: "rd16 (wr16 m a v) a = v"
proof (rule bit_word_eqI)
  fix n assume "n < LENGTH(16)"
  then show "bit (rd16 (wr16 m a v) a) n = bit v n"
    by (cases "n < 8") (auto simp: rd16_def wr16_def bit_simps)
qed

lemma rd32_wr8_other [mem_simps]:
  "a < b \<or> b + 4 \<le> a \<Longrightarrow> rd32 (wr8 m a v) b = rd32 m b"
  by (rule rd32_cong) auto

end
