(* ===== verification/KFS_String.thy ===== *)
theory KFS_String
  imports KFS_Prelude "HOL-Library.List_Lexorder"
begin

text \<open>
  The string library \<open>src/string.c\<close>, on physical memory. A pointer is a byte address; the loops
  that run to a terminating NUL are \<open>partial_function\<close>s (a missing NUL is a loop that does not
  return), the counted loops are total. The lemmas say what each routine does to a memory that
  holds C strings (\<open>cstr m p s\<close>: the bytes \<open>s\<close> and a NUL start at \<open>p\<close>), and that
  \<open>snprintf\<close> never writes outside its buffer.
\<close>

section \<open>Memory that holds a C string\<close>

fun cstr :: "memory \<Rightarrow> nat \<Rightarrow> u8 list \<Rightarrow> bool" where
  "cstr m p [] = (m p = 0)"
| "cstr m p (c # cs) = (m p = c \<and> c \<noteq> 0 \<and> cstr m (p + 1) cs)"

section \<open>The routines\<close>

partial_function (option) strlen_loop :: "memory \<Rightarrow> nat \<Rightarrow> u32 \<Rightarrow> u32 option" where
  "strlen_loop m str len =
     (if m (str + unat len) \<noteq> 0 then strlen_loop m str (len + 1) else Some len)"

definition strlen :: "memory \<Rightarrow> nat \<Rightarrow> u32 option" where
  "strlen m str = strlen_loop m str 0"

partial_function (option) strcmp :: "memory \<Rightarrow> nat \<Rightarrow> nat \<Rightarrow> int option" where
  "strcmp m s1 s2 =
     (if m s1 \<noteq> 0 \<and> m s1 = m s2 then strcmp m (s1 + 1) (s2 + 1)
      else Some (uint (m s1) - uint (m s2)))"

text \<open>The routines that return their destination pointer return the new memory here.\<close>

partial_function (option) strcpy :: "memory \<Rightarrow> nat \<Rightarrow> nat \<Rightarrow> memory option" where
  "strcpy m dest src =
     (if m src \<noteq> 0 then strcpy (wr8 m dest (m src)) (dest + 1) (src + 1)
      else Some (wr8 m dest 0))"

function strncpy_pad :: "memory \<Rightarrow> nat \<Rightarrow> nat \<Rightarrow> nat \<Rightarrow> memory" where
  "strncpy_pad m dest n i =
     (if i < n then strncpy_pad (wr8 m (dest + i) 0) dest n (i + 1) else m)"
  by pat_completeness auto
termination by (relation "measure (\<lambda>(m, d, n, i). n - i)") auto

function strncpy_copy :: "memory \<Rightarrow> nat \<Rightarrow> nat \<Rightarrow> nat \<Rightarrow> nat \<Rightarrow> memory" where
  "strncpy_copy m dest src n i =
     (if i < n \<and> m (src + i) \<noteq> 0
      then strncpy_copy (wr8 m (dest + i) (m (src + i))) dest src n (i + 1)
      else strncpy_pad m dest n i)"
  by pat_completeness auto
termination by (relation "measure (\<lambda>(m, d, s, n, i). n - i)") auto

definition strncpy :: "memory \<Rightarrow> nat \<Rightarrow> nat \<Rightarrow> nat \<Rightarrow> memory" where
  "strncpy m dest src n = strncpy_copy m dest src n 0"

fun memset :: "memory \<Rightarrow> nat \<Rightarrow> u8 \<Rightarrow> nat \<Rightarrow> memory" where
  "memset m p v 0 = m"
| "memset m p v (Suc num) = memset (wr8 m p v) (p + 1) v num"

fun memcpy :: "memory \<Rightarrow> nat \<Rightarrow> nat \<Rightarrow> nat \<Rightarrow> memory" where
  "memcpy m d s 0 = m"
| "memcpy m d s (Suc num) = memcpy (wr8 m d (m s)) (d + 1) (s + 1) num"

fun strncmp :: "memory \<Rightarrow> nat \<Rightarrow> nat \<Rightarrow> nat \<Rightarrow> int" where
  "strncmp m s1 s2 0 = 0"
| "strncmp m s1 s2 (Suc n) =
     (if m s1 \<noteq> 0 \<and> m s1 = m s2 then strncmp m (s1 + 1) (s2 + 1) n
      else uint (m s1) - uint (m s2))"

text \<open>\<open>strchr\<close> returns the null pointer (0) when the character does not occur.\<close>

partial_function (option) strchr :: "memory \<Rightarrow> nat \<Rightarrow> u8 \<Rightarrow> nat option" where
  "strchr m s c =
     (if m s \<noteq> 0 then (if m s = c then Some s else strchr m (s + 1) c)
      else if c = 0 then Some s else Some 0)"

section \<open>snprintf\<close>

text \<open>
  The variadic arguments are a list; \<open>va_arg\<close> takes the next one at the type the conversion
  names. A missing or ill-typed argument, or a format that ends in a lone percent sign (the scan
  then runs past its terminator), is undefined behaviour: the result is \<open>None\<close>.
\<close>

datatype va_arg = VaStr nat | VaInt int | VaUInt u32

fun snprintf_str :: "memory \<Rightarrow> nat \<Rightarrow> nat \<Rightarrow> nat \<Rightarrow> nat \<Rightarrow> memory \<times> nat" where
  "snprintf_str m str 0 written s = (m, written)"
| "snprintf_str m str (Suc room) written s =
     (if m s \<noteq> 0 then snprintf_str (wr8 m (str + written) (m s)) str room (written + 1) (s + 1)
      else (m, written))"

text \<open>The digits of a number, least significant first, as the code fills its local buffer.\<close>

definition digit_char :: "nat \<Rightarrow> u8" where
  "digit_char d = (if d < 10 then 48 + of_nat d else 97 + of_nat (d - 10))"

fun digits_of :: "nat \<Rightarrow> nat \<Rightarrow> u8 list" where
  "digits_of b n =
     (if n = 0 \<or> b < 2 then [] else digit_char (n mod b) # digits_of b (n div b))"

definition number_buffer :: "nat \<Rightarrow> nat \<Rightarrow> u8 list" where
  "number_buffer b n = (if n = 0 then [48] else digits_of b n)"

text \<open>Copying the buffer out, last character first, while there is room.\<close>

fun snprintf_out :: "memory \<Rightarrow> nat \<Rightarrow> nat \<Rightarrow> u8 list \<Rightarrow> nat \<Rightarrow> memory \<times> nat" where
  "snprintf_out m str lim [] written = (m, written)"
| "snprintf_out m str lim (c # cs) written =
     (if written < lim then snprintf_out (wr8 m (str + written) c) str lim cs (written + 1)
      else (m, written))"

definition snprintf_int :: "memory \<Rightarrow> nat \<Rightarrow> nat \<Rightarrow> int \<Rightarrow> nat \<Rightarrow> memory \<times> nat" where
  "snprintf_int m str lim num written =
     (let negative = num < 0;
          num' = (if negative then i32 (- num) else num);
          buffer = (if num' = 0 then [48] else if num' > 0 then digits_of 10 (nat num') else []);
          (m1, w1) = (if negative \<and> written < lim then (wr8 m (str + written) 45, written + 1)
                      else (m, written))
      in snprintf_out m1 str lim (rev buffer) w1)"

text \<open>One conversion, selected by the character \<open>k\<close> after the percent sign.\<close>

definition snprintf_conv ::
  "memory \<Rightarrow> nat \<Rightarrow> nat \<Rightarrow> char \<Rightarrow> va_arg list \<Rightarrow> nat \<Rightarrow> ((memory \<times> nat) \<times> va_arg list) option"
where
  "snprintf_conv m str lim k args written =
     (if k = CHR ''s'' then
        (case args of
           VaStr s # args' \<Rightarrow>
             Some (if s \<noteq> 0 then snprintf_str m str (lim - written) written s else (m, written), args')
         | _ \<Rightarrow> None)
      else if k = CHR ''d'' then
        (case args of
           VaInt num # args' \<Rightarrow> Some (snprintf_int m str lim num written, args')
         | _ \<Rightarrow> None)
      else if k = CHR ''x'' then
        (case args of
           VaUInt num # args' \<Rightarrow>
             Some (snprintf_out m str lim (rev (number_buffer 16 (unat num))) written, args')
         | _ \<Rightarrow> None)
      else if k = CHR ''%'' then Some ((wr8 m (str + written) 37, written + 1), args)
      else Some ((m, written), args))"

fun snprintf_loop ::
  "memory \<Rightarrow> nat \<Rightarrow> nat \<Rightarrow> string \<Rightarrow> va_arg list \<Rightarrow> nat \<Rightarrow> (memory \<times> nat) option" where
  "snprintf_loop m str lim [] args written = Some (m, written)"
| "snprintf_loop m str lim [c] args written =
     (if \<not> written < lim then Some (m, written)
      else if c = CHR ''%'' then None
      else Some (wr8 m (str + written) (of_char c), written + 1))"
| "snprintf_loop m str lim (c # k # fs) args written =
     (if \<not> written < lim then Some (m, written)
      else if c = CHR ''%'' then
        (case snprintf_conv m str lim k args written of
           None \<Rightarrow> None
         | Some ((m', w'), args') \<Rightarrow> snprintf_loop m' str lim fs args' w')
      else snprintf_loop (wr8 m (str + written) (of_char c)) str lim (k # fs) args (written + 1))"

definition snprintf ::
  "memory \<Rightarrow> nat \<Rightarrow> nat \<Rightarrow> string \<Rightarrow> va_arg list \<Rightarrow> (memory \<times> nat) option" where
  "snprintf m str sz fmt args =
     (if str = 0 \<or> sz = 0 then Some (m, 0)
      else case snprintf_loop m str (sz - 1) fmt args 0 of
             None \<Rightarrow> None
           | Some (m', written) \<Rightarrow> Some (wr8 m' (str + written) 0, written))"

declare strncpy_pad.simps [simp del] strncpy_copy.simps [simp del] digits_of.simps [simp del]

section \<open>Lemmas\<close>

lemma cstr_cong:
  "(\<And>i. i \<le> length s \<Longrightarrow> m (p + i) = m' (p + i)) \<Longrightarrow> cstr m p s = cstr m' p s"
proof (induction s arbitrary: p)
  case Nil
  from Nil [of 0] show ?case by simp
next
  case (Cons c s)
  have "cstr m (p + 1) s = cstr m' (p + 1) s"
    using Cons.prems [of "Suc i" for i] by (intro Cons.IH) auto
  with Cons.prems [of 0] show ?case by simp
qed

lemma cstr_nth: "cstr m p s \<Longrightarrow> i < length s \<Longrightarrow> m (p + i) = s ! i \<and> s ! i \<noteq> 0"
proof (induction s arbitrary: p i)
  case (Cons c s)
  then show ?case by (cases i) (fastforce dest: Cons.IH [of "p + 1"])+
qed simp

lemma cstr_end: "cstr m p s \<Longrightarrow> m (p + length s) = 0"
  by (induction s arbitrary: p) fastforce+

lemma cstr_unique: "cstr m p s \<Longrightarrow> cstr m p t \<Longrightarrow> s = t"
proof (induction s arbitrary: p t)
  case Nil
  then show ?case by (cases t) auto
next
  case (Cons c s)
  then show ?case by (cases t) auto
qed

text \<open>The counted loops have closed forms.\<close>

lemma memset_apply: "memset m p v n a = (if p \<le> a \<and> a < p + n then v else m a)"
  by (induction n arbitrary: m p) (auto simp: wr8_apply)

lemma memcpy_apply:
  "d \<le> s \<or> s + n \<le> d \<Longrightarrow>
   memcpy m d s n a = (if d \<le> a \<and> a < d + n then m (s + (a - d)) else m a)"
proof (induction n arbitrary: m d s)
  case (Suc n)
  have "memcpy (wr8 m d (m s)) (d + 1) (s + 1) n a =
      (if d + 1 \<le> a \<and> a < d + 1 + n then wr8 m d (m s) (s + 1 + (a - (d + 1)))
       else wr8 m d (m s) a)"
    using Suc.prems by (intro Suc.IH) auto
  then show ?case using Suc.prems by (auto simp: wr8_apply Suc_diff_Suc)
qed auto

lemma rd32_memset0: "p \<le> a \<Longrightarrow> a + 4 \<le> p + n \<Longrightarrow> rd32 (memset m p 0 n) a = 0"
  by (simp add: rd32_def memset_apply)

lemma rd32_memset_other [mem_simps]:
  "a + 4 \<le> p \<or> p + n \<le> a \<Longrightarrow> rd32 (memset m p v n) a = rd32 m a"
  by (rule rd32_cong) (auto simp: memset_apply)

lemma rd32_memcpy_other [mem_simps]:
  "d \<le> s \<or> s + n \<le> d \<Longrightarrow> a + 4 \<le> d \<or> d + n \<le> a \<Longrightarrow>
   rd32 (memcpy m d s n) a = rd32 m a"
  by (rule rd32_cong) (auto simp: memcpy_apply)

subsection \<open>Strings\<close>

lemma strlen_loop_cstr:
  "cstr m (str + unat len) s \<Longrightarrow> unat len + length s < 2 ^ 32 \<Longrightarrow>
   strlen_loop m str len = Some (len + of_nat (length s))"
proof (induction s arbitrary: len)
  case Nil
  then show ?case by (simp add: strlen_loop.simps)
next
  case (Cons c s)
  from Cons.prems(2) have "unat (len + 1) = unat len + 1"
    by (simp add: unat_word_ariths)
  with Cons have "strlen_loop m str (len + 1) = Some (len + 1 + of_nat (length s))"
    by (intro Cons.IH) (auto simp: add.assoc)
  with Cons.prems(1) show ?case
    by (subst strlen_loop.simps) (simp add: algebra_simps)
qed

lemma strlen_cstr: "cstr m p s \<Longrightarrow> length s < 2 ^ 32 \<Longrightarrow> strlen m p = Some (of_nat (length s))"
  using strlen_loop_cstr [of m p 0 s] by (simp add: strlen_def)

lemma strcmp_cstr:
  "cstr m p s \<Longrightarrow> cstr m q t \<Longrightarrow>
   \<exists>d. strcmp m p q = Some d \<and> (d = 0 \<longleftrightarrow> s = t) \<and> (d < 0 \<longleftrightarrow> s < t)"
proof (induction s arbitrary: p q t)
  case Nil
  then show ?case
    by (cases t) (auto simp: strcmp.simps [of m p q] unsigned_eq_0_iff)
next
  case (Cons c s)
  show ?case
  proof (cases t)
    case Nil
    with Cons.prems show ?thesis
      by (auto simp: strcmp.simps [of m p q] unsigned_eq_0_iff)
  next
    case (Cons c' t')
    show ?thesis
    proof (cases "c = c'")
      case True
      with Cons.prems Cons obtain d where
        "strcmp m (p + 1) (q + 1) = Some d" "(d = 0) = (s = t')" "(d < 0) = (s < t')"
        using Cons.IH [of "p + 1" "q + 1" t'] by auto
      with True Cons Cons.prems show ?thesis by (auto simp: strcmp.simps [of m p q])
    next
      case False
      with Cons Cons.prems show ?thesis
        by (auto simp: strcmp.simps [of m p q] word_less_def dest: unsigned_word_eqI)
    qed
  qed
qed

lemma strcpy_cstr:
  assumes "cstr m src s" and "dest + length s < src \<or> src + length s < dest"
  shows "\<exists>m'. strcpy m dest src = Some m' \<and> cstr m' dest s
    \<and> (\<forall>a. a < dest \<or> dest + length s < a \<longrightarrow> m' a = m a)"
  using assms
proof (induction s arbitrary: m dest src)
  case Nil
  then show ?case by (simp add: strcpy.simps)
next
  case (Cons c s)
  let ?m = "wr8 m dest (m src)"
  have "cstr ?m (src + 1) s"
    using Cons.prems by (subst cstr_cong [where m' = m]) auto
  moreover have "dest + 1 + length s < src + 1 \<or> src + 1 + length s < dest + 1"
    using Cons.prems(2) by auto
  ultimately obtain m' where m': "strcpy ?m (dest + 1) (src + 1) = Some m'"
      "cstr m' (dest + 1) s" "\<forall>a. a < dest + 1 \<or> dest + 1 + length s < a \<longrightarrow> m' a = ?m a"
    using Cons.IH by blast
  from m'(3) have "m' dest = m src" by simp
  with m' Cons.prems(1) show ?case
    by (auto simp: strcpy.simps [of m dest src])
qed

lemma strncmp_cstr:
  "cstr m p s \<Longrightarrow> cstr m q t \<Longrightarrow> (strncmp m p q n = 0) = (take n s = take n t)"
proof (induction n arbitrary: p q s t)
  case (Suc n)
  show ?case
  proof (cases s)
    case Nil
    with Suc.prems show ?thesis by (cases t) (auto simp: unsigned_eq_0_iff)
  next
    case (Cons c s')
    with Suc.prems Suc.IH [of "p + 1" s' "q + 1"] show ?thesis
      by (cases t) (auto simp: unsigned_eq_0_iff dest: unsigned_word_eqI)
  qed
qed simp

lemma strchr_cstr:
  "cstr m p s \<Longrightarrow> c \<noteq> 0 \<Longrightarrow> strchr m p c =
     Some (if c \<in> set s then p + length (takeWhile (\<lambda>x. x \<noteq> c) s) else 0)"
proof (induction s arbitrary: p)
  case Nil
  then show ?case by (simp add: strchr.simps)
next
  case (Cons x s)
  with Cons.IH [of "p + 1"] show ?case by (auto simp: strchr.simps [of m p c])
qed

lemma strncpy_pad_apply:
  "strncpy_pad m dest n i a = (if dest + i \<le> a \<and> a < dest + n then 0 else m a)"
proof (induction m dest n i rule: strncpy_pad.induct)
  case (1 m dest n i)
  then show ?case
    by (auto simp: strncpy_pad.simps [of m dest n i] wr8_apply [of m "dest + i" 0 a])
qed

lemma strncpy_copy_cstr:
  assumes "cstr m (src + i) s" and "dest + n \<le> src + i \<or> src + i + length s < dest + i"
  shows "strncpy_copy m dest src n i a = (if dest + i \<le> a \<and> a < dest + n
    then (if a - (dest + i) < length s then s ! (a - (dest + i)) else 0) else m a)"
  using assms
proof (induction s arbitrary: m i)
  case Nil
  then show ?case
    by (simp add: strncpy_copy.simps [of m dest src n i] strncpy_pad_apply)
next
  case (Cons c s)
  show ?case
  proof (cases "i < n")
    case True
    let ?m = "wr8 m (dest + i) (m (src + i))"
    have "cstr ?m (src + (i + 1)) s"
      using Cons.prems True by (subst cstr_cong [where m' = m]) (auto simp: wr8_apply)
    then have "strncpy_copy ?m dest src n (i + 1) a = (if dest + (i + 1) \<le> a \<and> a < dest + n
        then (if a - (dest + (i + 1)) < length s then s ! (a - (dest + (i + 1))) else 0) else ?m a)"
      using Cons.prems(2) by (intro Cons.IH) auto
    then show ?thesis using Cons.prems True
      by (auto simp: strncpy_copy.simps [of m dest src n i] nth_Cons' wr8_apply)
  next
    case False
    then show ?thesis
      by (auto simp: strncpy_copy.simps [of m dest src n i] strncpy_pad_apply)
  qed
qed

lemma strncpy_cstr:
  assumes "cstr m src s" and "dest + n \<le> src \<or> src + length s < dest"
  shows "strncpy m dest src n a = (if dest \<le> a \<and> a < dest + n
    then (if a - dest < length s then s ! (a - dest) else 0) else m a)"
  using strncpy_copy_cstr [of m src 0 s dest n a] assms by (simp add: strncpy_def)

subsection \<open>snprintf stays inside its buffer\<close>

definition within_buffer :: "nat \<Rightarrow> nat \<Rightarrow> memory \<Rightarrow> memory \<times> nat \<Rightarrow> bool" where
  "within_buffer str lim m r \<longleftrightarrow>
     snd r \<le> lim \<and> (\<forall>a. a < str \<or> str + lim \<le> a \<longrightarrow> fst r a = m a)"

lemma within_buffer_refl: "w \<le> lim \<Longrightarrow> within_buffer str lim m (m, w)"
  by (simp add: within_buffer_def)

lemma within_buffer_upd:
  "w < lim \<Longrightarrow> within_buffer str lim (wr8 m (str + w) c) r \<Longrightarrow> within_buffer str lim m r"
  by (auto simp: within_buffer_def wr8_apply)

lemma within_buffer_wr8: "w < lim \<Longrightarrow> within_buffer str lim m (wr8 m (str + w) c, Suc w)"
  by (auto simp: within_buffer_def)

lemma within_buffer_trans:
  "within_buffer str lim m (m1, w1) \<Longrightarrow> within_buffer str lim m1 r \<Longrightarrow> within_buffer str lim m r"
  by (auto simp: within_buffer_def)

lemma snprintf_str_within:
  "written + room \<le> lim \<Longrightarrow> within_buffer str lim m (snprintf_str m str room written s)"
proof (induction m str room written s rule: snprintf_str.induct)
  case (2 m str room written s)
  then show ?case
    by (auto intro: within_buffer_refl within_buffer_upd [of written])
qed (simp add: within_buffer_refl)

lemma snprintf_out_within:
  "written \<le> lim \<Longrightarrow> within_buffer str lim m (snprintf_out m str lim cs written)"
proof (induction m str lim cs written rule: snprintf_out.induct)
  case (2 m str lim c cs written)
  then show ?case
    by (auto intro: within_buffer_refl within_buffer_upd [of written lim str m c])
qed (simp add: within_buffer_refl)

lemma snprintf_int_within:
  assumes "written \<le> lim"
  shows "within_buffer str lim m (snprintf_int m str lim num written)"
proof (cases "num < 0 \<and> written < lim")
  case True
  show ?thesis
    by (rule within_buffer_upd [of written lim str m 45])
      (use True in \<open>simp_all add: snprintf_int_def Let_def snprintf_out_within\<close>)
next
  case False
  then show ?thesis
    using assms by (auto simp: snprintf_int_def Let_def snprintf_out_within)
qed

lemma snprintf_conv_within:
  "written < lim \<Longrightarrow> snprintf_conv m str lim k args written = Some (r, args') \<Longrightarrow>
   within_buffer str lim m r"
  by (auto simp: snprintf_conv_def snprintf_out_within snprintf_int_within snprintf_str_within
        within_buffer_refl within_buffer_wr8 split: if_splits list.splits va_arg.splits)

lemma snprintf_loop_within:
  "written \<le> lim \<Longrightarrow> snprintf_loop m str lim fmt args written = Some r \<Longrightarrow>
   within_buffer str lim m r"
proof (induction m str lim fmt args written rule: snprintf_loop.induct)
  case (3 m str lim c k fs args written)
  show ?case
  proof (cases "written < lim \<and> c = CHR ''%''")
    case True
    with "3.prems" obtain m' w' args' where conv:
        "snprintf_conv m str lim k args written = Some ((m', w'), args')"
        "snprintf_loop m' str lim fs args' w' = Some r"
      by (auto split: option.splits)
    from True conv(1) have w: "within_buffer str lim m (m', w')"
      by (blast intro: snprintf_conv_within)
    then have "within_buffer str lim m' r"
      using True conv by (intro "3.IH"(1)) (auto simp: within_buffer_def)
    with w show ?thesis by (rule within_buffer_trans)
  next
    case False
    with "3.prems" "3.IH"(2) show ?thesis
      by (auto split: if_splits intro: within_buffer_refl within_buffer_upd [of written])
  qed
qed (auto intro: within_buffer_refl within_buffer_wr8 split: if_splits)

lemma snprintf_within:
  assumes "snprintf m str sz fmt args = Some (m', w)" and "str \<noteq> 0" and "sz \<noteq> 0"
  shows "w < sz" and "m' (str + w) = 0" and "a < str \<or> str + sz \<le> a \<Longrightarrow> m' a = m a"
proof -
  obtain m1 where "snprintf_loop m str (sz - 1) fmt args 0 = Some (m1, w)"
      and m': "m' = wr8 m1 (str + w) 0"
    using assms by (auto simp: snprintf_def split: option.splits if_splits)
  then have "within_buffer str (sz - 1) m (m1, w)"
    by (intro snprintf_loop_within [of 0]) auto
  with assms m' show "w < sz" and "m' (str + w) = 0"
    and "a < str \<or> str + sz \<le> a \<Longrightarrow> m' a = m a"
    by (auto simp: within_buffer_def)
qed

end
