(* ===== verification/KFS_Console.thy ===== *)
theory KFS_Console
  imports KFS_String
begin

text \<open>
  Port I/O (\<open>include/io.h\<close>), the VGA text driver (\<open>src/vga.c\<close>), \<open>printk\<close>
  (\<open>src/printf.c\<close>) and the message helpers of \<open>src/panic.c\<close>. The hardware the kernel talks to is
  a record: the port accesses made so far, the function that answers a port read (the devices,
  which are not part of the repository), the video memory and the driver's variables. The lemmas
  show that no output can leave the cursor off the screen or write outside the video memory, that
  the hardware cursor follows the driver, and that a printed number reads back as itself.
\<close>

section \<open>Ports and hardware\<close>

datatype io_event = Outb u16 u8 | Outw u16 u16 | Inb u16 | Inw u16

text \<open>
  \<open>hist\<close> holds the accesses, the latest first; \<open>dev\<close> is the answer of the devices to a read of
  a port, as a function of what has happened before. The video memory at \<open>0xB8000\<close> is device
  memory and is kept apart from \<open>memory\<close>: cell \<open>i\<close> is the \<open>uint16_t\<close> at \<open>0xB8000 + 2 * i\<close>.
\<close>

record hardware =
  hist :: "io_event list"
  dev :: "io_event list \<Rightarrow> u16 \<Rightarrow> u16"
  vram :: "u16 list"
  vga_row :: nat
  vga_column :: nat
  vga_color :: u8

text \<open>A machine at power-on whose devices answer every read with 0: an input for examples.\<close>

definition power_on :: hardware where
  "power_on = \<lparr>hist = [], dev = (\<lambda>_ _. 0), vram = replicate 2000 0, vga_row = 0, vga_column = 0,
     vga_color = 0\<rparr>"

definition outb :: "u16 \<Rightarrow> u8 \<Rightarrow> 'a hardware_scheme \<Rightarrow> 'a hardware_scheme" where
  "outb port value h = h\<lparr>hist := Outb port value # hist h\<rparr>"

definition outw :: "u16 \<Rightarrow> u16 \<Rightarrow> 'a hardware_scheme \<Rightarrow> 'a hardware_scheme" where
  "outw port value h = h\<lparr>hist := Outw port value # hist h\<rparr>"

definition inb :: "u16 \<Rightarrow> 'a hardware_scheme \<Rightarrow> u8 \<times> 'a hardware_scheme" where
  "inb port h = (ucast (dev h (hist h) port), h\<lparr>hist := Inb port # hist h\<rparr>)"

definition inw :: "u16 \<Rightarrow> 'a hardware_scheme \<Rightarrow> u16 \<times> 'a hardware_scheme" where
  "inw port h = (dev h (hist h) port, h\<lparr>hist := Inw port # hist h\<rparr>)"

section \<open>VGA text mode\<close>

abbreviation (input) VGA_WIDTH :: nat where "VGA_WIDTH \<equiv> 80"
abbreviation (input) VGA_HEIGHT :: nat where "VGA_HEIGHT \<equiv> 25"

abbreviation (input) VGA_COLOR_BLACK :: u8 where "VGA_COLOR_BLACK \<equiv> 0"
abbreviation (input) VGA_COLOR_BLUE :: u8 where "VGA_COLOR_BLUE \<equiv> 1"
abbreviation (input) VGA_COLOR_GREEN :: u8 where "VGA_COLOR_GREEN \<equiv> 2"
abbreviation (input) VGA_COLOR_RED :: u8 where "VGA_COLOR_RED \<equiv> 4"
abbreviation (input) VGA_COLOR_LIGHT_GREY :: u8 where "VGA_COLOR_LIGHT_GREY \<equiv> 7"
abbreviation (input) VGA_COLOR_LIGHT_CYAN :: u8 where "VGA_COLOR_LIGHT_CYAN \<equiv> 11"
abbreviation (input) VGA_COLOR_LIGHT_RED :: u8 where "VGA_COLOR_LIGHT_RED \<equiv> 12"
abbreviation (input) VGA_COLOR_LIGHT_BROWN :: u8 where "VGA_COLOR_LIGHT_BROWN \<equiv> 14"
abbreviation (input) VGA_COLOR_WHITE :: u8 where "VGA_COLOR_WHITE \<equiv> 15"

definition vga_entry_color :: "u8 \<Rightarrow> u8 \<Rightarrow> u8" where
  "vga_entry_color fg bg = fg OR push_bit 4 bg"

definition vga_entry :: "u8 \<Rightarrow> u8 \<Rightarrow> u16" where
  "vga_entry c color = ucast c OR push_bit 8 (ucast color)"

definition vga_set_color :: "u8 \<Rightarrow> u8 \<Rightarrow> 'a hardware_scheme \<Rightarrow> 'a hardware_scheme" where
  "vga_set_color fg bg h = h\<lparr>vga_color := vga_entry_color fg bg\<rparr>"

definition vga_putentryat ::
  "u8 \<Rightarrow> u8 \<Rightarrow> nat \<Rightarrow> nat \<Rightarrow> 'a hardware_scheme \<Rightarrow> 'a hardware_scheme" where
  "vga_putentryat c color x y h =
     h\<lparr>vram := (vram h)[y * VGA_WIDTH + x := vga_entry c color]\<rparr>"

definition vga_clear :: "'a hardware_scheme \<Rightarrow> 'a hardware_scheme" where
  "vga_clear h = h\<lparr>vram := replicate (VGA_HEIGHT * VGA_WIDTH) (vga_entry 32 (vga_color h)),
     vga_row := 0, vga_column := 0\<rparr>"

definition vga_scroll :: "'a hardware_scheme \<Rightarrow> 'a hardware_scheme" where
  "vga_scroll h = h\<lparr>vram := drop VGA_WIDTH (vram h)
     @ replicate VGA_WIDTH (vga_entry 32 (vga_color h))\<rparr>"

definition vga_update_cursor :: "'a hardware_scheme \<Rightarrow> 'a hardware_scheme" where
  "vga_update_cursor h =
     (let pos = (of_nat (vga_row h * VGA_WIDTH + vga_column h) :: u16)
      in outb 0x3D5 (ucast (drop_bit 8 pos AND 0xFF))
          (outb 0x3D4 0x0E (outb 0x3D5 (ucast (pos AND 0xFF)) (outb 0x3D4 0x0F h))))"

definition vga_enable_cursor :: "u8 \<Rightarrow> u8 \<Rightarrow> 'a hardware_scheme \<Rightarrow> 'a hardware_scheme" where
  "vga_enable_cursor cursor_start cursor_end h =
     (let h1 = outb 0x3D4 0x0A h;
          (v1, h2) = inb 0x3D5 h1;
          h3 = outb 0x3D4 0x0B (outb 0x3D5 ((v1 AND 0xC0) OR cursor_start) h2);
          (v2, h4) = inb 0x3D5 h3
      in outb 0x3D5 ((v2 AND 0xE0) OR cursor_end) h4)"

definition vga_disable_cursor :: "'a hardware_scheme \<Rightarrow> 'a hardware_scheme" where
  "vga_disable_cursor h = outb 0x3D5 0x20 (outb 0x3D4 0x0A h)"

definition vga_init :: "'a hardware_scheme \<Rightarrow> 'a hardware_scheme" where
  "vga_init h = vga_update_cursor (vga_enable_cursor 0 15
     (vga_clear (h\<lparr>vga_row := 0, vga_column := 0,
        vga_color := vga_entry_color VGA_COLOR_LIGHT_GREY VGA_COLOR_BLACK\<rparr>)))"

definition vga_put :: "u8 \<Rightarrow> 'a hardware_scheme \<Rightarrow> 'a hardware_scheme" where
  "vga_put c h =
     (if c = 10 then h\<lparr>vga_column := 0, vga_row := vga_row h + 1\<rparr>
      else if c = 13 then h\<lparr>vga_column := 0\<rparr>
      else if c = 9 then h\<lparr>vga_column := (vga_column h + 4) div 4 * 4\<rparr>
      else (vga_putentryat c (vga_color h) (vga_column h) (vga_row h) h)
             \<lparr>vga_column := vga_column h + 1\<rparr>)"

definition vga_wrap :: "'a hardware_scheme \<Rightarrow> 'a hardware_scheme" where
  "vga_wrap h = (if VGA_WIDTH \<le> vga_column h
     then h\<lparr>vga_column := 0, vga_row := vga_row h + 1\<rparr> else h)"

definition vga_roll :: "'a hardware_scheme \<Rightarrow> 'a hardware_scheme" where
  "vga_roll h = (if VGA_HEIGHT \<le> vga_row h
     then (vga_scroll h)\<lparr>vga_row := VGA_HEIGHT - 1\<rparr> else h)"

definition vga_putchar :: "u8 \<Rightarrow> 'a hardware_scheme \<Rightarrow> 'a hardware_scheme" where
  "vga_putchar c h = vga_update_cursor (vga_roll (vga_wrap (vga_put c h)))"

definition vga_print :: "string \<Rightarrow> 'a hardware_scheme \<Rightarrow> 'a hardware_scheme" where
  "vga_print str h = fold (\<lambda>c. vga_putchar (of_char c)) str h"

definition vga_set_cursor_position :: "nat \<Rightarrow> nat \<Rightarrow> 'a hardware_scheme \<Rightarrow> 'a hardware_scheme" where
  "vga_set_cursor_position row col h =
     (if row < VGA_HEIGHT \<and> col < VGA_WIDTH
      then vga_update_cursor (h\<lparr>vga_row := row, vga_column := col\<rparr>) else h)"

section \<open>printk\<close>

text \<open>
  The variadic arguments as they are read: a string (or the null pointer), a character, a signed
  or an unsigned number. \<open>printk\<close> emits its characters one by one and reads nothing back, so it is
  the text it produces followed by \<open>vga_print\<close> of that text. A format that asks for an argument
  that is not there is undefined behaviour (\<open>None\<close>), as is a lone percent sign at its end; no call
  in the kernel does either.
\<close>

datatype karg = KStr "string option" | KChar u8 | KInt int | KUInt u32

definition print_string_text :: "string option \<Rightarrow> string" where
  "print_string_text str = (case str of None \<Rightarrow> ''(null)'' | Some s \<Rightarrow> s)"

definition hex_digit :: "nat \<Rightarrow> char" where
  "hex_digit d = ''0123456789abcdef'' ! d"

fun print_uint_buffer :: "nat \<Rightarrow> nat \<Rightarrow> string" where
  "print_uint_buffer b n =
     (if n = 0 \<or> b < 2 then [] else hex_digit (n mod b) # print_uint_buffer b (n div b))"

definition print_uint_text :: "u32 \<Rightarrow> nat \<Rightarrow> string" where
  "print_uint_text num b =
     (if num = 0 then ''0'' else rev (print_uint_buffer b (unat num)))"

definition print_int_text :: "int \<Rightarrow> string" where
  "print_int_text num =
     (if num < 0 then CHR ''-'' # print_uint_text (word_of_int (i32 (- num))) 10
      else print_uint_text (word_of_int num) 10)"

definition printk_conv :: "char \<Rightarrow> karg list \<Rightarrow> (string \<times> karg list) option" where
  "printk_conv k args =
     (if k = CHR ''s'' then
        (case args of KStr s # as \<Rightarrow> Some (print_string_text s, as) | _ \<Rightarrow> None)
      else if k = CHR ''c'' then
        (case args of KChar c # as \<Rightarrow> Some ([char_of (unat c)], as) | _ \<Rightarrow> None)
      else if k = CHR ''d'' \<or> k = CHR ''i'' then
        (case args of KInt n # as \<Rightarrow> Some (print_int_text n, as) | _ \<Rightarrow> None)
      else if k = CHR ''u'' then
        (case args of KUInt n # as \<Rightarrow> Some (print_uint_text n 10, as) | _ \<Rightarrow> None)
      else if k = CHR ''x'' \<or> k = CHR ''X'' then
        (case args of KUInt n # as \<Rightarrow> Some (''0x'' @ print_uint_text n 16, as) | _ \<Rightarrow> None)
      else if k = CHR ''%'' then Some (''%'', args)
      else Some ([CHR ''%'', k], args))"

fun printk_text :: "string \<Rightarrow> karg list \<Rightarrow> string option" where
  "printk_text [] args = Some []"
| "printk_text [c] args = (if c = CHR ''%'' then None else Some [c])"
| "printk_text (c # k # fs) args =
     (if c = CHR ''%'' then
        (case printk_conv k args of
           None \<Rightarrow> None
         | Some (t, as) \<Rightarrow> map_option ((@) t) (printk_text fs as))
      else map_option ((#) c) (printk_text (k # fs) args))"

definition printk_hw :: "string \<Rightarrow> karg list \<Rightarrow> 'a hardware_scheme \<Rightarrow> 'a hardware_scheme" where
  "printk_hw fmt args h = (case printk_text fmt args of None \<Rightarrow> h | Some t \<Rightarrow> vga_print t h)"

declare print_uint_buffer.simps [simp del]

section \<open>The machine and its messages\<close>

text \<open>
  Every component's state extends this record; a component's operations are written for any
  extension, so that they apply unchanged to the states of the components above them.
\<close>

record machine =
  mem :: memory
  hw :: hardware

definition on_hw :: "(hardware \<Rightarrow> hardware) \<Rightarrow> 'a machine_scheme \<Rightarrow> 'a machine_scheme" where
  "on_hw f s = s\<lparr>hw := f (hw s)\<rparr>"

definition printk :: "string \<Rightarrow> karg list \<Rightarrow> 'a machine_scheme \<Rightarrow> 'a machine_scheme" where
  "printk fmt args = on_hw (printk_hw fmt args)"

definition kernel_warning :: "string \<Rightarrow> 'a machine_scheme \<Rightarrow> 'a machine_scheme" where
  "kernel_warning message = on_hw (\<lambda>h. vga_set_color VGA_COLOR_LIGHT_GREY VGA_COLOR_BLACK
     (printk_hw ''[WARNING] %s\<newline>'' [KStr (Some message)]
       (vga_set_color VGA_COLOR_LIGHT_BROWN VGA_COLOR_BLACK h)))"

definition kernel_info :: "string \<Rightarrow> 'a machine_scheme \<Rightarrow> 'a machine_scheme" where
  "kernel_info message = on_hw (\<lambda>h. vga_set_color VGA_COLOR_LIGHT_GREY VGA_COLOR_BLACK
     (printk_hw ''[INFO] %s\<newline>'' [KStr (Some message)]
       (vga_set_color VGA_COLOR_LIGHT_CYAN VGA_COLOR_BLACK h)))"

section \<open>Lemmas: the screen\<close>

definition vga_ok :: "'a hardware_scheme \<Rightarrow> bool" where
  "vga_ok h \<longleftrightarrow> length (vram h) = VGA_HEIGHT * VGA_WIDTH
     \<and> vga_row h < VGA_HEIGHT \<and> vga_column h < VGA_WIDTH"

text \<open>The port accesses of \<open>vga_update_cursor\<close> for a position, the latest first.\<close>

definition cursor_writes :: "nat \<Rightarrow> io_event list" where
  "cursor_writes pos = [Outb 0x3D5 (ucast (drop_bit 8 (of_nat pos :: u16) AND 0xFF)), Outb 0x3D4 0x0E,
     Outb 0x3D5 (ucast ((of_nat pos :: u16) AND 0xFF)), Outb 0x3D4 0x0F]"

lemma vga_update_cursor_eq:
  "vga_update_cursor h =
     h\<lparr>hist := cursor_writes (vga_row h * VGA_WIDTH + vga_column h) @ hist h\<rparr>"
  by (simp add: vga_update_cursor_def outb_def Let_def cursor_writes_def)

lemma vga_ok_update_cursor [simp]: "vga_ok (vga_update_cursor h) = vga_ok h"
  by (simp add: vga_update_cursor_eq vga_ok_def)

lemma vga_ok_set_color [simp]: "vga_ok (vga_set_color fg bg h) = vga_ok h"
  by (simp add: vga_set_color_def vga_ok_def)

lemma vga_put_bounds:
  assumes "vga_ok h"
  shows "length (vram (vga_put c h)) = VGA_HEIGHT * VGA_WIDTH"
    and "vga_row (vga_put c h) \<le> VGA_HEIGHT"
    and "vga_column (vga_put c h) \<le> VGA_WIDTH"
    and "vga_row (vga_put c h) = VGA_HEIGHT \<Longrightarrow> vga_column (vga_put c h) < VGA_WIDTH"
  using assms by (auto simp: vga_put_def vga_putentryat_def vga_ok_def)

lemma vga_putchar_ok: "vga_ok h \<Longrightarrow> vga_ok (vga_putchar c h)"
  using vga_put_bounds [of h c]
  by (auto simp: vga_putchar_def vga_roll_def vga_wrap_def vga_scroll_def vga_ok_def
        vga_update_cursor_eq)

lemma vga_print_ok: "vga_ok h \<Longrightarrow> vga_ok (vga_print t h)"
  unfolding vga_print_def by (induction t arbitrary: h) (auto simp: vga_putchar_ok)

lemma printk_hw_ok: "vga_ok h \<Longrightarrow> vga_ok (printk_hw fmt args h)"
  by (simp add: printk_hw_def vga_print_ok split: option.split)

lemma vga_clear_ok: "vga_ok (vga_clear h)"
  by (simp add: vga_clear_def vga_ok_def)

lemma vga_init_ok: "vga_ok (vga_init h)"
  by (simp add: vga_init_def vga_enable_cursor_def inb_def outb_def vga_clear_def vga_ok_def Let_def
      vga_update_cursor_eq)

lemma vga_set_cursor_position_ok: "vga_ok h \<Longrightarrow> vga_ok (vga_set_cursor_position row col h)"
  by (auto simp: vga_set_cursor_position_def vga_ok_def vga_update_cursor_eq)

lemmas vga_ok_intros = vga_putchar_ok vga_print_ok printk_hw_ok vga_clear_ok vga_init_ok
  vga_set_cursor_position_ok

lemma vga_putchar_cursor:
  "\<exists>old. hist (vga_putchar c h) =
     cursor_writes (vga_row (vga_putchar c h) * VGA_WIDTH + vga_column (vga_putchar c h)) @ old"
  by (auto simp: vga_putchar_def vga_update_cursor_eq)

text \<open>On a screen that is not about to scroll, a printed character is where the cursor was.\<close>

lemma vga_putchar_glyph:
  assumes "vga_ok h" and "c \<notin> {9, 10, 13}" and "vga_row h < VGA_HEIGHT - 1"
  shows "vram (vga_putchar c h) =
    (vram h)[vga_row h * VGA_WIDTH + vga_column h := vga_entry c (vga_color h)]"
  using assms
  by (auto simp: vga_putchar_def vga_update_cursor_eq vga_roll_def vga_wrap_def vga_put_def
        vga_putentryat_def vga_ok_def)

section \<open>Lemmas: numbers\<close>

text \<open>Reading a numeral back: the value of a text in a base.\<close>

definition digit_value :: "char \<Rightarrow> nat" where
  "digit_value c = (if of_char c < (58 :: nat) then of_char c - 48 else of_char c - 87)"

definition text_value :: "nat \<Rightarrow> string \<Rightarrow> nat" where
  "text_value b t = foldl (\<lambda>acc c. acc * b + digit_value c) 0 t"

lemma digit_value_hex_digit: "d < 16 \<Longrightarrow> digit_value (hex_digit d) = d"
proof -
  have "list_all (\<lambda>d. digit_value (hex_digit d) = d) [0..<16]" by code_simp
  then show "d < 16 \<Longrightarrow> digit_value (hex_digit d) = d" by (simp add: list_all_iff)
qed

lemma print_uint_buffer_value:
  "2 \<le> b \<Longrightarrow> b \<le> 16 \<Longrightarrow> text_value b (rev (print_uint_buffer b n)) = n"
proof (induction b n rule: print_uint_buffer.induct)
  case (1 b n)
  then show ?case
    by (auto simp: print_uint_buffer.simps [of b n] text_value_def digit_value_hex_digit
          less_le_trans [of "n mod b" b 16])
qed

lemma print_uint_value:
  "2 \<le> b \<Longrightarrow> b \<le> 16 \<Longrightarrow> text_value b (print_uint_text num b) = unat num"
  by (simp add: print_uint_text_def print_uint_buffer_value)
    (simp add: text_value_def digit_value_def)

section \<open>Lemmas: the machine\<close>

text \<open>A message is one update of the hardware field.\<close>

lemmas message_simps [simp] = printk_def kernel_warning_def kernel_info_def on_hw_def

end
