(* ===== verification/KFS_Allocator.thy ===== *)
theory KFS_Allocator
  imports KFS_Prelude
begin

text \<open>
  What the kernel's components rely on when they take memory from the heap: the locale
  \<open>allocator\<close>, and the lemmas on heap-allocated singly linked lists that the signal queues of
  \<open>src/process.c\<close> and the message queues of \<open>src/socket.c\<close> share. \<open>KFS_Kmalloc\<close> interprets the
  locale on \<open>kmalloc\<close> and \<open>kfree\<close>.
\<close>

section \<open>Live memory\<close>

text \<open>A set of live blocks is a set of addresses with lengths.\<close>

definition live_bytes :: "(nat \<times> nat) set \<Rightarrow> nat set" where
  "live_bytes L = (\<Union>(q, len) \<in> L. {q ..< q + len})"

lemma live_bytes_insert [simp]:
  "live_bytes (insert (q, len) L) = {q ..< q + len} \<union> live_bytes L"
  by (simp add: live_bytes_def)

lemma live_bytes_mono: "L \<subseteq> L' \<Longrightarrow> live_bytes L \<subseteq> live_bytes L'"
  by (auto simp: live_bytes_def)

lemma live_bytesI: "(q, len) \<in> L \<Longrightarrow> q \<le> x \<Longrightarrow> x < q + len \<Longrightarrow> x \<in> live_bytes L"
  unfolding live_bytes_def by (rule UN_I) auto

section \<open>Linked lists\<close>

text \<open>
  The nodes of a null-terminated list whose link field is at offset \<open>off\<close>, and the property that
  every node is a live block of at least \<open>n\<close> bytes.
\<close>

fun chain :: "memory \<Rightarrow> nat \<Rightarrow> u32 \<Rightarrow> u32 list \<Rightarrow> bool" where
  "chain m off p [] \<longleftrightarrow> p = 0"
| "chain m off p (q # qs) \<longleftrightarrow> p = q \<and> q \<noteq> 0 \<and> chain m off (rd32 m (unat q + off)) qs"

definition owned :: "(nat \<times> nat) set \<Rightarrow> nat \<Rightarrow> u32 list \<Rightarrow> bool" where
  "owned L n qs \<longleftrightarrow> distinct qs \<and> (\<forall>q \<in> set qs. \<exists>len \<ge> n. (unat q, len) \<in> L)"

lemma chain_cong:
  assumes "\<And>q. q \<in> set qs \<Longrightarrow> rd32 m' (unat q + off) = rd32 m (unat q + off)"
  shows "chain m' off p qs = chain m off p qs"
  using assms by (induction qs arbitrary: p) auto

lemma chain_nonnull: "chain m off p qs \<Longrightarrow> q \<in> set qs \<Longrightarrow> q \<noteq> 0"
  by (induction qs arbitrary: p) auto

lemma chain_unique: "chain m off p qs \<Longrightarrow> chain m off p qs' \<Longrightarrow> qs = qs'"
proof (induction qs arbitrary: p qs')
  case Nil
  then show ?case by (cases qs') auto
next
  case (Cons q qs)
  then show ?case by (cases qs') auto
qed

lemma chain_frame:
  assumes "\<And>x. x \<in> live_bytes L \<Longrightarrow> m' x = m x" "owned L n qs" "off + 4 \<le> n"
  shows "chain m' off p qs = chain m off p qs"
proof (rule chain_cong, rule rd32_cong)
  fix r i assume "r \<in> set qs" "i < (4::nat)"
  with assms(2,3) obtain len where "(unat r, len) \<in> L" "off + 4 \<le> len"
    by (auto simp: owned_def)
  with \<open>i < 4\<close> have "unat r + off + i \<in> live_bytes L" by (auto intro: live_bytesI)
  then show "m' (unat r + off + i) = m (unat r + off + i)" by (rule assms(1))
qed

lemma owned_mono: "owned L n qs \<Longrightarrow> L \<subseteq> L' \<Longrightarrow> owned L' n qs"
  by (fastforce simp: owned_def)

section \<open>The interface\<close>

text \<open>
  \<open>rep s L\<close>: the heap of \<open>s\<close> is sound and its live blocks are \<open>L\<close>; \<open>ext\<close> are the addresses the
  heap does not manage. The request bound keeps the size with its rounding and header below
  \<open>2^32\<close>.
\<close>

locale allocator =
  fixes alloc :: "u32 \<Rightarrow> 's \<Rightarrow> (u32 \<times> 's) kresult"
    and free :: "u32 \<Rightarrow> 's \<Rightarrow> 's kresult"
    and rep :: "'s \<Rightarrow> (nat \<times> nat) set \<Rightarrow> bool"
    and bytes :: "'s \<Rightarrow> memory"
    and put :: "memory \<Rightarrow> 's \<Rightarrow> 's"
    and ext :: "nat set"
  assumes alloc_law: "rep s L \<Longrightarrow> n \<noteq> 0 \<Longrightarrow> unat n + 19 < 2 ^ 32 \<Longrightarrow>
      \<exists>p s'. alloc n s = kret (p, s') \<and>
        (if p = 0 then rep s' L \<and> bytes s' = bytes s
         else \<exists>len \<ge> unat n. rep s' (insert (unat p, len) L)
           \<and> {unat p ..< unat p + len} \<inter> (live_bytes L \<union> ext) = {}
           \<and> (\<forall>x \<in> live_bytes L \<union> ext. bytes s' x = bytes s x))"
    and free_law: "rep s L \<Longrightarrow> (unat p, len) \<in> L \<Longrightarrow>
      \<exists>s'. free p s = kret s' \<and> rep s' (L - {(unat p, len)})
        \<and> (\<forall>x \<in> live_bytes L \<union> ext. bytes s' x = bytes s x)"
    and put_law: "rep s L \<Longrightarrow> (\<And>x. x \<notin> live_bytes L \<union> ext \<Longrightarrow> m x = bytes s x) \<Longrightarrow> rep (put m s) L"
    and bytes_put: "bytes (put m s) = m"
    and rep_block: "rep s L \<Longrightarrow> (q, len) \<in> L \<Longrightarrow> 0 < q \<and> q + len < 2 ^ 32"
    and rep_disjoint: "rep s L \<Longrightarrow> (q, l) \<in> L \<Longrightarrow> (q', l') \<in> L \<Longrightarrow> (q, l) \<noteq> (q', l') \<Longrightarrow>
      {q ..< q + l} \<inter> {q' ..< q' + l'} = {}"
begin

lemma new_not_old:
  assumes "{unat p ..< unat p + len} \<inter> (live_bytes L \<union> ext) = {}" "0 < n" "n \<le> len" "owned L n qs"
  shows "p \<notin> set qs"
proof
  assume "p \<in> set qs"
  with assms(4) obtain l where "(unat p, l) \<in> L" "n \<le> l" by (auto simp: owned_def)
  with assms(2) have "unat p \<in> live_bytes L" by (auto intro: live_bytesI)
  moreover have "unat p \<in> {unat p ..< unat p + len}" using assms(2,3) by simp
  ultimately show False using assms(1) by blast
qed

text \<open>
  Taking a node from the heap and linking it: the writes stay inside the new block, so every list
  that was there is still there, and the new node can be put in front of one of them.
\<close>

lemma alloc_node:
  assumes rep: "rep s L" and n: "n \<noteq> 0" "unat n + 19 < 2 ^ 32"
    and al: "alloc n s = kret (p, s')" and p: "p \<noteq> 0"
  obtains len where "unat n \<le> len" "rep s' (insert (unat p, len) L)"
    "\<And>qs k. owned L k qs \<Longrightarrow> 0 < k \<Longrightarrow> k \<le> unat n \<Longrightarrow> p \<notin> set qs \<and> owned (insert (unat p, len) L) k qs"
    "\<And>m. (\<And>x. x < unat p \<or> unat p + unat n \<le> x \<Longrightarrow> m x = bytes s' x) \<Longrightarrow>
       rep (put m s') (insert (unat p, len) L) \<and> (\<forall>x \<in> live_bytes L \<union> ext. m x = bytes s x)"
proof -
  from alloc_law [OF rep n] al p obtain len where len: "unat n \<le> len"
      "rep s' (insert (unat p, len) L)" "{unat p ..< unat p + len} \<inter> (live_bytes L \<union> ext) = {}"
      "\<forall>x \<in> live_bytes L \<union> ext. bytes s' x = bytes s x"
    by auto
  have own: "p \<notin> set qs \<and> owned (insert (unat p, len) L) k qs"
    if "owned L k qs" "0 < k" "k \<le> unat n" for qs k
    using new_not_old [OF len(3) that(2) _ that(1)] len(1) that owned_mono [OF that(1), of "insert (unat p, len) L"]
    by auto
  have wr: "rep (put m s') (insert (unat p, len) L) \<and> (\<forall>x \<in> live_bytes L \<union> ext. m x = bytes s x)"
    if m: "\<And>x. x < unat p \<or> unat p + unat n \<le> x \<Longrightarrow> m x = bytes s' x" for m
  proof
    show "rep (put m s') (insert (unat p, len) L)"
      using len(1) by (intro put_law [OF len(2)] m) auto
    show "\<forall>x \<in> live_bytes L \<union> ext. m x = bytes s x"
    proof
      fix x assume x: "x \<in> live_bytes L \<union> ext"
      with len(3) have "x \<notin> {unat p ..< unat p + len}" by blast
      with len(1) have "x < unat p \<or> unat p + unat n \<le> x" by auto
      with m len(4) x show "m x = bytes s x" by auto
    qed
  qed
  from that [OF len(1,2) own wr] show thesis by blast
qed

text \<open>Taking the first node off a list and freeing it.\<close>

lemma free_node:
  assumes rep: "rep s L" and ch: "chain (bytes s) off p (p # qs)" and own: "owned L n (p # qs)"
    and off: "off + 4 \<le> n"
  obtains s' L' where "free p s = kret s'" "rep s' L'" "L' \<subseteq> L" "owned L' n qs"
    "chain (bytes s') off (rd32 (bytes s) (unat p + off)) qs"
    "\<And>x. x \<in> live_bytes L \<union> ext \<Longrightarrow> bytes s' x = bytes s x"
    "\<And>rs. owned L n rs \<Longrightarrow> p \<notin> set rs \<Longrightarrow> owned L' n rs"
    "\<exists>len \<ge> n. (unat p, len) \<in> L \<and> L' = L - {(unat p, len)}"
proof -
  from own obtain len where len: "n \<le> len" "(unat p, len) \<in> L" by (auto simp: owned_def)
  from free_law [OF rep len(2)] obtain s' where s': "free p s = kret s'"
      "rep s' (L - {(unat p, len)})" "\<forall>x \<in> live_bytes L \<union> ext. bytes s' x = bytes s x" by auto
  have keep: "owned (L - {(unat p, len)}) n rs" if "owned L n rs" "p \<notin> set rs" for rs
  proof -
    have "unat r \<noteq> unat p" if "r \<in> set rs" for r
      using that \<open>p \<notin> set rs\<close> word_of_nat_unat by metis
    with \<open>owned L n rs\<close> show ?thesis by (fastforce simp: owned_def)
  qed
  moreover from own have "owned L n qs" "p \<notin> set qs" by (auto simp: owned_def)
  moreover have "chain (bytes s') off (rd32 (bytes s) (unat p + off)) qs"
    using ch s'(3) chain_frame [of L "bytes s'" "bytes s" n qs off] \<open>owned L n qs\<close> off by auto
  ultimately show thesis using that [OF s'(1,2)] s'(3) len by blast
qed

text \<open>Two nodes of lists do not overlap; a node can be linked behind the last one.\<close>

lemma node_disjoint:
  assumes "rep s L" "(unat p, lp) \<in> L" "(unat q, lq) \<in> L" "n \<le> lp" "n \<le> lq" "p \<noteq> q"
  shows "unat p + n \<le> unat q \<or> unat q + n \<le> unat p"
proof (rule ccontr)
  assume not: "\<not> ?thesis"
  have "(unat p, lp) \<noteq> (unat q, lq)" using assms(6) word_of_nat_unat by (metis prod.inject)
  from rep_disjoint [OF assms(1-3) this] have disj: "{unat p ..< unat p + lp} \<inter> {unat q ..< unat q + lq} = {}" .
  show False
  proof (cases "unat p \<le> unat q")
    case True
    then have "unat q \<in> {unat p ..< unat p + lp} \<inter> {unat q ..< unat q + lq}" using not assms(4,5) by auto
    with disj show False by blast
  next
    case False
    then have "unat p \<in> {unat p ..< unat p + lp} \<inter> {unat q ..< unat q + lq}" using not assms(4,5) by auto
    with disj show False by blast
  qed
qed

lemma owned_disjoint:
  assumes "rep s L" "owned L n qs" "p \<in> set qs" "q \<in> set qs" "p \<noteq> q"
  shows "unat p + n \<le> unat q \<or> unat q + n \<le> unat p"
proof -
  from assms(2-4) obtain lp lq where "(unat p, lp) \<in> L" "n \<le> lp" "(unat q, lq) \<in> L" "n \<le> lq"
    unfolding owned_def by meson
  with node_disjoint [OF assms(1) _ _ _ _ assms(5)] show ?thesis by blast
qed

lemma chain_snoc:
  assumes "rep s L" "owned L n (qs @ [e])" "off + 4 \<le> n"
    and "chain m off p qs" "qs \<noteq> []" "e \<noteq> 0" "rd32 m (unat e + off) = 0"
  shows "chain (wr32 m (unat (last qs) + off) e) off p (qs @ [e])"
  using assms(2,4,5)
proof (induction qs arbitrary: p)
  case (Cons q qs)
  let ?m = "wr32 m (unat (last (q # qs)) + off) e"
  have neq: "rd32 ?m (unat r + off) = rd32 m (unat r + off)"
    if "r \<in> set (q # qs @ [e])" "r \<noteq> last (q # qs)" for r
  proof -
    have "last (q # qs) \<in> set (q # qs @ [e])" using last_in_set [of "q # qs"] by auto
    with owned_disjoint [OF assms(1) _ that(1) this that(2)] Cons.prems(1)
    have "unat r + n \<le> unat (last (q # qs)) \<or> unat (last (q # qs)) + n \<le> unat r" by simp
    with assms(3) show ?thesis by (intro rd32_wr32_other) linarith
  qed
  show ?case
  proof (cases "qs = []")
    case True
    then have "e \<noteq> q" using Cons.prems(1) by (auto simp: owned_def)
    with True neq [of e] Cons.prems(2) assms(6,7) show ?thesis by simp
  next
    case False
    have own: "owned L n (qs @ [e])" using Cons.prems(1) by (auto simp: owned_def)
    have "q \<noteq> last (q # qs)"
      using False Cons.prems(1) last_in_set [of qs] by (auto simp: owned_def)
    with neq [of q] have "rd32 ?m (unat q + off) = rd32 m (unat q + off)" by simp
    with Cons.IH [OF own _ False, of "rd32 m (unat q + off)"] Cons.prems(2) False show ?thesis by simp
  qed
qed simp

end

end
