(* ===== verification/KFS_Kmalloc.thy ===== *)
theory KFS_Kmalloc
  imports KFS_Console KFS_Allocator
begin

text \<open>
  The kernel heap \<open>src/kmalloc.c\<close>: one megabyte at \<open>0x00500000\<close> cut into blocks, each with
  a 16-byte header in memory (\<open>mem_block_t\<close>: size, free flag, next block, magic number). The
  operations read and write those headers in physical memory, so a stray pointer, a block freed
  twice or a corrupted list behaves in the model as it does in the machine.

  The abstract allocator is a list of block sizes and free flags. The lemmas show that the blocks
  always tile the heap, that \<open>kmalloc\<close> and \<open>kfree\<close> refine first-fit allocation and coalescing on
  the list, that allocated blocks never overlap and keep their contents, and the locale
  \<open>allocator\<close> states what the components above rely on.
\<close>

section \<open>Headers in memory\<close>

abbreviation (input) HEAP_START :: nat where "HEAP_START \<equiv> 0x00500000"
abbreviation (input) HEAP_SIZE :: nat where "HEAP_SIZE \<equiv> 0x00100000"
abbreviation (input) HEAP_END :: nat where "HEAP_END \<equiv> 0x00600000"
abbreviation (input) BLOCK_MAGIC :: u32 where "BLOCK_MAGIC \<equiv> 0xDEADBEEF"
abbreviation (input) BLOCK_HEADER_SIZE :: u32 where "BLOCK_HEADER_SIZE \<equiv> 16"

definition blk_size :: "memory \<Rightarrow> u32 \<Rightarrow> u32" where
  "blk_size m p = rd32 m (unat p)"

definition blk_is_free :: "memory \<Rightarrow> u32 \<Rightarrow> bool" where
  "blk_is_free m p \<longleftrightarrow> m (unat p + 4) \<noteq> 0"

definition blk_next :: "memory \<Rightarrow> u32 \<Rightarrow> u32" where
  "blk_next m p = rd32 m (unat p + 8)"

definition blk_magic :: "memory \<Rightarrow> u32 \<Rightarrow> u32" where
  "blk_magic m p = rd32 m (unat p + 12)"

definition set_size :: "memory \<Rightarrow> u32 \<Rightarrow> u32 \<Rightarrow> memory" where
  "set_size m p v = wr32 m (unat p) v"

definition set_is_free :: "memory \<Rightarrow> u32 \<Rightarrow> bool \<Rightarrow> memory" where
  "set_is_free m p b = wr8 m (unat p + 4) (if b then 1 else 0)"

definition set_next :: "memory \<Rightarrow> u32 \<Rightarrow> u32 \<Rightarrow> memory" where
  "set_next m p v = wr32 m (unat p + 8) v"

definition set_magic :: "memory \<Rightarrow> u32 \<Rightarrow> u32 \<Rightarrow> memory" where
  "set_magic m p v = wr32 m (unat p + 12) v"

section \<open>The allocator\<close>

record kheap = machine +
  heap_start :: u32
  heap_initialized :: bool
  total_allocated :: u32
  total_freed :: u32
  num_allocations :: u32

text \<open>The statics of the file before anything runs, on given hardware.\<close>

definition kheap_boot :: "hardware \<Rightarrow> kheap" where
  "kheap_boot h = \<lparr>mem = (\<lambda>_. 0), hw = h, heap_start = 0, heap_initialized = False,
     total_allocated = 0, total_freed = 0, num_allocations = 0\<rparr>"

definition kmalloc_init :: "'a kheap_scheme \<Rightarrow> 'a kheap_scheme" where
  "kmalloc_init s =
     (if heap_initialized s then s
      else let p = (of_nat HEAP_START :: u32);
               m = set_magic (set_next (set_is_free (set_size (mem s) p (of_nat HEAP_SIZE)) p True)
                     p 0) p BLOCK_MAGIC
           in printk ''  Heap size:  %d KB\<newline>'' [KInt (int (HEAP_SIZE div 1024))]
               (printk ''  Heap start: 0x%x\<newline>'' [KUInt p]
                 (kernel_info ''Kernel heap initialized''
                   (s\<lparr>mem := m, heap_start := p, heap_initialized := True\<rparr>))))"

partial_function (option) find_free_block :: "memory \<Rightarrow> u32 \<Rightarrow> u32 \<Rightarrow> u32 option" where
  "find_free_block m current sz =
     (if current \<noteq> 0 then
        (if blk_is_free m current \<and> sz \<le> blk_size m current then Some current
         else find_free_block m (blk_next m current) sz)
      else Some 0)"

definition split_block :: "memory \<Rightarrow> u32 \<Rightarrow> u32 \<Rightarrow> memory" where
  "split_block m block sz =
     (if sz + BLOCK_HEADER_SIZE + 16 \<le> blk_size m block then
        let new_block = block + sz;
            m1 = set_size m new_block (blk_size m block - sz);
            m2 = set_is_free m1 new_block True;
            m3 = set_next m2 new_block (blk_next m2 block);
            m4 = set_magic m3 new_block BLOCK_MAGIC;
            m5 = set_size m4 block sz
        in set_next m5 block new_block
      else m)"

partial_function (option) merge_free_blocks :: "memory \<Rightarrow> u32 \<Rightarrow> memory option" where
  "merge_free_blocks m current =
     (if current \<noteq> 0 \<and> blk_next m current \<noteq> 0 then
        (if blk_is_free m current \<and> blk_is_free m (blk_next m current) then
           let m1 = set_size m current (blk_size m current + blk_size m (blk_next m current));
               m2 = set_next m1 current (blk_next m1 (blk_next m1 current))
           in merge_free_blocks m2 current
         else merge_free_blocks m (blk_next m current))
      else Some m)"

definition kmalloc :: "u32 \<Rightarrow> 'a kheap_scheme \<Rightarrow> (u32 \<times> 'a kheap_scheme) kresult" where
  "kmalloc sz s0 =
     (let s = kmalloc_init s0 in
      if sz = 0 then kret (0, s)
      else
        let sz' = (sz + 3) AND NOT 3;
            total_size = sz' + BLOCK_HEADER_SIZE
        in kbind (klift (find_free_block (mem s) (heap_start s) total_size)) (\<lambda>block.
             if block = 0 then kret (0, kernel_warning ''kmalloc: Out of memory'' s)
             else
               let m = set_is_free (split_block (mem s) block total_size) block False
               in kret (block + BLOCK_HEADER_SIZE,
                    s\<lparr>mem := m, total_allocated := total_allocated s + sz',
                      num_allocations := num_allocations s + 1\<rparr>)))"

definition kmalloc_aligned ::
  "u32 \<Rightarrow> u32 \<Rightarrow> 'a kheap_scheme \<Rightarrow> (u32 \<times> 'a kheap_scheme) kresult" where
  "kmalloc_aligned sz align s =
     kbind (kmalloc (sz + align) s) (\<lambda>(ptr, s').
       if ptr = 0 then kret (0, s')
       else kret ((ptr + align - 1) AND NOT (align - 1), s'))"

definition kfree :: "u32 \<Rightarrow> 'a kheap_scheme \<Rightarrow> 'a kheap_scheme kresult" where
  "kfree ptr s =
     (if ptr = 0 then kret s
      else
        let block = ptr - BLOCK_HEADER_SIZE in
        if blk_magic (mem s) block \<noteq> BLOCK_MAGIC
        then kernel_panic ''kfree: Invalid pointer or corrupted heap''
        else if blk_is_free (mem s) block
        then kret (kernel_warning ''kfree: Double free detected'' s)
        else
          let m = set_is_free (mem s) block True
          in kbind (klift (merge_free_blocks m (heap_start s))) (\<lambda>m'.
               kret (s\<lparr>mem := m',
                 total_freed := total_freed s + (blk_size m block - BLOCK_HEADER_SIZE)\<rparr>)))"

definition ksize :: "u32 \<Rightarrow> 'a kheap_scheme \<Rightarrow> u32" where
  "ksize ptr s =
     (if ptr = 0 then 0
      else
        let block = ptr - BLOCK_HEADER_SIZE in
        if blk_magic (mem s) block \<noteq> BLOCK_MAGIC then 0
        else blk_size (mem s) block - BLOCK_HEADER_SIZE)"

partial_function (option) count_free ::
  "memory \<Rightarrow> u32 \<Rightarrow> int \<Rightarrow> u32 \<Rightarrow> (int \<times> u32) option" where
  "count_free m current free_blocks free_memory =
     (if current \<noteq> 0 then
        (if blk_is_free m current
         then count_free m (blk_next m current) (i32 (free_blocks + 1))
                (free_memory + (blk_size m current - BLOCK_HEADER_SIZE))
         else count_free m (blk_next m current) free_blocks free_memory)
      else Some (free_blocks, free_memory))"

definition kmalloc_stats :: "'a kheap_scheme \<Rightarrow> 'a kheap_scheme kresult" where
  "kmalloc_stats s0 =
     (let s = printk ''Allocations:      %d\<newline>'' [KInt (sint (num_allocations s0))]
          (printk ''Currently used:   %d bytes\<newline>'' [KInt (sint (total_allocated s0 - total_freed s0))]
          (printk ''Total freed:      %d bytes\<newline>'' [KInt (sint (total_freed s0))]
          (printk ''Total allocated:  %d bytes\<newline>'' [KInt (sint (total_allocated s0))]
          (printk ''Heap size:        %d KB\<newline>'' [KInt (int (HEAP_SIZE div 1024))]
          (printk ''Heap start:       0x%x\<newline>'' [KUInt (of_nat HEAP_START)]
          (printk ''\<newline>=== Kernel Heap Statistics ===\<newline>'' [] s0))))))
      in kbind (klift (count_free (mem s) (heap_start s) 0 0)) (\<lambda>(free_blocks, free_memory).
           kret (printk ''\<newline>'' []
             (printk ''Free memory:      %d bytes\<newline>'' [KInt (sint free_memory)]
             (printk ''Free blocks:      %d\<newline>'' [KInt free_blocks] s)))))"

section \<open>The abstract heap\<close>

text \<open>A heap is the list of its blocks, in address order: size with header, and whether free.\<close>

type_synonym blocks = "(nat \<times> bool) list"

text \<open>A block header at address \<open>a\<close>. The last block of the heap has a null \<open>next\<close>.\<close>

definition hdr :: "memory \<Rightarrow> nat \<Rightarrow> nat \<Rightarrow> bool \<Rightarrow> bool" where
  "hdr m a sz fr \<longleftrightarrow> rd32 m a = of_nat sz \<and> (m (a + 4) \<noteq> 0) = fr
     \<and> rd32 m (a + 8) = (if a + sz = HEAP_END then 0 else of_nat (a + sz))
     \<and> rd32 m (a + 12) = BLOCK_MAGIC \<and> 16 \<le> sz"

fun seg :: "memory \<Rightarrow> nat \<Rightarrow> blocks \<Rightarrow> nat \<Rightarrow> bool" where
  "seg m a [] b = (a = b)"
| "seg m a ((sz, fr) # bs) b = (hdr m a sz fr \<and> seg m (a + sz) bs b)"

definition heap_abs :: "'a kheap_scheme \<Rightarrow> blocks \<Rightarrow> bool" where
  "heap_abs s bs \<longleftrightarrow> heap_initialized s \<and> heap_start s = of_nat HEAP_START
     \<and> seg (mem s) HEAP_START bs HEAP_END \<and> (\<forall>(sz, fr) \<in> set bs. 4 dvd sz)"

text \<open>First-fit allocation of \<open>n\<close> bytes, header included, from a heap that starts at \<open>a\<close>.\<close>

fun amalloc :: "nat \<Rightarrow> nat \<Rightarrow> blocks \<Rightarrow> (nat \<times> blocks) option" where
  "amalloc n a [] = None"
| "amalloc n a ((sz, fr) # bs) =
     (if fr \<and> n \<le> sz
      then Some (a, if n + 32 \<le> sz then (n, False) # (sz - n, True) # bs else (sz, False) # bs)
      else map_option (\<lambda>(p, bs'). (p, (sz, fr) # bs')) (amalloc n (a + sz) bs))"

fun amark :: "nat \<Rightarrow> nat \<Rightarrow> blocks \<Rightarrow> blocks" where
  "amark q a [] = []"
| "amark q a ((sz, fr) # bs) =
     (if a = q then (sz, True) # bs else (sz, fr) # amark q (a + sz) bs)"

fun amerge :: "blocks \<Rightarrow> blocks" where
  "amerge ((s1, True) # (s2, True) # bs) = amerge ((s1 + s2, True) # bs)"
| "amerge (b # bs) = b # amerge bs"
| "amerge [] = []"

lemmas amerge_induct = amerge.induct [case_names join used last before_used empty]

definition afree :: "nat \<Rightarrow> nat \<Rightarrow> blocks \<Rightarrow> blocks" where
  "afree q a bs = amerge (amark q a bs)"

text \<open>No two neighbours are free.\<close>

fun coalesced :: "blocks \<Rightarrow> bool" where
  "coalesced ((s1, f1) # (s2, f2) # bs) \<longleftrightarrow> \<not> (f1 \<and> f2) \<and> coalesced ((s2, f2) # bs)"
| "coalesced _ \<longleftrightarrow> True"

text \<open>The payloads of the allocated blocks: start address and length.\<close>

fun payloads :: "nat \<Rightarrow> blocks \<Rightarrow> (nat \<times> nat) list" where
  "payloads a [] = []"
| "payloads a ((sz, fr) # bs) =
     (if fr then payloads (a + sz) bs else (a + 16, sz - 16) # payloads (a + sz) bs)"

text \<open>The bytes \<open>kmalloc\<close> takes for a request, header included.\<close>

definition request :: "u32 \<Rightarrow> nat" where
  "request sz = (unat sz + 3) div 4 * 4 + 16"

section \<open>Lemmas: blocks in memory\<close>

abbreviation sizes :: "blocks \<Rightarrow> nat" where
  "sizes bs \<equiv> sum_list (map fst bs)"

text \<open>The C pointer to the block at an address: null at the end of the heap.\<close>

definition hp :: "nat \<Rightarrow> u32" where
  "hp a = (if a = HEAP_END then 0 else of_nat a)"

lemma unat_of_nat_heap [simp]: "a \<le> HEAP_END \<Longrightarrow> unat (of_nat a :: u32) = a"
  by (simp add: unsigned_of_nat take_bit_nat_eq_self)

lemma of_nat_heap_neq_0 [simp]: "0 < a \<Longrightarrow> a \<le> HEAP_END \<Longrightarrow> (of_nat a :: u32) \<noteq> 0"
  by (metis unat_of_nat_heap unat_0 less_irrefl)

lemma of_nat_heap_le [simp]:
  "b \<le> HEAP_END \<Longrightarrow> (x :: u32) \<le> of_nat b \<longleftrightarrow> unat x \<le> b"
  by (simp add: word_le_nat_alt)

lemmas blk_defs = blk_size_def blk_is_free_def blk_next_def blk_magic_def
  set_size_def set_is_free_def set_next_def set_magic_def

lemma seg_end: "seg m a bs b \<Longrightarrow> b = a + sizes bs"
  by (induction bs arbitrary: a) fastforce+

lemma seg_append:
  "seg m a (xs @ ys) b \<longleftrightarrow> seg m a xs (a + sizes xs) \<and> seg m (a + sizes xs) ys b"
  by (induction xs arbitrary: a) (auto simp: add.assoc)

lemma hdr_cong:
  assumes "\<And>i. i < 16 \<Longrightarrow> m (a + i) = m' (a + i)"
  shows "hdr m a sz fr = hdr m' a sz fr"
proof -
  have "rd32 m (a + k) = rd32 m' (a + k)" if "k \<le> 12" for k
    using that assms [of "k + i" for i] by (intro rd32_cong) (simp add: add.assoc)
  from this [of 0] this [of 8] this [of 12] assms [of 4] show ?thesis
    by (simp add: hdr_def)
qed

lemma seg_cong:
  "seg m a bs b \<Longrightarrow> (\<And>x. a \<le> x \<Longrightarrow> x < b \<Longrightarrow> m' x = m x) \<Longrightarrow> seg m' a bs b"
proof (induction bs arbitrary: a)
  case (Cons blk bs)
  obtain sz fr where blk: "blk = (sz, fr)" by force
  with Cons.prems(1) have h: "hdr m a sz fr" "seg m (a + sz) bs b" "16 \<le> sz"
    by (auto simp: hdr_def)
  from seg_end [OF h(2)] have "a + sz \<le> b" by simp
  with h Cons.prems(2) have "hdr m' a sz fr"
    by (subst hdr_cong [where m' = m]) auto
  with h Cons.prems(2) blk show ?case by (auto intro: Cons.IH)
qed simp

lemma find_free_block_seg:
  "seg m a bs HEAP_END \<Longrightarrow> 0 < a \<Longrightarrow> find_free_block m (hp a) n =
     Some (case amalloc (unat n) a bs of None \<Rightarrow> 0 | Some (p, bs') \<Rightarrow> of_nat p)"
proof (induction bs arbitrary: a)
  case Nil
  then show ?case by (simp add: hp_def find_free_block.simps)
next
  case (Cons blk bs)
  obtain sz fr where blk: "blk = (sz, fr)" by force
  with Cons.prems have h: "hdr m a sz fr" "seg m (a + sz) bs HEAP_END" by auto
  from seg_end [OF h(2)] have le: "a + sz \<le> HEAP_END" by simp
  with h(1) have "hp a = of_nat a" and lt: "a < HEAP_END" and sz: "16 \<le> sz"
    by (auto simp: hp_def hdr_def)
  moreover have "blk_size m (of_nat a) = of_nat sz" "blk_is_free m (of_nat a) = fr"
      "blk_next m (of_nat a) = hp (a + sz)"
    using h(1) lt by (auto simp: hdr_def blk_defs hp_def)
  moreover have "find_free_block m (hp (a + sz)) n =
      Some (case amalloc (unat n) (a + sz) bs of None \<Rightarrow> 0 | Some (p, bs') \<Rightarrow> of_nat p)"
    using Cons.IH [OF h(2)] Cons.prems(2) by simp
  ultimately show ?case
    using Cons.prems(2) le lt
    by (subst find_free_block.simps) (auto simp: blk split: option.split)
qed

lemma amallocE:
  assumes "amalloc n a bs = Some (p, bs')"
  obtains xs sz ys where "bs = xs @ (sz, True) # ys" "p = a + sizes xs" "n \<le> sz"
    "bs' = xs @ (if n + 32 \<le> sz then [(n, False), (sz - n, True)] else [(sz, False)]) @ ys"
  using assms
proof (induction n a bs arbitrary: bs' thesis rule: amalloc.induct)
  case (2 n a sz fr bs)
  show ?case
  proof (cases "fr \<and> n \<le> sz")
    case True
    with 2(3) show ?thesis by (intro 2(2) [of "[]" sz bs]) (auto split: if_splits)
  next
    case False
    with 2(3) obtain bs'' where r: "amalloc n (a + sz) bs = Some (p, bs'')" "bs' = (sz, fr) # bs''"
      by auto
    from 2(1) [OF False _ r(1)] obtain xs z ys where "bs = xs @ (z, True) # ys"
        "p = a + sz + sizes xs" "n \<le> z"
        "bs'' = xs @ (if n + 32 \<le> z then [(n, False), (z - n, True)] else [(z, False)]) @ ys"
      by blast
    with r(2) show ?thesis by (intro 2(2) [of "(sz, fr) # xs" z ys]) auto
  qed
qed simp

text \<open>Splitting and taking a free block changes its own bytes only.\<close>

lemma split_block_seg:
  assumes h: "hdr m a sz True" and a: "0 < a" "a + sz \<le> HEAP_END" and n: "16 \<le> n" "n \<le> sz"
  defines "m' \<equiv> set_is_free (split_block m (of_nat a) (of_nat n)) (of_nat a) False"
  shows "seg m' a (if n + 32 \<le> sz then [(n, False), (sz - n, True)] else [(sz, False)]) (a + sz)"
    and "x < a \<or> a + sz \<le> x \<Longrightarrow> m' x = m x"
proof -
  have w: "unat (of_nat a :: u32) = a" "unat (of_nat n :: u32) = n" "unat (of_nat sz :: u32) = sz"
      "unat (of_nat a + of_nat n :: u32) = a + n"
    using a n by (simp_all add: unat_add_u32)
  have guard: "(of_nat n + 16 + 16 :: u32) \<le> of_nat sz \<longleftrightarrow> n + 32 \<le> sz"
    using a n by (simp add: word_le_nat_alt unat_add_u32) arith
  from h have hd: "rd32 m a = of_nat sz" "m (a + 4) \<noteq> 0"
      "rd32 m (a + 8) = (if a + sz = HEAP_END then 0 else of_nat (a + sz))"
      "rd32 m (a + 12) = 0xDEADBEEF"
    by (auto simp: hdr_def)
  have diff: "(of_nat sz - of_nat n :: u32) = of_nat (sz - n)"
    using n by (simp add: of_nat_diff)
  show "seg m' a (if n + 32 \<le> sz then [(n, False), (sz - n, True)] else [(sz, False)]) (a + sz)"
    using w guard hd n a diff
    by (auto simp: m'_def split_block_def Let_def blk_defs mem_simps hdr_def)
  show "x < a \<or> a + sz \<le> x \<Longrightarrow> m' x = m x"
    using w guard hd n
    by (auto simp: m'_def split_block_def Let_def blk_defs mem_simps)
qed

lemma seg_split:
  assumes "seg m a (xs @ b # ys) e"
  shows "seg m a xs (a + sizes xs)" "hdr m (a + sizes xs) (fst b) (snd b)"
    "seg m (a + sizes xs + fst b) ys e" "a + sizes xs + fst b \<le> e"
  using assms by (cases b, auto simp: seg_append dest: seg_end)+

lemma seg_replace:
  assumes s: "seg m a (xs @ (sz, fr) # ys) e"
    and new: "seg m' (a + sizes xs) zs (a + sizes xs + sz)"
    and frame: "\<And>x. x < a + sizes xs \<or> a + sizes xs + sz \<le> x \<Longrightarrow> m' x = m x"
  shows "seg m' a (xs @ zs @ ys) e"
proof -
  note sp = seg_split [OF s, simplified]
  have "seg m' a xs (a + sizes xs)"
    by (rule seg_cong [OF sp(1)]) (simp add: frame)
  moreover have "seg m' (a + sizes xs + sz) ys e"
    by (rule seg_cong [OF sp(3)]) (simp add: frame)
  moreover have "sizes zs = sz" using seg_end [OF new] by simp
  ultimately show ?thesis using new by (simp add: seg_append add.assoc)
qed

text \<open>The bytes outside a block's header may change freely: programs write their payloads.\<close>

fun headers :: "nat \<Rightarrow> blocks \<Rightarrow> nat set" where
  "headers a [] = {}"
| "headers a ((sz, fr) # bs) = {a ..< a + 16} \<union> headers (a + sz) bs"

text \<open>The size and link fields of the headers: the only bytes that merging writes.\<close>

fun links :: "nat \<Rightarrow> blocks \<Rightarrow> nat set" where
  "links a [] = {}"
| "links a ((sz, fr) # bs) = {a ..< a + 4} \<union> {a + 8 ..< a + 12} \<union> links (a + sz) bs"

lemma links_headers: "links a bs \<subseteq> headers a bs"
  by (induction bs arbitrary: a) fastforce+

lemma links_append: "links a (xs @ ys) = links a xs \<union> links (a + sizes xs) ys"
  by (induction xs arbitrary: a) (auto simp: add.assoc)

lemma headers_append: "headers a (xs @ ys) = headers a xs \<union> headers (a + sizes xs) ys"
  by (induction xs arbitrary: a) (auto simp: add.assoc)

lemma headers_ge: "x \<in> headers a bs \<Longrightarrow> a \<le> x"
  by (induction bs arbitrary: a) fastforce+

lemma seg_payload_write:
  "seg m a bs e \<Longrightarrow> (\<And>x. x \<in> headers a bs \<Longrightarrow> m' x = m x) \<Longrightarrow> seg m' a bs e"
proof (induction bs arbitrary: a)
  case (Cons blk bs)
  obtain sz fr where blk: "blk = (sz, fr)" by force
  with Cons.prems have "hdr m' a sz fr"
    by (subst hdr_cong [where m' = m]) auto
  with Cons blk show ?case by auto
qed simp

section \<open>Lemmas: freeing\<close>

lemma amerge_sizes: "sizes (amerge bs) = sizes bs"
  by (induction bs rule: amerge_induct) auto

lemma amerge_head: "\<exists>s' bs'. amerge ((s, f) # bs) = (s', f) # bs'"
proof (induction "(s, f) # bs" arbitrary: s bs rule: amerge_induct)
qed auto

lemma coalesced_Cons:
  "coalesced ((s, f) # bs) \<longleftrightarrow> coalesced bs \<and> (f \<longrightarrow> bs = [] \<or> \<not> snd (hd bs))"
  by (cases bs) auto

lemma coalesced_amerge: "coalesced (amerge bs)"
proof (induction bs rule: amerge_induct)
  case (before_used b v bs)
  then show ?case
    using amerge_head [of v False bs] by (cases b) (auto simp: coalesced_Cons)
qed (auto simp: coalesced_Cons)

lemma amerge_coalesced: "coalesced bs \<Longrightarrow> amerge bs = bs"
  by (induction bs rule: amerge_induct) (auto simp: coalesced_Cons)

lemma hdr_read:
  assumes "hdr m a sz fr" "a + sz \<le> HEAP_END"
  shows "blk_size m (of_nat a) = of_nat sz" "blk_is_free m (of_nat a) = fr"
    "blk_next m (of_nat a) = hp (a + sz)" "blk_magic m (of_nat a) = BLOCK_MAGIC"
    "hp a = of_nat a" "16 \<le> sz"
  using assms by (auto simp: hdr_def blk_defs hp_def)

lemma merge_free_blocks_skip:
  assumes h: "hdr m a sz fr" and s: "seg m (a + sz) bs HEAP_END" and a: "0 < a"
    and skip: "fr \<longrightarrow> bs = [] \<or> \<not> snd (hd bs)"
  shows "merge_free_blocks m (hp a) = merge_free_blocks m (hp (a + sz))"
proof -
  from seg_end [OF s] have le: "a + sz \<le> HEAP_END" by simp
  note rd = hdr_read [OF h le]
  show ?thesis
  proof (cases bs)
    case Nil
    with s have "hp (a + sz) = 0" by (simp add: hp_def)
    with rd a le show ?thesis
      by (simp add: merge_free_blocks.simps [of _ "of_nat a"] merge_free_blocks.simps [of _ 0])
  next
    case (Cons b bs')
    obtain s2 f2 where b: "b = (s2, f2)" by force
    from s Cons b have h2: "hdr m (a + sz) s2 f2" "seg m (a + sz + s2) bs' HEAP_END" by auto
    from seg_end [OF h2(2)] have le2: "a + sz + s2 \<le> HEAP_END" by simp
    note rd2 = hdr_read [OF h2(1) le2]
    from rd2 le2 a have "hp (a + sz) \<noteq> 0" by (simp add: hp_def del: of_nat_add)
    with rd rd2 a le skip Cons b show ?thesis
      by (subst merge_free_blocks.simps) auto
  qed
qed

lemma merge_free_blocks_join:
  assumes s: "seg m a ((s1, True) # (s2, True) # bs) HEAP_END" and a: "0 < a"
  obtains m1 where "merge_free_blocks m (hp a) = merge_free_blocks m1 (hp a)"
    "seg m1 a ((s1 + s2, True) # bs) HEAP_END" "\<And>x. x \<notin> {a ..< a + 4} \<union> {a + 8 ..< a + 12} \<Longrightarrow> m1 x = m x"
proof -
  from s have h1: "hdr m a s1 True" and h2: "hdr m (a + s1) s2 True"
    and tl: "seg m (a + s1 + s2) bs HEAP_END" by auto
  from seg_end [OF tl] have le: "a + s1 + s2 \<le> HEAP_END" by simp
  note rd1 = hdr_read [OF h1] and rd2 = hdr_read [OF h2 le]
  define m1 where "m1 = set_next (set_size m (of_nat a) (of_nat s1 + of_nat s2)) (of_nat a)
    (hp (a + s1 + s2))"
  have next2: "blk_next (set_size m (of_nat a) (of_nat s1 + of_nat s2)) (of_nat (a + s1)) =
      hp (a + s1 + s2)"
    "blk_next (set_size m (of_nat a) (of_nat s1 + of_nat s2)) (of_nat a) = of_nat (a + s1)"
    using rd1 rd2 le unfolding blk_defs by (simp_all add: mem_simps del: of_nat_add)
  have frame: "m1 x = m x" if "x \<notin> {a ..< a + 4} \<union> {a + 8 ..< a + 12}" for x
    using that le rd1 unfolding m1_def blk_defs by (auto simp: mem_simps)
  have "hdr m1 a (s1 + s2) True"
    using h1 le rd1 unfolding m1_def blk_defs
    by (auto simp: mem_simps hdr_def hp_def add.assoc)
  moreover have "seg m1 (a + s1 + s2) bs HEAP_END"
    using rd1 rd2 le by (intro seg_cong [OF tl]) (auto intro!: frame)
  ultimately have "seg m1 a ((s1 + s2, True) # bs) HEAP_END" by (simp add: add.assoc)
  moreover have "merge_free_blocks m (hp a) = merge_free_blocks m1 (hp a)"
    using rd1 rd2 le a next2
    by (subst merge_free_blocks.simps) (simp add: m1_def hp_def Let_def del: of_nat_add)
  ultimately show thesis using frame that by blast
qed

text \<open>One statement for every block that stays: its successors are merged, it is not.\<close>

lemma merge_free_blocks_keep:
  assumes s: "seg m a ((sz, fr) # bs) HEAP_END" and a: "0 < a"
    and IH: "\<And>m a. seg m a bs HEAP_END \<Longrightarrow> 0 < a \<Longrightarrow>
      \<exists>m'. merge_free_blocks m (hp a) = Some m' \<and> seg m' a (amerge bs) HEAP_END
        \<and> (\<forall>x. x \<notin> links a bs \<longrightarrow> m' x = m x)"
    and skip: "fr \<longrightarrow> bs = [] \<or> \<not> snd (hd bs)"
  shows "\<exists>m'. merge_free_blocks m (hp a) = Some m' \<and> seg m' a ((sz, fr) # amerge bs) HEAP_END
       \<and> (\<forall>x. x \<notin> links a ((sz, fr) # bs) \<longrightarrow> m' x = m x)"
proof -
  from s have h: "hdr m a sz fr" and tl: "seg m (a + sz) bs HEAP_END" by auto
  from IH [OF tl] a obtain m' where m':
    "merge_free_blocks m (hp (a + sz)) = Some m'" "seg m' (a + sz) (amerge bs) HEAP_END"
    "\<forall>x. x \<notin> links (a + sz) bs \<longrightarrow> m' x = m x" by auto
  from h have "16 \<le> sz" by (simp add: hdr_def)
  with m'(3) links_headers headers_ge have "\<And>i. i < 16 \<Longrightarrow> m' (a + i) = m (a + i)"
    by (metis add_less_cancel_left leD less_le_trans subsetD)
  with h have "hdr m' a sz fr" by (subst hdr_cong [where m' = m]) auto
  with m' merge_free_blocks_skip [OF h tl a skip] show ?thesis by auto
qed

lemma merge_free_blocks_seg:
  "seg m a bs HEAP_END \<Longrightarrow> 0 < a \<Longrightarrow>
     \<exists>m'. merge_free_blocks m (hp a) = Some m' \<and> seg m' a (amerge bs) HEAP_END
       \<and> (\<forall>x. x \<notin> links a bs \<longrightarrow> m' x = m x)"
proof (induction bs arbitrary: m a rule: amerge_induct)
  case (join s1 s2 bs)
  from merge_free_blocks_join [OF join(2,3)] obtain m1 where m1:
    "merge_free_blocks m (hp a) = merge_free_blocks m1 (hp a)"
    "seg m1 a ((s1 + s2, True) # bs) HEAP_END" "\<And>x. x \<notin> {a ..< a + 4} \<union> {a + 8 ..< a + 12} \<Longrightarrow> m1 x = m x" by blast
  from join(1) [OF m1(2) join(3)] m1 show ?case by (auto simp: add.assoc)
next
  case (used s1 bs)
  then show ?case using merge_free_blocks_keep [OF _ _ used.IH, of m a s1 False] by simp
next
  case (last b)
  then show ?case using merge_free_blocks_keep [OF _ _ last.IH, of m a "fst b" "snd b"]
    by (cases b) simp
next
  case (before_used b v bs)
  then show ?case
    using merge_free_blocks_keep [OF _ _ before_used.IH, of m a "fst b" "snd b"]
    by (cases b) simp
qed (simp add: hp_def merge_free_blocks.simps)

section \<open>Lemmas: the abstract allocator\<close>

lemma payloads_append: "payloads a (xs @ ys) = payloads a xs @ payloads (a + sizes xs) ys"
  by (induction xs arbitrary: a) (auto simp: add.assoc)

lemma payloads_bound:
  assumes "(q, len) \<in> set (payloads a bs)" "\<And>b. b \<in> set bs \<Longrightarrow> 16 \<le> fst b"
  shows "a + 16 \<le> q \<and> q + len \<le> a + sizes bs"
  using assms by (induction bs arbitrary: a) (fastforce split: if_splits)+

lemma payloads_member:
  assumes "(q, len) \<in> set (payloads a bs)" "\<And>b. b \<in> set bs \<Longrightarrow> 16 \<le> fst b"
  obtains xs ys where "bs = xs @ (len + 16, False) # ys" "q = a + sizes xs + 16"
  using assms
proof (induction bs arbitrary: a thesis)
  case (Cons b bs)
  obtain sz fr where b: "b = (sz, fr)" by force
  with Cons.prems(3) have "16 \<le> sz" by fastforce
  show ?case
  proof (cases "(q, len) \<in> set (payloads (a + sz) bs)")
    case True
    obtain xs ys where "bs = xs @ (len + 16, False) # ys" "q = a + sz + sizes xs + 16"
      using Cons.IH [OF _ True] Cons.prems(3) by auto
    with b show ?thesis by (intro Cons.prems(1) [of "b # xs" ys]) auto
  next
    case False
    with Cons.prems(2) b \<open>16 \<le> sz\<close> show ?thesis
      by (intro Cons.prems(1) [of "[]" bs]) (auto split: if_splits)
  qed
qed simp

lemma amark_append:
  assumes "\<And>b. b \<in> set xs \<Longrightarrow> 0 < fst b"
  shows "amark (a + sizes xs) a (xs @ (sz, fr) # ys) = xs @ (sz, True) # ys"
  using assms
proof (induction xs arbitrary: a)
  case (Cons b xs)
  then have "0 < fst b" by simp
  moreover have "amark (a + (fst b + sizes xs)) (a + fst b) (xs @ (sz, fr) # ys) = xs @ (sz, True) # ys"
    using Cons by (simp add: add.assoc [symmetric])
  ultimately show ?case by (cases b) simp
qed simp

lemma payloads_amerge: "payloads a (amerge bs) = payloads a bs"
proof (induction bs arbitrary: a rule: amerge_induct)
  case (before_used b v bs)
  then show ?case by (cases b) (simp del: amerge.simps(2) amerge.simps(3))
qed (auto simp: add.assoc)

lemma coalesced_append:
  "coalesced (xs @ ys) \<longleftrightarrow> coalesced xs \<and> coalesced ys
     \<and> (xs \<noteq> [] \<and> ys \<noteq> [] \<longrightarrow> \<not> (snd (last xs) \<and> snd (hd ys)))"
  by (induction xs) (auto simp: coalesced_Cons neq_Nil_conv)

lemma amerge_append_coalesced:
  "coalesced (xs @ [y]) \<Longrightarrow> amerge (xs @ y # ys) = xs @ amerge (y # ys)"
proof (induction xs)
  case (Cons x xs)
  then show ?case
    by (cases x; cases "xs @ [y]"; cases "xs @ y # ys"; cases xs) (auto simp: coalesced_Cons)
qed simp

text \<open>Freeing the block just allocated from a coalesced heap gives the heap back.\<close>

lemma afree_amalloc:
  assumes "amalloc n a bs = Some (p, bs')" "coalesced bs" "\<And>b. b \<in> set bs \<Longrightarrow> 0 < fst b"
  shows "afree p a bs' = bs"
  using assms(1)
proof (rule amallocE)
  fix xs sz ys
  assume bs: "bs = xs @ (sz, True) # ys" and p: "p = a + sizes xs" and "n \<le> sz"
    and bs': "bs' = xs @ (if n + 32 \<le> sz then [(n, False), (sz - n, True)] else [(sz, False)]) @ ys"
  from assms(2) bs have "coalesced (xs @ [(sz, True)])" "coalesced ((sz, True) # ys)"
    by (auto simp: coalesced_append)
  then have "amerge (xs @ (sz, True) # ys) = bs"
    by (simp add: amerge_append_coalesced amerge_coalesced bs)
  moreover from \<open>coalesced (xs @ [(sz, True)])\<close>
  have "coalesced (xs @ [(n, True)])" by (auto simp: coalesced_append)
  then have "amerge (xs @ (n, True) # (sz - n, True) # ys) = bs" if "n \<le> sz"
    using that \<open>coalesced ((sz, True) # ys)\<close>
    by (simp add: amerge_append_coalesced amerge_coalesced bs)
  moreover have "amark p a (xs @ (z, False) # zs) = xs @ (z, True) # zs" for z zs
    using assms(3) unfolding p bs by (intro amark_append) auto
  ultimately show ?thesis using bs' \<open>n \<le> sz\<close> by (simp add: afree_def)
qed

lemma amalloc_None: "amalloc n a bs = None \<longleftrightarrow> (\<forall>sz. (sz, True) \<in> set bs \<longrightarrow> sz < n)"
  by (induction n a bs rule: amalloc.induct) (auto simp: not_le)

lemma coalesced_amalloc:
  assumes "amalloc n a bs = Some (p, bs')" "coalesced bs"
  shows "coalesced bs'"
  using assms(1)
proof (rule amallocE)
  fix xs sz ys
  assume "bs = xs @ (sz, True) # ys"
    and "bs' = xs @ (if n + 32 \<le> sz then [(n, False), (sz - n, True)] else [(sz, False)]) @ ys"
  with assms(2) show ?thesis by (auto simp: coalesced_append coalesced_Cons)
qed

lemma coalesced_afree: "coalesced (afree q a bs)"
  by (simp add: afree_def coalesced_amerge)

section \<open>Lemmas: the heap in memory\<close>

abbreviation live :: "blocks \<Rightarrow> (nat \<times> nat) set" where
  "live bs \<equiv> set (payloads HEAP_START bs)"

text \<open>The addresses outside the heap.\<close>

definition unmanaged :: "nat set" where
  "unmanaged = {x. x < HEAP_START \<or> HEAP_END \<le> x}"

lemma seg_sizes: "seg m a bs e \<Longrightarrow> b \<in> set bs \<Longrightarrow> 16 \<le> fst b"
  by (induction bs arbitrary: a) (auto simp: hdr_def)

lemma unat_request:
  "unat sz + 19 < 2 ^ 32 \<Longrightarrow> unat (((sz + 3) AND NOT 3) + 16 :: u32) = request sz"
proof -
  assume *: "unat sz + 19 < 2 ^ 32"
  have "(3 :: u32) = mask 2" by (simp add: mask_eq_exp_minus_1)
  then have "unat ((sz + 3) AND NOT 3) = unat (sz + 3) div 4 * 4"
    by (simp only: unat_and_not_mask) simp
  with * show ?thesis by (simp add: unat_add_u32 request_def)
qed

lemma request_bounds: "unat sz + 16 \<le> request sz" "4 dvd request sz"
  by (auto simp: request_def)

lemma headers_live:
  assumes "\<And>b. b \<in> set bs \<Longrightarrow> 16 \<le> fst b"
  shows "x \<in> headers a bs \<Longrightarrow> (q, len) \<in> set (payloads a bs) \<Longrightarrow> x \<notin> {q ..< q + len}"
  using assms
proof (induction bs arbitrary: a)
  case (Cons b bs)
  obtain sz fr where b: "b = (sz, fr)" by force
  with Cons.prems(3) have sz: "16 \<le> sz" "\<And>b. b \<in> set bs \<Longrightarrow> 16 \<le> fst b" by fastforce+
  have hd: "a + sz \<le> x" if "x \<in> headers (a + sz) bs" using headers_ge [OF that] .
  have pl: "a + sz \<le> q" if "(q, len) \<in> set (payloads (a + sz) bs)"
    using payloads_bound [OF that sz(2)] by simp
  from Cons.prems(1,2) b consider
      "x \<in> {a ..< a + 16}" "(q, len) \<in> set (payloads (a + sz) bs)"
    | "x \<in> {a ..< a + 16}" "q = a + 16"
    | "x \<in> headers (a + sz) bs" "(q, len) \<in> set (payloads (a + sz) bs)"
    | "x \<in> headers (a + sz) bs" "q + len = a + sz"
    using sz(1) by (auto split: if_splits)
  then show ?case
  proof cases
    case 3
    with Cons.IH sz(2) show ?thesis by blast
  qed (use sz(1) hd pl in auto)
qed simp

lemma kmalloc_ready: "heap_initialized s \<Longrightarrow> kmalloc_init s = s"
  by (simp add: kmalloc_init_def)

lemma heap_abs_update:
  "heap_abs (s\<lparr>mem := m, total_allocated := x, num_allocations := y\<rparr>) bs = heap_abs (s\<lparr>mem := m\<rparr>) bs"
  "heap_abs (s\<lparr>mem := m, total_freed := z\<rparr>) bs = heap_abs (s\<lparr>mem := m\<rparr>) bs"
  by (simp_all add: heap_abs_def)

lemma heap_abs_hw [simp]: "heap_abs (s\<lparr>hw := h\<rparr>) bs = heap_abs s bs"
  by (simp add: heap_abs_def)

lemma heap_absD:
  assumes "heap_abs s bs"
  shows "heap_initialized s" "heap_start s = hp HEAP_START" "seg (mem s) HEAP_START bs HEAP_END"
    "b \<in> set bs \<Longrightarrow> 4 dvd fst b" "b \<in> set bs \<Longrightarrow> 16 \<le> fst b" "sizes bs = HEAP_SIZE"
  using assms seg_sizes [of "mem s" HEAP_START bs HEAP_END b]
    seg_end [of "mem s" HEAP_START bs HEAP_END]
  by (auto simp: heap_abs_def hp_def)

lemma kmalloc_init_abs:
  "\<not> heap_initialized s \<Longrightarrow> heap_abs (kmalloc_init s) [(HEAP_SIZE, True)]"
  by (simp add: kmalloc_init_def heap_abs_def Let_def hdr_def blk_defs mem_simps)

lemma kmalloc_step:
  assumes abs: "heap_abs s bs" and sz: "sz \<noteq> 0" "unat sz + 19 < 2 ^ 32"
  shows "case amalloc (request sz) HEAP_START bs of
      None \<Rightarrow> kmalloc sz s = kret (0, kernel_warning ''kmalloc: Out of memory'' s)
    | Some (p, bs') \<Rightarrow> \<exists>m'. kmalloc sz s = kret (of_nat (p + 16),
          s\<lparr>mem := m', total_allocated := total_allocated s + ((sz + 3) AND NOT 3),
            num_allocations := num_allocations s + 1\<rparr>)
        \<and> heap_abs (s\<lparr>mem := m'\<rparr>) bs' \<and> (\<forall>x \<in> live_bytes (live bs) \<union> unmanaged. m' x = mem s x)"
proof -
  note h = heap_absD [OF abs]
  note find = find_free_block_seg [OF h(3), of "((sz + 3) AND NOT 3) + 16", unfolded unat_request [OF sz(2)]]
  show ?thesis
  proof (cases "amalloc (request sz) HEAP_START bs")
    case None
    with find h sz show ?thesis by (simp add: kmalloc_def kmalloc_ready Let_def)
  next
    case (Some r)
    obtain p bs' where r: "r = (p, bs')" by force
    from Some r obtain xs z ys where bs: "bs = xs @ (z, True) # ys" and p: "p = HEAP_START + sizes xs"
      and z: "request sz \<le> z" and bs': "bs' = xs @ (if request sz + 32 \<le> z
        then [(request sz, False), (z - request sz, True)] else [(z, False)]) @ ys"
      by (auto elim: amallocE)
    note sp = seg_split [OF h(3) [unfolded bs], simplified]
    define w where "w = ((sz + 3) AND NOT 3) + 16"
    have w: "w = of_nat (request sz)"
      unfolding w_def by (metis sz(2) unat_request word_of_nat_unat)
    define m' where "m' = set_is_free (split_block (mem s) (of_nat p) w) (of_nat p) False"
    have rq: "16 \<le> request sz" using request_bounds(1) [of sz] by simp
    note new = split_block_seg [OF sp(2) _ _ rq z, folded w, folded p, folded m'_def]
    have pne: "(of_nat p :: u32) \<noteq> 0" using sp(4) p by (intro of_nat_heap_neq_0) auto
    have "kmalloc sz s = kret (of_nat (p + 16), s\<lparr>mem := m',
        total_allocated := total_allocated s + ((sz + 3) AND NOT 3),
        num_allocations := num_allocations s + 1\<rparr>)"
      using find h(1,2) sz(1) Some r pne unfolding kmalloc_def
      by (simp add: kmalloc_ready Let_def m'_def w_def)
    moreover have "heap_abs (s\<lparr>mem := m'\<rparr>) bs'"
    proof -
      have "seg m' HEAP_START bs' HEAP_END"
        using new sp(4) p unfolding bs' by (intro seg_replace [OF h(3) [unfolded bs]]) auto
      moreover have "4 dvd z" "\<forall>b \<in> set bs. 4 dvd fst b" using h(4) bs by fastforce+
      ultimately show ?thesis
        using abs request_bounds(2) [of sz] unfolding heap_abs_def bs bs' by auto
    qed
    moreover have "\<forall>x \<in> live_bytes (live bs) \<union> unmanaged. m' x = mem s x"
    proof
      fix x assume x: "x \<in> live_bytes (live bs) \<union> unmanaged"
      have "x < p \<or> p + z \<le> x" if "(q, len) \<in> live bs" "x \<in> {q ..< q + len}" for q len
        using that h(5) payloads_bound [of q len HEAP_START xs] payloads_bound [of q len "p + z" ys]
        by (fastforce simp: bs payloads_append p)
      with x sp(4) have "x < p \<or> p + z \<le> x"
        by (auto simp: live_bytes_def unmanaged_def p)
      then show "m' x = mem s x" using new(2) sp(4) p by auto
    qed
    ultimately show ?thesis using Some r by auto
  qed
qed

lemma amerge_dvd: "\<forall>b \<in> set bs. k dvd fst b \<Longrightarrow> \<forall>b \<in> set (amerge bs). k dvd fst b"
  by (induction bs rule: amerge_induct) auto

lemma live_afree:
  assumes "(q, len) \<in> live bs" "\<And>b. b \<in> set bs \<Longrightarrow> 16 \<le> fst b"
  shows "live (afree (q - 16) HEAP_START bs) = live bs - {(q, len)}"
  using assms
proof (rule payloads_member)
  fix xs ys assume bs: "bs = xs @ (len + 16, False) # ys" and q: "q = HEAP_START + sizes xs + 16"
  have sz: "\<And>b. b \<in> set xs \<Longrightarrow> 16 \<le> fst b" "\<And>b. b \<in> set ys \<Longrightarrow> 16 \<le> fst b"
    using assms(2) bs by auto
  have "(q, len) \<notin> set (payloads HEAP_START xs)" "(q, len) \<notin> set (payloads (q + len) ys)"
    using payloads_bound [of q len HEAP_START xs] payloads_bound [of q len "q + len" ys] sz q by force+
  moreover have "amark (q - 16) HEAP_START bs = xs @ (len + 16, True) # ys"
    using sz q amark_append [of xs HEAP_START "len + 16" False ys] by (fastforce simp: bs)
  ultimately show ?thesis
    by (simp add: afree_def payloads_amerge payloads_append bs q add.commute add.left_commute)
qed

lemma live_block:
  assumes "heap_abs s bs" "(q, len) \<in> live bs"
  obtains xs ys b where "bs = xs @ (len + 16, False) # ys" "b = HEAP_START + sizes xs" "q = b + 16"
    "hdr (mem s) b (len + 16) False" "b + (len + 16) \<le> HEAP_END"
    "amark b HEAP_START bs = xs @ (len + 16, True) # ys"
proof -
  note h = heap_absD [OF assms(1)]
  from payloads_member [OF assms(2) h(5)] obtain xs ys
    where bs: "bs = xs @ (len + 16, False) # ys" and q: "q = HEAP_START + sizes xs + 16" by blast
  have "amark (HEAP_START + sizes xs) HEAP_START bs = xs @ (len + 16, True) # ys"
    using q amark_append [of xs HEAP_START "len + 16" False ys] h(5) bs by fastforce
  with that [OF bs refl q] seg_split [OF h(3) [unfolded bs]] show thesis by auto
qed

lemma links_bound:
  "x \<in> links a bs \<Longrightarrow> (\<And>b. b \<in> set bs \<Longrightarrow> 16 \<le> fst b) \<Longrightarrow> x < a + sizes bs"
  by (induction bs arbitrary: a) fastforce+

lemma hdr_set_is_free:
  assumes "hdr m a sz fr" "a + sz \<le> HEAP_END"
  shows "hdr (set_is_free m (of_nat a) f) a sz f"
    "x < a \<or> a + sz \<le> x \<Longrightarrow> set_is_free m (of_nat a) f x = m x"
    "x < a \<or> a + 16 \<le> x \<Longrightarrow> set_is_free m (of_nat a) f x = m x"
  using assms by (auto simp: blk_defs hdr_def mem_simps)

lemma kfree_step:
  assumes abs: "heap_abs s bs" and live: "(q, len) \<in> live bs"
  obtains m' where "kfree (of_nat q) s = kret (s\<lparr>mem := m', total_freed := total_freed s + of_nat len\<rparr>)"
    "heap_abs (s\<lparr>mem := m'\<rparr>) (afree (q - 16) HEAP_START bs)"
    "\<And>x. x \<notin> headers HEAP_START bs \<Longrightarrow> m' x = mem s x"
    "blk_magic m' (of_nat (q - 16)) = BLOCK_MAGIC" "blk_is_free m' (of_nat (q - 16))"
proof -
  note h = heap_absD [OF abs]
  from live_block [OF abs live] obtain xs ys b
    where bs: "bs = xs @ (len + 16, False) # ys" and b: "b = HEAP_START + sizes xs"
    and q: "q = b + 16" and hd: "hdr (mem s) b (len + 16) False" "b + (len + 16) \<le> HEAP_END"
    and mark: "amark b HEAP_START bs = xs @ (len + 16, True) # ys" by blast
  define m1 where "m1 = set_is_free (mem s) (of_nat b) True"
  note m1 = hdr_set_is_free [OF hd, where f = True, folded m1_def]
  have "seg m1 HEAP_START (xs @ [(len + 16, True)] @ ys) HEAP_END"
    using m1 b by (intro seg_replace [OF h(3) [unfolded bs]]) auto
  from merge_free_blocks_seg [OF this] obtain m' where m':
    "merge_free_blocks m1 (hp HEAP_START) = Some m'"
    "seg m' HEAP_START (amerge (xs @ (len + 16, True) # ys)) HEAP_END"
    "\<forall>x. x \<notin> links HEAP_START (xs @ (len + 16, True) # ys) \<longrightarrow> m' x = m1 x" by auto
  have rd: "blk_magic (mem s) (of_nat b) = BLOCK_MAGIC" "\<not> blk_is_free (mem s) (of_nat b)"
      "blk_size m1 (of_nat b) = of_nat (len + 16)"
    using hdr_read [OF hd] hdr_read [OF m1(1) hd(2)] by auto
  have "(of_nat q :: u32) \<noteq> 0" using hd(2) q by (intro of_nat_heap_neq_0) auto
  with rd m' h(2) have "kfree (of_nat q) s =
      kret (s\<lparr>mem := m', total_freed := total_freed s + of_nat len\<rparr>)"
    by (simp add: kfree_def q Let_def m1_def)
  moreover have "\<forall>c \<in> set (xs @ (len + 16, True) # ys). 4 dvd fst c"
    using h(4) bs by fastforce
  from amerge_dvd [OF this] have "heap_abs (s\<lparr>mem := m'\<rparr>) (afree (q - 16) HEAP_START bs)"
    using m'(2) h(1,2) mark
    by (simp add: heap_abs_def afree_def q hp_def case_prod_beta)
  moreover have "m' x = mem s x" if "x \<notin> headers HEAP_START bs" for x
  proof -
    from that links_headers have "x \<notin> links HEAP_START (xs @ (len + 16, True) # ys)"
      by (auto simp: bs links_append headers_append)
    moreover from that have "x < b \<or> b + 16 \<le> x" by (auto simp: bs headers_append b)
    ultimately show ?thesis using m'(3) m1(3) by simp
  qed
  moreover have "m' (b + i) = m1 (b + i)" if "i \<in> {4 ..< 8} \<union> {12 ..< 16}" for i
  proof -
    have "b + i \<notin> links HEAP_START (xs @ (len + 16, True) # ys)"
      using that b h(5) links_bound [of "b + i" HEAP_START xs]
        headers_ge [of "b + i" "b + (len + 16)" ys] links_headers [of "b + (len + 16)" ys]
      by (fastforce simp: links_append bs)
    with m'(3) show ?thesis by blast
  qed
  then have "m' (b + 4) = m1 (b + 4)" "rd32 m' (b + 12) = rd32 m1 (b + 12)"
    by (auto intro!: rd32_cong simp: add.assoc)
  then have "blk_magic m' (of_nat b) = BLOCK_MAGIC" "blk_is_free m' (of_nat b)"
    using m1(1) hd(2) by (auto simp: hdr_def blk_defs)
  ultimately show thesis using that [of m'] q by simp
qed

lemma payloads_disjoint:
  assumes "(q, l) \<in> set (payloads a bs)" "(q', l') \<in> set (payloads a bs)" "(q, l) \<noteq> (q', l')"
    "\<And>b. b \<in> set bs \<Longrightarrow> 16 \<le> fst b"
  shows "{q ..< q + l} \<inter> {q' ..< q' + l'} = {}"
  using assms
proof (induction bs arbitrary: a)
  case (Cons b bs)
  obtain sz fr where b: "b = (sz, fr)" by force
  with Cons.prems(4) have sz: "16 \<le> sz" "\<And>b. b \<in> set bs \<Longrightarrow> 16 \<le> fst b" by fastforce+
  have tl: "a + sz \<le> x" if "(x, y) \<in> set (payloads (a + sz) bs)" for x y
    using payloads_bound [OF that sz(2)] by simp
  show ?case
  proof (cases "(q, l) \<in> set (payloads (a + sz) bs) \<and> (q', l') \<in> set (payloads (a + sz) bs)")
    case True
    with Cons.IH Cons.prems(3) sz(2) show ?thesis by blast
  next
    case False
    with Cons.prems(1-3) b sz(1) tl [of q l] tl [of q' l'] show ?thesis by (auto split: if_splits)
  qed
qed simp

lemma live_amalloc:
  assumes abs: "heap_abs s bs" and am: "amalloc (request sz) HEAP_START bs = Some (p, bs')"
  obtains len where "unat sz \<le> len" "live bs' = insert (p + 16, len) (live bs)"
    "p + 16 + len \<le> HEAP_END" "HEAP_START \<le> p" "4 dvd p"
    "{p + 16 ..< p + 16 + len} \<inter> live_bytes (live bs) = {}"
proof -
  note h = heap_absD [OF abs]
  from am obtain xs z ys where bs: "bs = xs @ (z, True) # ys" and p: "p = HEAP_START + sizes xs"
    and z: "request sz \<le> z" and bs': "bs' = xs @ (if request sz + 32 \<le> z
      then [(request sz, False), (z - request sz, True)] else [(z, False)]) @ ys"
    by (auto elim: amallocE)
  define len where "len = (if request sz + 32 \<le> z then request sz else z) - 16"
  note rq = request_bounds(1) [of sz]
  have 1: "unat sz \<le> len" using rq z by (auto simp: len_def)
  have 2: "live bs' = insert (p + 16, len) (live bs)"
    using z by (simp add: bs bs' payloads_append len_def p ac_simps)
  have 3: "p + 16 + len \<le> HEAP_END" using h(6) rq z by (simp add: bs p len_def)
  have "\<forall>b \<in> set xs. 4 dvd fst b" using h(4) bs by auto
  then have "4 dvd sizes xs" by (induction xs) auto
  then have 4: "4 dvd p" unfolding p by (intro dvd_add) auto
  have "x \<notin> live_bytes (live bs)" if "x \<in> {p + 16 ..< p + 16 + len}" for x
  proof
    assume "x \<in> live_bytes (live bs)"
    then obtain q l where q: "(q, l) \<in> live bs" "x \<in> {q ..< q + l}"
      by (auto simp: live_bytes_def)
    with h(5) have "x < p \<or> p + z \<le> x"
      using payloads_bound [of q l HEAP_START xs] payloads_bound [of q l "p + z" ys]
      by (fastforce simp: bs payloads_append p)
    with that z rq show False by (auto simp: len_def split: if_splits)
  qed
  then have "{p + 16 ..< p + 16 + len} \<inter> live_bytes (live bs) = {}" by blast
  moreover have "HEAP_START \<le> p" by (simp add: p)
  ultimately show thesis using that 1 2 3 4 by blast
qed

lemma headers_bound:
  "x \<in> headers a bs \<Longrightarrow> (\<And>b. b \<in> set bs \<Longrightarrow> 16 \<le> fst b) \<Longrightarrow> x < a + sizes bs"
  by (induction bs arbitrary: a) fastforce+

lemma kfree_live_bytes:
  assumes "heap_abs s bs" "x \<in> live_bytes (live bs) \<union> unmanaged"
  shows "x \<notin> headers HEAP_START bs"
  using assms(2)
proof
  assume "x \<in> live_bytes (live bs)"
  then show ?thesis using headers_live [OF heap_absD(5) [OF assms(1)]] by (auto simp: live_bytes_def)
next
  assume "x \<in> unmanaged"
  moreover have "HEAP_START \<le> x" "x < HEAP_END" if "x \<in> headers HEAP_START bs"
    using headers_ge [OF that] headers_bound [OF that heap_absD(5) [OF assms(1)]]
      heap_absD(6) [OF assms(1)] by auto
  ultimately show ?thesis by (auto simp: unmanaged_def)
qed

section \<open>The interface\<close>

text \<open>The heap is sound, coalesced, and its live blocks are \<open>L\<close>.\<close>

definition heap_rep :: "'a kheap_scheme \<Rightarrow> (nat \<times> nat) set \<Rightarrow> bool" where
  "heap_rep s L \<longleftrightarrow> (\<exists>bs. heap_abs s bs \<and> coalesced bs \<and> L = live bs)"

lemma heap_rep_hw [simp]: "heap_rep (s\<lparr>hw := h\<rparr>) L = heap_rep s L"
  by (simp add: heap_rep_def)

lemma kmalloc_rep:
  assumes rep: "heap_rep s L" and n: "n \<noteq> 0" "unat n + 19 < 2 ^ 32"
  shows "\<exists>p s'. kmalloc n s = kret (p, s') \<and>
    (if p = 0 then heap_rep s' L \<and> mem s' = mem s
     else \<exists>len \<ge> unat n. heap_rep s' (insert (unat p, len) L)
       \<and> {unat p ..< unat p + len} \<inter> (live_bytes L \<union> unmanaged) = {} \<and> (\<forall>x \<in> live_bytes L \<union> unmanaged. mem s' x = mem s x))"
proof -
  from rep obtain bs where abs: "heap_abs s bs" "coalesced bs" and L: "L = live bs"
    by (auto simp: heap_rep_def)
  note step = kmalloc_step [OF abs(1) n]
  show ?thesis
  proof (cases "amalloc (request n) HEAP_START bs")
    case None
    with step rep show ?thesis by simp
  next
    case (Some r)
    obtain p bs' where r: "r = (p, bs')" by force
    with Some have am: "amalloc (request n) HEAP_START bs = Some (p, bs')" by simp
    obtain len where len: "unat n \<le> len" "live bs' = insert (p + 16, len) (live bs)"
      "p + 16 + len \<le> HEAP_END" "HEAP_START \<le> p" "4 dvd p"
      "{p + 16 ..< p + 16 + len} \<inter> live_bytes (live bs) = {}"
      by (rule live_amalloc [OF abs(1) am])
    from step am obtain m' where m': "kmalloc n s = kret (of_nat (p + 16), s\<lparr>mem := m',
        total_allocated := total_allocated s + ((n + 3) AND NOT 3),
        num_allocations := num_allocations s + 1\<rparr>)"
      "heap_abs (s\<lparr>mem := m'\<rparr>) bs'" "\<forall>x \<in> live_bytes (live bs) \<union> unmanaged. m' x = mem s x" by auto
    have u: "unat (of_nat (p + 16) :: u32) = p + 16" "(of_nat (p + 16) :: u32) \<noteq> 0"
      using len(3,4) by (auto simp del: of_nat_add)
    define s1 where "s1 = s\<lparr>mem := m', total_allocated := total_allocated s + ((n + 3) AND NOT 3),
        num_allocations := num_allocations s + 1\<rparr>"
    have "heap_rep s1 (insert (p + 16, len) L)" "mem s1 = m'"
      using m'(2) coalesced_amalloc [OF am abs(2)] len(2) L
      by (auto simp: heap_rep_def heap_abs_update s1_def)
    moreover have heap: "{p + 16 ..< p + 16 + len} \<inter> unmanaged = {}"
      using len(3,4) by (auto simp: unmanaged_def)
    ultimately have "\<exists>l \<ge> unat n. heap_rep s1 (insert (p + 16, l) L)
        \<and> {p + 16 ..< p + 16 + l} \<inter> (live_bytes L \<union> unmanaged) = {} \<and> (\<forall>x \<in> live_bytes L \<union> unmanaged. mem s1 x = mem s x)"
      using m'(3) len(1,6) L heap by blast
    then have "if (of_nat (p + 16) :: u32) = 0 then heap_rep s1 L \<and> mem s1 = mem s
      else \<exists>l \<ge> unat n. heap_rep s1 (insert (unat (of_nat (p + 16) :: u32), l) L)
        \<and> {unat (of_nat (p + 16) :: u32) ..< unat (of_nat (p + 16) :: u32) + l} \<inter> (live_bytes L \<union> unmanaged) = {}
        \<and> (\<forall>x \<in> live_bytes L \<union> unmanaged. mem s1 x = mem s x)"
      by (simp only: u if_False)
    with m'(1) show ?thesis unfolding s1_def by blast
  qed
qed

lemma kfree_rep:
  assumes rep: "heap_rep s L" and live: "(unat p, len) \<in> L"
  shows "\<exists>s'. kfree p s = kret s' \<and> heap_rep s' (L - {(unat p, len)})
    \<and> (\<forall>x \<in> live_bytes L \<union> unmanaged. mem s' x = mem s x)"
proof -
  from rep obtain bs where abs: "heap_abs s bs" and L: "L = live bs"
    by (auto simp: heap_rep_def)
  from live L have live': "(unat p, len) \<in> live bs" by simp
  from kfree_step [OF abs live'] obtain m' where m':
    "kfree p s = kret (s\<lparr>mem := m', total_freed := total_freed s + of_nat len\<rparr>)"
    "heap_abs (s\<lparr>mem := m'\<rparr>) (afree (unat p - 16) HEAP_START bs)"
    "\<And>x. x \<notin> headers HEAP_START bs \<Longrightarrow> m' x = mem s x" by auto
  moreover have "live (afree (unat p - 16) HEAP_START bs) = L - {(unat p, len)}"
    using live_afree [OF live' heap_absD(5) [OF abs]] L by simp
  ultimately show ?thesis
    using coalesced_afree kfree_live_bytes [OF abs] L by (fastforce simp: heap_rep_def heap_abs_update)
qed

lemma heap_abs_put:
  assumes abs: "heap_abs s bs" and m: "\<And>x. x \<notin> live_bytes (live bs) \<union> unmanaged \<Longrightarrow> m x = mem s x"
  shows "heap_abs (s\<lparr>mem := m\<rparr>) bs"
proof -
  have "seg m HEAP_START bs HEAP_END"
    using kfree_live_bytes [OF abs] m by (intro seg_payload_write [OF heap_absD(3) [OF abs]]) blast
  with abs show ?thesis by (simp add: heap_abs_def)
qed

lemma heap_rep_put:
  assumes "heap_rep s L" "\<And>x. x \<notin> live_bytes L \<union> unmanaged \<Longrightarrow> m x = mem s x"
  shows "heap_rep (s\<lparr>mem := m\<rparr>) L"
  using assms heap_abs_put unfolding heap_rep_def by metis

lemma heap_rep_block:
  assumes "heap_rep s L" "(q, len) \<in> L"
  shows "HEAP_START + 16 \<le> q" "q + len \<le> HEAP_END"
proof -
  from assms obtain bs where "heap_abs s bs" "(q, len) \<in> live bs" by (auto simp: heap_rep_def)
  then show "HEAP_START + 16 \<le> q" "q + len \<le> HEAP_END" by (auto elim: live_block)
qed

text \<open>
  A coalesced heap is determined by its allocated blocks: two block lists of the same extent with the same
  payloads are equal.
\<close>

lemma payloads_ge:
  assumes "(q, len) \<in> set (payloads a bs)" "\<forall>b \<in> set bs. 16 \<le> fst b"
  shows "a + 16 \<le> q"
  using payloads_bound [OF assms(1)] assms(2) by auto

text \<open>The first block is allocated when and only when a payload starts right behind its header.\<close>

lemma payloads_first:
  assumes "\<forall>b \<in> set ((sz, fr) # bs). 16 \<le> fst b"
  shows "(a + 16, len) \<in> set (payloads a ((sz, fr) # bs)) \<longleftrightarrow> \<not> fr \<and> len = sz - 16"
    and "\<not> fr \<Longrightarrow> set (payloads (a + sz) bs) = set (payloads a ((sz, fr) # bs)) - {(a + 16, sz - 16)}"
proof -
  have "(a + 16, l) \<notin> set (payloads (a + sz) bs)" for l
    using payloads_ge [of "a + 16" l "a + sz" bs] assms by auto
  then show "(a + 16, len) \<in> set (payloads a ((sz, fr) # bs)) \<longleftrightarrow> \<not> fr \<and> len = sz - 16"
    and "\<not> fr \<Longrightarrow> set (payloads (a + sz) bs) = set (payloads a ((sz, fr) # bs)) - {(a + 16, sz - 16)}"
    by auto
qed

lemma coalesced_tail: "coalesced ((sz, True) # bs) \<Longrightarrow> bs = [] \<or> (\<exists>z bs'. bs = (z, False) # bs')"
  by (cases bs) auto

lemma free_prefix_unique:
  assumes "\<forall>b \<in> set bs. 16 \<le> fst b" "\<forall>b \<in> set bs'. 16 \<le> fst b"
    and "coalesced ((sz, True) # bs)" "coalesced ((sz', True) # bs')" "sz + sizes bs = sz' + sizes bs'"
    and "set (payloads (a + sz) bs) = set (payloads (a + sz') bs')"
  shows "sz = sz'"
proof (cases bs)
  case Nil
  with assms(6) coalesced_tail [OF assms(4)] have "bs' = []" by auto
  with Nil assms(5) show ?thesis by simp
next
  case (Cons x xs)
  then obtain z where x: "bs = (z, False) # xs" using coalesced_tail [OF assms(3)] by auto
  then have "set (payloads (a + sz') bs') \<noteq> {}" using assms(6) by auto
  then obtain z' ys where y: "bs' = (z', False) # ys" using coalesced_tail [OF assms(4)] by auto
  have "(a + sz + 16, z - 16) \<in> set (payloads (a + sz') bs')" unfolding assms(6) [symmetric] by (simp add: x)
  moreover have "(a + sz' + 16, z' - 16) \<in> set (payloads (a + sz) bs)" unfolding assms(6) by (simp add: y)
  ultimately show ?thesis using payloads_ge [OF _ assms(2)] payloads_ge [OF _ assms(1)] by (metis add_le_cancel_left add_le_cancel_right le_antisym)
qed

lemma blocks_unique:
  assumes "\<forall>b \<in> set bs. 16 \<le> fst b" "\<forall>b \<in> set bs'. 16 \<le> fst b" "coalesced bs" "coalesced bs'"
    and "sizes bs = sizes bs'" "set (payloads a bs) = set (payloads a bs')"
  shows "bs = bs'"
  using assms
proof (induction bs arbitrary: a bs')
  case Nil
  then show ?case by (cases bs') auto
next
  case (Cons b bs)
  obtain sz fr where b: "b = (sz, fr)" by force
  have "bs' \<noteq> []" using Cons.prems(1,5) b by (cases bs') auto
  then obtain sz' fr' cs where b': "bs' = (sz', fr') # cs" by (metis neq_Nil_conv surj_pair)
  have ge: "\<forall>b \<in> set ((sz, fr) # bs). 16 \<le> fst b" "\<forall>b \<in> set ((sz', fr') # cs). 16 \<le> fst b"
    using Cons.prems(1,2) b b' by auto
  note first = payloads_first(1) [OF ge(1), of a] payloads_first(1) [OF ge(2), of a]
  have co: "coalesced ((sz, fr) # bs)" "coalesced ((sz', fr') # cs)" using Cons.prems(3,4) b b' by auto
  have set: "set (payloads a ((sz, fr) # bs)) = set (payloads a ((sz', fr') # cs))" using Cons.prems(6) b b' by simp
  have fr: "fr' = fr" using first set by blast
  have tot: "sz + sizes bs = sz' + sizes cs" using Cons.prems(5) b b' by simp
  have sz: "sz' = sz"
  proof (cases fr)
    case True
    have "sz = sz'"
      by (rule free_prefix_unique [of bs cs sz sz' a]) (use ge co set tot fr True in simp_all)
    then show ?thesis by simp
  next
    case False
    then have "sz' - 16 = sz - 16" using first set fr by metis
    then show ?thesis using ge by auto
  qed
  have "set (payloads (a + sz) bs) = set (payloads (a + sz) cs)"
  proof (cases fr)
    case True
    then show ?thesis using set fr sz by simp
  next
    case False
    then show ?thesis
      using payloads_first(2) [OF ge(1), of a] payloads_first(2) [OF ge(2), of a] fr sz unfolding set by metis
  qed
  moreover have "coalesced bs" "coalesced cs" using co by (auto simp: coalesced_Cons)
  ultimately have "bs = cs" using Cons.IH [of cs "a + sz"] ge tot sz by simp
  then show ?case by (simp add: b b' fr sz)
qed

lemma heap_abs_same_live:
  assumes "heap_abs s bs" "coalesced bs" "heap_rep s' (live bs)"
  shows "heap_abs s' bs"
proof -
  from assms(3) obtain bs' where h: "heap_abs s' bs'" "coalesced bs'" "live bs' = live bs" by (auto simp: heap_rep_def)
  have "bs = bs'"
    by (rule blocks_unique [where a = HEAP_START])
      (use assms h heap_absD(5,6) [OF assms(1)] heap_absD(5,6) [OF h(1)] in auto)
  with h(1) show ?thesis by simp
qed

text \<open>So whether a request can be granted depends on the allocated blocks alone.\<close>

lemma kmalloc_room_same:
  fixes s s' :: "'a kheap_scheme"
  assumes "heap_rep s L" "heap_rep s' L" "n \<noteq> 0" "unat n + 19 < 2 ^ 32" "kmalloc n s = kret (p, s1)" "p \<noteq> 0"
  shows "\<exists>p' s1'. kmalloc n s' = kret (p', s1') \<and> p' \<noteq> 0"
proof -
  from assms(1) obtain bs where h: "heap_abs s bs" "coalesced bs" "live bs = L" by (auto simp: heap_rep_def)
  have abs': "heap_abs s' bs" by (rule heap_abs_same_live [OF h(1,2)]) (use assms(2) h(3) in simp)
  have "\<exists>s1 q. kmalloc n s = kret (0, s1)" if "amalloc (request n) HEAP_START bs = None"
    using kmalloc_step [OF h(1) assms(3,4)] that by auto
  then obtain q cs where am: "amalloc (request n) HEAP_START bs = Some (q, cs)" using assms(5,6) by (cases "amalloc (request n) HEAP_START bs") auto
  then obtain s1' where "kmalloc n s' = kret (of_nat (q + 16), s1')" using kmalloc_step [OF abs' assms(3,4)] by auto
  moreover have "(of_nat (q + 16) :: u32) \<noteq> 0"
    by (rule live_amalloc [OF abs' am]) (auto intro!: of_nat_heap_neq_0 simp del: of_nat_add)
  ultimately show ?thesis by blast
qed
lemma heap_rep_aligned: "heap_rep s L \<Longrightarrow> (q, len) \<in> L \<Longrightarrow> 4 dvd q"
proof -
  assume "heap_rep s L" "(q, len) \<in> L"
  then obtain bs where abs: "heap_abs s bs" "(q, len) \<in> live bs" by (auto simp: heap_rep_def)
  from live_block [OF this] obtain xs ys where bs: "bs = xs @ (len + 16, False) # ys" "q = HEAP_START + sizes xs + 16"
    by metis
  have "\<forall>b \<in> set xs. 4 dvd fst b" using heap_absD(4) [OF abs(1)] bs(1) by auto
  then have "4 dvd sizes xs" by (induction xs) auto
  then show "4 dvd q" by (simp add: bs(2))
qed

text \<open>
  What \<open>kmalloc\<close> returns is uninitialised: the bytes of the block are what they were in the free block,
  and the word in front of them is the magic number of its header.
\<close>

lemma split_block_payload:
  assumes h: "hdr m a sz True" and a: "0 < a" "a + sz \<le> HEAP_END" and n: "16 \<le> n" "n \<le> sz"
    and x: "a + 16 \<le> x" "x < a + n"
  shows "set_is_free (split_block m (of_nat a) (of_nat n)) (of_nat a) False x = m x"
proof -
  have w: "unat (of_nat a :: u32) = a" "unat (of_nat a + of_nat n :: u32) = a + n"
    using a n by (simp_all add: unat_add_u32)
  then show ?thesis using x by (auto simp: split_block_def Let_def blk_defs mem_simps)
qed

lemma kmalloc_uninitialised:
  fixes s :: "'a kheap_scheme"
  assumes abs: "heap_abs s bs" and sz: "sz \<noteq> 0" "unat sz + 19 < 2 ^ 32"
    and ret: "kmalloc sz s = kret (q, s')" "q \<noteq> 0"
  shows "16 \<le> unat q" "4 dvd unat q" "unat q + unat sz \<le> HEAP_END" "rd32 (mem s) (unat q - 4) = BLOCK_MAGIC"
    "unat q \<le> x \<Longrightarrow> x < unat q + unat sz \<Longrightarrow> mem s' x = mem s x"
proof -
  note h = heap_absD [OF abs]
  note find = find_free_block_seg [OF h(3), of "((sz + 3) AND NOT 3) + 16", unfolded unat_request [OF sz(2)]]
  obtain p bs' where am: "amalloc (request sz) HEAP_START bs = Some (p, bs')"
    using kmalloc_step [OF abs sz] ret by (fastforce split: option.splits)
  then obtain xs z ys where bs: "bs = xs @ (z, True) # ys" and p: "p = HEAP_START + sizes xs" and z: "request sz \<le> z"
    by (auto elim: amallocE)
  note sp = seg_split [OF h(3) [unfolded bs], simplified]
  have pz: "0 < p" "p + z \<le> HEAP_END" using sp(4) p by auto
  have rq: "16 + unat sz \<le> request sz" using request_bounds(1) [of sz] by simp
  have w: "((sz + 3) AND NOT 3) + 16 = (of_nat (request sz) :: u32)"
    by (metis sz(2) unat_request word_of_nat_unat)
  have q: "q = of_nat (p + 16)"
    and m': "mem s' = set_is_free (split_block (mem s) (of_nat p) (of_nat (request sz))) (of_nat p) False"
    using ret find am h(1,2) sz(1) pz w unfolding kmalloc_def
    by (auto simp: kmalloc_ready Let_def hp_def)
  have uq: "unat q = p + 16" unfolding q using pz z rq by (intro unat_of_nat_heap) simp
  show "16 \<le> unat q" "unat q + unat sz \<le> HEAP_END" using uq pz z rq by auto
  have "\<forall>b \<in> set xs. 4 dvd fst b" using h(4) by (auto simp: bs)
  then have "4 dvd sizes xs" by (induction xs) auto
  then show "4 dvd unat q" by (simp add: uq p)
  show "rd32 (mem s) (unat q - 4) = BLOCK_MAGIC" using sp(2) uq p by (simp add: hdr_def)
  show "mem s' x = mem s x" if "unat q \<le> x" "x < unat q + unat sz"
    using split_block_payload [OF sp(2) [folded p], of "request sz" x] that uq pz z rq m' by simp
qed

lemma heap_rep_header:
  assumes "heap_rep s L" "(q, len) \<in> L" "q - 16 \<le> x" "x < q"
  shows "x \<notin> live_bytes L \<union> unmanaged"
proof -
  from assms(1,2) obtain bs where abs: "heap_abs s bs" "L = live bs" "(q, len) \<in> live bs"
    by (auto simp: heap_rep_def)
  obtain xs ys b where "bs = xs @ (len + 16, False) # ys" "b = HEAP_START + sizes xs" "q = b + 16"
    by (rule live_block [OF abs(1,3)])
  then have "x \<in> headers HEAP_START bs" using assms(3,4) by (auto simp: headers_append)
  with kfree_live_bytes [OF abs(1)] abs(2) show ?thesis by blast
qed

lemma heap_rep_disjoint:
  assumes "heap_rep s L" "(q, l) \<in> L" "(q', l') \<in> L" "(q, l) \<noteq> (q', l')"
  shows "{q ..< q + l} \<inter> {q' ..< q' + l'} = {}"
proof -
  from assms(1) obtain bs where bs: "heap_abs s bs" "L = live bs" by (auto simp: heap_rep_def)
  show ?thesis
    by (rule payloads_disjoint [OF assms(2-3) [unfolded bs(2)] assms(4) heap_absD(5) [OF bs(1)]])
qed

interpretation kheap: allocator kmalloc kfree heap_rep mem "\<lambda>m s. s\<lparr>mem := m\<rparr>" unmanaged
proof unfold_locales
  show "0 < q \<and> q + len < 2 ^ 32" if "heap_rep s L" "(q, len) \<in> L"
    for s :: "'a kheap_scheme" and L q len
    using heap_rep_block [OF that] by simp
  show "heap_rep (s\<lparr>mem := m\<rparr>) L" if "heap_rep s L" "\<And>x. x \<notin> live_bytes L \<union> unmanaged \<Longrightarrow> m x = mem s x"
    for s :: "'a kheap_scheme" and L m
    using that by (rule heap_rep_put)
  show "{q ..< q + l} \<inter> {q' ..< q' + l'} = {}"
    if "heap_rep s L" "(q, l) \<in> L" "(q', l') \<in> L" "(q, l) \<noteq> (q', l')"
    for s :: "'a kheap_scheme" and L q l q' l'
    using that by (rule heap_rep_disjoint)
qed (simp_all add: kmalloc_rep kfree_rep)

text \<open>The aligned allocator in the same terms: the aligned bytes are part of a new block.\<close>

lemma kmalloc_aligned_rep:
  assumes rep: "heap_rep s L" and sz: "sz \<noteq> 0" "unat sz + 2 ^ k + 19 < 2 ^ 32" and k: "k < 32"
  obtains p s' where "kmalloc_aligned sz (2 ^ k) s = kret (p, s')"
    "p = 0 \<Longrightarrow> heap_rep s' L \<and> mem s' = mem s"
    "p \<noteq> 0 \<Longrightarrow> 2 ^ k dvd unat p \<and> (\<exists>q len. q \<le> unat p \<and> unat p + unat sz \<le> q + len
       \<and> heap_rep s' (insert (q, len) L) \<and> {q ..< q + len} \<inter> (live_bytes L \<union> unmanaged) = {}
       \<and> (\<forall>x \<in> live_bytes L \<union> unmanaged. mem s' x = mem s x))"
proof -
  have u: "unat (sz + 2 ^ k) = unat sz + 2 ^ k"
    using k sz(2) by (simp add: unat_add_u32 unat_exp_u32)
  then have n: "sz + 2 ^ k \<noteq> 0" "unat (sz + 2 ^ k) + 19 < 2 ^ 32" using sz by auto
  from kheap.alloc_law [OF rep n] obtain p0 s' where al: "kmalloc (sz + 2 ^ k) s = kret (p0, s')"
    and cases: "if p0 = 0 then heap_rep s' L \<and> mem s' = mem s
      else \<exists>len \<ge> unat (sz + 2 ^ k). heap_rep s' (insert (unat p0, len) L)
        \<and> {unat p0 ..< unat p0 + len} \<inter> (live_bytes L \<union> unmanaged) = {}
        \<and> (\<forall>x \<in> live_bytes L \<union> unmanaged. mem s' x = mem s x)" by blast
  show thesis
  proof (cases "p0 = 0")
    case True
    with al cases that [of 0 s'] show thesis by (simp add: kmalloc_aligned_def)
  next
    case False
    with cases obtain len where len: "unat sz + 2 ^ k \<le> len" "heap_rep s' (insert (unat p0, len) L)"
      "{unat p0 ..< unat p0 + len} \<inter> (live_bytes L \<union> unmanaged) = {}"
      "\<forall>x \<in> live_bytes L \<union> unmanaged. mem s' x = mem s x" by (auto simp: u)
    define p where "p = (p0 + 2 ^ k - 1) AND NOT (2 ^ k - 1)"
    have "unat p0 + len \<le> HEAP_END" using heap_rep_block(2) [OF len(2)] by simp
    with len(1) have "unat p0 + 2 ^ k < 2 ^ 32" by simp
    note al' = unat_align_up [OF this k, folded p_def]
    have "kmalloc_aligned sz (2 ^ k) s = kret (p, s')"
      using al False by (simp add: kmalloc_aligned_def p_def)
    moreover have "unat p + unat sz \<le> unat p0 + len" using al'(3) len(1) by linarith
    moreover have "p \<noteq> 0" using al'(2) False by (auto simp: unat_eq_0)
    ultimately show thesis using that [of p s'] al'(1,2) len(2-4) by blast
  qed
qed

section \<open>Properties\<close>

text \<open>The heap after \<open>kmalloc_init\<close> on a machine that has just been switched on.\<close>

definition fresh_heap :: kheap where
  "fresh_heap = kmalloc_init (kheap_boot power_on)"

lemma fresh_heap_abs: "heap_abs fresh_heap [(HEAP_SIZE, True)]"
  unfolding fresh_heap_def by (rule kmalloc_init_abs) (simp add: kheap_boot_def)

text \<open>
  C2. Refinement of first fit: on a sound heap, a request whose size with rounding and header
  fits a \<open>size_t\<close> always returns. It returns NULL, with a warning and nothing else changed, exactly
  when first fit on the block list fails; otherwise it returns the payload of the block that first
  fit takes, the heap in memory is the block list first fit leaves, the statistics are updated,
  and every byte of every block that was allocated, and every byte outside the heap, keeps its
  value.
\<close>

theorem kmalloc_refines:
  assumes "heap_abs s bs" "sz \<noteq> 0" "unat sz + 19 < 2 ^ 32"
  shows "case amalloc (request sz) HEAP_START bs of
      None \<Rightarrow> kmalloc sz s = kret (0, kernel_warning ''kmalloc: Out of memory'' s)
    | Some (p, bs') \<Rightarrow> \<exists>m'. kmalloc sz s = kret (of_nat (p + 16),
          s\<lparr>mem := m', total_allocated := total_allocated s + ((sz + 3) AND NOT 3),
            num_allocations := num_allocations s + 1\<rparr>)
        \<and> heap_abs (s\<lparr>mem := m'\<rparr>) bs' \<and> (\<forall>x \<in> live_bytes (live bs) \<union> unmanaged. m' x = mem s x)"
  by (rule kmalloc_step [OF assms])

theorem kmalloc_refines_witness:
  "\<exists>m'. kmalloc 100 fresh_heap = kret (0x500010, fresh_heap\<lparr>mem := m',
       total_allocated := total_allocated fresh_heap + ((100 + 3) AND NOT 3),
       num_allocations := num_allocations fresh_heap + 1\<rparr>)
     \<and> heap_abs (fresh_heap\<lparr>mem := m'\<rparr>) [(116, False), (0x100000 - 116, True)]"
proof -
  have "amalloc (request 100) HEAP_START [(HEAP_SIZE, True)] =
      Some (HEAP_START, [(116, False), (0x100000 - 116, True)])"
    by (simp add: request_def)
  with kmalloc_refines [OF fresh_heap_abs, of 100] show ?thesis by auto
qed

text \<open>
  C8. An allocation is safe: a non-null result is 4-byte aligned, lies in the heap with at least
  the bytes asked for, overlaps no block that is allocated, and is added to the allocated blocks;
  NULL is returned only if every free block is smaller than the request with its header.
\<close>

theorem kmalloc_safe:
  assumes abs: "heap_abs s bs" and sz: "sz \<noteq> 0" "unat sz + 19 < 2 ^ 32"
    and ret: "kmalloc sz s = kret (ptr, s')"
  shows "if ptr = 0 then heap_abs s' bs \<and> (\<forall>z. (z, True) \<in> set bs \<longrightarrow> z < request sz)
    else \<exists>bs' len. heap_abs s' bs' \<and> unat sz \<le> len \<and> 4 dvd unat ptr
      \<and> HEAP_START + 16 \<le> unat ptr \<and> unat ptr + len \<le> HEAP_END
      \<and> live bs' = insert (unat ptr, len) (live bs)
      \<and> {unat ptr ..< unat ptr + len} \<inter> live_bytes (live bs) = {}"
proof (cases "amalloc (request sz) HEAP_START bs")
  case None
  with kmalloc_step [OF abs sz] ret abs show ?thesis by (auto simp: amalloc_None)
next
  case (Some r)
  obtain p bs' where r: "r = (p, bs')" by force
  with Some have am: "amalloc (request sz) HEAP_START bs = Some (p, bs')" by simp
  obtain len where len: "unat sz \<le> len" "live bs' = insert (p + 16, len) (live bs)"
    "p + 16 + len \<le> HEAP_END" "HEAP_START \<le> p" "4 dvd p"
    "{p + 16 ..< p + 16 + len} \<inter> live_bytes (live bs) = {}"
    by (rule live_amalloc [OF abs am])
  from kmalloc_step [OF abs sz] am ret have ptr: "ptr = of_nat (p + 16)" and abs': "heap_abs s' bs'"
    by (auto simp: heap_abs_update)
  have u: "unat ptr = p + 16" using len(3) by (simp add: ptr del: of_nat_add)
  then have "ptr \<noteq> 0" by auto
  moreover have "4 dvd unat ptr" unfolding u using len(5) by (intro dvd_add) auto
  ultimately show ?thesis using abs' len u by auto
qed

theorem kmalloc_safe_witness:
  "\<exists>ptr s' bs' len. kmalloc 10 fresh_heap = kret (ptr, s') \<and> heap_abs s' bs' \<and> 10 \<le> len
     \<and> 4 dvd unat ptr \<and> live bs' = {(unat ptr, len)}"
proof -
  have "amalloc (request 10) HEAP_START [(HEAP_SIZE, True)] =
      Some (HEAP_START, [(28, False), (0x100000 - 28, True)])"
    by (simp add: request_def)
  with kmalloc_step [OF fresh_heap_abs, of 10]
  obtain s' where s': "kmalloc 10 fresh_heap = kret (of_nat (HEAP_START + 16), s')" by auto
  from kmalloc_safe [OF fresh_heap_abs _ _ s'] s' show ?thesis by auto
qed

text \<open>
  C3. Freeing refines coalescing: freeing the payload pointer of any allocated block of a sound
  heap returns; the heap is then the block list with that block marked free and all free
  neighbours merged (in particular no two neighbours are free), exactly that block has left the
  allocated ones, and the bytes of every allocated block and all bytes outside the heap keep their
  values.
\<close>

theorem kfree_refines:
  assumes abs: "heap_abs s bs" and live: "(q, len) \<in> live bs"
  shows "\<exists>m'. kfree (of_nat q) s = kret (s\<lparr>mem := m', total_freed := total_freed s + of_nat len\<rparr>)
    \<and> heap_abs (s\<lparr>mem := m'\<rparr>) (afree (q - 16) HEAP_START bs)
    \<and> coalesced (afree (q - 16) HEAP_START bs)
    \<and> live (afree (q - 16) HEAP_START bs) = live bs - {(q, len)}
    \<and> (\<forall>x \<in> live_bytes (live bs) \<union> unmanaged. m' x = mem s x)"
proof -
  from kfree_step [OF abs live] obtain m' where
    "kfree (of_nat q) s = kret (s\<lparr>mem := m', total_freed := total_freed s + of_nat len\<rparr>)"
    "heap_abs (s\<lparr>mem := m'\<rparr>) (afree (q - 16) HEAP_START bs)"
    "\<And>x. x \<notin> headers HEAP_START bs \<Longrightarrow> m' x = mem s x" by blast
  with live_afree [OF live heap_absD(5) [OF abs]] kfree_live_bytes [OF abs] coalesced_afree
  show ?thesis by blast
qed

text \<open>A heap with one block of 100 bytes allocated, for the examples.\<close>

lemma one_block:
  obtains s where "kmalloc 100 fresh_heap = kret (0x500010, s)"
    "heap_abs s [(116, False), (0x100000 - 116, True)]"
proof -
  have "amalloc (request 100) HEAP_START [(HEAP_SIZE, True)] =
      Some (HEAP_START, [(116, False), (0x100000 - 116, True)])"
    by (simp add: request_def)
  with kmalloc_step [OF fresh_heap_abs, of 100] that show thesis by (auto simp: heap_abs_update)
qed

theorem kfree_refines_witness:
  "\<exists>(s :: kheap) s'. heap_abs s [(116, False), (0x100000 - 116, True)] \<and> kfree 0x500010 s = kret s'
     \<and> heap_abs s' [(0x100000, True)]"
proof -
  obtain s :: kheap where s: "heap_abs s [(116, False), (0x100000 - 116, True)]"
    by (rule one_block)
  from kfree_refines [OF s, of "0x500010" 100] s show ?thesis
    by (auto simp: heap_abs_update afree_def)
qed

text \<open>
  C9. Round trip: on a sound heap without adjacent free blocks, freeing the block that
  \<open>kmalloc\<close> has just returned gives back exactly the block list from before, whatever the
  fragmentation, and every other allocated block has kept its contents.
\<close>

theorem kmalloc_kfree_roundtrip:
  assumes abs: "heap_abs s bs" and co: "coalesced bs" and sz: "sz \<noteq> 0" "unat sz + 19 < 2 ^ 32"
    and ret: "kmalloc sz s = kret (ptr, s1)" and ptr: "ptr \<noteq> 0"
  shows "\<exists>s2. kfree ptr s1 = kret s2 \<and> heap_abs s2 bs
    \<and> (\<forall>x \<in> live_bytes (live bs). mem s2 x = mem s x)"
proof -
  from kmalloc_step [OF abs sz] ret ptr obtain p bs' m1
    where am: "amalloc (request sz) HEAP_START bs = Some (p, bs')"
      and p: "ptr = of_nat (p + 16)" and s1: "heap_abs s1 bs'" "mem s1 = m1"
      and m1: "\<forall>x \<in> live_bytes (live bs). m1 x = mem s x"
    by (auto simp: heap_abs_update split: option.splits)
  obtain len where len: "unat sz \<le> len" "live bs' = insert (p + 16, len) (live bs)"
    "p + 16 + len \<le> HEAP_END" "HEAP_START \<le> p" "4 dvd p"
    "{p + 16 ..< p + 16 + len} \<inter> live_bytes (live bs) = {}"
    by (rule live_amalloc [OF abs am])
  then have lv: "(p + 16, len) \<in> live bs'" by simp
  from kfree_step [OF s1(1) lv] obtain m2 where m2:
    "kfree ptr s1 = kret (s1\<lparr>mem := m2, total_freed := total_freed s1 + of_nat len\<rparr>)"
    "heap_abs (s1\<lparr>mem := m2\<rparr>) (afree p HEAP_START bs')"
    "\<And>x. x \<notin> headers HEAP_START bs' \<Longrightarrow> m2 x = m1 x"
    using p s1(2) by auto
  have "afree p HEAP_START bs' = bs"
    using heap_absD(5) [OF abs] by (intro afree_amalloc [OF am co]) fastforce
  moreover have "m2 x = mem s x" if "x \<in> live_bytes (live bs)" for x
    using that m2(3) m1 kfree_live_bytes [OF s1(1), of x] len(2) by simp
  ultimately show ?thesis using m2(1,2) by (auto simp: heap_abs_update)
qed

theorem kmalloc_kfree_roundtrip_witness:
  "\<exists>s1 s2. kmalloc 100 fresh_heap = kret (0x500010, s1) \<and> kfree 0x500010 s1 = kret s2
     \<and> heap_abs s2 [(0x100000, True)]"
proof -
  obtain s where s: "kmalloc 100 fresh_heap = kret (0x500010, s)" by (rule one_block)
  from kmalloc_kfree_roundtrip [OF fresh_heap_abs _ _ _ s] s show ?thesis by auto
qed

text \<open>
  Double free is detected: freeing the same pointer again, after a first \<open>kfree\<close> that may have
  merged the block into its neighbours, only prints the warning. The second call neither panics nor
  touches the heap.
\<close>

theorem kfree_double:
  assumes abs: "heap_abs s bs" and live: "(q, len) \<in> live bs" and first: "kfree (of_nat q) s = kret s1"
  shows "kfree (of_nat q) s1 = kret (kernel_warning ''kfree: Double free detected'' s1)"
proof -
  obtain b where "q = b + 16" "b + (len + 16) \<le> HEAP_END" by (rule live_block [OF abs live])
  then have q: "q - 16 = b" "(of_nat q - 16 :: u32) = of_nat b" "(of_nat q :: u32) \<noteq> 0"
    using of_nat_heap_neq_0 [of q] by auto
  obtain m' where m': "kfree (of_nat q) s = kret (s\<lparr>mem := m', total_freed := total_freed s + of_nat len\<rparr>)"
    "blk_magic m' (of_nat (q - 16)) = BLOCK_MAGIC" "blk_is_free m' (of_nat (q - 16))"
    by (rule kfree_step [OF abs live])
  from first m'(1) have "mem s1 = m'" by auto
  with m'(2,3) q show ?thesis by (simp add: kfree_def)
qed

theorem kfree_double_witness:
  "\<exists>(s :: kheap) s1. kfree 0x500010 s = kret s1
     \<and> kfree 0x500010 s1 = kret (kernel_warning ''kfree: Double free detected'' s1)"
proof -
  obtain s :: kheap where s: "heap_abs s [(116, False), (0x100000 - 116, True)]"
    by (rule one_block)
  have live: "(0x500010, 100) \<in> live [(116, False), (0x100000 - 116, True)]" by simp
  obtain s1 where s1: "kfree (of_nat 0x500010) s = kret s1" by (rule kfree_step [OF s live])
  from kfree_double [OF s live s1] s1 show ?thesis by auto
qed

text \<open>
  The life of a heap: \<open>kmalloc\<close> of any size that does not overflow, \<open>kfree\<close> of NULL, of an
  allocated block, of a block freed just before (\<open>free_twice\<close>) or of any address behind a header that
  is marked free, such as one a merge left behind (\<open>free_again\<close>), and writes of the rest of the kernel
  inside allocated blocks and outside the heap, in any order. Not covered are the requests whose size
  wraps around (\<open>kmalloc_overflow\<close> below shows what they do), frees of addresses without such a header
  and writes to headers or free blocks.
\<close>

inductive heap_run :: "kheap \<Rightarrow> (nat \<times> nat) set \<Rightarrow> bool" where
  init: "\<not> heap_initialized s \<Longrightarrow> heap_run (kmalloc_init s) {}"
| alloc: "heap_run s L \<Longrightarrow> unat n + 19 < 2 ^ 32 \<Longrightarrow> kmalloc n s = kret (0, s') \<Longrightarrow> heap_run s' L"
| alloc_block: "heap_run s L \<Longrightarrow> unat n + 19 < 2 ^ 32 \<Longrightarrow> kmalloc n s = kret (p, s') \<Longrightarrow> p \<noteq> 0 \<Longrightarrow>
    heap_run s' (insert (unat p, unat (ksize p s')) L)"
| free_null: "heap_run s L \<Longrightarrow> kfree 0 s = kret s' \<Longrightarrow> heap_run s' L"
| free: "heap_run s L \<Longrightarrow> (unat p, len) \<in> L \<Longrightarrow> kfree p s = kret s' \<Longrightarrow> heap_run s' (L - {(unat p, len)})"
| free_twice: "heap_run s L \<Longrightarrow> (unat p, len) \<in> L \<Longrightarrow> kfree p s = kret s1 \<Longrightarrow> kfree p s1 = kret s2 \<Longrightarrow>
    heap_run s2 (L - {(unat p, len)})"
| free_again: "heap_run s L \<Longrightarrow> blk_magic (mem s) (p - 16) = BLOCK_MAGIC \<Longrightarrow> blk_is_free (mem s) (p - 16) \<Longrightarrow>
    kfree p s = kret s' \<Longrightarrow> heap_run s' L"
| store: "heap_run s L \<Longrightarrow> (\<And>x. x \<notin> live_bytes L \<union> unmanaged \<Longrightarrow> m x = mem s x) \<Longrightarrow> heap_run (s\<lparr>mem := m\<rparr>) L"

lemma ksize_live:
  assumes "heap_rep s L" "(unat p, len) \<in> L"
  shows "unat (ksize p s) = len"
proof -
  from assms obtain bs where abs: "heap_abs s bs" "(unat p, len) \<in> live bs"
    by (auto simp: heap_rep_def)
  obtain b where b: "unat p = b + 16" "hdr (mem s) b (len + 16) False" "b + (len + 16) \<le> HEAP_END"
    by (rule live_block [OF abs])
  from b(1) have p: "p = of_nat (b + 16)" by (metis word_of_nat_unat)
  have "p \<noteq> 0" using b(1) by auto
  with hdr_read [OF b(2,3)] p b(3) show ?thesis by (simp add: ksize_def)
qed

lemma kmalloc_0: "heap_initialized s \<Longrightarrow> kmalloc 0 s = kret (0, s)"
  by (simp add: kmalloc_def kmalloc_ready)

lemma heap_rep_init: "heap_rep s L \<Longrightarrow> heap_initialized s"
  by (auto simp: heap_rep_def heap_abs_def)

lemma heap_run_rep: "heap_run s L \<Longrightarrow> heap_rep s L"
proof (induction rule: heap_run.induct)
  case (init s)
  then show ?case using kmalloc_init_abs [of s] by (fastforce simp: heap_rep_def)
next
  case (alloc s L n s')
  then show ?case
    using kheap.alloc_law [of s L n] kmalloc_0 [OF heap_rep_init, of s L] by (cases "n = 0") auto
next
  case (alloc_block s L n p s')
  then have "n \<noteq> 0" using kmalloc_0 [OF heap_rep_init, of s L] by auto
  with alloc_block kheap.alloc_law [of s L n] obtain len where "heap_rep s' (insert (unat p, len) L)"
    by auto
  with ksize_live [OF this, of p len] show ?case by simp
next
  case (free_null s L s')
  then show ?case by (simp add: kfree_def)
next
  case (free s L p len s')
  then show ?case using kheap.free_law [of s L p len] by auto
next
  case (free_twice s L p len s1 s2)
  then obtain bs where abs: "heap_abs s bs" "L = live bs" by (auto simp: heap_rep_def)
  obtain m' where m': "kfree (of_nat (unat p)) s =
      kret (s\<lparr>mem := m', total_freed := total_freed s + of_nat len\<rparr>)"
    "blk_magic m' (of_nat (unat p - 16)) = BLOCK_MAGIC" "blk_is_free m' (of_nat (unat p - 16))"
    using free_twice.hyps(2) kfree_step [OF abs(1)] abs(2) by blast
  have "heap_rep s1 (L - {(unat p, len)})"
    using free_twice kheap.free_law [of s L p len] by auto
  moreover have "mem s1 = m'" using m'(1) free_twice.hyps(3) by auto
  moreover have "16 \<le> unat p" using heap_rep_block(1) [OF free_twice.IH free_twice.hyps(2)] by simp
  then have "(of_nat (unat p - 16) :: u32) = p - 16" "p \<noteq> 0" by (auto simp: of_nat_diff)
  ultimately have "s2 = kernel_warning ''kfree: Double free detected'' s1"
    using m'(2,3) free_twice.hyps(4) by (simp add: kfree_def)
  with \<open>heap_rep s1 (L - {(unat p, len)})\<close> show ?case by simp
next
  case (free_again s L p s')
  then show ?case by (auto simp: kfree_def split: if_splits)
next
  case (store s L m)
  then show ?case by (intro heap_rep_put) auto
qed

text \<open>
  C1. Whatever sequence runs after \<open>kmalloc_init\<close> of allocations of sizes below \<open>2 ^ 32 - 19\<close>, frees of NULL
  and of allocated blocks, double frees (right after the free, or whenever the header still says free) and
  writes inside allocated blocks and outside the heap: the blocks tile the heap with no two free neighbours, the allocated blocks are
  exactly the ones handed out and not freed, and the next \<open>kmalloc\<close> that does not overflow and the
  next \<open>kfree\<close> of an allocated block return (no panic, no endless loop).
\<close>

theorem heap_run_sound:
  assumes run: "heap_run s L"
  shows "(\<exists>bs. heap_abs s bs \<and> coalesced bs \<and> live bs = L)
    \<and> (\<forall>n. unat n + 19 < 2 ^ 32 \<longrightarrow> (\<exists>p s'. kmalloc n s = kret (p, s')))
    \<and> (\<forall>p len. (unat p, len) \<in> L \<longrightarrow> (\<exists>s'. kfree p s = kret s'))"
proof (intro conjI allI impI)
  note rep = heap_run_rep [OF run]
  show "\<exists>bs. heap_abs s bs \<and> coalesced bs \<and> live bs = L"
    using rep by (auto simp: heap_rep_def)
  show "\<exists>p s'. kmalloc n s = kret (p, s')" if "unat n + 19 < 2 ^ 32" for n
    using that kheap.alloc_law [OF rep] kmalloc_0 [OF heap_rep_init [OF rep]] by (cases "n = 0") blast+
  show "\<exists>s'. kfree p s = kret s'" if "(unat p, len) \<in> L" for p len
    using kheap.free_law [OF rep that] by blast
qed

theorem heap_run_sound_witness:
  "\<exists>s. heap_run s {(0x500010, 100)} \<and> (\<exists>bs. heap_abs s bs \<and> coalesced bs \<and> live bs = {(0x500010, 100)})
     \<and> (\<exists>s'. kfree 0x500010 s = kret s')"
proof -
  obtain s where s: "kmalloc 100 fresh_heap = kret (0x500010, s)"
      "heap_abs s [(116, False), (0x100000 - 116, True)]" by (rule one_block)
  then have "heap_rep s {(0x500010, 100)}" unfolding heap_rep_def
    by (intro exI [of _ "[(116, False), (0x100000 - 116, True)]"]) simp
  from ksize_live [OF this, of "0x500010" 100] have "unat (ksize 0x500010 s) = 100" by simp
  moreover have "heap_run fresh_heap {}"
    unfolding fresh_heap_def by (rule heap_run.init) (simp add: kheap_boot_def)
  ultimately have run: "heap_run s {(0x500010, 100)}"
    using heap_run.alloc_block [of fresh_heap "{}" 100 "0x500010" s] s(1) by simp
  with heap_run_sound [OF run] show ?thesis by (intro exI [of _ s]) auto
qed

text \<open>The requests the bound excludes really break the heap: a block that is its own successor.\<close>

lemma find_free_block_loop:
  assumes "blk_next m p = p" "\<not> blk_is_free m p" "p \<noteq> 0"
  shows "find_free_block m p n = None"
proof (rule ccontr)
  assume "find_free_block m p n \<noteq> None"
  then obtain r where r: "find_free_block m p n = Some r" by auto
  have "\<not> (m = m \<and> p = p)"
  proof (rule find_free_block.raw_induct [where P = "\<lambda>m' p' n' r. \<not> (m' = m \<and> p' = p)", OF _ r])
    fix f m' p' n' r'
    assume IH: "\<And>m' p' n' r. f m' p' n' = Some r \<Longrightarrow> \<not> (m' = m \<and> p' = p)"
      and eq: "(if p' \<noteq> 0 then if blk_is_free m' p' \<and> n' \<le> blk_size m' p' then Some p'
          else f m' (blk_next m' p') n' else Some 0) = Some r'"
    show "\<not> (m' = m \<and> p' = p)"
      using IH [of m p n' r'] eq assms by auto
  qed
  then show False by simp
qed

lemma unat_request_wrap:
  assumes "2 ^ 32 \<le> unat n + 19"
  shows "unat (((n + 3) AND NOT 3) + 16 :: u32) = request n - 2 ^ 32"
proof -
  have "(3 :: u32) = mask 2" by (simp add: mask_eq_exp_minus_1)
  then have a: "unat ((n + 3) AND NOT 3) = unat (n + 3) div 4 * 4" by (simp only: unat_and_not_mask) simp
  have lt: "unat n < 2 ^ 32" using unsigned_less [of n] by simp
  have n3: "unat (n + 3) = (unat n + 3) mod 2 ^ 32" by (simp add: unat_word_ariths)
  have "unat (((n + 3) AND NOT 3) + 16) = (unat ((n + 3) AND NOT 3) + 16) mod 2 ^ 32" by (simp add: unat_word_ariths)
  also have "\<dots> = request n - 2 ^ 32"
  proof (cases "unat n + 3 < 2 ^ 32")
    case True
    then show ?thesis unfolding a n3 request_def using assms by (auto simp: mod_if)
  next
    case False
    then have "(unat n + 3) div 4 = 2 ^ 30" "(unat n + 3) mod 2 ^ 32 div 4 = 0" using lt by (auto simp: mod_if)
    then show ?thesis unfolding a n3 request_def by simp
  qed
  finally show ?thesis .
qed

lemma find_free_block_used:
  "seg m a xs b \<Longrightarrow> \<forall>x \<in> set xs. \<not> snd x \<Longrightarrow> 0 < a \<Longrightarrow> b < HEAP_END \<Longrightarrow>
     find_free_block m (of_nat a) n = find_free_block m (of_nat b) n"
proof (induction xs arbitrary: a)
  case (Cons x xs)
  obtain sz where x: "x = (sz, False)" using Cons.prems(2) by (cases x) auto
  with Cons.prems have h: "hdr m a sz False" "seg m (a + sz) xs b" by auto
  then have le: "a + sz \<le> b" using seg_end by fastforce
  have "find_free_block m (of_nat a) n = find_free_block m (of_nat (a + sz)) n"
    using h(1) le Cons.prems(3,4) by (subst find_free_block.simps) (auto simp: hdr_def blk_defs)
  then show ?case using Cons.IH [OF h(2)] Cons.prems by simp
qed simp

lemma amalloc_first_free:
  assumes "\<forall>x \<in> set xs. \<not> snd x" "n \<le> z"
  shows "\<exists>bs'. amalloc n a (xs @ (z, True) # ys) = Some (a + sizes xs, bs')"
  using assms(1)
proof (induction xs arbitrary: a)
  case (Cons x xs)
  from Cons.IH [of "a + fst x"] Cons.prems show ?case by (cases x) (auto simp: add.assoc)
qed (simp add: assms(2))

lemma split_block_small:
  fixes m :: memory and t :: u32
  assumes h: "hdr m p z True" and p: "0 < p" "p + z \<le> HEAP_END" and t: "unat t \<le> 16" "4 dvd unat t"
  defines "m' \<equiv> set_is_free (split_block m (of_nat p) t) (of_nat p) False"
  shows "blk_size m' (of_nat p) = (if unat t + 32 \<le> z then t else of_nat z)" "\<not> blk_is_free m' (of_nat p)"
    "unat t + 32 \<le> z \<Longrightarrow> blk_next m' (of_nat p) = of_nat p + t"
    "\<And>x. x < p \<Longrightarrow> m' x = m x"
proof -
  have w: "unat (of_nat p :: u32) = p" "unat (of_nat z :: u32) = z" "unat (of_nat p + t :: u32) = p + unat t"
    "unat (t + 16 + 16) = unat t + 32"
    using p t by (simp_all add: unat_add_u32)
  have guard: "t + 16 + 16 \<le> (of_nat z :: u32) \<longleftrightarrow> unat t + 32 \<le> z" by (simp only: word_le_nat_alt w)
  from h have hd: "rd32 m p = of_nat z" by (auto simp: hdr_def)
  show "blk_size m' (of_nat p) = (if unat t + 32 \<le> z then t else of_nat z)" "\<not> blk_is_free m' (of_nat p)"
    "unat t + 32 \<le> z \<Longrightarrow> blk_next m' (of_nat p) = of_nat p + t"
    using w guard hd by (auto simp: m'_def split_block_def Let_def blk_defs mem_simps)
  show "m' x = m x" if "x < p" for x
    using w guard hd that by (auto simp: m'_def split_block_def Let_def blk_defs mem_simps)
qed

text \<open>
  C10. The size computation has no overflow check. On any sound heap with a free block, a request of
  \<open>2 ^ 32 - 19\<close> bytes or more is granted: rounded up and with its header it wraps around to \<open>t \<le> 16\<close> bytes, and
  the caller gets the first free block (at \<open>p\<close>, behind the allocated blocks \<open>xs\<close>), cut to \<open>t\<close> bytes header
  included, or left at its size \<open>z < t + 32\<close> when it is too small to cut. When \<open>t = 0\<close> and the block is cut, it
  becomes its own successor, and every later \<open>kmalloc\<close> of a non-zero size loops forever.
\<close>

theorem kmalloc_overflow:
  assumes abs: "heap_abs s (xs @ (z, True) # ys)" and used: "\<forall>b \<in> set xs. \<not> snd b" and n: "2 ^ 32 \<le> unat n + 19"
  shows "\<exists>s'. let p = HEAP_START + sizes xs; t = request n - 2 ^ 32 in
    kmalloc n s = kret (of_nat (p + 16), s') \<and> t \<le> 16
    \<and> unat (blk_size (mem s') (of_nat p)) = (if t + 32 \<le> z then t else z)
    \<and> (t = 0 \<and> 32 \<le> z \<longrightarrow> (\<forall>k. k \<noteq> 0 \<longrightarrow> kmalloc k s' = None))"
proof -
  note h = heap_absD [OF abs]
  note sp = seg_split [OF h(3), simplified]
  define p where "p = HEAP_START + sizes xs"
  define w where "w = ((n + 3) AND NOT 3) + 16"
  have w: "unat w = request n - 2 ^ 32" unfolding w_def by (rule unat_request_wrap [OF n])
  have "unat n < 2 ^ 32" using unsigned_less [of n] by simp
  then have "(unat n + 3) div 4 \<le> 2 ^ 30" by simp
  then have t: "request n - 2 ^ 32 \<le> 16" "4 dvd request n - 2 ^ 32" by (auto simp: request_def)
  have z: "16 \<le> z" "p + z \<le> HEAP_END" using h(5) [of "(z, True)"] sp(4) by (auto simp: p_def)
  have pne: "(of_nat p :: u32) \<noteq> 0" using z by (intro of_nat_heap_neq_0) (auto simp: p_def)
  define s' where "s' = s\<lparr>mem := set_is_free (split_block (mem s) (of_nat p) w) (of_nat p) False,
    total_allocated := total_allocated s + ((n + 3) AND NOT 3), num_allocations := num_allocations s + 1\<rparr>"
  note small = split_block_small [OF sp(2) [folded p_def], of w, unfolded w, OF _ z(2) t]
  have find: "find_free_block (mem s) (heap_start s) w = Some (of_nat p)"
    using find_free_block_seg [OF h(3), of w] amalloc_first_free [OF used, of "unat w" z HEAP_START ys] h(2) w t z
    by (auto simp: p_def)
  have "n \<noteq> 0" using n by auto
  then have ret: "kmalloc n s = kret (of_nat (p + 16), s')"
    using find pne h(1) by (simp add: kmalloc_def kmalloc_ready Let_def w_def s'_def)
  have loop: "kmalloc k s' = None" if "request n - 2 ^ 32 = 0" "32 \<le> z" "k \<noteq> 0" for k
  proof -
    have "w = 0" using that(1) w by (simp add: unat_eq_zero)
    then have self: "blk_next (mem s') (of_nat p) = of_nat p" "\<not> blk_is_free (mem s') (of_nat p)"
      using small that by (auto simp: s'_def p_def)
    have "seg (mem s') HEAP_START xs p"
      using small(4) sp(1) by (intro seg_cong [OF sp(1) [folded p_def]]) (auto simp: s'_def p_def)
    then have "find_free_block (mem s') (heap_start s') i = None" for i
      using find_free_block_used [of "mem s'" HEAP_START xs p i] used z h(2) find_free_block_loop [OF self pne]
      by (simp add: hp_def s'_def)
    then show ?thesis using that(3) h(1) by (simp add: kmalloc_def kmalloc_ready s'_def)
  qed
  have sz: "unat (blk_size (mem s') (of_nat p)) = (if request n - 2 ^ 32 + 32 \<le> z then request n - 2 ^ 32 else z)"
    using small(1) z w by (simp add: s'_def p_def)
  show ?thesis
    unfolding Let_def p_def [symmetric] by (intro exI [of _ s'] conjI ret t(1) sz) (use loop in blast)
qed

theorem kmalloc_overflow_witness:
  "\<exists>s. kmalloc 0xFFFFFFF0 fresh_heap = kret (0x500010, s) \<and> blk_size (mem s) 0x500000 = 0
     \<and> (\<forall>k. k \<noteq> 0 \<longrightarrow> kmalloc k s = None)"
proof -
  have "heap_abs fresh_heap ([] @ (HEAP_SIZE, True) # [])" using fresh_heap_abs by simp
  from kmalloc_overflow [OF this, of "0xFFFFFFF0"] show ?thesis
    by (auto simp: Let_def request_def unat_eq_zero)
qed
text \<open>
  Aligned allocation: with a power-of-two alignment the result of \<open>kmalloc_aligned\<close> is a
  multiple of it and the bytes asked for, from that address, lie inside one allocated block.
\<close>

theorem kmalloc_aligned_safe:
  assumes abs: "heap_abs s bs" and sz: "sz \<noteq> 0" "unat sz + 2 ^ k + 19 < 2 ^ 32" and k: "k < 32"
    and ret: "kmalloc_aligned sz (2 ^ k) s = kret (ptr, s')" and ptr: "ptr \<noteq> 0"
  shows "\<exists>bs' q len. heap_abs s' bs' \<and> 2 ^ k dvd unat ptr \<and> (q, len) \<in> live bs'
    \<and> q \<le> unat ptr \<and> unat ptr + unat sz \<le> q + len
    \<and> {q ..< q + len} \<inter> live_bytes (live bs) = {}"
proof -
  have u: "unat (2 ^ k :: u32) = 2 ^ k" "unat (sz + 2 ^ k) = unat sz + 2 ^ k"
    using k sz(2) by (auto simp: unat_add_u32 unat_exp_u32)
  then have n: "sz + 2 ^ k \<noteq> 0" "unat (sz + 2 ^ k) + 19 < 2 ^ 32" using sz by auto
  from ret obtain p0 where p0: "kmalloc (sz + 2 ^ k) s = kret (p0, s')" "p0 \<noteq> 0"
    and eq: "ptr = (p0 + 2 ^ k - 1) AND NOT (2 ^ k - 1)"
    using ptr by (auto simp: kmalloc_aligned_def kbind_eq_kret split: if_splits)
  from kmalloc_step [OF abs n] p0 obtain p bs'
    where am: "amalloc (request (sz + 2 ^ k)) HEAP_START bs = Some (p, bs')"
      and p: "p0 = of_nat (p + 16)" and s': "heap_abs s' bs'"
    by (auto simp: heap_abs_update split: option.splits)
  obtain len where len: "unat (sz + 2 ^ k) \<le> len" "live bs' = insert (p + 16, len) (live bs)"
    "p + 16 + len \<le> HEAP_END" "HEAP_START \<le> p" "4 dvd p"
    "{p + 16 ..< p + 16 + len} \<inter> live_bytes (live bs) = {}"
    by (rule live_amalloc [OF abs am])
  have up0: "unat p0 = p + 16" using len(3) by (simp add: p del: of_nat_add)
  have "unat p0 + 2 ^ k < 2 ^ 32" using len(1,3) u up0 by simp
  note al = unat_align_up [OF this k, folded eq]
  have "unat ptr + unat sz \<le> p + 16 + len" using al(3) len(1) u up0 by simp
  with al up0 len s' show ?thesis
    by (intro exI [of _ bs'] exI [of _ "p + 16"] exI [of _ len]) simp
qed

theorem kmalloc_aligned_safe_witness:
  "\<exists>ptr s' bs' q len. kmalloc_aligned 4096 (2 ^ 12) fresh_heap = kret (ptr, s') \<and> ptr = 0x501000
     \<and> heap_abs s' bs' \<and> (q, len) \<in> live bs' \<and> q \<le> unat ptr \<and> unat ptr + 4096 \<le> q + len"
proof -
  have "amalloc (request 8192) HEAP_START [(HEAP_SIZE, True)] =
      Some (HEAP_START, [(8208, False), (0x100000 - 8208, True)])"
    by (simp add: request_def)
  with kmalloc_step [OF fresh_heap_abs, of 8192] obtain s'
    where "kmalloc 8192 fresh_heap = kret (0x500010, s')" by auto
  then have s': "kmalloc_aligned 4096 (2 ^ 12) fresh_heap = kret (0x501000, s')"
    by (simp add: kmalloc_aligned_def)
  from kmalloc_aligned_safe [OF fresh_heap_abs _ _ _ s'] s' show ?thesis by auto
qed

end
