(* ===== verification/KFS_Paging.thy ===== *)
theory KFS_Paging
  imports KFS_Kmalloc
begin

text \<open>
  Paging, \<open>src/paging.c\<close>. Page directories and page tables are arrays of 1024 words in physical
  memory; the kernel's own directory and its two tables are static objects, whose addresses the
  linker chooses (fields of the state), the others come from \<open>kmalloc_aligned\<close>. The address walk of
  the processor is \<open>walk\<close>; there is no model of the TLB, so \<open>invlpg\<close> does nothing. The lemmas show
  that \<open>paging_init\<close> maps the first 8 MB to themselves and nothing else, that mapping and unmapping
  change the translation of one page only, and what goes wrong when a directory is destroyed.
\<close>

section \<open>State\<close>

abbreviation (input) PAGE_SIZE :: u32 where "PAGE_SIZE \<equiv> 4096"
abbreviation (input) PAGE_ENTRIES :: nat where "PAGE_ENTRIES \<equiv> 1024"
abbreviation (input) PAGE_PRESENT :: u32 where "PAGE_PRESENT \<equiv> 1"
abbreviation (input) PAGE_WRITE :: u32 where "PAGE_WRITE \<equiv> 2"
abbreviation (input) PAGE_USER :: u32 where "PAGE_USER \<equiv> 4"

record paging = kheap +
  kernel_directory :: u32
  kernel_table_0 :: u32
  kernel_table_1 :: u32
  current_directory :: u32
  cr3 :: u32
  cr0 :: u32

text \<open>The statics before anything runs, with the link-time addresses of the static tables; the boot
  loader enters the kernel in protected mode (bit 0 of \<open>cr0\<close>) without paging.\<close>

definition paging_boot :: "hardware \<Rightarrow> u32 \<Rightarrow> u32 \<Rightarrow> u32 \<Rightarrow> paging" where
  "paging_boot h kd t0 t1 = \<lparr>mem = (\<lambda>_. 0), hw = h, heap_start = 0, heap_initialized = False,
     total_allocated = 0, total_freed = 0, num_allocations = 0, kernel_directory = kd,
     kernel_table_0 = t0, kernel_table_1 = t1, current_directory = 0, cr3 = 0, cr0 = 1\<rparr>"

text \<open>Entry \<open>i\<close> of a directory or a table.\<close>

definition entry :: "memory \<Rightarrow> u32 \<Rightarrow> nat \<Rightarrow> u32" where
  "entry m dir i = rd32 m (unat dir + 4 * i)"

definition set_entry :: "memory \<Rightarrow> u32 \<Rightarrow> nat \<Rightarrow> u32 \<Rightarrow> memory" where
  "set_entry m dir i v = wr32 m (unat dir + 4 * i) v"

abbreviation present :: "u32 \<Rightarrow> bool" where
  "present e \<equiv> e AND PAGE_PRESENT \<noteq> 0"

definition frame :: "u32 \<Rightarrow> u32" where
  "frame e = e AND NOT 0xFFF"

definition dir_index :: "u32 \<Rightarrow> nat" where
  "dir_index virt_addr = unat (drop_bit 22 virt_addr)"

definition table_index :: "u32 \<Rightarrow> nat" where
  "table_index virt_addr = unat (drop_bit 12 virt_addr AND 0x3FF)"

section \<open>Kernel paging\<close>

definition paging_init :: "'a paging_scheme \<Rightarrow> 'a paging_scheme" where
  "paging_init s =
     (let kd = kernel_directory s; t0 = kernel_table_0 s; t1 = kernel_table_1 s;
          m1 = memset (memset (memset (mem s) (unat kd) 0 4096) (unat t0) 0 4096) (unat t1) 0 4096;
          m2 = fold (\<lambda>i m. set_entry m t0 i
                 ((of_nat i * PAGE_SIZE) OR PAGE_PRESENT OR PAGE_WRITE)) [0..<PAGE_ENTRIES] m1;
          m3 = fold (\<lambda>i m. set_entry m t1 i
                 ((of_nat (PAGE_ENTRIES + i) * PAGE_SIZE) OR PAGE_PRESENT OR PAGE_WRITE))
                 [0..<PAGE_ENTRIES] m2;
          m4 = set_entry m3 kd 0 (t0 OR PAGE_PRESENT OR PAGE_WRITE);
          m5 = set_entry m4 kd 1 (t1 OR PAGE_PRESENT OR PAGE_WRITE)
      in kernel_info ''Paging initialized (identity mapped first 8MB)''
           (s\<lparr>mem := m5, current_directory := kd\<rparr>))"

definition paging_enable :: "'a paging_scheme \<Rightarrow> 'a paging_scheme kresult" where
  "paging_enable s =
     (if current_directory s = 0 then kernel_panic ''Cannot enable paging: no page directory set''
      else kret (kernel_info ''Paging enabled''
        (s\<lparr>cr3 := kernel_directory s, cr0 := cr0 s OR 0x80000000\<rparr>)))"

definition paging_get_directory :: "'a paging_scheme \<Rightarrow> u32" where
  "paging_get_directory s = current_directory s"

definition paging_map_page :: "u32 \<Rightarrow> u32 \<Rightarrow> u32 \<Rightarrow> 'a paging_scheme \<Rightarrow> 'a paging_scheme kresult" where
  "paging_map_page virt_addr phys_addr flags s =
     (let pde = entry (mem s) (current_directory s) (dir_index virt_addr) in
      if \<not> present pde then kernel_panic ''Cannot map page: page table not present''
      else kret (s\<lparr>mem := set_entry (mem s) (frame pde) (table_index virt_addr)
        (frame phys_addr OR (flags AND 0xFFF) OR PAGE_PRESENT)\<rparr>))"

definition paging_unmap_page :: "u32 \<Rightarrow> 'a paging_scheme \<Rightarrow> 'a paging_scheme" where
  "paging_unmap_page virt_addr s =
     (let pde = entry (mem s) (current_directory s) (dir_index virt_addr) in
      if \<not> present pde then s
      else s\<lparr>mem := set_entry (mem s) (frame pde) (table_index virt_addr) 0\<rparr>)"

definition paging_get_physical_address :: "u32 \<Rightarrow> 'a paging_scheme \<Rightarrow> u32" where
  "paging_get_physical_address virt_addr s =
     (let pde = entry (mem s) (current_directory s) (dir_index virt_addr) in
      if \<not> present pde then 0
      else
        let pte = entry (mem s) (frame pde) (table_index virt_addr) in
        if \<not> present pte then 0 else frame pte OR (virt_addr AND 0xFFF))"

text \<open>\<open>cr2\<close> is the faulting address the processor reports.\<close>

definition page_fault_handler :: "u32 \<Rightarrow> 'a paging_scheme \<Rightarrow> 'a paging_scheme kresult" where
  "page_fault_handler cr2 s =
     (let s' = printk ''\<newline>Page fault at address: 0x%x\<newline>'' [KUInt cr2] s
      in kernel_panic ''Page fault'')"

section \<open>Directories of processes\<close>

definition paging_alloc_table :: "'a paging_scheme \<Rightarrow> (u32 \<times> 'a paging_scheme) kresult" where
  "paging_alloc_table s =
     kbind (kmalloc_aligned 4096 PAGE_SIZE s) (\<lambda>(table, s1).
       if table = 0 then kret (0, s1)
       else kret (table, s1\<lparr>mem := memset (mem s1) (unat table) 0 4096\<rparr>))"

definition paging_create_directory :: "'a paging_scheme \<Rightarrow> (u32 \<times> 'a paging_scheme) kresult" where
  "paging_create_directory s =
     kbind (kmalloc_aligned 4096 PAGE_SIZE s) (\<lambda>(dir, s1).
       if dir = 0 then kret (0, s1)
       else
         let m1 = memset (mem s1) (unat dir) 0 4096;
             m2 = set_entry m1 dir 0 (entry m1 (kernel_directory s1) 0);
             m3 = set_entry m2 dir 1 (entry m2 (kernel_directory s1) 1)
         in kret (dir, s1\<lparr>mem := m3\<rparr>))"

definition destroy_page :: "u32 \<Rightarrow> nat \<Rightarrow> 'a paging_scheme \<Rightarrow> 'a paging_scheme kresult" where
  "destroy_page table j s =
     (if present (entry (mem s) table j) then kfree (frame (entry (mem s) table j)) s else kret s)"

definition destroy_table :: "u32 \<Rightarrow> nat \<Rightarrow> 'a paging_scheme \<Rightarrow> 'a paging_scheme kresult" where
  "destroy_table dir i s =
     (if present (entry (mem s) dir i) then
        let table = frame (entry (mem s) dir i)
        in kbind (kfold (destroy_page table) [0..<PAGE_ENTRIES] s) (kfree table)
      else kret s)"

definition paging_destroy_directory :: "u32 \<Rightarrow> 'a paging_scheme \<Rightarrow> 'a paging_scheme kresult" where
  "paging_destroy_directory dir s =
     (if dir = 0 then kret s
      else kbind (kfold (destroy_table dir) [2..<PAGE_ENTRIES] s) (kfree dir))"

text \<open>The inner loop of the clone, over the pages of one table; \<open>False\<close> when a page could not be
  allocated.\<close>

fun clone_pages :: "u32 \<Rightarrow> u32 \<Rightarrow> nat list \<Rightarrow> 'a paging_scheme \<Rightarrow> (bool \<times> 'a paging_scheme) kresult" where
  "clone_pages src_table dst_table [] s = kret (True, s)"
| "clone_pages src_table dst_table (j # js) s =
     (if present (entry (mem s) src_table j) then
        kbind (kmalloc PAGE_SIZE s) (\<lambda>(new_phys, s1).
          if new_phys = 0 then kret (False, s1)
          else
            let src_phys = frame (entry (mem s1) src_table j);
                m1 = memcpy (mem s1) (unat new_phys) (unat src_phys) 4096;
                m2 = set_entry m1 dst_table j (new_phys OR (entry m1 src_table j AND 0xFFF))
            in clone_pages src_table dst_table js (s1\<lparr>mem := m2\<rparr>))
      else clone_pages src_table dst_table js (s\<lparr>mem := set_entry (mem s) dst_table j 0\<rparr>))"

fun clone_tables :: "u32 \<Rightarrow> u32 \<Rightarrow> nat list \<Rightarrow> 'a paging_scheme \<Rightarrow> (u32 \<times> 'a paging_scheme) kresult" where
  "clone_tables src dst [] s = kret (dst, s)"
| "clone_tables src dst (i # is) s =
     (if present (entry (mem s) src i) then
        let src_table = frame (entry (mem s) src i) in
        kbind (paging_alloc_table s) (\<lambda>(dst_table, s1).
          if dst_table = 0 then
            kbind (paging_destroy_directory dst s1) (\<lambda>s2. kret (0, s2))
          else
            kbind (clone_pages src_table dst_table [0..<PAGE_ENTRIES] s1) (\<lambda>(ok, s2).
              if \<not> ok then
                kbind (kfree dst_table s2) (\<lambda>s3.
                  kbind (paging_destroy_directory dst s3) (\<lambda>s4. kret (0, s4)))
              else clone_tables src dst is
                (s2\<lparr>mem := set_entry (mem s2) dst i
                   (dst_table OR (entry (mem s2) src i AND 0xFFF))\<rparr>)))
      else clone_tables src dst is s)"

definition paging_clone_directory :: "u32 \<Rightarrow> 'a paging_scheme \<Rightarrow> (u32 \<times> 'a paging_scheme) kresult" where
  "paging_clone_directory src s =
     (if src = 0 then kret (0, s)
      else kbind (kmalloc_aligned 4096 PAGE_SIZE s) (\<lambda>(dst, s1).
        if dst = 0 then kret (0, s1)
        else
          let m1 = memset (mem s1) (unat dst) 0 4096;
              m2 = set_entry m1 dst 0 (entry m1 src 0);
              m3 = set_entry m2 dst 1 (entry m2 src 1)
          in clone_tables src dst [2..<PAGE_ENTRIES] (s1\<lparr>mem := m3\<rparr>)))"

definition paging_map_page_in_directory ::
  "u32 \<Rightarrow> u32 \<Rightarrow> u32 \<Rightarrow> u32 \<Rightarrow> 'a paging_scheme \<Rightarrow> 'a paging_scheme kresult" where
  "paging_map_page_in_directory dir virt_addr phys_addr flags s =
     (if dir = 0 then kret s
      else
        kbind (if \<not> present (entry (mem s) dir (dir_index virt_addr)) then
                 kbind (paging_alloc_table s) (\<lambda>(table, s1).
                   if table = 0 then kernel_panic ''Cannot allocate page table''
                   else kret (s1\<lparr>mem := set_entry (mem s1) dir (dir_index virt_addr)
                     (table OR PAGE_PRESENT OR PAGE_WRITE OR flags)\<rparr>))
               else kret s)
          (\<lambda>s2. kret (s2\<lparr>mem := set_entry (mem s2)
            (frame (entry (mem s2) dir (dir_index virt_addr))) (table_index virt_addr)
            (frame phys_addr OR (flags AND 0xFFF) OR PAGE_PRESENT)\<rparr>)))"

definition paging_switch_directory :: "u32 \<Rightarrow> 'a paging_scheme \<Rightarrow> 'a paging_scheme" where
  "paging_switch_directory dir s =
     (if dir = 0 then s else s\<lparr>current_directory := dir, cr3 := dir\<rparr>)"

section \<open>The address walk of the processor\<close>

definition walk :: "memory \<Rightarrow> u32 \<Rightarrow> u32 \<Rightarrow> u32 option" where
  "walk m dir virt =
     (let pde = entry m dir (dir_index virt) in
      if \<not> present pde then None
      else
        let pte = entry m (frame pde) (table_index virt) in
        if \<not> present pte then None else Some (frame pte OR (virt AND 0xFFF)))"

definition page_aligned :: "u32 \<Rightarrow> bool" where
  "page_aligned d \<longleftrightarrow> 4096 dvd unat d"

text \<open>A directory whose tables are all different, and different from the directory.\<close>

definition dir_ok :: "memory \<Rightarrow> u32 \<Rightarrow> bool" where
  "dir_ok m dir \<longleftrightarrow> page_aligned dir \<and> (\<forall>i < PAGE_ENTRIES. present (entry m dir i) \<longrightarrow>
     frame (entry m dir i) \<noteq> dir \<and> (\<forall>j < PAGE_ENTRIES. present (entry m dir j) \<longrightarrow>
       frame (entry m dir j) = frame (entry m dir i) \<longrightarrow> j = i))"

section \<open>Lemmas: entries\<close>

lemma mask12: "(0xFFF :: u32) = mask 12"
  by (simp add: mask_eq_exp_minus_1)

lemma frame_aligned: "page_aligned (frame e)"
  unfolding frame_def mask12 page_aligned_def by (simp only: unat_and_not_mask) simp

lemma frame_id: "page_aligned d \<Longrightarrow> frame d = d"
  unfolding frame_def mask12 page_aligned_def
  by (simp add: word_unat_eq_iff unat_and_not_mask)

lemma dir_index_bound [simp]: "dir_index v < 1024"
proof -
  have "unat (drop_bit 22 v) = unat v div 2 ^ 22"
    by (rule unat_drop_bit)
  then show ?thesis using unsigned_less [of v, where ?'a = nat] by (simp add: dir_index_def less_mult_imp_div_less)
qed

lemma table_index_eq: "table_index v = unat v div 4096 mod 1024"
proof -
  have m: "(0x3FF :: u32) = mask 10" by (simp add: mask_eq_exp_minus_1)
  show ?thesis unfolding table_index_def m take_bit_eq_mask [symmetric]
    by (simp add: unat_take_bit unat_drop_bit)
qed

lemma table_index_bound [simp]: "table_index v < 1024"
  by (simp add: table_index_eq)

lemma dir_index_eq: "dir_index v = unat v div 4096 div 1024"
  by (simp add: dir_index_def unat_drop_bit div_mult2_eq [symmetric])

lemma same_page:
  "dir_index v = dir_index v' \<and> table_index v = table_index v' \<longleftrightarrow> frame v = frame v'"
proof -
  have "frame v = frame v' \<longleftrightarrow> unat v div 4096 = unat v' div 4096"
    unfolding frame_def mask12 by (simp add: word_unat_eq_iff unat_and_not_mask)
  also have "\<dots> \<longleftrightarrow> unat v div 4096 div 1024 = unat v' div 4096 div 1024
      \<and> unat v div 4096 mod 1024 = unat v' div 4096 mod 1024"
    by (metis div_mod_decomp)
  finally show ?thesis by (simp add: dir_index_eq table_index_eq)
qed

lemma entry_set_same [simp]: "entry (set_entry m d i v) d i = v"
  by (simp add: entry_def set_entry_def)

lemma aligned_words:
  fixes a b i j :: nat
  assumes "4096 dvd a" "4096 dvd b" "i < 1024" "j < 1024" "a \<noteq> b \<or> i \<noteq> j"
  shows "a + 4 * i + 4 \<le> b + 4 * j \<or> b + 4 * j + 4 \<le> a + 4 * i"
proof -
  obtain x y where xy: "a = 4096 * x" "b = 4096 * y" using assms(1,2) unfolding dvd_def by blast
  consider "x = y" | "x < y" | "y < x" by linarith
  then show ?thesis using assms(3-5) xy by cases auto
qed

lemma entry_set_other:
  assumes "page_aligned d" "page_aligned d'" "i < 1024" "j < 1024" "d \<noteq> d' \<or> i \<noteq> j"
  shows "entry (set_entry m d i v) d' j = entry m d' j"
proof -
  from assms(5) have "unat d \<noteq> unat d' \<or> i \<noteq> j" by (simp add: word_unat_eq_iff)
  from aligned_words [OF assms(1,2) [unfolded page_aligned_def] assms(3,4) this]
  show ?thesis by (auto simp: entry_def set_entry_def intro: rd32_wr32_other)
qed

lemma entry_memset_same: "i < 1024 \<Longrightarrow> entry (memset m (unat d) 0 4096) d i = 0"
  by (simp add: entry_def rd32_memset0)

lemma entry_memset_other:
  assumes "page_aligned d" "page_aligned d'" "j < 1024" "d \<noteq> d'"
  shows "entry (memset m (unat d) v 4096) d' j = entry m d' j"
proof -
  obtain x y where xy: "unat d = 4096 * x" "unat d' = 4096 * y"
    using assms(1,2) unfolding page_aligned_def dvd_def by blast
  with assms(4) have "x \<noteq> y" by (auto simp: word_unat_eq_iff)
  then have "x < y \<or> y < x" by auto
  then show ?thesis using xy assms(3) by (auto simp: entry_def intro!: rd32_memset_other)
qed

lemma present_bit: "present x \<longleftrightarrow> bit x 0"
  by (metis and_exp_eq_0_iff_not_bit power_0)

lemma present_or [simp]: "present (x OR y) \<longleftrightarrow> present x \<or> present y"
  unfolding present_bit by (simp add: bit_simps)

lemma pte_bits:
  "frame (frame x OR (f AND 0xFFF) OR PAGE_PRESENT) = frame x"
  "frame (frame x OR 3) = frame x"
proof -
  have 3: "(3 :: u32) = mask 2" by (simp add: mask_eq_exp_minus_1)
  show "frame (frame x OR (f AND 0xFFF) OR PAGE_PRESENT) = frame x" "frame (frame x OR 3) = frame x"
    unfolding frame_def 3 mask12 by (rule bit_word_eqI; auto simp: bit_simps)+
qed

lemma frame_offset: "frame x OR (x AND 0xFFF) = x"
  unfolding frame_def mask12 by (rule bit_word_eqI) (auto simp: bit_simps)

section \<open>Lemmas: translations\<close>

text \<open>Setting an entry of a table of a directory changes the translation of one page.\<close>

lemma walk_set_pte:
  fixes e :: u32
  assumes ok: "dir_ok m dir" and pr: "present (entry m dir (dir_index v))"
  defines "m' \<equiv> set_entry m (frame (entry m dir (dir_index v))) (table_index v) e"
  shows "dir_ok m' dir"
    "walk m' dir v' = (if frame v' = frame v
       then (if present e then Some (frame e OR (v' AND 0xFFF)) else None) else walk m dir v')"
    "i < PAGE_ENTRIES \<Longrightarrow> entry m' dir i = entry m dir i"
proof -
  have dir: "page_aligned dir" and ne: "frame (entry m dir (dir_index v)) \<noteq> dir"
    using ok pr by (auto simp: dir_ok_def)
  have pde: "entry m' dir i = entry m dir i" if "i < 1024" for i
    unfolding m'_def using that dir ne by (intro entry_set_other frame_aligned) auto
  then show "i < PAGE_ENTRIES \<Longrightarrow> entry m' dir i = entry m dir i" by simp
  show "dir_ok m' dir" using ok pde by (simp add: dir_ok_def)
  have pte: "entry m' (frame (entry m dir (dir_index v'))) (table_index v') =
      (if frame v' = frame v then e else entry m (frame (entry m dir (dir_index v'))) (table_index v'))"
    if "present (entry m dir (dir_index v'))"
  proof (cases "frame v' = frame v")
    case True
    then have "dir_index v' = dir_index v" "table_index v' = table_index v"
      using same_page [of v' v] by auto
    with True show ?thesis by (simp add: m'_def)
  next
    case False
    then have "dir_index v' \<noteq> dir_index v \<or> table_index v' \<noteq> table_index v"
      using same_page [of v' v] by auto
    then have "frame (entry m dir (dir_index v)) \<noteq> frame (entry m dir (dir_index v'))
        \<or> table_index v \<noteq> table_index v'"
      using ok pr that dir_index_bound unfolding dir_ok_def by metis
    with False show ?thesis
      unfolding m'_def by (simp add: entry_set_other frame_aligned)
  qed
  show "walk m' dir v' = (if frame v' = frame v
       then (if present e then Some (frame e OR (v' AND 0xFFF)) else None) else walk m dir v')"
  proof (cases "present (entry m dir (dir_index v'))")
    case True
    then show ?thesis by (simp add: walk_def pde pte Let_def)
  next
    case False
    then have "frame v' \<noteq> frame v" using pr same_page [of v' v] by metis
    with False show ?thesis by (simp add: walk_def pde)
  qed
qed

lemma get_physical_address_walk:
  "paging_get_physical_address v s =
     (case walk (mem s) (current_directory s) v of None \<Rightarrow> 0 | Some p \<Rightarrow> p)"
  by (simp add: paging_get_physical_address_def walk_def Let_def)

lemma entry_fill_same:
  assumes "page_aligned t" "n \<le> 1024" "j < 1024"
  shows "entry (fold (\<lambda>i m. set_entry m t i (f i)) [0..<n] m) t j =
    (if j < n then f j else entry m t j)"
  using assms(2)
proof (induction n)
  case (Suc n)
  with assms(1,3) show ?case by (cases "j = n") (auto simp: entry_set_other)
qed simp

lemma entry_fill_other:
  assumes "page_aligned t" "page_aligned d" "t \<noteq> d" "n \<le> 1024" "j < 1024"
  shows "entry (fold (\<lambda>i m. set_entry m t i (f i)) [0..<n] m) d j = entry m d j"
  using assms(4)
proof (induction n)
  case (Suc n)
  with assms show ?case by (simp add: entry_set_other)
qed simp

lemma unat_page: "j < 2 ^ 20 \<Longrightarrow> unat (of_nat j * 4096 :: u32) = j * 4096"
proof -
  assume "j < 2 ^ 20"
  then have "unat (of_nat (j * 4096) :: u32) = j * 4096"
    by (simp only: unsigned_of_nat) (simp add: take_bit_nat_eq_self)
  then show ?thesis by simp
qed

lemma page_of: "of_nat (unat v div 4096) * 4096 = frame v"
proof -
  have "unat v div 4096 < 2 ^ 20"
    using unsigned_less [of v, where ?'a = nat] by (simp add: less_mult_imp_div_less)
  from unat_page [OF this] show ?thesis
    unfolding frame_def mask12 by (simp add: word_unat_eq_iff unat_and_not_mask)
qed

definition statics_ok :: "'a paging_scheme \<Rightarrow> bool" where
  "statics_ok s \<longleftrightarrow> page_aligned (kernel_directory s) \<and> page_aligned (kernel_table_0 s)
     \<and> page_aligned (kernel_table_1 s) \<and> distinct [kernel_directory s, kernel_table_0 s, kernel_table_1 s]"

lemma paging_init_entries:
  fixes s :: "'a paging_scheme"
  assumes "statics_ok s"
  defines "m \<equiv> mem (paging_init s)"
  shows "entry m (kernel_directory s) 0 = kernel_table_0 s OR 3"
    "entry m (kernel_directory s) 1 = kernel_table_1 s OR 3"
    "2 \<le> i \<Longrightarrow> i < 1024 \<Longrightarrow> entry m (kernel_directory s) i = 0"
    "i < 1024 \<Longrightarrow> entry m (kernel_table_0 s) i = (of_nat i * 4096) OR 3"
    "i < 1024 \<Longrightarrow> entry m (kernel_table_1 s) i = (of_nat (1024 + i) * 4096) OR 3"
proof -
  let ?k = "kernel_directory s" and ?t = "kernel_table_0 s" and ?u = "kernel_table_1 s"
  have "page_aligned ?k" "page_aligned ?t" "page_aligned ?u"
      "?k \<noteq> ?t" "?k \<noteq> ?u" "?t \<noteq> ?u" "?t \<noteq> ?k" "?u \<noteq> ?k" "?u \<noteq> ?t"
    using assms(1) by (auto simp: statics_ok_def)
  note simps = this entry_set_other entry_fill_same entry_fill_other entry_memset_same
      entry_memset_other paging_init_def Let_def
  show "entry m ?k 0 = ?t OR 3" "entry m ?k 1 = ?u OR 3"
    "2 \<le> i \<Longrightarrow> i < 1024 \<Longrightarrow> entry m ?k i = 0"
    "i < 1024 \<Longrightarrow> entry m ?t i = (of_nat i * 4096) OR 3"
    "i < 1024 \<Longrightarrow> entry m ?u i = (of_nat (1024 + i) * 4096) OR 3"
    unfolding m_def
    by (simp_all add: simps del: upt_conv_Cons upt_rec_numeral of_nat_add)
qed

lemma paging_init_directory [simp]: "current_directory (paging_init s) = kernel_directory s"
  by (simp add: paging_init_def Let_def)

lemma paging_init_walk:
  assumes "statics_ok s"
  shows "walk (mem (paging_init s)) (current_directory (paging_init s)) v =
    (if unat v < 0x800000 then Some v else None)"
proof -
  note e = paging_init_entries [OF assms]
  have fr: "frame (kernel_table_0 s OR 3) = kernel_table_0 s"
      "frame (kernel_table_1 s OR 3) = kernel_table_1 s"
    using assms pte_bits(2) [of "kernel_table_0 s"] pte_bits(2) [of "kernel_table_1 s"] frame_id
    by (auto simp: statics_ok_def)
  have pg: "frame (of_nat (unat v div 4096) * 4096 OR 3) OR (v AND 0xFFF) = v"
    by (simp add: page_of pte_bits frame_offset)
  have k: "unat v div 4096 = 1024 * dir_index v + table_index v"
    by (simp add: dir_index_eq table_index_eq)
  consider "dir_index v = 0" | "dir_index v = 1" | "2 \<le> dir_index v" by linarith
  then show ?thesis
  proof cases
    case 1
    then have "unat v < 0x800000" by (simp add: dir_index_eq)
    with 1 k pg e(1) e(4) [of "table_index v"] fr show ?thesis
      by (simp add: walk_def Let_def)
  next
    case 2
    then have "unat v < 0x800000" by (simp add: dir_index_eq)
    with 2 k pg e(2) e(5) [of "table_index v"] fr show ?thesis
      by (simp add: walk_def Let_def del: of_nat_add)
  next
    case 3
    then have "\<not> unat v < 0x800000" by (simp add: dir_index_eq)
    with 3 e(3) [of "dir_index v"] show ?thesis by (simp add: walk_def)
  qed
qed

text \<open>
  C12. \<open>paging_init\<close> identity-maps the first 8 MB and nothing more: wherever the linker puts the
  kernel's directory and its two tables (page-aligned, as declared, and distinct), afterwards every
  virtual address below \<open>0x800000\<close> translates to itself and every other address is unmapped. In
  particular the heap at 5 MB stays reachable at its physical addresses.
\<close>

theorem paging_init_identity:
  assumes "statics_ok s"
  shows "walk (mem (paging_init s)) (current_directory (paging_init s)) v =
    (if unat v < 0x800000 then Some v else None)"
  by (rule paging_init_walk [OF assms])

definition paging_example :: paging where
  "paging_example = paging_boot power_on 0x110000 0x111000 0x112000"

lemma paging_example_ok: "statics_ok paging_example"
  by (simp add: paging_example_def paging_boot_def statics_ok_def page_aligned_def)

theorem paging_init_identity_witness:
  "walk (mem (paging_init paging_example)) (current_directory (paging_init paging_example)) 0x500010
     = Some 0x500010"
  using paging_init_identity [OF paging_example_ok, of "0x500010"] by simp

lemma dir_ok_init:
  assumes "statics_ok s"
  shows "dir_ok (mem (paging_init s)) (kernel_directory s)"
proof -
  note e = paging_init_entries [OF assms]
  have st: "page_aligned (kernel_directory s)" "kernel_directory s \<noteq> kernel_table_0 s"
      "kernel_directory s \<noteq> kernel_table_1 s" "kernel_table_0 s \<noteq> kernel_table_1 s"
    using assms by (auto simp: statics_ok_def)
  have fr: "frame (kernel_table_0 s OR 3) = kernel_table_0 s"
      "frame (kernel_table_1 s OR 3) = kernel_table_1 s"
    using assms pte_bits(2) [of "kernel_table_0 s"] pte_bits(2) [of "kernel_table_1 s"] frame_id
    by (auto simp: statics_ok_def)
  have "i = 0 \<or> i = 1" if "present (entry (mem (paging_init s)) (kernel_directory s) i)" "i < 1024" for i
    using that e(3) [of i] by (cases "2 \<le> i") auto
  with st fr e(1,2) show ?thesis unfolding dir_ok_def by (metis One_nat_def)
qed

text \<open>
  C11. Mapping and unmapping act on one page of the current directory. In a directory whose tables
  are distinct, \<open>paging_map_page\<close> panics exactly when the directory has no table for the address;
  otherwise every address of that page translates into the given frame at its own offset,
  \<open>paging_unmap_page\<close> leaves the page without translation (and \<open>paging_get_physical_address\<close> 0), and
  the translation of every other address is what it was.
\<close>

theorem paging_map_unmap:
  fixes s :: "'a paging_scheme"
  assumes ok: "dir_ok (mem s) (current_directory s)"
  shows "(if present (entry (mem s) (current_directory s) (dir_index v)) then
      \<exists>m. paging_map_page v phys flags s = kret (s\<lparr>mem := m\<rparr>) \<and> dir_ok m (current_directory s)
        \<and> (\<forall>v'. walk m (current_directory s) v' =
            (if frame v' = frame v then Some (frame phys OR (v' AND 0xFFF))
             else walk (mem s) (current_directory s) v'))
      else paging_map_page v phys flags s = kernel_panic ''Cannot map page: page table not present'')
    \<and> (\<forall>v'. walk (mem (paging_unmap_page v s)) (current_directory s) v' =
        (if frame v' = frame v then None else walk (mem s) (current_directory s) v'))
    \<and> paging_get_physical_address v (paging_unmap_page v s) = 0"
proof (cases "present (entry (mem s) (current_directory s) (dir_index v))")
  case True
  let ?e = "frame phys OR (flags AND 0xFFF) OR PAGE_PRESENT"
  let ?t = "frame (entry (mem s) (current_directory s) (dir_index v))"
  define m where "m = set_entry (mem s) ?t (table_index v) ?e"
  have "present ?e" by simp
  then have m: "dir_ok m (current_directory s)" "\<forall>v'. walk m (current_directory s) v' =
      (if frame v' = frame v then Some (frame phys OR (v' AND 0xFFF))
       else walk (mem s) (current_directory s) v')"
    using walk_set_pte [OF ok True, where e = ?e] pte_bits(1) [of phys flags]
    by (auto simp: m_def)
  have un: "walk (mem (paging_unmap_page v s)) (current_directory s) v' =
      (if frame v' = frame v then None else walk (mem s) (current_directory s) v')" for v'
    using walk_set_pte(2) [OF ok True, where e = 0] True
    by (simp add: paging_unmap_page_def Let_def)
  have cd: "current_directory (paging_unmap_page v s) = current_directory s"
    by (simp add: paging_unmap_page_def Let_def)
  have "paging_map_page v phys flags s = kret (s\<lparr>mem := m\<rparr>)"
    using True by (simp add: paging_map_page_def Let_def m_def)
  with m have "\<exists>m. paging_map_page v phys flags s = kret (s\<lparr>mem := m\<rparr>)
      \<and> dir_ok m (current_directory s) \<and> (\<forall>v'. walk m (current_directory s) v' =
        (if frame v' = frame v then Some (frame phys OR (v' AND 0xFFF))
         else walk (mem s) (current_directory s) v'))"
    by blast
  with True un show ?thesis unfolding get_physical_address_walk cd by simp
next
  case False
  then have "walk (mem s) (current_directory s) v' = None" if "frame v' = frame v" for v'
    using same_page [of v' v] that by (simp add: walk_def)
  with False show ?thesis
    unfolding get_physical_address_walk
    by (auto simp: paging_map_page_def paging_unmap_page_def)
qed

theorem paging_map_unmap_witness:
  "\<exists>m. paging_map_page 0x500123 0x300000 3 (paging_init paging_example) =
       kret ((paging_init paging_example)\<lparr>mem := m\<rparr>) \<and> walk m 0x110000 0x500FFF = Some 0x300FFF
     \<and> walk m 0x110000 0x501000 = Some 0x501000"
proof -
  let ?s = "paging_init paging_example"
  have cd: "current_directory ?s = 0x110000"
    by (simp add: paging_example_def paging_boot_def)
  have ok: "dir_ok (mem ?s) (current_directory ?s)"
    using dir_ok_init [OF paging_example_ok] by simp
  have "present (entry (mem ?s) (current_directory ?s) (dir_index 0x500123))"
    using paging_init_walk [OF paging_example_ok, of "0x500123"]
    by (auto simp: walk_def Let_def split: if_splits)
  with paging_map_unmap [OF ok, of "0x500123" "0x300000" 3] obtain m
    where m: "paging_map_page 0x500123 0x300000 3 ?s = kret (?s\<lparr>mem := m\<rparr>)"
      "\<forall>v'. walk m (current_directory ?s) v' =
          (if frame v' = frame 0x500123 then Some (frame 0x300000 OR (v' AND 0xFFF))
           else walk (mem ?s) (current_directory ?s) v')" by auto
  show ?thesis
    using m(1) m(2) [rule_format, of "0x500FFF"] m(2) [rule_format, of "0x501000"]
      paging_init_walk [OF paging_example_ok, of "0x501000"]
    unfolding cd by (auto simp: frame_def)
qed

section \<open>Lemmas: directories on the heap\<close>

text \<open>A page the heap will not touch: inside allocated blocks or outside the heap.\<close>

definition page_kept :: "(nat \<times> nat) set \<Rightarrow> u32 \<Rightarrow> bool" where
  "page_kept L d \<longleftrightarrow> {unat d ..< unat d + 4096} \<subseteq> live_bytes L \<union> unmanaged"

text \<open>A sound heap with a sound directory on it.\<close>

definition dir_rep :: "'a paging_scheme \<Rightarrow> (nat \<times> nat) set \<Rightarrow> u32 \<Rightarrow> bool" where
  "dir_rep s L dir \<longleftrightarrow> heap_rep s L \<and> dir_ok (mem s) dir \<and> page_kept L dir
     \<and> (\<forall>i < PAGE_ENTRIES. present (entry (mem s) dir i) \<longrightarrow> page_kept L (frame (entry (mem s) dir i)))"

lemma page_kept_mono: "page_kept L d \<Longrightarrow> L \<subseteq> L' \<Longrightarrow> page_kept L' d"
  using live_bytes_mono [of L L'] by (auto simp: page_kept_def)

lemma entry_kept:
  assumes "\<forall>x \<in> live_bytes L \<union> unmanaged. m' x = m x" "page_kept L d" "i < 1024"
  shows "entry m' d i = entry m d i"
  unfolding entry_def
proof (rule rd32_cong)
  fix j assume "j < (4::nat)"
  with assms(3) have "unat d + 4 * i + j \<in> {unat d ..< unat d + 4096}" by auto
  with assms(1,2) show "m' (unat d + 4 * i + j) = m (unat d + 4 * i + j)"
    unfolding page_kept_def by blast
qed

lemma set_entry_frame: "i < 1024 \<Longrightarrow> x \<notin> {unat d ..< unat d + 4096} \<Longrightarrow> set_entry m d i v x = m x"
  by (auto simp: set_entry_def intro!: wr32_other)

lemma heap_rep_set_entry:
  fixes s :: "'a paging_scheme"
  assumes "heap_rep (s\<lparr>mem := m\<rparr>) L" "page_kept L d" "i < 1024"
  shows "heap_rep (s\<lparr>mem := set_entry m d i v\<rparr>) L"
proof -
  have "set_entry m d i v x = m x" if "x \<notin> live_bytes L \<union> unmanaged" for x
    using that assms(2,3) by (intro set_entry_frame) (auto simp: page_kept_def)
  from kheap.put_law [OF assms(1), of "set_entry m d i v"] this show ?thesis by simp
qed

lemma paging_alloc_table_rep:
  fixes s :: "'a paging_scheme"
  assumes rep: "heap_rep s L"
  obtains t s' L' where "paging_alloc_table s = kret (t, s')" "t = 0 \<longrightarrow> heap_rep s' L \<and> mem s' = mem s"
    "t \<noteq> 0 \<longrightarrow> page_aligned t \<and> heap_rep s' L' \<and> L \<subseteq> L' \<and> page_kept L' t
       \<and> (\<forall>d. page_kept L d \<longrightarrow> d \<noteq> t)
       \<and> (\<forall>i < 1024. entry (mem s') t i = 0) \<and> (\<forall>x \<in> live_bytes L \<union> unmanaged. mem s' x = mem s x)"
proof -
  obtain p s1 where al: "kmalloc_aligned 4096 (2 ^ 12) s = kret (p, s1)"
    and null: "p = 0 \<Longrightarrow> heap_rep s1 L \<and> mem s1 = mem s"
    and blk: "p \<noteq> 0 \<Longrightarrow> 2 ^ 12 dvd unat p \<and> (\<exists>q len. q \<le> unat p \<and> unat p + unat (4096::u32) \<le> q + len
       \<and> heap_rep s1 (insert (q, len) L) \<and> {q ..< q + len} \<inter> (live_bytes L \<union> unmanaged) = {}
       \<and> (\<forall>x \<in> live_bytes L \<union> unmanaged. mem s1 x = mem s x))"
    using kmalloc_aligned_rep [OF rep, of 4096 12] by auto
  show thesis
  proof (cases "p = 0")
    case True
    with al null that [of 0 s1 L] show thesis by (simp add: paging_alloc_table_def)
  next
    case False
    with blk obtain q len where q: "2 ^ 12 dvd unat p" "q \<le> unat p" "unat p + 4096 \<le> q + len"
      "heap_rep s1 (insert (q, len) L)" "{q ..< q + len} \<inter> (live_bytes L \<union> unmanaged) = {}"
      "\<forall>x \<in> live_bytes L \<union> unmanaged. mem s1 x = mem s x" by auto
    define m where "m = memset (mem s1) (unat p) 0 4096"
    have in_blk: "{unat p ..< unat p + 4096} \<subseteq> {q ..< q + len}" using q(2,3) by auto
    have m: "m x = mem s1 x" if "x \<notin> {q ..< q + len}" for x
      using that in_blk unfolding m_def memset_apply by auto
    have rep': "heap_rep (s1\<lparr>mem := m\<rparr>) (insert (q, len) L)"
      using kheap.put_law [OF q(4), of m] m by auto
    have kept: "page_kept (insert (q, len) L) p" using in_blk by (auto simp: page_kept_def)
    have "\<not> page_kept L p"
    proof
      assume "page_kept L p"
      moreover have "unat p \<in> {unat p ..< unat p + 4096}" by simp
      ultimately have "unat p \<in> live_bytes L \<union> unmanaged" "unat p \<in> {q ..< q + len}"
        using in_blk unfolding page_kept_def by blast+
      with q(5) show False by blast
    qed
    then have ne: "\<forall>d. page_kept L d \<longrightarrow> d \<noteq> p" by metis
    have fr: "\<forall>x \<in> live_bytes L \<union> unmanaged. m x = mem s x"
    proof
      fix x assume "x \<in> live_bytes L \<union> unmanaged"
      moreover from this q(5) have "x \<notin> {q ..< q + len}" by blast
      ultimately show "m x = mem s x" using m q(6) by metis
    qed
    have zero: "entry m p i = 0" if "i < 1024" for i
      using that unfolding m_def by (rule entry_memset_same)
    have "paging_alloc_table s = kret (p, s1\<lparr>mem := m\<rparr>)"
      using al False by (simp add: paging_alloc_table_def m_def)
    from that [OF this] False rep' kept ne fr zero q(1) show thesis
      by (auto simp: page_aligned_def)
  qed
qed

lemma pde_bits:
  assumes "page_aligned t" "unat flags < 4096"
  shows "present (t OR PAGE_PRESENT OR PAGE_WRITE OR flags)"
    "frame (t OR PAGE_PRESENT OR PAGE_WRITE OR flags) = t"
proof -
  show "present (t OR PAGE_PRESENT OR PAGE_WRITE OR flags)" by (simp add: or.assoc [symmetric])
  have fl: "flags = take_bit 12 flags"
    using assms(2) by (simp add: word_unat_eq_iff unat_take_bit)
  have "frame (frame t OR 3 OR take_bit 12 flags) = frame t"
  proof -
    have 3: "(3 :: u32) = mask 2" by (simp add: mask_eq_exp_minus_1)
    show ?thesis unfolding frame_def 3 mask12 by (rule bit_word_eqI) (auto simp: bit_simps)
  qed
  with fl frame_id [OF assms(1)] show "frame (t OR PAGE_PRESENT OR PAGE_WRITE OR flags) = t"
    by (simp add: or.assoc [symmetric])
qed

text \<open>Giving a directory a new, empty table changes no translation.\<close>

lemma add_table:
  fixes s1 :: "'a paging_scheme"
  assumes dr: "dir_rep s L dir" and ab: "\<not> present (entry (mem s) dir i)" and i: "i < 1024"
    and t: "page_aligned t" "heap_rep s1 L'" "L \<subseteq> L'" "page_kept L' t" "\<forall>d. page_kept L d \<longrightarrow> d \<noteq> t"
      "\<forall>i < 1024. entry (mem s1) t i = 0"
    and fr: "\<forall>x \<in> live_bytes L \<union> unmanaged. mem s1 x = mem s x" and fl: "unat flags < 4096"
  defines "m \<equiv> set_entry (mem s1) dir i (t OR PAGE_PRESENT OR PAGE_WRITE OR flags)"
  shows "dir_rep (s1\<lparr>mem := m\<rparr>) L' dir" "present (entry m dir i)" "walk m dir v = walk (mem s) dir v"
proof -
  have dir: "page_aligned dir" "page_kept L dir" "dir \<noteq> t" and ok: "dir_ok (mem s) dir"
    and kept: "\<And>j. j < 1024 \<Longrightarrow> present (entry (mem s) dir j) \<Longrightarrow> page_kept L (frame (entry (mem s) dir j))"
    using dr t(5) by (auto simp: dir_rep_def dir_ok_def)
  have same: "entry m dir i = t OR PAGE_PRESENT OR PAGE_WRITE OR flags" by (simp add: m_def)
  have other: "entry m dir j = entry (mem s) dir j" if "j < 1024" "j \<noteq> i" for j
    using that dir i entry_kept [OF fr dir(2) that(1)] by (simp add: m_def entry_set_other)
  have tab: "entry m d j = entry (mem s) d j" if "page_kept L d" "page_aligned d" "d \<noteq> dir" "j < 1024" for d j
    using that dir i entry_kept [OF fr that(1,4)] by (simp add: m_def entry_set_other)
  note bits = pde_bits [OF t(1) fl]
  from same bits(1) show "present (entry m dir i)" by simp
  have pres: "present (entry m dir j) \<and> frame (entry m dir j) = (if j = i then t else frame (entry (mem s) dir j))
      \<and> (j \<noteq> i \<longrightarrow> present (entry (mem s) dir j))" if "j < 1024" "present (entry m dir j)" for j
    using that same bits other by (cases "j = i") auto
  have ne: "frame (entry (mem s) dir j) \<noteq> t" if "j < 1024" "present (entry (mem s) dir j)" for j
    using kept [OF that] t(5) by blast
  have ok': "dir_ok m dir"
    unfolding dir_ok_def
  proof (intro conjI allI impI)
    fix j assume j: "j < 1024" "present (entry m dir j)"
    show "frame (entry m dir j) \<noteq> dir"
      using pres [OF j] ok dir(3) j by (auto simp: dir_ok_def)
    fix k assume k: "k < 1024" "present (entry m dir k)" "frame (entry m dir k) = frame (entry m dir j)"
    show "k = j"
      using pres [OF j] pres [OF k(1,2)] k(3) ne j k(1) ok unfolding dir_ok_def
      by (metis (no_types, lifting))
  qed (rule dir(1))
  have "page_kept L' (frame (entry m dir j))" if "j < 1024" "present (entry m dir j)" for j
    using pres [OF that] kept [OF that(1)] t(3,4) page_kept_mono by (cases "j = i") auto
  moreover have "heap_rep (s1\<lparr>mem := m\<rparr>) L'"
    unfolding m_def using t(2) dir(2) t(3) i page_kept_mono by (intro heap_rep_set_entry) auto
  ultimately show "dir_rep (s1\<lparr>mem := m\<rparr>) L' dir"
    using ok' dir(2) t(3) page_kept_mono by (auto simp: dir_rep_def)
  show "walk m dir v = walk (mem s) dir v"
  proof (cases "dir_index v = i")
    case True
    have "entry m t j = 0" if "j < 1024" for j
      using that t(1,6) dir i by (simp add: m_def entry_set_other)
    with True same bits ab show ?thesis by (simp add: walk_def Let_def)
  next
    case False
    have "entry m (frame (entry (mem s) dir (dir_index v))) (table_index v) =
        entry (mem s) (frame (entry (mem s) dir (dir_index v))) (table_index v)"
      if "present (entry (mem s) dir (dir_index v))"
      using that kept ok by (intro tab frame_aligned) (auto simp: dir_ok_def)
    with False other show ?thesis by (simp add: walk_def Let_def)
  qed
qed

lemma dir_rep_set_pte:
  fixes s :: "'a paging_scheme"
  assumes dr: "dir_rep s L dir" and pr: "present (entry (mem s) dir (dir_index v))"
  shows "dir_rep (s\<lparr>mem := set_entry (mem s) (frame (entry (mem s) dir (dir_index v))) (table_index v) e\<rparr>)
    L dir"
proof -
  have ok: "dir_ok (mem s) dir" and kept: "page_kept L (frame (entry (mem s) dir (dir_index v)))"
    and rep: "heap_rep (s\<lparr>mem := mem s\<rparr>) L"
    using dr pr by (auto simp: dir_rep_def)
  note w = walk_set_pte [OF ok pr, where e = e]
  from dr w(1) w(3) heap_rep_set_entry [OF rep kept, of "table_index v" e] show ?thesis
    by (auto simp: dir_rep_def)
qed

text \<open>The pages that mapping \<open>v\<close> in \<open>dir\<close> leaves alone.\<close>

definition uninvolved :: "memory \<Rightarrow> (nat \<times> nat) set \<Rightarrow> u32 \<Rightarrow> u32 \<Rightarrow> u32 \<Rightarrow> bool" where
  "uninvolved m L dir v d \<longleftrightarrow> page_aligned d \<and> page_kept L d \<and> d \<noteq> dir
     \<and> (present (entry m dir (dir_index v)) \<longrightarrow> d \<noteq> frame (entry m dir (dir_index v)))"

text \<open>The last step, on any state whose directory has the table, and the step before it, which adds
  one.\<close>

lemma map_present:
  fixes s2 s3 :: "'a paging_scheme"
  assumes dr: "dir_rep s2 L' dir" and pr: "present (entry (mem s2) dir (dir_index v))"
    and s3: "s3 = s2\<lparr>mem := set_entry (mem s2) (frame (entry (mem s2) dir (dir_index v))) (table_index v)
      (frame phys OR (flags AND 0xFFF) OR PAGE_PRESENT)\<rparr>"
  shows "dir_rep s3 L' dir"
    "walk (mem s3) dir v' = (if frame v' = frame v then Some (frame phys OR (v' AND 0xFFF))
       else walk (mem s2) dir v')"
    "page_aligned d \<Longrightarrow> d \<noteq> frame (entry (mem s2) dir (dir_index v)) \<Longrightarrow> j < 1024 \<Longrightarrow>
       entry (mem s3) d j = entry (mem s2) d j"
proof -
  let ?e = "frame phys OR (flags AND 0xFFF) OR PAGE_PRESENT"
  have e: "present ?e" "frame ?e = frame phys" using pte_bits(1) [of phys flags] by auto
  have ok: "dir_ok (mem s2) dir" using dr by (simp add: dir_rep_def)
  show "dir_rep s3 L' dir" unfolding s3 by (rule dir_rep_set_pte [OF dr pr])
  show "walk (mem s3) dir v' = (if frame v' = frame v then Some (frame phys OR (v' AND 0xFFF))
      else walk (mem s2) dir v')"
    using walk_set_pte(2) [OF ok pr, where e = ?e] e s3 by simp
  show "entry (mem s3) d j = entry (mem s2) d j"
    if "page_aligned d" "d \<noteq> frame (entry (mem s2) dir (dir_index v))" "j < 1024"
    using that s3 by (auto simp: entry_set_other frame_aligned)
qed

lemma map_absent:
  fixes s :: "'a paging_scheme"
  assumes dr: "dir_rep s L dir" and ab: "\<not> present (entry (mem s) dir (dir_index v))"
    and dir: "dir \<noteq> 0" and fl: "unat flags < 4096"
  obtains "paging_map_page_in_directory dir v phys flags s = kernel_panic ''Cannot allocate page table''"
      "\<exists>s1. paging_alloc_table s = kret (0, s1)"
  | s2 s3 L' where "paging_map_page_in_directory dir v phys flags s = kret s3" "L \<subseteq> L'"
    "dir_rep s2 L' dir" "present (entry (mem s2) dir (dir_index v))" "\<And>v'. walk (mem s2) dir v' = walk (mem s) dir v'"
    "s3 = s2\<lparr>mem := set_entry (mem s2) (frame (entry (mem s2) dir (dir_index v))) (table_index v)
      (frame phys OR (flags AND 0xFFF) OR PAGE_PRESENT)\<rparr>"
    "\<And>d j. uninvolved (mem s) L dir v d \<Longrightarrow> j < 1024 \<Longrightarrow>
      d \<noteq> frame (entry (mem s2) dir (dir_index v)) \<and> entry (mem s2) d j = entry (mem s) d j"
    "entry (mem s2) dir (dir_index v) AND flags = flags"
proof -
  have rep: "heap_rep s L" and al: "page_aligned dir" using dr by (simp_all add: dir_rep_def dir_ok_def)
  obtain t s1 L' where t: "paging_alloc_table s = kret (t, s1)"
    and "t = 0 \<longrightarrow> heap_rep s1 L \<and> mem s1 = mem s"
    and new: "t \<noteq> 0 \<longrightarrow> page_aligned t \<and> heap_rep s1 L' \<and> L \<subseteq> L' \<and> page_kept L' t
       \<and> (\<forall>d. page_kept L d \<longrightarrow> d \<noteq> t)
       \<and> (\<forall>i < 1024. entry (mem s1) t i = 0) \<and> (\<forall>x \<in> live_bytes L \<union> unmanaged. mem s1 x = mem s x)"
    by (rule paging_alloc_table_rep [OF rep])
  show thesis
  proof (cases "t = 0")
    case True
    with t ab dir that(1) show thesis by (simp add: paging_map_page_in_directory_def)
  next
    case False
    with new have n: "page_aligned t" "heap_rep s1 L'" "L \<subseteq> L'" "page_kept L' t" "\<forall>d. page_kept L d \<longrightarrow> d \<noteq> t"
      "\<forall>i < 1024. entry (mem s1) t i = 0" "\<forall>x \<in> live_bytes L \<union> unmanaged. mem s1 x = mem s x" by auto
    define s2 where "s2 = s1\<lparr>mem := set_entry (mem s1) dir (dir_index v)
      (t OR PAGE_PRESENT OR PAGE_WRITE OR flags)\<rparr>"
    note add = add_table [OF dr ab dir_index_bound n fl, folded s2_def]
    define s3 where "s3 = s2\<lparr>mem := set_entry (mem s2) (frame (entry (mem s2) dir (dir_index v)))
      (table_index v) (frame phys OR (flags AND 0xFFF) OR PAGE_PRESENT)\<rparr>"
    have "paging_map_page_in_directory dir v phys flags s = kret s3"
      using t ab dir False by (simp add: paging_map_page_in_directory_def s2_def s3_def)
    moreover have "d \<noteq> frame (entry (mem s2) dir (dir_index v)) \<and> entry (mem s2) d j = entry (mem s) d j"
      if "uninvolved (mem s) L dir v d" "j < 1024" for d j
      using that n(5) pde_bits(2) [OF n(1) fl] entry_kept [OF n(7), of d j] al
      by (auto simp: uninvolved_def s2_def entry_set_other)
    moreover have "dir_rep s2 L' dir" "present (entry (mem s2) dir (dir_index v))"
        "\<And>v'. walk (mem s2) dir v' = walk (mem s) dir v'"
      using add by (simp_all add: s2_def)
    moreover have "entry (mem s2) dir (dir_index v) AND flags = flags"
      by (simp add: s2_def entry_set_same) (auto intro!: bit_word_eqI simp: bit_simps)
    ultimately show thesis using that(2) [OF _ n(3)] s3_def by blast
  qed
qed

lemma map_page_in_directory_rep:
  fixes s :: "'a paging_scheme"
  assumes dr: "dir_rep s L dir" and dir: "dir \<noteq> 0" and fl: "unat flags < 4096"
  shows "(\<exists>s' L'. paging_map_page_in_directory dir v phys flags s = kret s' \<and> L \<subseteq> L' \<and> dir_rep s' L' dir
      \<and> (\<forall>v'. walk (mem s') dir v' = (if frame v' = frame v then Some (frame phys OR (v' AND 0xFFF))
          else walk (mem s) dir v'))
      \<and> (\<forall>d j. uninvolved (mem s) L dir v d \<and> j < PAGE_ENTRIES \<longrightarrow> entry (mem s') d j = entry (mem s) d j))
    \<or> \<not> present (entry (mem s) dir (dir_index v)) \<and> (\<exists>s1. paging_alloc_table s = kret (0, s1))
      \<and> paging_map_page_in_directory dir v phys flags s = kernel_panic ''Cannot allocate page table''"
proof (cases "present (entry (mem s) dir (dir_index v))")
  case True
  define s3 where "s3 = s\<lparr>mem := set_entry (mem s) (frame (entry (mem s) dir (dir_index v)))
    (table_index v) (frame phys OR (flags AND 0xFFF) OR PAGE_PRESENT)\<rparr>"
  have "paging_map_page_in_directory dir v phys flags s = kret s3"
    using True dir by (simp add: paging_map_page_in_directory_def s3_def)
  with map_present [OF dr True s3_def] True show ?thesis
    by (auto simp: uninvolved_def)
next
  case False
  from map_absent [OF dr False dir fl, of phys] show ?thesis
  proof cases
    case 1
    with False show ?thesis by blast
  next
    case (2 s2 s3 L')
    note m = map_present [OF 2(3,4,6)]
    have "\<forall>d j. uninvolved (mem s) L dir v d \<and> j < PAGE_ENTRIES \<longrightarrow> entry (mem s3) d j = entry (mem s) d j"
      using m(3) 2(7) by (auto simp: uninvolved_def)
    with m(1,2) 2(1,2,5) show ?thesis by auto
  qed
qed

text \<open>
  C13. Mapping a page in the directory of a process: on a sound heap, for a directory whose tables
  are distinct and allocated, the call either panics, which it does only when the directory has no
  table for the address and none can be allocated, or it returns with a sound heap and directory in
  which every address of the page translates into the given frame and every other address as
  before; the entries of every other page table and directory (the other address spaces) are
  unchanged.
\<close>

theorem map_page_in_directory_correct:
  fixes s :: "'a paging_scheme"
  assumes dr: "dir_rep s L dir" and dir: "dir \<noteq> 0" and fl: "unat flags < 4096"
  shows "(\<exists>s' L'. paging_map_page_in_directory dir v phys flags s = kret s' \<and> L \<subseteq> L' \<and> dir_rep s' L' dir
      \<and> (\<forall>v'. walk (mem s') dir v' = (if frame v' = frame v then Some (frame phys OR (v' AND 0xFFF))
          else walk (mem s) dir v'))
      \<and> (\<forall>d j. uninvolved (mem s) L dir v d \<and> j < PAGE_ENTRIES \<longrightarrow> entry (mem s') d j = entry (mem s) d j))
    \<or> \<not> present (entry (mem s) dir (dir_index v)) \<and> (\<exists>s1. paging_alloc_table s = kret (0, s1))
      \<and> paging_map_page_in_directory dir v phys flags s = kernel_panic ''Cannot allocate page table''"
  by (rule map_page_in_directory_rep [OF assms])

lemma dir_rep_kept:
  fixes s s1 :: "'a paging_scheme"
  assumes dr: "dir_rep s L dir" and s1: "heap_rep s1 L'" "L \<subseteq> L'"
    and fr: "\<forall>x \<in> live_bytes L \<union> unmanaged. mem s1 x = mem s x"
  shows "dir_rep s1 L' dir" "walk (mem s1) dir v = walk (mem s) dir v"
proof -
  have kept: "page_kept L dir" "\<And>i. i < 1024 \<Longrightarrow> present (entry (mem s) dir i) \<Longrightarrow>
      page_kept L (frame (entry (mem s) dir i))"
    using dr by (auto simp: dir_rep_def)
  note e = entry_kept [OF fr kept(1)] and e' = entry_kept [OF fr kept(2)]
  show "dir_rep s1 L' dir" using dr e s1 page_kept_mono by (auto simp: dir_rep_def dir_ok_def)
  show "walk (mem s1) dir v = walk (mem s) dir v" by (simp add: walk_def e e' Let_def)
qed

text \<open>The example machine with paging and the heap initialised.\<close>

definition paging_ready :: paging where
  "paging_ready = kmalloc_init (paging_init paging_example)"

lemma paging_fields [simp]:
  "heap_initialized (paging_init s) = heap_initialized s" "heap_start (paging_init s) = heap_start s"
  "kernel_directory (paging_init s) = kernel_directory s" "kernel_table_0 (paging_init s) = kernel_table_0 s"
  "kernel_table_1 (paging_init s) = kernel_table_1 s"
  by (simp_all add: paging_init_def Let_def)

lemma paging_ready_heap: "heap_abs paging_ready [(HEAP_SIZE, True)]"
  unfolding paging_ready_def
  by (rule kmalloc_init_abs) (simp add: paging_example_def paging_boot_def)

lemma paging_ready_rep: "heap_rep paging_ready {}"
  unfolding heap_rep_def by (rule exI [of _ "[(HEAP_SIZE, True)]"]) (simp add: paging_ready_heap)

lemma kmalloc_init_frame: "x \<in> unmanaged \<Longrightarrow> mem (kmalloc_init s) x = mem s x"
  by (auto simp: kmalloc_init_def Let_def blk_defs unmanaged_def mem_simps)

lemma paging_ready_entry:
  "page_kept {} d \<Longrightarrow> i < 1024 \<Longrightarrow> entry (mem paging_ready) d i = entry (mem (paging_init paging_example)) d i"
  unfolding paging_ready_def by (rule entry_kept [of "{}"]) (simp_all add: live_bytes_def kmalloc_init_frame)

lemma paging_ready_dir: "dir_rep paging_ready {} 0x110000"
proof -
  have st: "kernel_directory paging_example = 0x110000" "kernel_table_0 paging_example = 0x111000"
      "kernel_table_1 paging_example = 0x112000"
    by (simp_all add: paging_example_def paging_boot_def)
  have kept: "page_kept {} 0x110000" "page_kept {} 0x111000" "page_kept {} 0x112000"
    by (auto simp: page_kept_def unmanaged_def)
  note e = paging_init_entries [OF paging_example_ok, unfolded st]
  have al: "frame (0x111000 OR 3) = 0x111000" "frame (0x112000 OR 3) = 0x112000"
    by (simp_all add: frame_def)
  have "page_kept {} (frame (entry (mem (paging_init paging_example)) 0x110000 i))"
    if "i < 1024" "present (entry (mem (paging_init paging_example)) 0x110000 i)" for i
  proof -
    from that e(3) [of i] have "i = 0 \<or> i = 1" by (cases "2 \<le> i") auto
    with e(1,2) al kept show ?thesis by auto
  qed
  moreover have "dir_ok (mem (paging_init paging_example)) 0x110000"
    using dir_ok_init [OF paging_example_ok] by (simp add: st)
  ultimately show ?thesis
    using paging_ready_rep paging_ready_entry [OF kept(1)] kept(1)
    by (simp add: dir_rep_def dir_ok_def)
qed

lemma paging_ready_pde: "entry (mem paging_ready) 0x110000 (Suc 0) = 0x112003"
  using paging_init_entries(2) [OF paging_example_ok]
  by (subst paging_ready_entry)
    (auto simp: paging_example_def paging_boot_def page_kept_def unmanaged_def)

theorem map_page_in_directory_correct_witness:
  "\<exists>s'. paging_map_page_in_directory 0x110000 0x500000 0x300000 3 paging_ready = kret s'
     \<and> walk (mem s') 0x110000 0x500004 = Some 0x300004"
proof -
  have "present (entry (mem paging_ready) 0x110000 (dir_index 0x500000))"
    by (simp add: dir_index_eq paging_ready_pde)
  with map_page_in_directory_correct [OF paging_ready_dir, of 3 "0x500000" "0x300000"]
  show ?thesis by (auto simp: frame_def)
qed

section \<open>What goes wrong\<close>

lemma kfold_skip: "(\<And>x. x \<in> set xs \<Longrightarrow> f x s = kret s) \<Longrightarrow> kfold f xs s = kret s"
  by (induction xs) auto

text \<open>The walk of a program that runs in user mode: both entries must have the user flag.\<close>

definition user_walk :: "memory \<Rightarrow> u32 \<Rightarrow> u32 \<Rightarrow> u32 option" where
  "user_walk m dir virt =
     (let pde = entry m dir (dir_index virt) in
      if pde AND PAGE_USER = 0 \<or> entry m (frame pde) (table_index virt) AND PAGE_USER = 0 then None
      else walk m dir virt)"

lemma user_flag_bit: "x AND PAGE_USER = 0 \<longleftrightarrow> \<not> bit (x :: u32) 2"
  using and_exp_eq_0_iff_not_bit [of x 2] by simp

lemma and_user_flag:
  assumes "x AND flags = flags" "flags AND PAGE_USER \<noteq> (0 :: u32)"
  shows "x AND PAGE_USER \<noteq> 0"
proof -
  have "bit (x AND flags) 2" using assms by (simp add: user_flag_bit)
  then show ?thesis by (simp add: user_flag_bit bit_simps)
qed

lemma pte_user: "flags AND PAGE_USER \<noteq> 0 \<Longrightarrow> (frame phys OR (flags AND 0xFFF) OR PAGE_PRESENT) AND PAGE_USER \<noteq> 0"
  unfolding user_flag_bit mask12 by (simp add: bit_simps)

lemma map_present_user:
  fixes s2 s3 :: "'a paging_scheme"
  assumes dr: "dir_rep s2 L' dir" and pr: "present (entry (mem s2) dir (dir_index v))"
    and s3: "s3 = s2\<lparr>mem := set_entry (mem s2) (frame (entry (mem s2) dir (dir_index v))) (table_index v)
      (frame phys OR (flags AND 0xFFF) OR PAGE_PRESENT)\<rparr>"
    and user: "flags AND PAGE_USER \<noteq> 0" "entry (mem s2) dir (dir_index v) AND PAGE_USER \<noteq> 0"
    and v': "frame v' = frame v"
  shows "user_walk (mem s3) dir v' = walk (mem s3) dir v'"
proof -
  have "page_aligned dir" "dir \<noteq> frame (entry (mem s2) dir (dir_index v))"
    using dr pr dir_index_bound [of v] unfolding dir_rep_def dir_ok_def by metis+
  with map_present(3) [OF dr pr s3] have "entry (mem s3) dir (dir_index v) = entry (mem s2) dir (dir_index v)" by simp
  moreover have "entry (mem s3) (frame (entry (mem s2) dir (dir_index v))) (table_index v) =
      frame phys OR (flags AND 0xFFF) OR PAGE_PRESENT" by (simp add: s3 entry_set_same)
  ultimately show ?thesis
    using user pte_user [OF user(1), of phys] v' [folded same_page] by (simp add: user_walk_def)
qed

lemma map_page_user:
  fixes s :: "'a paging_scheme"
  assumes dr: "dir_rep s L dir" and dir: "dir \<noteq> 0" and fl: "unat flags < 4096"
    and ret: "paging_map_page_in_directory dir v phys flags s = kret s'" and user: "flags AND PAGE_USER \<noteq> 0"
    and pde: "present (entry (mem s) dir (dir_index v)) \<Longrightarrow> entry (mem s) dir (dir_index v) AND PAGE_USER \<noteq> 0"
    and v': "frame v' = frame v"
  shows "user_walk (mem s') dir v' = Some (frame phys OR (v' AND 0xFFF))"
proof -
  have "user_walk (mem s') dir v' = walk (mem s') dir v'"
  proof (cases "present (entry (mem s) dir (dir_index v))")
    case True
    then have "s' = s\<lparr>mem := set_entry (mem s) (frame (entry (mem s) dir (dir_index v)))
        (table_index v) (frame phys OR (flags AND 0xFFF) OR PAGE_PRESENT)\<rparr>"
      using ret dir by (simp add: paging_map_page_in_directory_def)
    from map_present_user [OF dr True this user pde [OF True] v'] show ?thesis .
  next
    case False
    from map_absent [OF dr False dir fl, of phys] show ?thesis
    proof cases
      case (2 s2 s3 L')
      from 2(1) ret have "s3 = s'" by simp
      with map_present_user [OF 2(3,4,6) user and_user_flag [OF 2(8) user] v'] show ?thesis by simp
    qed (use ret in simp)
  qed
  then show ?thesis using map_page_in_directory_rep [OF dr dir fl, of v phys] ret v' by auto
qed

text \<open>
  C14. Page frames taken from \<open>kmalloc\<close> need not be page-aligned: mapping such a block for user mode (as
  \<open>process_create\<close> does for the user stack and \<open>process_mmap\<close> for every page) gives the process the
  frame around the start of the block, and with it the part of the block's heap header that lies in the
  same frame. When the block \<open>q\<close> is not page-aligned this part is at least the last four of the 16 header bytes,
  the magic number, and the whole header when \<open>q\<close> is 16 bytes or more into its frame: each of these bytes
  is reached in user mode at some address of the mapped page, though none lies in an allocated block.
\<close>

theorem map_page_exposes_header:
  fixes s :: "'a paging_scheme"
  assumes dr: "dir_rep s L dir" and dir: "dir \<noteq> 0" and fl: "unat flags < 4096"
    and user: "flags AND PAGE_USER \<noteq> 0"
    and pde: "present (entry (mem s) dir (dir_index v)) \<Longrightarrow> entry (mem s) dir (dir_index v) AND PAGE_USER \<noteq> 0"
    and q: "(unat q, len) \<in> L" "\<not> page_aligned q"
    and ret: "paging_map_page_in_directory dir v q flags s = kret s'"
  shows "4 \<le> unat q mod 4096 \<and> (\<forall>x. unat q - min 16 (unat q mod 4096) \<le> unat x \<and> x < q \<longrightarrow>
    (\<exists>v'. frame v' = frame v \<and> user_walk (mem s') dir v' = Some x) \<and> unat x \<notin> live_bytes L \<union> unmanaged)"
proof -
  have rep: "heap_rep s L" using dr by (simp add: dir_rep_def)
  have q16: "16 \<le> unat q" "4 dvd unat q" using heap_rep_block(1) [OF rep q(1)] heap_rep_aligned [OF rep q(1)] by auto
  have "unat q mod 4096 \<noteq> 0" using q(2) by (simp add: page_aligned_def dvd_eq_mod_eq_0)
  moreover have "4 dvd unat q mod 4096" using q16(2) by (simp add: dvd_mod)
  ultimately have q4: "4 \<le> unat q mod 4096" by (simp add: dvd_imp_le)
  have "(\<exists>v'. frame v' = frame v \<and> user_walk (mem s') dir v' = Some x) \<and> unat x \<notin> live_bytes L \<union> unmanaged"
    if x: "unat q - min 16 (unat q mod 4096) \<le> unat x" "x < q" for x
  proof -
    define v' where "v' = frame v OR (x AND 0xFFF)"
    have v': "frame v' = frame v" "v' AND 0xFFF = x AND 0xFFF"
      unfolding v'_def frame_def mask12 by (rule bit_word_eqI; auto simp: bit_simps)+
    have lt: "unat x < unat q" using x(2) by (simp add: word_less_nat_alt)
    have ge: "unat q div 4096 * 4096 \<le> unat x" using x(1) by (simp add: minus_mod_eq_div_mult [symmetric])
    have "unat x div 4096 = unat q div 4096"
    proof (rule antisym)
      show "unat x div 4096 \<le> unat q div 4096" using lt by (simp add: div_le_mono)
      show "unat q div 4096 \<le> unat x div 4096" using div_le_mono [OF ge, of 4096] by simp
    qed
    then have "frame x = frame q" unfolding frame_def mask12 by (simp add: word_unat_eq_iff unat_and_not_mask)
    then have "user_walk (mem s') dir v' = Some x"
      using map_page_user [OF dr dir fl ret user pde v'(1)] v'(2) frame_offset [of x] by simp
    moreover have "unat x \<notin> live_bytes L \<union> unmanaged"
      using heap_rep_header [OF rep q(1), of "unat x"] lt x(1) q16(1) by auto
    ultimately show ?thesis using v'(1) by blast
  qed
  with q4 show ?thesis by blast
qed

lemma paging_ready_pde2: "\<not> present (entry (mem paging_ready) 0x110000 2)"
  using paging_init_entries(3) [OF paging_example_ok, of 2]
  by (subst paging_ready_entry)
    (auto simp: paging_example_def paging_boot_def page_kept_def unmanaged_def)

theorem map_page_exposes_header_witness:
  "\<exists>s s'. kmalloc 4096 paging_ready = kret (0x500010, s) \<and> dir_rep s {(0x500010, 4096)} 0x110000
     \<and> \<not> page_aligned 0x500010 \<and> \<not> present (entry (mem s) 0x110000 (dir_index 0x800000))
     \<and> paging_map_page_in_directory 0x110000 0x800000 0x500010 (PAGE_WRITE OR PAGE_USER) s = kret s'
     \<and> (\<forall>x. 0x500000 \<le> unat x \<and> x < 0x500010 \<longrightarrow>
         (\<exists>v'. frame v' = 0x800000 \<and> user_walk (mem s') 0x110000 v' = Some x) \<and> unat x \<notin> {0x500010 ..< 0x501010})"
proof -
  have n: "(4096 :: u32) \<noteq> 0" "unat (4096 :: u32) + 19 < 2 ^ 32" by auto
  have "amalloc (request 4096) HEAP_START [(HEAP_SIZE, True)] =
      Some (HEAP_START, [(4112, False), (0x100000 - 4112, True)])"
    by (simp add: request_def)
  with kmalloc_step [OF paging_ready_heap n] obtain s1 where s1:
    "kmalloc 4096 paging_ready = kret (0x500010, s1)"
    "heap_abs s1 [(4112, False), (0x100000 - 4112, True)]"
    "\<forall>x \<in> unmanaged. mem s1 x = mem paging_ready x" by (auto simp: heap_abs_update)
  have rep: "heap_rep s1 {(0x500010, 4096)}"
    unfolding heap_rep_def using s1(2) by (intro exI conjI) auto
  have dr: "dir_rep s1 {(0x500010, 4096)} 0x110000"
    using s1(3) by (intro dir_rep_kept(1) [OF paging_ready_dir rep]) (auto simp: live_bytes_def)
  have ab: "\<not> present (entry (mem s1) 0x110000 (dir_index 0x800000))"
  proof -
    have "entry (mem s1) 0x110000 2 = entry (mem paging_ready) 0x110000 2"
      using s1(3) by (intro entry_kept [of "{}"]) (auto simp: live_bytes_def page_kept_def unmanaged_def)
    then show ?thesis by (simp add: dir_index_eq paging_ready_pde2)
  qed
  have "amalloc (request 8192) HEAP_START [(4112, False), (0x100000 - 4112, True)] =
      Some (HEAP_START + 4112, [(4112, False), (8208, False), (0x100000 - 12320, True)])"
    by (simp add: request_def)
  with kmalloc_step [OF s1(2), of 8192] obtain s2 where "kmalloc 8192 s1 = kret (0x501020, s2)" by auto
  then obtain s3 where "paging_alloc_table s1 = kret (0x502000, s3)"
    by (simp add: paging_alloc_table_def kmalloc_aligned_def Let_def)
  then obtain s' where s': "paging_map_page_in_directory 0x110000 0x800000 0x500010 (PAGE_WRITE OR PAGE_USER) s1 = kret s'"
    using ab by (simp add: paging_map_page_in_directory_def)
  have al: "\<not> page_aligned 0x500010" by (simp add: page_aligned_def)
  have fr: "frame 0x800000 = 0x800000" by (simp add: frame_def)
  show ?thesis
    using map_page_exposes_header [OF dr _ _ _ _ _ al s', of 4096] ab s1(1) dr s' al
    by (intro exI [of _ s1] exI [of _ s']) (auto simp: fr live_bytes_def)
qed

lemma fill_frame:
  "n \<le> 1024 \<Longrightarrow> x \<notin> {unat t ..< unat t + 4096} \<Longrightarrow>
     fold (\<lambda>i m. set_entry m t i (f i)) [0..<n] m x = m x"
  by (induction n) (simp_all add: set_entry_frame)

lemma paging_ready_zero:
  assumes "0x500010 \<le> x"
  shows "mem paging_ready x = 0"
proof -
  have "mem (paging_init paging_example) x = mem paging_example x"
    using assms by (simp add: paging_init_def Let_def fill_frame set_entry_frame memset_apply
        paging_example_def paging_boot_def del: upt_rec_numeral)
  moreover have "mem paging_ready x = mem (paging_init paging_example) x"
    using assms by (auto simp: paging_ready_def kmalloc_init_def Let_def blk_defs mem_simps)
  ultimately show ?thesis by (simp add: paging_example_def paging_boot_def)
qed

text \<open>
  C15. Destroying a directory frees a pointer the heap never returned: \<open>paging_create_directory\<close>
  gets its page from \<open>kmalloc_aligned\<close>, whose result is in general not the start of a block, and \<open>kfree\<close>
  checks the magic number in front of it. On any sound heap: when the word in front of the address the
  directory gets was not by chance the magic number in the free memory before (so that the address is not
  the start of a block either), destroying the directory just created ends in a kernel panic.
\<close>

theorem create_destroy_directory_panics:
  fixes s :: "'a paging_scheme"
  assumes abs: "heap_abs s bs" and ret: "paging_create_directory s = kret (d, s1)" "d \<noteq> 0"
    and stale: "rd32 (mem s) (unat d - 4) \<noteq> BLOCK_MAGIC"
  shows "paging_destroy_directory d s1 = kernel_panic ''kfree: Invalid pointer or corrupted heap''"
proof -
  obtain s0 where al: "kmalloc_aligned 4096 4096 s = kret (d, s0)" and s1: "s1 = s0\<lparr>mem := (let
        m1 = memset (mem s0) (unat d) 0 4096; m2 = set_entry m1 d 0 (entry m1 (kernel_directory s0) 0)
      in set_entry m2 d 1 (entry m2 (kernel_directory s0) 1))\<rparr>"
    using ret by (auto simp: paging_create_directory_def kbind_eq_kret Let_def split: if_splits)
  then obtain q where q: "kmalloc 8192 s = kret (q, s0)" "q \<noteq> 0" and d: "d = (q + 4096 - 1) AND NOT (4096 - 1)"
    using ret(2) by (auto simp: kmalloc_aligned_def kbind_eq_kret split: if_splits)
  have n: "(8192 :: u32) \<noteq> 0" "unat (8192 :: u32) + 19 < 2 ^ 32" by auto
  note km = kmalloc_uninitialised [OF abs n q]
  have "unat q + 2 ^ 12 < 2 ^ 32" using km(3) by simp
  then have ud: "4096 dvd unat d" "unat q \<le> unat d" "unat d < unat q + 4096"
    using unat_align_up [of q 12] d by simp_all
  have "unat d \<noteq> unat q" using km(4) stale by auto
  moreover have "4 dvd unat d" using ud(1) by (rule dvd_trans [rotated]) simp
  ultimately have "unat q \<le> unat d - 4" using ud(2) km(2) by (auto elim!: dvdE)
  then have "rd32 (mem s1) (unat d - 4) = rd32 (mem s) (unat d - 4)"
    using km(1,5) ud by (intro rd32_cong) (auto simp: s1 Let_def memset_apply set_entry_frame)
  moreover have "entry (mem s1) d i = 0" if "2 \<le> i" "i < 1024" for i
    using that entry_memset_same [of i "mem s0" d] ud(1) by (simp add: s1 Let_def entry_set_other page_aligned_def)
  then have "kfold (destroy_table d) [2..<1024] s1 = kret s1"
    by (intro kfold_skip) (simp add: destroy_table_def del: upt_rec_numeral)
  moreover have "unat (d - 16) + 12 = unat d - 4" using km(1) ud(2) by (simp add: unat_sub_u32)
  ultimately show ?thesis
    using ret(2) stale by (simp add: paging_destroy_directory_def kfree_def blk_magic_def Let_def del: upt_rec_numeral)
qed

theorem create_destroy_directory_panics_witness:
  "\<exists>s1. paging_create_directory paging_ready = kret (0x501000, s1)
     \<and> paging_destroy_directory 0x501000 s1 = kernel_panic ''kfree: Invalid pointer or corrupted heap''"
proof -
  have "amalloc (request 8192) HEAP_START [(HEAP_SIZE, True)] =
      Some (HEAP_START, [(8208, False), (0x100000 - 8208, True)])"
    by (simp add: request_def)
  with kmalloc_step [OF paging_ready_heap, of 8192] obtain s0 where "kmalloc 8192 paging_ready = kret (0x500010, s0)" by auto
  then obtain s1 where s1: "paging_create_directory paging_ready = kret (0x501000, s1)"
    by (simp add: paging_create_directory_def kmalloc_aligned_def Let_def)
  have "rd32 (mem paging_ready) 0x500FFC = 0" by (simp add: rd32_def paging_ready_zero)
  then show ?thesis using create_destroy_directory_panics [OF paging_ready_heap s1] s1 by auto
qed
end
