(* ===== verification/KFS_Process.thy ===== *)
theory KFS_Process
  imports KFS_Paging
begin

text \<open>
  Processes, \<open>src/process.c\<close>: the process table, creation, fork, exit and wait, signal queues,
  memory mapping, the round-robin scheduler, the mapping of processor exceptions to signals and the
  working directory. A pointer to a process is an index of the table (\<open>None\<close> for NULL). The entries of
  a signal queue are blocks of the kernel heap. Signal handlers are code of the processes: calling the
  function at an address is the parameter \<open>call\<close> of the definitions that do it.
\<close>

section \<open>State\<close>

datatype process_state = PROCESS_STATE_UNUSED | PROCESS_STATE_RUNNING | PROCESS_STATE_READY
  | PROCESS_STATE_BLOCKED | PROCESS_STATE_ZOMBIE

record process_context =
  ctx_eax :: u32
  ctx_ebx :: u32
  ctx_ecx :: u32
  ctx_edx :: u32
  ctx_esi :: u32
  ctx_edi :: u32
  ctx_ebp :: u32
  ctx_esp :: u32
  ctx_eip :: u32
  ctx_eflags :: u32
  ctx_cs :: u32
  ctx_ds :: u32
  ctx_es :: u32
  ctx_fs :: u32
  ctx_gs :: u32
  ctx_ss :: u32

record process_section =
  start_addr :: u32
  sec_size :: u32
  sec_flags :: u32

record process =
  pid :: u32
  state :: process_state
  parent :: "nat option"
  children :: "nat option"
  next_sibling :: "nat option"
  page_directory :: u32
  kernel_stack :: u32
  user_stack :: u32
  text_section :: process_section
  data_section :: process_section
  bss_section :: process_section
  rodata_section :: process_section
  p_heap_start :: u32
  p_heap_end :: u32
  context_of :: process_context
  signal_queue :: u32
  signal_handlers :: "u32 list"
  uid :: u32
  gid :: u32
  exit_status :: int
  pwd :: string

text \<open>A structure cleared by \<open>memset\<close>; the state \<open>PROCESS_STATE_UNUSED\<close> is 0.\<close>

definition context_zero :: process_context where
  "context_zero = \<lparr>ctx_eax = 0, ctx_ebx = 0, ctx_ecx = 0, ctx_edx = 0, ctx_esi = 0, ctx_edi = 0, ctx_ebp = 0, ctx_esp = 0, ctx_eip = 0,
     ctx_eflags = 0, ctx_cs = 0, ctx_ds = 0, ctx_es = 0, ctx_fs = 0, ctx_gs = 0, ctx_ss = 0\<rparr>"

definition section_zero :: process_section where
  "section_zero = \<lparr>start_addr = 0, sec_size = 0, sec_flags = 0\<rparr>"

definition process_zero :: process where
  "process_zero = \<lparr>pid = 0, state = PROCESS_STATE_UNUSED, parent = None, children = None,
     next_sibling = None, page_directory = 0, kernel_stack = 0, user_stack = 0,
     text_section = section_zero, data_section = section_zero, bss_section = section_zero,
     rodata_section = section_zero, p_heap_start = 0, p_heap_end = 0, context_of = context_zero,
     signal_queue = 0, signal_handlers = replicate 32 0, uid = 0, gid = 0, exit_status = 0,
     pwd = []\<rparr>"

abbreviation (input) MAX_PROCESSES :: nat where "MAX_PROCESSES \<equiv> 256"

record procs = paging +
  process_table :: "process list"
  current_process :: "nat option"
  next_pid :: u32

text \<open>The statics before anything runs; the table is cleared again by \<open>process_init\<close>.\<close>

definition procs_boot :: "paging \<Rightarrow> procs" where
  "procs_boot s = paging.extend s (procs.fields (replicate MAX_PROCESSES process_zero) None 1)"

abbreviation proc :: "'a procs_scheme \<Rightarrow> nat \<Rightarrow> process" where
  "proc s i \<equiv> process_table s ! i"

definition upd_proc :: "nat \<Rightarrow> (process \<Rightarrow> process) \<Rightarrow> 'a procs_scheme \<Rightarrow> 'a procs_scheme" where
  "upd_proc i f s = s\<lparr>process_table := (process_table s)[i := f (process_table s ! i)]\<rparr>"

section \<open>Creating processes\<close>

definition process_init :: "'a procs_scheme \<Rightarrow> 'a procs_scheme" where
  "process_init s = kernel_info ''Process system initialized''
     (s\<lparr>process_table := replicate MAX_PROCESSES process_zero\<rparr>)"

definition process_alloc_pid :: "'a procs_scheme \<Rightarrow> u32 \<times> 'a procs_scheme" where
  "process_alloc_pid s = (next_pid s, s\<lparr>next_pid := next_pid s + 1\<rparr>)"

definition process_alloc_slot :: "'a procs_scheme \<Rightarrow> nat option" where
  "process_alloc_slot s =
     find (\<lambda>i. state (proc s i) = PROCESS_STATE_UNUSED) [0..<MAX_PROCESSES]"

definition unuse :: "process \<Rightarrow> process" where
  "unuse p = p\<lparr>state := PROCESS_STATE_UNUSED\<rparr>"

text \<open>The initialisation of \<open>process_create\<close> after the stacks are there.\<close>

definition process_setup :: "u32 \<Rightarrow> process \<Rightarrow> process" where
  "process_setup entry_point p =
     (let stack = 0x10000000 + PAGE_SIZE - 4 in
      p\<lparr>user_stack := stack,
        text_section := \<lparr>start_addr = 0x08048000, sec_size = 0, sec_flags = 0x1 OR 0x4\<rparr>,
        rodata_section := \<lparr>start_addr = 0x08050000, sec_size = 0, sec_flags = 0x1\<rparr>,
        data_section := \<lparr>start_addr = 0x08060000, sec_size = 0, sec_flags = 0x1 OR 0x2\<rparr>,
        bss_section := \<lparr>start_addr = 0x08070000, sec_size = 0, sec_flags = 0x1 OR 0x2\<rparr>,
        p_heap_start := 0x08080000, p_heap_end := 0x08080000,
        context_of := (context_of p)\<lparr>ctx_eip := entry_point, ctx_esp := stack, ctx_ebp := stack, ctx_eflags := 0x202\<rparr>,
        signal_handlers := replicate 32 0, signal_queue := 0, pwd := ''/''\<rparr>)"

definition process_create ::
  "u32 \<Rightarrow> u32 \<Rightarrow> 'a procs_scheme \<Rightarrow> (nat option \<times> 'a procs_scheme) kresult" where
  "process_create entry_point user s =
     (case process_alloc_slot s of
        None \<Rightarrow> kret (None, s)
      | Some i \<Rightarrow>
          let (new_pid, s0) = process_alloc_pid s;
              s1 = upd_proc i (\<lambda>_. process_zero\<lparr>pid := new_pid, state := PROCESS_STATE_READY,
                     uid := user, gid := user\<rparr>) s0
          in kbind (paging_create_directory s1) (\<lambda>(dir, s2).
               let s3 = upd_proc i (\<lambda>p. p\<lparr>page_directory := dir\<rparr>) s2 in
               if dir = 0 then kret (None, upd_proc i unuse s3)
               else kbind (kmalloc PAGE_SIZE s3) (\<lambda>(kstack, s4).
                 let s5 = upd_proc i (\<lambda>p. p\<lparr>kernel_stack := kstack\<rparr>) s4 in
                 if kstack = 0 then
                   kbind (paging_destroy_directory dir s5) (\<lambda>s6. kret (None, upd_proc i unuse s6))
                 else kbind (kmalloc PAGE_SIZE s5) (\<lambda>(ustack, s6).
                   if ustack = 0 then
                     kbind (kfree kstack s6) (\<lambda>s7.
                       kbind (paging_destroy_directory dir s7) (\<lambda>s8.
                         kret (None, upd_proc i unuse s8)))
                   else
                     kbind (paging_map_page_in_directory dir 0x10000000 ustack
                              (PAGE_WRITE OR PAGE_USER) s6) (\<lambda>s7.
                       kret (Some i, upd_proc i (process_setup entry_point) s7))))))"

definition process_fork :: "nat option \<Rightarrow> 'a procs_scheme \<Rightarrow> (nat option \<times> 'a procs_scheme) kresult" where
  "process_fork pp s =
     (case pp of None \<Rightarrow> kret (None, s) | Some p \<Rightarrow>
      case process_alloc_slot s of None \<Rightarrow> kret (None, s) | Some c \<Rightarrow>
        let s1 = upd_proc c (\<lambda>_. proc s p) s;
            (new_pid, s2) = process_alloc_pid s1;
            s3 = upd_proc c (\<lambda>q. q\<lparr>pid := new_pid, state := PROCESS_STATE_READY, parent := Some p,
                   children := None, next_sibling := children (proc s2 p)\<rparr>) s2;
            s4 = upd_proc p (\<lambda>q. q\<lparr>children := Some c\<rparr>) s3
        in kbind (paging_clone_directory (page_directory (proc s4 p)) s4) (\<lambda>(dir, s5).
             let s6 = upd_proc c (\<lambda>q. q\<lparr>page_directory := dir\<rparr>) s5 in
             if dir = 0 then kret (None, upd_proc c unuse s6)
             else kbind (kmalloc PAGE_SIZE s6) (\<lambda>(kstack, s7).
               let s8 = upd_proc c (\<lambda>q. q\<lparr>kernel_stack := kstack\<rparr>) s7 in
               if kstack = 0 then
                 kbind (paging_destroy_directory dir s8) (\<lambda>s9. kret (None, upd_proc c unuse s9))
               else
                 let m = memcpy (mem s8) (unat kstack) (unat (kernel_stack (proc s8 p))) 4096
                 in kret (Some c, upd_proc c (\<lambda>q. q\<lparr>context_of := (context_of q)\<lparr>ctx_eax := 0\<rparr>\<rparr>)
                            (s8\<lparr>mem := m\<rparr>)))))"

section \<open>Exit and wait\<close>

text \<open>The list of children is linked through the table, so a corrupted list may never end.\<close>

partial_function (option) orphan_children ::
  "nat option \<Rightarrow> process list \<Rightarrow> process list option" where
  "orphan_children child pt =
     (case child of
        None \<Rightarrow> Some pt
      | Some c \<Rightarrow> orphan_children (next_sibling (pt ! c)) (pt[c := (pt ! c)\<lparr>parent := None\<rparr>]))"

definition process_exit :: "nat option \<Rightarrow> int \<Rightarrow> 'a procs_scheme \<Rightarrow> 'a procs_scheme kresult" where
  "process_exit pp status s =
     (case pp of None \<Rightarrow> kret s | Some p \<Rightarrow>
        let s1 = upd_proc p (\<lambda>q. q\<lparr>exit_status := status, state := PROCESS_STATE_ZOMBIE\<rparr>) s
        in kbind (if page_directory (proc s1 p) \<noteq> 0
                  then kbind (paging_destroy_directory (page_directory (proc s1 p)) s1)
                         (\<lambda>s2. kret (upd_proc p (\<lambda>q. q\<lparr>page_directory := 0\<rparr>) s2))
                  else kret s1) (\<lambda>s3.
           kbind (if kernel_stack (proc s3 p) \<noteq> 0
                  then kbind (kfree (kernel_stack (proc s3 p)) s3)
                         (\<lambda>s4. kret (upd_proc p (\<lambda>q. q\<lparr>kernel_stack := 0\<rparr>) s4))
                  else kret s3) (\<lambda>s5.
           kbind (klift (orphan_children (children (proc s5 p)) (process_table s5))) (\<lambda>pt.
             kret (printk ''[PROCESS] Process %d exited with status %d\<newline>''
               [KInt (sint (pid (pt ! p))), KInt status] (s5\<lparr>process_table := pt\<rparr>))))))"

partial_function (option) find_zombie :: "process list \<Rightarrow> nat option \<Rightarrow> nat option option" where
  "find_zombie pt child =
     (case child of
        None \<Rightarrow> Some None
      | Some c \<Rightarrow> if state (pt ! c) = PROCESS_STATE_ZOMBIE then Some (Some c)
                 else find_zombie pt (next_sibling (pt ! c)))"

text \<open>The places a pointer to a child can be in: \<open>process_t **prev\<close>.\<close>

datatype link = Children nat | Sibling nat

fun get_link :: "process list \<Rightarrow> link \<Rightarrow> nat option" where
  "get_link pt (Children p) = children (pt ! p)"
| "get_link pt (Sibling c) = next_sibling (pt ! c)"

fun set_link :: "link \<Rightarrow> nat option \<Rightarrow> process list \<Rightarrow> process list" where
  "set_link (Children p) v pt = pt[p := (pt ! p)\<lparr>children := v\<rparr>]"
| "set_link (Sibling c) v pt = pt[c := (pt ! c)\<lparr>next_sibling := v\<rparr>]"

partial_function (option) find_link :: "process list \<Rightarrow> link \<Rightarrow> nat \<Rightarrow> link option" where
  "find_link pt prev child =
     (case get_link pt prev of
        None \<Rightarrow> Some prev
      | Some c \<Rightarrow> if c = child then Some prev else find_link pt (Sibling c) child)"

text \<open>\<open>status\<close> is the address the exit status is stored at, or 0.\<close>

definition process_wait :: "nat option \<Rightarrow> u32 \<Rightarrow> 'a procs_scheme \<Rightarrow> (int \<times> 'a procs_scheme) kresult" where
  "process_wait pp status s =
     (case pp of None \<Rightarrow> kret (-1, s) | Some p \<Rightarrow>
        kbind (klift (find_zombie (process_table s) (children (proc s p)))) (\<lambda>z.
          case z of None \<Rightarrow> kret (-1, s) | Some c \<Rightarrow>
            let s1 = (if status \<noteq> 0
                      then s\<lparr>mem := wr32 (mem s) (unat status) (word_of_int (exit_status (proc s c)))\<rparr>
                      else s)
            in kbind (klift (find_link (process_table s1) (Children p) c)) (\<lambda>prev.
                 let pt = (if get_link (process_table s1) prev \<noteq> None
                           then set_link prev (next_sibling (proc s1 c)) (process_table s1)
                           else process_table s1)
                 in kret (sint (pid (proc s c)), upd_proc c unuse (s1\<lparr>process_table := pt\<rparr>)))))"

section \<open>Signals\<close>

text \<open>A queue entry: \<open>signal\<close> at offset 0, \<open>next\<close> at offset 4.\<close>

definition process_signal_register :: "nat option \<Rightarrow> int \<Rightarrow> u32 \<Rightarrow> 'a procs_scheme \<Rightarrow> int \<times> 'a procs_scheme" where
  "process_signal_register pp signal handler s =
     (case pp of None \<Rightarrow> (-1, s) | Some p \<Rightarrow>
        if signal < 0 \<or> signal \<ge> 32 then (-1, s)
        else (0, upd_proc p (\<lambda>q. q\<lparr>signal_handlers := (signal_handlers q)[nat signal := handler]\<rparr>) s))"

definition process_signal_send :: "nat option \<Rightarrow> int \<Rightarrow> 'a procs_scheme \<Rightarrow> (int \<times> 'a procs_scheme) kresult" where
  "process_signal_send pp signal s =
     (case pp of None \<Rightarrow> kret (-1, s) | Some p \<Rightarrow>
        if signal < 0 \<or> signal \<ge> 32 then kret (-1, s)
        else kbind (kmalloc 8 s) (\<lambda>(entry, s1).
          if entry = 0 then kret (-1, s1)
          else
            let m1 = wr32 (mem s1) (unat entry) (word_of_int signal);
                m2 = wr32 m1 (unat entry + 4) (signal_queue (proc s1 p))
            in kret (0, upd_proc p (\<lambda>q. q\<lparr>signal_queue := entry\<rparr>) (s1\<lparr>mem := m2\<rparr>))))"

text \<open>
  Delivery. \<open>call handler signal\<close> runs the handler. A signal number outside the table can only come
  from a corrupted entry and is undefined behaviour (\<open>None\<close>).
\<close>

partial_function (option) process_signal_process ::
  "(u32 \<Rightarrow> int \<Rightarrow> 'a procs_scheme \<Rightarrow> 'a procs_scheme kresult) \<Rightarrow> nat option \<Rightarrow> 'a procs_scheme \<Rightarrow>
     'a procs_scheme kresult" where
  "process_signal_process call pp s =
     (case pp of None \<Rightarrow> kret s | Some p \<Rightarrow>
        if signal_queue (proc s p) = 0 then kret s
        else
          let entry = signal_queue (proc s p);
              s1 = upd_proc p (\<lambda>q. q\<lparr>signal_queue := rd32 (mem s) (unat entry + 4)\<rparr>) s;
              signal = sint (rd32 (mem s1) (unat entry))
          in kbind (kfree entry s1) (\<lambda>s2.
               if signal < 0 \<or> 32 \<le> signal then None
               else if signal_handlers (proc s2 p) ! nat signal \<noteq> 0 then
                 kbind (call (signal_handlers (proc s2 p) ! nat signal) signal s2)
                   (process_signal_process call pp)
               else process_signal_process call pp
                 (printk ''[SIGNAL] Process %d received signal %d (no handler)\<newline>''
                   [KInt (sint (pid (proc s2 p))), KInt signal] s2)))"

definition process_kill :: "nat option \<Rightarrow> int \<Rightarrow> 'a procs_scheme \<Rightarrow> 'a procs_scheme kresult" where
  "process_kill pp signal s =
     (case pp of None \<Rightarrow> kret s
      | Some p \<Rightarrow> kbind (process_signal_send (Some p) signal s) (\<lambda>(r, s1). kret s1))"

definition process_get_current :: "'a procs_scheme \<Rightarrow> nat option" where
  "process_get_current s = current_process s"

definition process_get_by_pid :: "u32 \<Rightarrow> 'a procs_scheme \<Rightarrow> nat option" where
  "process_get_by_pid n s =
     find (\<lambda>i. state (proc s i) \<noteq> PROCESS_STATE_UNUSED \<and> pid (proc s i) = n) [0..<MAX_PROCESSES]"

definition process_get_current_uid :: "'a procs_scheme \<Rightarrow> u32" where
  "process_get_current_uid s = (case current_process s of None \<Rightarrow> 0 | Some p \<Rightarrow> uid (proc s p))"

section \<open>Process system calls\<close>

definition sys_fork :: "'a procs_scheme \<Rightarrow> (int \<times> 'a procs_scheme) kresult" where
  "sys_fork s =
     (case process_get_current s of None \<Rightarrow> kret (-1, s) | Some p \<Rightarrow>
        kbind (process_fork (Some p) s) (\<lambda>(child, s1).
          case child of None \<Rightarrow> kret (-1, s1) | Some c \<Rightarrow> kret (sint (pid (proc s1 c)), s1)))"

definition sys_wait :: "u32 \<Rightarrow> 'a procs_scheme \<Rightarrow> (int \<times> 'a procs_scheme) kresult" where
  "sys_wait status_ptr s =
     (case process_get_current s of None \<Rightarrow> kret (-1, s) | Some p \<Rightarrow> process_wait (Some p) status_ptr s)"

definition sys_getuid :: "'a procs_scheme \<Rightarrow> int" where
  "sys_getuid s = sint (process_get_current_uid s)"

definition sys_kill :: "u32 \<Rightarrow> u32 \<Rightarrow> 'a procs_scheme \<Rightarrow> (int \<times> 'a procs_scheme) kresult" where
  "sys_kill n signal s =
     (case process_get_by_pid n s of None \<Rightarrow> kret (-1, s) | Some p \<Rightarrow>
        kbind (process_kill (Some p) (sint signal) s) (\<lambda>s1. kret (0, s1)))"

section \<open>Memory mapping\<close>

definition page_round_down :: "u32 \<Rightarrow> u32" where
  "page_round_down a = a AND NOT (PAGE_SIZE - 1)"

text \<open>The clean-up of \<open>process_mmap\<close> for the pages before the one that could not be allocated.\<close>

definition mmap_cleanup :: "u32 \<Rightarrow> nat \<Rightarrow> 'a procs_scheme \<Rightarrow> 'a procs_scheme kresult" where
  "mmap_cleanup virt_addr j s =
     (let v = virt_addr + of_nat j * PAGE_SIZE; phys = paging_get_physical_address v s
      in kbind (if phys \<noteq> 0 then kfree phys s else kret s) (\<lambda>s1. kret (paging_unmap_page v s1)))"

fun mmap_pages ::
  "u32 \<Rightarrow> u32 \<Rightarrow> u32 \<Rightarrow> int \<Rightarrow> nat list \<Rightarrow> 'a procs_scheme \<Rightarrow> (bool \<times> 'a procs_scheme) kresult" where
  "mmap_pages dir virt_addr page_flags flags [] s = kret (True, s)"
| "mmap_pages dir virt_addr page_flags flags (i # is) s =
     kbind (kmalloc PAGE_SIZE s) (\<lambda>(phys_page, s1).
       if phys_page = 0 then
         kbind (kfold (mmap_cleanup virt_addr) [0..<i] s1) (\<lambda>s2. kret (False, s2))
       else
         let s2 = (if flags AND 0x20 \<noteq> 0
                   then s1\<lparr>mem := memset (mem s1) (unat phys_page) 0 4096\<rparr> else s1)
         in kbind (paging_map_page_in_directory dir (virt_addr + of_nat i * PAGE_SIZE) phys_page
                     page_flags s2)
              (mmap_pages dir virt_addr page_flags flags is))"

definition process_mmap ::
  "nat option \<Rightarrow> u32 \<Rightarrow> u32 \<Rightarrow> int \<Rightarrow> int \<Rightarrow> 'a procs_scheme \<Rightarrow> (u32 \<times> 'a procs_scheme) kresult" where
  "process_mmap pp addr length_arg prot flags s =
     (case pp of None \<Rightarrow> kret (-1, s) | Some p \<Rightarrow>
        if length_arg = 0 then kret (-1, s)
        else
          let pages_needed = (length_arg + PAGE_SIZE - 1) div PAGE_SIZE;
              total_size = pages_needed * PAGE_SIZE;
              virt_addr = (if addr \<noteq> 0 then page_round_down addr else p_heap_end (proc s p));
              page_flags = (if prot AND 0x2 \<noteq> 0 then PAGE_USER OR PAGE_WRITE else PAGE_USER)
          in kbind (mmap_pages (page_directory (proc s p)) virt_addr page_flags flags
                      [0..<unat pages_needed] s) (\<lambda>(ok, s1).
               if \<not> ok then kret (-1, s1)
               else
                 let s2 = (if p_heap_end (proc s1 p) < virt_addr + total_size
                           then upd_proc p (\<lambda>q. q\<lparr>p_heap_end := virt_addr + total_size\<rparr>) s1 else s1)
                 in kret (virt_addr, printk ''[MMAP] Mapped %d bytes at 0x%x for PID %d\<newline>''
                      [KInt (sint total_size), KUInt virt_addr, KInt (sint (pid (proc s2 p)))] s2)))"

definition munmap_page :: "u32 \<Rightarrow> nat \<Rightarrow> 'a procs_scheme \<Rightarrow> 'a procs_scheme kresult" where
  "munmap_page virt_addr i s =
     (let v = virt_addr + of_nat i * PAGE_SIZE; phys = paging_get_physical_address v s in
      if phys \<noteq> 0 then kbind (kfree phys s) (\<lambda>s1. kret (paging_unmap_page v s1)) else kret s)"

definition process_munmap ::
  "nat option \<Rightarrow> u32 \<Rightarrow> u32 \<Rightarrow> 'a procs_scheme \<Rightarrow> (int \<times> 'a procs_scheme) kresult" where
  "process_munmap pp addr length_arg s =
     (case pp of None \<Rightarrow> kret (-1, s) | Some p \<Rightarrow>
        if addr = 0 \<or> length_arg = 0 then kret (-1, s)
        else
          let virt_addr = page_round_down addr;
              pages = (length_arg + PAGE_SIZE - 1) div PAGE_SIZE
          in kbind (kfold (munmap_page virt_addr) [0..<unat pages] s) (\<lambda>s1.
               kret (0, printk ''[MUNMAP] Unmapped %d bytes at 0x%x for PID %d\<newline>''
                 [KInt (sint (pages * PAGE_SIZE)), KUInt virt_addr, KInt (sint (pid (proc s1 p)))] s1)))"

definition process_brk :: "nat option \<Rightarrow> u32 \<Rightarrow> 'a procs_scheme \<Rightarrow> (int \<times> 'a procs_scheme) kresult" where
  "process_brk pp addr s =
     (case pp of None \<Rightarrow> kret (-1, s) | Some p \<Rightarrow>
        if addr = 0 then kret (sint (p_heap_end (proc s p)), s)
        else
          let new_brk = page_round_down (addr + PAGE_SIZE - 1) in
          if p_heap_end (proc s p) < new_brk then
            kbind (process_mmap (Some p) (p_heap_end (proc s p)) (new_brk - p_heap_end (proc s p))
                     (0x1 OR 0x2) (0x02 OR 0x20) s) (\<lambda>(result, s1).
              if result = -1 then kret (-1, s1) else kret (sint (p_heap_end (proc s1 p)), s1))
          else if new_brk < p_heap_end (proc s p) then
            kbind (process_munmap (Some p) new_brk (p_heap_end (proc s p) - new_brk) s) (\<lambda>(r, s1).
              let s2 = upd_proc p (\<lambda>q. q\<lparr>p_heap_end := new_brk\<rparr>) s1
              in kret (sint (p_heap_end (proc s2 p)), s2))
          else kret (sint (p_heap_end (proc s p)), s))"

definition sys_mmap :: "u32 \<Rightarrow> u32 \<Rightarrow> u32 \<Rightarrow> u32 \<Rightarrow> 'a procs_scheme \<Rightarrow> (int \<times> 'a procs_scheme) kresult" where
  "sys_mmap addr length_arg prot flags s =
     (case process_get_current s of None \<Rightarrow> kret (-1, s) | Some p \<Rightarrow>
        kbind (process_mmap (Some p) addr length_arg (sint prot) (sint flags) s) (\<lambda>(result, s1).
          kret (sint result, s1)))"

definition sys_brk :: "u32 \<Rightarrow> 'a procs_scheme \<Rightarrow> (int \<times> 'a procs_scheme) kresult" where
  "sys_brk addr s =
     (case process_get_current s of None \<Rightarrow> kret (-1, s) | Some p \<Rightarrow> process_brk (Some p) addr s)"

section \<open>Scheduling\<close>

text \<open>The first pass over the table, from the current process on; the flag is \<open>found_current\<close>.\<close>

fun pass_one :: "process list \<Rightarrow> nat \<Rightarrow> bool \<Rightarrow> nat list \<Rightarrow> nat option" where
  "pass_one pt cur found_current [] = None"
| "pass_one pt cur found_current (i # is) =
     (if i = cur then pass_one pt cur True is
      else if found_current \<and> state (pt ! i) = PROCESS_STATE_READY then Some i
      else pass_one pt cur found_current is)"

text \<open>The second pass, from the beginning to the current process.\<close>

fun pass_two :: "process list \<Rightarrow> nat \<Rightarrow> nat list \<Rightarrow> nat option" where
  "pass_two pt cur [] = None"
| "pass_two pt cur (i # is) =
     (if i = cur then None
      else if state (pt ! i) = PROCESS_STATE_READY then Some i
      else pass_two pt cur is)"

definition schedule_next :: "process list \<Rightarrow> nat option \<Rightarrow> nat option" where
  "schedule_next pt current = (case current of
       Some cur \<Rightarrow>
         (case pass_one pt cur False [0..<MAX_PROCESSES] of
            Some n \<Rightarrow> Some n
          | None \<Rightarrow> (case pass_two pt cur [0..<MAX_PROCESSES] of
                Some n \<Rightarrow> Some n
              | None \<Rightarrow> if state (pt ! cur) = PROCESS_STATE_READY then Some cur else None))
     | None \<Rightarrow> find (\<lambda>i. state (pt ! i) = PROCESS_STATE_READY) [0..<MAX_PROCESSES])"

text \<open>\<open>process_switch\<close> up to the delivery of signals.\<close>

definition switch_to :: "nat \<Rightarrow> 'a procs_scheme \<Rightarrow> 'a procs_scheme" where
  "switch_to nxt s =
     (let s1 = (case current_process s of
                  None \<Rightarrow> s
                | Some c \<Rightarrow> if state (proc s c) = PROCESS_STATE_RUNNING
                           then upd_proc c (\<lambda>q. q\<lparr>state := PROCESS_STATE_READY\<rparr>) s else s);
          s2 = upd_proc nxt (\<lambda>q. q\<lparr>state := PROCESS_STATE_RUNNING\<rparr>) (s1\<lparr>current_process := Some nxt\<rparr>)
      in if page_directory (proc s2 nxt) \<noteq> 0
         then paging_switch_directory (page_directory (proc s2 nxt)) s2 else s2)"

definition process_switch ::
  "(u32 \<Rightarrow> int \<Rightarrow> 'a procs_scheme \<Rightarrow> 'a procs_scheme kresult) \<Rightarrow> nat option \<Rightarrow> 'a procs_scheme \<Rightarrow>
     'a procs_scheme kresult" where
  "process_switch call nxt s =
     (case nxt of None \<Rightarrow> kret s | Some n \<Rightarrow>
        kbind (process_signal_process call (Some n) (switch_to n s)) (\<lambda>s1.
          kret (case current_process s of
              Some prev \<Rightarrow> printk ''[SCHED] Context switch: PID %d -> PID %d\<newline>''
                [KInt (sint (pid (proc s1 prev))), KInt (sint (pid (proc s1 n)))] s1
            | None \<Rightarrow> printk ''[SCHED] Starting process PID %d\<newline>'' [KInt (sint (pid (proc s1 n)))] s1)))"

definition process_schedule ::
  "(u32 \<Rightarrow> int \<Rightarrow> 'a procs_scheme \<Rightarrow> 'a procs_scheme kresult) \<Rightarrow> 'a procs_scheme \<Rightarrow>
     'a procs_scheme kresult" where
  "process_schedule call s =
     (case schedule_next (process_table s) (current_process s) of
        None \<Rightarrow> kret s
      | Some n \<Rightarrow> if Some n \<noteq> current_process s then process_switch call (Some n) s else kret s)"

definition process_set_current :: "nat option \<Rightarrow> 'a procs_scheme \<Rightarrow> 'a procs_scheme" where
  "process_set_current pp s =
     (let s1 = (case current_process s of
                  None \<Rightarrow> s
                | Some c \<Rightarrow> if Some c \<noteq> pp then upd_proc c (\<lambda>q. q\<lparr>state := PROCESS_STATE_READY\<rparr>) s else s);
          s2 = s1\<lparr>current_process := pp\<rparr>
      in case pp of
           None \<Rightarrow> s2
         | Some p \<Rightarrow>
             let s3 = upd_proc p (\<lambda>q. q\<lparr>state := PROCESS_STATE_RUNNING\<rparr>) s2
             in if page_directory (proc s3 p) \<noteq> 0
                then paging_switch_directory (page_directory (proc s3 p)) s3 else s3)"

section \<open>Exceptions\<close>

text \<open>The bytes of the arrow in the messages.\<close>

abbreviation (input) arrow :: string where "arrow \<equiv> [CHR 0xE2, CHR 0x86, CHR 0x92]"

definition exception_to_signal_map :: "(u32 \<times> int \<times> string) list" where
  "exception_to_signal_map =
    [(0, 8, ''Division by Zero '' @ arrow @ '' SIGFPE''), (1, 5, ''Debug '' @ arrow @ '' SIGTRAP''),
     (3, 5, ''Breakpoint '' @ arrow @ '' SIGTRAP''), (4, 8, ''Overflow '' @ arrow @ '' SIGFPE''),
     (5, 11, ''Bound Range '' @ arrow @ '' SIGSEGV''), (6, 4, ''Invalid Opcode '' @ arrow @ '' SIGILL''),
     (7, 8, ''Device Not Available '' @ arrow @ '' SIGFPE''),
     (8, 6, ''Double Fault '' @ arrow @ '' SIGABRT''), (10, 11, ''Invalid TSS '' @ arrow @ '' SIGSEGV''),
     (11, 11, ''Segment Not Present '' @ arrow @ '' SIGSEGV''),
     (12, 11, ''Stack Fault '' @ arrow @ '' SIGSEGV''),
     (13, 11, ''General Protection '' @ arrow @ '' SIGSEGV''),
     (14, 11, ''Page Fault '' @ arrow @ '' SIGSEGV''), (16, 8, ''x87 FPU Error '' @ arrow @ '' SIGFPE''),
     (17, 7, ''Alignment Check '' @ arrow @ '' SIGBUS''), (18, 6, ''Machine Check '' @ arrow @ '' SIGABRT''),
     (19, 8, ''SIMD Exception '' @ arrow @ '' SIGFPE'')]"

definition process_handle_exception ::
  "(u32 \<Rightarrow> int \<Rightarrow> 'a procs_scheme \<Rightarrow> 'a procs_scheme kresult) \<Rightarrow> u32 \<Rightarrow> 'a procs_scheme \<Rightarrow>
     'a procs_scheme kresult" where
  "process_handle_exception call exception_num s =
     (case process_get_current s of
        None \<Rightarrow> kret (printk ''[EXCEPTION] No current process, exception %d in kernel mode\<newline>''
                  [KInt (sint exception_num)] s)
      | Some p \<Rightarrow>
          (case map_of exception_to_signal_map exception_num of
             None \<Rightarrow> kret (printk ''[EXCEPTION] No signal mapping for exception %d\<newline>''
                       [KInt (sint exception_num)] s)
           | Some (signal, name) \<Rightarrow>
               let s1 = printk (''[IDT'' @ arrow @ ''PROCESS] Exception %d (%s) sending signal %d to PID %d\<newline>'')
                          [KInt (sint exception_num), KStr (Some name), KInt signal,
                           KInt (sint (pid (proc s p)))] s
               in kbind (process_signal_send (Some p) signal s1) (\<lambda>(r, s2).
                    process_signal_process call (Some p) s2)))"

section \<open>Working directory\<close>

definition process_get_pwd :: "nat option \<Rightarrow> 'a procs_scheme \<Rightarrow> string option" where
  "process_get_pwd pp s = (case pp of None \<Rightarrow> None | Some p \<Rightarrow> Some (pwd (proc s p)))"

text \<open>The path is the C string at the argument (\<open>None\<close> for NULL).\<close>

definition process_set_pwd :: "nat option \<Rightarrow> string option \<Rightarrow> 'a procs_scheme \<Rightarrow> int \<times> 'a procs_scheme" where
  "process_set_pwd pp path s =
     (case (pp, path) of
        (Some p, Some str) \<Rightarrow>
          if 256 \<le> length str
          then (-1, printk ''[PROCESS] Path too long: %s\<newline>'' [KStr (Some str)] s)
          else (0, upd_proc p (\<lambda>q. q\<lparr>pwd := str\<rparr>) s)
      | _ \<Rightarrow> (-1, s))"

section \<open>Lemmas: the process table\<close>

lemma upd_proc_fields [simp]:
  "length (process_table (upd_proc i f s)) = length (process_table s)"
  "current_process (upd_proc i f s) = current_process s" "next_pid (upd_proc i f s) = next_pid s"
  "mem (upd_proc i f s) = mem s" "hw (upd_proc i f s) = hw s"
  "current_directory (upd_proc i f s) = current_directory s"
  "kernel_directory (upd_proc i f s) = kernel_directory s"
  "heap_start (upd_proc i f s) = heap_start s" "heap_initialized (upd_proc i f s) = heap_initialized s"
  by (simp_all add: upd_proc_def)

lemma proc_upd_proc:
  "i < length (process_table s) \<Longrightarrow> proc (upd_proc i f s) j = (if j = i then f (proc s i) else proc s j)"
  by (simp add: upd_proc_def)

lemma heap_rep_upd_proc [simp]: "heap_rep (upd_proc i f s) L = heap_rep s L"
  by (simp add: heap_rep_def heap_abs_def)

lemma switch_directory_fields [simp]:
  "process_table (paging_switch_directory d s) = process_table s"
  "current_process (paging_switch_directory d s) = current_process s"
  by (simp_all add: paging_switch_directory_def)

section \<open>Lemmas: what the heap operations leave alone\<close>

lemma kmalloc_init_more [simp]: "kheap.more (kmalloc_init s) = kheap.more s"
  by (simp add: kmalloc_init_def Let_def)

lemma kmalloc_more: "kmalloc n s = kret (p, s') \<Longrightarrow> kheap.more s' = kheap.more s"
  by (auto simp: kmalloc_def Let_def kbind_eq_kret split: if_splits)

lemma kfree_more: "kfree p s = kret s' \<Longrightarrow> kheap.more s' = kheap.more s"
  by (auto simp: kfree_def Let_def kbind_eq_kret split: if_splits)

lemma kmalloc_aligned_more: "kmalloc_aligned n a s = kret (p, s') \<Longrightarrow> kheap.more s' = kheap.more s"
  by (auto simp: kmalloc_aligned_def kbind_eq_kret split: if_splits dest: kmalloc_more)

lemma more_fields:
  fixes s s' :: "'a procs_scheme"
  assumes "kheap.more s' = kheap.more s"
  shows "process_table s' = process_table s" "current_process s' = current_process s"
    "next_pid s' = next_pid s" "current_directory s' = current_directory s"
    "kernel_directory s' = kernel_directory s"
  using assms by (cases s; cases s'; simp)+

lemma alloc_table_more: "paging_alloc_table s = kret (t, s') \<Longrightarrow> kheap.more s' = kheap.more s"
  by (auto simp: paging_alloc_table_def kbind_eq_kret split: if_splits dest: kmalloc_aligned_more)

lemma create_directory_more: "paging_create_directory s = kret (d, s') \<Longrightarrow> kheap.more s' = kheap.more s"
  by (auto simp: paging_create_directory_def kbind_eq_kret Let_def split: if_splits
      dest: kmalloc_aligned_more)

lemma kfold_more:
  assumes "\<And>x s s'. f x s = kret s' \<Longrightarrow> kheap.more s' = kheap.more s"
  shows "kfold f xs s = kret s' \<Longrightarrow> kheap.more s' = kheap.more s"
  by (induction xs arbitrary: s) (auto simp: kbind_eq_kret dest: assms)

lemma destroy_page_more: "destroy_page t j s = kret s' \<Longrightarrow> kheap.more s' = kheap.more s"
  by (auto simp: destroy_page_def split: if_splits dest: kfree_more)

lemma destroy_table_more: "destroy_table d i s = kret s' \<Longrightarrow> kheap.more s' = kheap.more s"
  using kfold_more [OF destroy_page_more]
  by (fastforce simp: destroy_table_def kbind_eq_kret Let_def simp del: upt_rec_numeral
      split: if_splits dest: kfree_more)

lemma destroy_directory_more: "paging_destroy_directory d s = kret s' \<Longrightarrow> kheap.more s' = kheap.more s"
  using kfold_more [OF destroy_table_more]
  by (fastforce simp: paging_destroy_directory_def kbind_eq_kret simp del: upt_rec_numeral
      split: if_splits dest: kfree_more)

lemma clone_pages_more: "clone_pages a b js s = kret (ok, s') \<Longrightarrow> kheap.more s' = kheap.more s"
proof (induction js arbitrary: s)
  case (Cons j js)
  show ?case
  proof (cases "present (entry (mem s) a j)")
    case True
    with Cons.prems obtain np s1 where s1: "kmalloc PAGE_SIZE s = kret (np, s1)"
      and rest: "np = 0 \<and> s' = s1 \<or> (\<exists>m. clone_pages a b js (s1\<lparr>mem := m\<rparr>) = kret (ok, s'))"
      by (auto simp: kbind_eq_kret Let_def split: if_splits)
    from rest Cons.IH have "kheap.more s' = kheap.more s1" by (auto dest: Cons.IH)
    with kmalloc_more [OF s1] show ?thesis by simp
  next
    case False
    with Cons.prems show ?thesis by (auto dest: Cons.IH)
  qed
qed simp

lemma clone_tables_more: "clone_tables a b ts s = kret (d, s') \<Longrightarrow> kheap.more s' = kheap.more s"
proof (induction ts arbitrary: s)
  case (Cons i ts)
  show ?case
  proof (cases "present (entry (mem s) a i)")
    case True
    with Cons.prems obtain t s1 where s1: "paging_alloc_table s = kret (t, s1)"
      and rest: "paging_destroy_directory b s1 = kret s'
        \<or> (\<exists>s2 s3. clone_pages (frame (entry (mem s) a i)) t [0..<PAGE_ENTRIES] s1 = kret (False, s2)
            \<and> kfree t s2 = kret s3 \<and> paging_destroy_directory b s3 = kret s')
        \<or> (\<exists>s2 m. clone_pages (frame (entry (mem s) a i)) t [0..<PAGE_ENTRIES] s1 = kret (True, s2)
            \<and> clone_tables a b ts (s2\<lparr>mem := m\<rparr>) = kret (d, s'))"
      by (auto simp: kbind_eq_kret Let_def simp del: upt_rec_numeral split: if_splits) blast+
    from rest have "kheap.more s' = kheap.more s1"
      by (auto dest!: destroy_directory_more clone_pages_more kfree_more Cons.IH simp del: upt_rec_numeral)
    with alloc_table_more [OF s1] show ?thesis by simp
  next
    case False
    with Cons.prems show ?thesis by (auto dest: Cons.IH)
  qed
qed simp

lemma clone_directory_more: "paging_clone_directory a s = kret (d, s') \<Longrightarrow> kheap.more s' = kheap.more s"
  by (fastforce simp: paging_clone_directory_def kbind_eq_kret Let_def simp del: upt_rec_numeral
      split: if_splits dest: kmalloc_aligned_more clone_tables_more)

lemma map_page_more:
  "paging_map_page_in_directory d v p f s = kret s' \<Longrightarrow> kheap.more s' = kheap.more s"
  by (auto simp: paging_map_page_in_directory_def kbind_eq_kret split: if_splits dest!: alloc_table_more)

section \<open>Lemmas: delivering signals\<close>

text \<open>One turn of the delivery loop, and an induction rule for what the loop keeps.\<close>

definition deliver_one where
  "deliver_one call p rec s =
     (let entry = signal_queue (proc s p);
          s1 = upd_proc p (\<lambda>q. q\<lparr>signal_queue := rd32 (mem s) (unat entry + 4)\<rparr>) s;
          signal = sint (rd32 (mem s1) (unat entry))
      in kbind (kfree entry s1) (\<lambda>s2.
           if signal < 0 \<or> 32 \<le> signal then None
           else if signal_handlers (proc s2 p) ! nat signal \<noteq> 0 then
             kbind (call (signal_handlers (proc s2 p) ! nat signal) signal s2) rec
           else rec (printk ''[SIGNAL] Process %d received signal %d (no handler)\<newline>''
                   [KInt (sint (pid (proc s2 p))), KInt signal] s2)))"

lemma signal_process_unfold:
  "process_signal_process call (Some p) s =
     (if signal_queue (proc s p) = 0 then kret s
      else deliver_one call p (process_signal_process call (Some p)) s)"
  by (subst process_signal_process.simps) (simp add: deliver_one_def)

lemma signal_process_rel:
  assumes refl: "\<And>s. R s s" and trans: "\<And>s t u. R s t \<Longrightarrow> R t u \<Longrightarrow> R s u"
    and queue: "\<And>p x s. R s (upd_proc p (\<lambda>q. q\<lparr>signal_queue := x\<rparr>) s)"
    and free: "\<And>e s s'. kfree e s = kret s' \<Longrightarrow> R s s'"
    and out: "\<And>h s. R s (s\<lparr>hw := h\<rparr>)"
    and handler: "\<And>h sig s s'. call h sig s = kret s' \<Longrightarrow> R s s'"
    and eq: "process_signal_process call pp s = kret s'"
  shows "R s s'"
proof -
  let ?P = "\<lambda>c pp s r. c = call \<longrightarrow> (\<forall>t. r = Inr t \<longrightarrow> R s t)"
  have "?P call pp s (Inr s' :: string + _)"
  proof (rule process_signal_process.raw_induct [where P = ?P, OF _ eq [unfolded kret_def]])
    fix f c pp s r
    assume IH: "\<And>c pp s r. f c pp s = Some r \<Longrightarrow> ?P c pp s r"
      and body: "(case pp of None \<Rightarrow> kret s | Some p \<Rightarrow>
        if signal_queue (proc s p) = 0 then kret s
        else
          let entry = signal_queue (proc s p);
              s1 = upd_proc p (\<lambda>q. q\<lparr>signal_queue := rd32 (mem s) (unat entry + 4)\<rparr>) s;
              signal = sint (rd32 (mem s1) (unat entry))
          in kbind (kfree entry s1) (\<lambda>s2.
               if signal < 0 \<or> 32 \<le> signal then None
               else if signal_handlers (proc s2 p) ! nat signal \<noteq> 0 then
                 kbind (c (signal_handlers (proc s2 p) ! nat signal) signal s2) (f c pp)
               else f c pp
                 (printk ''[SIGNAL] Process %d received signal %d (no handler)\<newline>''
                   [KInt (sint (pid (proc s2 p))), KInt signal] s2))) = Some r"
    have IH': "f call pp s = kret t \<Longrightarrow> R s t" for s t
      using IH [of call pp s "Inr t"] by (simp add: kret_def)
    show "?P c pp s r"
    proof (intro impI allI)
      fix t assume c: "c = call" and r: "r = Inr t"
      show "R s t"
      proof (cases "\<exists>p. pp = Some p \<and> signal_queue (proc s p) \<noteq> 0")
        case True
        then obtain p where p: "pp = Some p" "signal_queue (proc s p) \<noteq> 0" by blast
        have "deliver_one call p (f call (Some p)) s = kret t"
          using body p(2) unfolding c r p(1) by (simp add: deliver_one_def kret_def)
        then obtain x s2 where s2: "kfree (signal_queue (proc s p))
            (upd_proc p (\<lambda>q. q\<lparr>signal_queue := x\<rparr>) s) = kret s2"
          and rest: "(\<exists>h sig s3. call h sig s2 = kret s3 \<and> f call pp s3 = kret t)
            \<or> (\<exists>h. f call pp (s2\<lparr>hw := h\<rparr>) = kret t)"
          using p(1) by (auto simp: deliver_one_def Let_def kbind_eq_kret split: if_splits) blast+
        have "R s s2" using trans queue free [OF s2] by blast
        moreover have "R s2 t" using rest handler out IH' trans by blast
        ultimately show ?thesis by (rule trans)
      next
        case False
        with body r refl show ?thesis by (auto simp: kret_def split: option.splits)
      qed
    qed
  qed
  then show ?thesis by simp
qed

end
