(* ===== verification/KFS_Lifecycle.thy ===== *)
theory KFS_Lifecycle
  imports KFS_Process
begin

text \<open>
  Correctness of the life of a process (\<open>src/process.c\<close>): signal queues on the kernel heap, fork,
  exit and wait, process identifiers.
\<close>

section \<open>Signal queues\<close>

text \<open>
  The queue of process \<open>p\<close> holds the signals \<open>sigs\<close>: its entries are allocated 8-byte blocks linked
  through their second word, on a sound heap whose allocated blocks are \<open>L\<close>.
\<close>

definition queue_at :: "'a procs_scheme \<Rightarrow> (nat \<times> nat) set \<Rightarrow> nat \<Rightarrow> u32 list \<Rightarrow> int list \<Rightarrow> bool" where
  "queue_at s L p qs sigs \<longleftrightarrow> heap_rep s L \<and> chain (mem s) 4 (signal_queue (proc s p)) qs \<and> owned L 8 qs
     \<and> sigs = map (\<lambda>q. sint (rd32 (mem s) (unat q))) qs \<and> (\<forall>sig \<in> set sigs. 0 \<le> sig \<and> sig < 32)"

lemma signals_frame:
  assumes "\<And>x. x \<in> live_bytes L \<Longrightarrow> m' x = m x" "owned L 8 qs"
  shows "map (\<lambda>q. sint (rd32 m' (unat q))) qs = map (\<lambda>q. sint (rd32 m (unat q))) qs"
proof (rule map_cong [OF refl])
  fix q assume "q \<in> set qs"
  with assms(2) obtain len where "(unat q, len) \<in> L" "8 \<le> len" by (auto simp: owned_def)
  then have "\<And>i. i < 4 \<Longrightarrow> unat q + i \<in> live_bytes L" by (auto intro: live_bytesI)
  with assms(1) show "sint (rd32 m' (unat q)) = sint (rd32 m (unat q))"
    by (metis (no_types, lifting) rd32_cong)
qed

lemma sint_signal: "0 \<le> sig \<Longrightarrow> sig < 32 \<Longrightarrow> sint (word_of_int sig :: u32) = sig"
  using i32_small [of sig] by (simp add: i32_def)

lemma kmalloc_table:
  fixes s :: "'a procs_scheme"
  assumes "kmalloc n s = kret (e, s')"
  shows "process_table s' = process_table s" "current_process s' = current_process s" "next_pid s' = next_pid s"
  using more_fields [OF kmalloc_more [OF assms]] by auto

lemma signal_send_queue:
  assumes q: "queue_at s L p qs sigs" and p: "p < length (process_table s)" and sig: "0 \<le> sig" "sig < 32"
  obtains s' where "process_signal_send (Some p) sig s = kret (-1, s')" "queue_at s' L p qs sigs"
      "process_table s' = process_table s"
  | e len s' where "process_signal_send (Some p) sig s = kret (0, s')" "e \<noteq> 0" "e \<notin> set qs" "8 \<le> len"
      "queue_at s' (insert (unat e, len) L) p (e # qs) (sig # sigs)"
      "process_table s' = (process_table s)[p := (proc s p)\<lparr>signal_queue := e\<rparr>]"
proof -
  have rep: "heap_rep s L" and ch: "chain (mem s) 4 (signal_queue (proc s p)) qs" and own: "owned L 8 qs"
    and sigs: "sigs = map (\<lambda>q. sint (rd32 (mem s) (unat q))) qs" "\<forall>x \<in> set sigs. 0 \<le> x \<and> x < 32"
    using q by (auto simp: queue_at_def)
  have n: "(8 :: u32) \<noteq> 0" "unat (8 :: u32) + 19 < 2 ^ 32" by auto
  from kheap.alloc_law [OF rep n] obtain e s1 where al: "kmalloc 8 s = kret (e, s1)"
    and null: "e = 0 \<longrightarrow> heap_rep s1 L \<and> mem s1 = mem s" by (metis (mono_tags, lifting))
  note tab = kmalloc_table [OF al]
  show thesis
  proof (cases "e = 0")
    case True
    with null tab q have "queue_at s1 L p qs sigs" by (simp add: queue_at_def)
    with True al sig tab that(1) show thesis by (simp add: process_signal_send_def)
  next
    case False
    obtain len where len: "unat (8 :: u32) \<le> len" "heap_rep s1 (insert (unat e, len) L)"
      "\<And>qs k. owned L k qs \<Longrightarrow> 0 < k \<Longrightarrow> k \<le> unat (8 :: u32) \<Longrightarrow>
         e \<notin> set qs \<and> owned (insert (unat e, len) L) k qs"
      "\<And>m. (\<And>x. x < unat e \<or> unat e + unat (8 :: u32) \<le> x \<Longrightarrow> m x = mem s1 x) \<Longrightarrow>
         heap_rep (s1\<lparr>mem := m\<rparr>) (insert (unat e, len) L) \<and> (\<forall>x \<in> live_bytes L \<union> unmanaged. m x = mem s x)"
      using kheap.alloc_node [OF rep n al False] by blast
    define m where "m = wr32 (wr32 (mem s1) (unat e) (word_of_int sig)) (unat e + 4)
      (signal_queue (proc s1 p))"
    have out: "m x = mem s1 x" if "x < unat e \<or> unat e + 8 \<le> x" for x
      using that by (auto simp: m_def mem_simps)
    from len(4) [of m] out have m: "heap_rep (s1\<lparr>mem := m\<rparr>) (insert (unat e, len) L)"
      "\<forall>x \<in> live_bytes L \<union> unmanaged. m x = mem s x" by auto
    from len(3) [OF own] have own': "e \<notin> set qs" "owned (insert (unat e, len) L) 8 qs" by auto
    define s' where "s' = upd_proc p (\<lambda>q. q\<lparr>signal_queue := e\<rparr>) (s1\<lparr>mem := m\<rparr>)"
    have rd: "rd32 m (unat e + 4) = signal_queue (proc s p)" "rd32 m (unat e) = word_of_int sig"
      using tab by (simp_all add: m_def mem_simps)
    have "chain m 4 (signal_queue (proc s p)) qs"
      using ch chain_frame [of L m "mem s" 8 qs 4] m(2) own by auto
    moreover have "owned (insert (unat e, len) L) 8 (e # qs)"
      using own' len(1) by (auto simp: owned_def)
    moreover have "map (\<lambda>q. sint (rd32 m (unat q))) qs = sigs"
      using signals_frame [of L m "mem s" qs] m(2) own sigs(1) by auto
    ultimately have "queue_at s' (insert (unat e, len) L) p (e # qs) (sig # sigs)"
      using m(1) False rd sig sigs(2) p tab
      by (simp add: queue_at_def s'_def proc_upd_proc sint_signal)
    moreover have "process_signal_send (Some p) sig s = kret (0, s')"
      using al False sig by (simp add: process_signal_send_def Let_def s'_def m_def)
    moreover have "process_table s' = (process_table s)[p := (proc s p)\<lparr>signal_queue := e\<rparr>]"
      using tab by (simp add: s'_def upd_proc_def)
    ultimately show thesis using that(2) [of s' e len] False own'(1) len(1) by simp
  qed
qed

text \<open>What delivering one signal puts on the hardware, for handlers that only do input and output.\<close>

definition signal_effect :: "(u32 \<Rightarrow> int \<Rightarrow> hardware \<Rightarrow> hardware) \<Rightarrow> process \<Rightarrow> int \<Rightarrow> hardware \<Rightarrow> hardware" where
  "signal_effect io q sig h =
     (if signal_handlers q ! nat sig \<noteq> 0 then io (signal_handlers q ! nat sig) sig h
      else printk_hw ''[SIGNAL] Process %d received signal %d (no handler)\<newline>''
             [KInt (sint (pid q)), KInt sig] h)"

lemma kfree_hw:
  assumes "kfree e s = kret s'" "heap_rep s L" "(unat e, len) \<in> L"
  shows "hw s' = hw s"
proof -
  from assms(2) obtain bs where bs: "heap_abs s bs" "L = live bs" by (auto simp: heap_rep_def)
  obtain m' where "kfree (of_nat (unat e)) s = kret (s\<lparr>mem := m', total_freed := total_freed s + of_nat len\<rparr>)"
    using assms(3) bs(2) kfree_step [OF bs(1)] by blast
  with assms(1) show ?thesis by auto
qed

lemma signal_process_queue:
  fixes s :: "'a procs_scheme"
  assumes "queue_at s L p qs sigs" "p < length (process_table s)"
  shows "\<exists>s' lens. process_signal_process (\<lambda>h sig s. kret (on_hw (io h sig) s)) (Some p) s = kret s'
    \<and> length lens = length qs \<and> set (zip (map unat qs) lens) \<subseteq> L
    \<and> queue_at s' (L - set (zip (map unat qs) lens)) p [] []
    \<and> hw s' = fold (signal_effect io (proc s p)) sigs (hw s)
    \<and> process_table s' = (process_table s)[p := (proc s p)\<lparr>signal_queue := 0\<rparr>]"
  using assms
proof (induction qs arbitrary: s L sigs)
  case Nil
  then have "signal_queue (proc s p) = 0" "sigs = []" by (auto simp: queue_at_def)
  moreover from this(1) have "process_table s = (process_table s)[p := (proc s p)\<lparr>signal_queue := 0\<rparr>]"
    by (metis list_update_id process.surjective process.update_convs(16))
  ultimately show ?case using Nil by (auto simp: signal_process_unfold)
next
  case (Cons e qs)
  have rep: "heap_rep s L" and ch: "chain (mem s) 4 e (e # qs)" and own: "owned L 8 (e # qs)"
    and head: "signal_queue (proc s p) = e" "e \<noteq> 0"
    using Cons.prems(1) by (auto simp: queue_at_def)
  define sig where "sig = sint (rd32 (mem s) (unat e))"
  define sigs' where "sigs' = map (\<lambda>q. sint (rd32 (mem s) (unat q))) qs"
  have sigs: "sigs = sig # sigs'" "0 \<le> sig" "sig < 32" "\<forall>x \<in> set sigs'. 0 \<le> x \<and> x < 32"
    using Cons.prems(1) by (auto simp: queue_at_def sig_def sigs'_def)
  define nx where "nx = rd32 (mem s) (unat e + 4)"
  define s1 where "s1 = upd_proc p (\<lambda>q. q\<lparr>signal_queue := nx\<rparr>) s"
  have rep1: "heap_rep s1 L" and ch1: "chain (mem s1) 4 e (e # qs)" using rep ch by (simp_all add: s1_def)
  obtain s2 L2 where s2: "kfree e s1 = kret s2" "heap_rep s2 L2" "owned L2 8 qs"
      "chain (mem s2) 4 (rd32 (mem s1) (unat e + 4)) qs"
      "\<And>x. x \<in> live_bytes L \<union> unmanaged \<Longrightarrow> mem s2 x = mem s1 x"
      "\<exists>len \<ge> 8. (unat e, len) \<in> L \<and> L2 = L - {(unat e, len)}"
    by (rule kheap.free_node [OF rep1 ch1 own]) auto
  from s2(6) obtain len where len: "(unat e, len) \<in> L" "L2 = L - {(unat e, len)}" by blast
  have tab2: "process_table s2 = (process_table s)[p := (proc s p)\<lparr>signal_queue := nx\<rparr>]"
    using more_fields(1) [OF kfree_more [OF s2(1)]] by (simp add: s1_def upd_proc_def)
  have p2: "proc s2 p = (proc s p)\<lparr>signal_queue := nx\<rparr>" using Cons.prems(2) by (simp add: tab2)
  define s3 where "s3 = on_hw (signal_effect io (proc s p) sig) s2"
  have own': "owned L 8 qs" using own by (auto simp: owned_def)
  have "map (\<lambda>q. sint (rd32 (mem s2) (unat q))) qs = sigs'"
    using signals_frame [of L "mem s2" "mem s" qs] s2(5) own' by (simp add: sigs'_def s1_def)
  moreover have "signal_queue (proc s3 p) = nx" using p2 by (simp add: s3_def)
  ultimately have q3: "queue_at s3 L2 p qs sigs'"
    using s2 sigs(4) by (simp add: queue_at_def s3_def s1_def nx_def)
  have "p < length (process_table s3)" using Cons.prems(2) by (simp add: s3_def tab2)
  from Cons.IH [OF q3 this] obtain s' lens where IH:
      "process_signal_process (\<lambda>h sig s. kret (on_hw (io h sig) s)) (Some p) s3 = kret s'"
      "length lens = length qs" "set (zip (map unat qs) lens) \<subseteq> L2"
      "queue_at s' (L2 - set (zip (map unat qs) lens)) p [] []"
      "hw s' = fold (signal_effect io (proc s3 p)) sigs' (hw s3)"
      "process_table s' = (process_table s3)[p := (proc s3 p)\<lparr>signal_queue := 0\<rparr>]" by blast
  have eff: "signal_effect io (proc s3 p) = signal_effect io (proc s p)"
    using p2 by (simp add: s3_def signal_effect_def fun_eq_iff)
  have "process_signal_process (\<lambda>h sig s. kret (on_hw (io h sig) s)) (Some p) s = kret s'"
    using head IH(1) s2(1) sigs(2,3) p2
    by (subst signal_process_unfold)
      (simp add: deliver_one_def Let_def s1_def nx_def sig_def s3_def signal_effect_def split: if_splits)
  moreover have "hw s2 = hw s" using kfree_hw [OF s2(1) rep1 len(1)] by (simp add: s1_def)
  moreover have "L - set (zip (map unat (e # qs)) (len # lens)) = L2 - set (zip (map unat qs) lens)"
    using len(2) by auto
  moreover have "set (zip (map unat (e # qs)) (len # lens)) \<subseteq> L" using len IH(3) by auto
  moreover have "hw s' = fold (signal_effect io (proc s p)) sigs (hw s2)"
    using IH(5) eff sigs(1) by (simp add: s3_def)
  moreover have "process_table s' = (process_table s)[p := (proc s p)\<lparr>signal_queue := 0\<rparr>]"
    using IH(6) p2 tab2 by (simp add: s3_def)
  ultimately show ?case
    using IH(2,4) by (intro exI [of _ s'] exI [of _ "len # lens"]) simp
qed

section \<open>Properties: signals\<close>

text \<open>
  Sending a signal to a process whose queue holds \<open>sigs\<close> on a sound heap either fails with -1 and
  changes nothing of the queue and the process table, or returns 0 and the queue then holds the new
  signal in front of \<open>sigs\<close> (the queue is last in, first out), in a block of its own.
\<close>

theorem process_signal_send_outcome:
  fixes s :: "'a procs_scheme"
  assumes "queue_at s L p qs sigs" "p < length (process_table s)" "0 \<le> sig" "sig < 32"
  shows "(\<exists>s'. process_signal_send (Some p) sig s = kret (-1, s') \<and> queue_at s' L p qs sigs
        \<and> process_table s' = process_table s)
    \<or> (\<exists>s' e len. process_signal_send (Some p) sig s = kret (0, s') \<and> e \<notin> set qs
        \<and> queue_at s' (insert (unat e, len) L) p (e # qs) (sig # sigs)
        \<and> process_table s' = (process_table s)[p := (proc s p)\<lparr>signal_queue := e\<rparr>])"
  by (cases rule: signal_send_queue [OF assms]) auto

text \<open>
  C22. Delivering signals terminates, runs every queued signal's handler exactly once, in queue order,
  prints a message for the signals without one, frees every queue entry and nothing else, and leaves
  the queue empty and the rest of the process table unchanged. The handlers here do input and output
  only.
\<close>

theorem process_signals_delivered:
  fixes s :: "'a procs_scheme"
  assumes "queue_at s L p qs sigs" "p < length (process_table s)"
  shows "\<exists>s' lens. process_signal_process (\<lambda>h sig s. kret (on_hw (io h sig) s)) (Some p) s = kret s'
    \<and> length lens = length qs \<and> set (zip (map unat qs) lens) \<subseteq> L
    \<and> queue_at s' (L - set (zip (map unat qs) lens)) p [] []
    \<and> hw s' = fold (signal_effect io (proc s p)) sigs (hw s)
    \<and> process_table s' = (process_table s)[p := (proc s p)\<lparr>signal_queue := 0\<rparr>]"
  by (rule signal_process_queue [OF assms])

definition signals_example :: procs where
  "signals_example = procs_boot paging_ready"

lemma signals_example_fields:
  "process_table signals_example = replicate 256 process_zero" "mem signals_example = mem paging_ready"
  "heap_initialized signals_example = heap_initialized paging_ready"
  "heap_start signals_example = heap_start paging_ready"
  by (simp_all add: signals_example_def procs_boot_def procs.defs paging.defs)

lemma signals_example_heap: "heap_abs signals_example [(HEAP_SIZE, True)]"
  using paging_ready_heap by (simp add: heap_abs_def signals_example_fields)

lemma signals_example_queue: "queue_at signals_example {} 0 [] []"
  using signals_example_heap
  by (auto simp: queue_at_def heap_rep_def signals_example_fields process_zero_def owned_def
      intro!: exI [of _ "[(HEAP_SIZE, True)]"])

lemma signals_example_room: "process_signal_send (Some 0) 2 signals_example \<noteq> kret (-1, s)"
proof -
  have "amalloc (request 8) HEAP_START [(HEAP_SIZE, True)] = Some (HEAP_START, [(24, False), (0x100000 - 24, True)])"
    by (simp add: request_def)
  with kmalloc_step [OF signals_example_heap, of 8] show ?thesis
    by (auto simp: process_signal_send_def Let_def)
qed

theorem process_signal_send_outcome_witness:
  "\<exists>s' e len. process_signal_send (Some 0) 2 signals_example = kret (0, s')
     \<and> queue_at s' {(unat e, len)} 0 [e] [2]"
  using process_signal_send_outcome [OF signals_example_queue, of 2] signals_example_room
  by (auto simp: signals_example_fields)

theorem process_signals_delivered_witness:
  "\<exists>(s :: procs) s'. signal_queue (proc s 0) \<noteq> 0
     \<and> process_signal_process (\<lambda>h sig s. kret (on_hw (outb 0xE9 0) s)) (Some 0) s = kret s'
     \<and> signal_queue (proc s' 0) = 0"
proof -
  obtain s :: procs and e len where s: "queue_at s {(unat e, len)} 0 [e] [2]"
      "process_table s = (process_table signals_example)[0 := (proc signals_example 0)\<lparr>signal_queue := e\<rparr>]"
    using signals_example_room signals_example_queue
    by (cases rule: signal_send_queue [OF signals_example_queue, of 2]) (auto simp: signals_example_fields)
  then have len: "0 < length (process_table s)" by (simp add: signals_example_fields)
  obtain s' L' where s': "process_signal_process (\<lambda>h sig s. kret (on_hw (outb 0xE9 0) s)) (Some 0) s = kret s'"
      "queue_at s' L' 0 [] []"
    using process_signals_delivered [OF s(1) len, of "\<lambda>_ _. outb 0xE9 0"] by auto
  from s(1) s'(2) have "signal_queue (proc s 0) \<noteq> 0" "signal_queue (proc s' 0) = 0" by (auto simp: queue_at_def)
  with s'(1) show ?thesis by blast
qed

end
