(* ===== verification/KFS_Queue.thy ===== *)
theory KFS_Queue
  imports KFS_Prelude
begin

text \<open>
  Bounded first-in first-out queues: the interface the kernel's two ring buffers implement (the
  keyboard buffer of \<open>src/keyboard.c\<close> and the accept queue of a listening socket in
  \<open>src/socket.c\<close>), the order and loss lemmas that follow from it, and the shared facts about the
  contents of a ring.
\<close>

section \<open>Rings\<close>

text \<open>The \<open>n\<close> elements of a ring from position \<open>r\<close>.\<close>

definition ring :: "'a list \<Rightarrow> nat \<Rightarrow> nat \<Rightarrow> 'a list" where
  "ring buf r n = map (\<lambda>i. buf ! ((r + i) mod length buf)) [0..<n]"

lemma length_ring [simp]: "length (ring buf r n) = n"
  by (simp add: ring_def)

lemma ring_0 [simp]: "ring buf r 0 = []"
  by (simp add: ring_def)

lemma ring_get:
  assumes "r < length buf"
  shows "ring buf r (Suc n) = buf ! r # ring buf ((r + 1) mod length buf) n"
proof -
  have "(r + Suc i) mod length buf = ((r + 1) mod length buf + i) mod length buf" for i
    by (simp add: mod_simps)
  then show ?thesis
    using assms by (simp add: ring_def upt_conv_Cons map_Suc_upt [symmetric] del: upt_Suc)
qed

lemma mod_add_neq:
  fixes i n N r :: nat
  assumes "i < n" "n < N"
  shows "(r + i) mod N \<noteq> (r + n) mod N"
proof
  assume "(r + i) mod N = (r + n) mod N"
  then have "N dvd (r + n) - (r + i)"
    using assms by (metis add_le_cancel_left less_imp_le mod_eq_dvd_iff_nat)
  then have "N dvd n - i" by simp
  with assms show False by (simp add: nat_dvd_not_less)
qed

lemma ring_put:
  assumes "n < length buf"
  shows "ring (buf[(r + n) mod length buf := x]) r (Suc n) = ring buf r n @ [x]"
proof -
  have "(r + n) mod length buf < length buf" using assms by (intro mod_less_divisor) auto
  moreover have "(r + n) mod length buf \<noteq> (r + i) mod length buf" if "i < n" for i
    using mod_add_neq [OF that assms, of r] by simp
  ultimately show ?thesis by (simp add: ring_def)
qed

section \<open>The interface\<close>

datatype 'a queue_op = Put 'a | Get

text \<open>Running a sequence of operations: the elements taken out, and the final state.\<close>

fun queue_run :: "('a \<Rightarrow> 's \<Rightarrow> 's) \<Rightarrow> ('s \<Rightarrow> 'a \<times> 's) \<Rightarrow> ('s \<Rightarrow> bool) \<Rightarrow> 'a queue_op list \<Rightarrow> 's \<Rightarrow>
    'a list \<times> 's" where
  "queue_run put get is_empty [] s = ([], s)"
| "queue_run put get is_empty (Put x # ops) s = queue_run put get is_empty ops (put x s)"
| "queue_run put get is_empty (Get # ops) s =
     (if is_empty s then queue_run put get is_empty ops s
      else let (x, s') = get s; (xs, t) = queue_run put get is_empty ops s' in (x # xs, t))"

fun puts :: "'a queue_op list \<Rightarrow> 'a list" where
  "puts [] = []"
| "puts (Put x # ops) = x # puts ops"
| "puts (Get # ops) = puts ops"

locale bounded_queue =
  fixes put :: "'a \<Rightarrow> 's \<Rightarrow> 's"
    and get :: "'s \<Rightarrow> 'a \<times> 's"
    and is_empty :: "'s \<Rightarrow> bool"
    and inv :: "'s \<Rightarrow> bool"
    and contents :: "'s \<Rightarrow> 'a list"
    and cap :: nat
  assumes put_law: "inv s \<Longrightarrow> inv (put x s) \<and>
      contents (put x s) = (if length (contents s) < cap then contents s @ [x] else contents s)"
    and get_law: "inv s \<Longrightarrow> contents s \<noteq> [] \<Longrightarrow> inv (snd (get s)) \<and>
      fst (get s) = hd (contents s) \<and> contents (snd (get s)) = tl (contents s)"
    and empty_law: "inv s \<Longrightarrow> is_empty s \<longleftrightarrow> contents s = []"
    and cap_law: "inv s \<Longrightarrow> length (contents s) \<le> cap"
begin

lemma get_cases:
  assumes "inv s" "\<not> is_empty s"
  obtains x s' where "get s = (x, s')" "inv s'" "contents s = x # contents s'"
proof -
  from assms have ne: "contents s \<noteq> []" by (simp add: empty_law)
  obtain x s' where g: "get s = (x, s')" by force
  with get_law [OF assms(1) ne] ne have "inv s'" "contents s = x # contents s'"
    by (auto simp: neq_Nil_conv)
  with g that show thesis by blast
qed

lemma run_inv: "inv s \<Longrightarrow> inv (snd (queue_run put get is_empty ops s))"
proof (induction ops arbitrary: s)
  case (Cons op ops)
  show ?case
  proof (cases "op = Get \<and> \<not> is_empty s")
    case True
    with get_cases [OF Cons.prems] obtain x s' where "get s = (x, s')" "inv s'" by blast
    with True Cons.IH [of s'] show ?thesis by (auto split: prod.splits)
  next
    case False
    with Cons put_law show ?thesis by (cases op) auto
  qed
qed simp

text \<open>
  Order: as long as the queue cannot overflow, what comes out, followed by what is still inside, is
  what was inside followed by what was put in.
\<close>

lemma run_fifo:
  "inv s \<Longrightarrow> length (contents s) + length (puts ops) \<le> cap \<Longrightarrow>
     fst (queue_run put get is_empty ops s) @ contents (snd (queue_run put get is_empty ops s)) =
     contents s @ puts ops"
proof (induction ops arbitrary: s)
  case (Cons op ops)
  consider x where "op = Put x" | "op = Get" "is_empty s" | "op = Get" "\<not> is_empty s"
    by (cases op) auto
  then show ?case
  proof cases
    case 1
    with Cons put_law [of s x] show ?thesis by simp
  next
    case 2
    with Cons show ?thesis by simp
  next
    case 3
    from get_cases [OF Cons.prems(1) 3(2)] obtain x s'
      where s': "get s = (x, s')" "inv s'" "contents s = x # contents s'" by blast
    with 3 Cons.prems Cons.IH [of s'] show ?thesis by (auto split: prod.splits)
  qed
qed simp

end

end
