(* ===== verification/KFS_Socket.thy ===== *)
theory KFS_Socket
  imports KFS_Process KFS_Queue
begin

text \<open>
  Sockets between processes (\<open>src/socket.c\<close>, \<open>include/socket.h\<close>). The socket table is a list of
  256 records, a pointer to a socket the index of its record (or \<open>None\<close> for null). Messages are
  \<open>socket_msg_t\<close> structures on the kernel heap: 4096 bytes of data, the length at offset 4096, the
  address of the sender at 4100 and the link at 4112. The lemmas show that a message queue is first
  in, first out and loses nothing that the heap had room for, that the accept queue is a bounded
  queue of 16, and that no socket made by \<open>socket_create\<close> can be used afterwards.
\<close>

section \<open>State\<close>

datatype socket_state = SOCKET_STATE_CLOSED | SOCKET_STATE_LISTENING | SOCKET_STATE_CONNECTED
  | SOCKET_STATE_CONNECTING

abbreviation (input) MAX_SOCKETS :: nat where "MAX_SOCKETS \<equiv> 256"
abbreviation (input) SOCKET_MSG_SIZE :: u32 where "SOCKET_MSG_SIZE \<equiv> 4096"
abbreviation (input) SOCKET_TYPE_STREAM :: u32 where "SOCKET_TYPE_STREAM \<equiv> 1"
abbreviation (input) SOCKET_TYPE_DGRAM :: u32 where "SOCKET_TYPE_DGRAM \<equiv> 2"
abbreviation (input) SOCKET_AF_UNIX :: u32 where "SOCKET_AF_UNIX \<equiv> 1"

record socket_address =
  sa_family :: u32
  sa_pid :: u32
  sa_port :: u32

record socket =
  sk_fd :: int
  sk_state :: socket_state
  sk_type :: u32
  sk_family :: u32
  owner_pid :: u32
  local_addr :: socket_address
  remote_addr :: socket_address
  accept_queue :: "nat option list"
  accept_queue_head :: nat
  accept_queue_tail :: nat
  accept_queue_count :: nat
  msg_queue_head :: u32
  msg_queue_tail :: u32
  msg_count :: int
  peer :: "nat option"
  refcount :: int

record sockets = procs +
  socket_table :: "socket list"
  next_sockfd :: int

definition address_zero :: socket_address where
  "address_zero = \<lparr>sa_family = 0, sa_pid = 0, sa_port = 0\<rparr>"

text \<open>A socket cleared by \<open>memset\<close>; the state \<open>SOCKET_STATE_CLOSED\<close> is 0.\<close>

definition socket_zero :: socket where
  "socket_zero = \<lparr>sk_fd = 0, sk_state = SOCKET_STATE_CLOSED, sk_type = 0, sk_family = 0, owner_pid = 0,
     local_addr = address_zero, remote_addr = address_zero, accept_queue = replicate 16 None,
     accept_queue_head = 0, accept_queue_tail = 0, accept_queue_count = 0, msg_queue_head = 0,
     msg_queue_tail = 0, msg_count = 0, peer = None, refcount = 0\<rparr>"

definition sockets_boot :: "procs \<Rightarrow> sockets" where
  "sockets_boot s = procs.extend s (sockets.fields (replicate MAX_SOCKETS socket_zero) 1)"

abbreviation sock :: "'a sockets_scheme \<Rightarrow> nat \<Rightarrow> socket" where
  "sock s i \<equiv> socket_table s ! i"

definition upd_sock :: "nat \<Rightarrow> (socket \<Rightarrow> socket) \<Rightarrow> 'a sockets_scheme \<Rightarrow> 'a sockets_scheme" where
  "upd_sock i f s = s\<lparr>socket_table := (socket_table s)[i := f (socket_table s ! i)]\<rparr>"

text \<open>A \<open>socket_address_t\<close> in memory.\<close>

definition rd_address :: "memory \<Rightarrow> nat \<Rightarrow> socket_address" where
  "rd_address m a = \<lparr>sa_family = rd32 m a, sa_pid = rd32 m (a + 4), sa_port = rd32 m (a + 8)\<rparr>"

definition wr_address :: "memory \<Rightarrow> nat \<Rightarrow> socket_address \<Rightarrow> memory" where
  "wr_address m a ad = wr32 (wr32 (wr32 m a (sa_family ad)) (a + 4) (sa_pid ad)) (a + 8) (sa_port ad)"

section \<open>The table\<close>

definition socket_init :: "'a sockets_scheme \<Rightarrow> 'a sockets_scheme" where
  "socket_init s = printk ''[SOCKET] Socket system initialized\<newline>'' []
     (s\<lparr>socket_table := replicate MAX_SOCKETS (socket_zero\<lparr>sk_state := SOCKET_STATE_CLOSED, sk_fd := -1\<rparr>)\<rparr>)"

definition socket_alloc :: "'a sockets_scheme \<Rightarrow> nat option" where
  "socket_alloc s =
     find (\<lambda>i. sk_state (sock s i) = SOCKET_STATE_CLOSED \<and> sk_fd (sock s i) = -1) [0..<MAX_SOCKETS]"

definition socket_get_by_fd :: "int \<Rightarrow> 'a sockets_scheme \<Rightarrow> nat option" where
  "socket_get_by_fd fd s =
     find (\<lambda>i. sk_fd (sock s i) = fd \<and> sk_state (sock s i) \<noteq> SOCKET_STATE_CLOSED) [0..<MAX_SOCKETS]"

definition socket_find_by_address :: "socket_address \<Rightarrow> 'a sockets_scheme \<Rightarrow> nat option" where
  "socket_find_by_address addr s =
     find (\<lambda>i. sk_state (sock s i) = SOCKET_STATE_LISTENING
         \<and> sa_family (local_addr (sock s i)) = sa_family addr
         \<and> sa_pid (local_addr (sock s i)) = sa_pid addr
         \<and> sa_port (local_addr (sock s i)) = sa_port addr) [0..<MAX_SOCKETS]"

section \<open>Operations\<close>

text \<open>
  Every operation returns the result of the C function and the new state. Addresses and buffers are
  pointers, 0 for null. The descriptor counter is a C \<open>int\<close>.
\<close>

definition socket_create :: "u32 \<Rightarrow> int \<Rightarrow> int \<Rightarrow> int \<Rightarrow> 'a sockets_scheme \<Rightarrow> int \<times> 'a sockets_scheme" where
  "socket_create owner family type protocol s =
     (if family \<noteq> 1 then (-1, s)
      else if type \<noteq> 1 \<and> type \<noteq> 2 then (-1, s)
      else case socket_alloc s of
        None \<Rightarrow> (-1, s)
      | Some i \<Rightarrow>
          let fd = next_sockfd s;
              s1 = upd_sock i (\<lambda>_. socket_zero\<lparr>sk_fd := fd, sk_state := SOCKET_STATE_CLOSED,
                     sk_type := word_of_int type, sk_family := word_of_int family, owner_pid := owner,
                     refcount := 1\<rparr>) (s\<lparr>next_sockfd := i32 (fd + 1)\<rparr>)
          in (fd, printk ''[SOCKET] Created socket fd=%d for PID %d\<newline>'' [KInt fd, KInt (sint owner)] s1))"

definition socket_bind :: "int \<Rightarrow> u32 \<Rightarrow> 'a sockets_scheme \<Rightarrow> int \<times> 'a sockets_scheme" where
  "socket_bind sockfd addr s =
     (case socket_get_by_fd sockfd s of None \<Rightarrow> (-1, s) | Some i \<Rightarrow>
        if addr = 0 then (-1, s)
        else if sa_port (local_addr (sock s i)) \<noteq> 0 then (-1, s)
        else let ad = rd_address (mem s) (unat addr) in
          if socket_find_by_address ad s \<noteq> None then (-1, s)
          else (0, printk ''[SOCKET] Bound socket fd=%d to PID:%d PORT:%d\<newline>''
                 [KInt sockfd, KInt (sint (sa_pid ad)), KInt (sint (sa_port ad))]
                 (upd_sock i (\<lambda>k. k\<lparr>local_addr := ad\<rparr>) s)))"

definition socket_listen :: "int \<Rightarrow> int \<Rightarrow> 'a sockets_scheme \<Rightarrow> int \<times> 'a sockets_scheme" where
  "socket_listen sockfd backlog s =
     (case socket_get_by_fd sockfd s of None \<Rightarrow> (-1, s) | Some i \<Rightarrow>
        if sk_type (sock s i) \<noteq> SOCKET_TYPE_STREAM then (-1, s)
        else if sa_port (local_addr (sock s i)) = 0 then (-1, s)
        else (0, printk ''[SOCKET] Socket fd=%d listening\<newline>'' [KInt sockfd]
               (upd_sock i (\<lambda>k. k\<lparr>sk_state := SOCKET_STATE_LISTENING, accept_queue_head := 0,
                  accept_queue_tail := 0, accept_queue_count := 0\<rparr>) s)))"

text \<open>The two ends of the accept queue, a ring of 16 pointers in the listening socket.\<close>

definition accept_put :: "nat option \<Rightarrow> socket \<Rightarrow> socket" where
  "accept_put p k =
     (if accept_queue_count k < 16 then
        k\<lparr>accept_queue := (accept_queue k)[accept_queue_tail k := p],
          accept_queue_tail := (accept_queue_tail k + 1) mod 16,
          accept_queue_count := accept_queue_count k + 1\<rparr>
      else k)"

definition accept_get :: "socket \<Rightarrow> nat option \<times> socket" where
  "accept_get k = (accept_queue k ! accept_queue_head k,
     k\<lparr>accept_queue_head := (accept_queue_head k + 1) mod 16,
       accept_queue_count := accept_queue_count k - 1\<rparr>)"

text \<open>A null pointer in a non-empty accept queue would be dereferenced: undefined (\<open>None\<close>).\<close>

definition socket_accept :: "int \<Rightarrow> u32 \<Rightarrow> 'a sockets_scheme \<Rightarrow> (int \<times> 'a sockets_scheme) option" where
  "socket_accept sockfd addr s =
     (case socket_get_by_fd sockfd s of None \<Rightarrow> Some (-1, s) | Some i \<Rightarrow>
        if sk_state (sock s i) \<noteq> SOCKET_STATE_LISTENING then Some (-1, s)
        else if accept_queue_count (sock s i) = 0 then Some (-1, s)
        else case fst (accept_get (sock s i)) of
          None \<Rightarrow> None
        | Some c \<Rightarrow>
            let s1 = upd_sock i (\<lambda>k. snd (accept_get k)) s;
                s2 = (if addr \<noteq> 0
                      then s1\<lparr>mem := wr_address (mem s1) (unat addr) (remote_addr (sock s1 c))\<rparr> else s1)
            in Some (sk_fd (sock s2 c),
                 printk ''[SOCKET] Accepted connection fd=%d from PID:%d\<newline>''
                   [KInt (sk_fd (sock s2 c)), KInt (sint (sa_pid (remote_addr (sock s2 c))))] s2))"

definition socket_connect :: "int \<Rightarrow> u32 \<Rightarrow> 'a sockets_scheme \<Rightarrow> int \<times> 'a sockets_scheme" where
  "socket_connect sockfd addr s =
     (case socket_get_by_fd sockfd s of None \<Rightarrow> (-1, s) | Some i \<Rightarrow>
        if addr = 0 then (-1, s)
        else let ad = rd_address (mem s) (unat addr) in
        case socket_find_by_address ad s of None \<Rightarrow> (-1, s) | Some l \<Rightarrow>
        case socket_alloc s of None \<Rightarrow> (-1, s) | Some v \<Rightarrow>
          let s1 = upd_sock v (\<lambda>_. socket_zero\<lparr>sk_fd := next_sockfd s, sk_state := SOCKET_STATE_CONNECTED,
                     sk_type := sk_type (sock s l), sk_family := sk_family (sock s l),
                     owner_pid := owner_pid (sock s l), local_addr := local_addr (sock s l),
                     remote_addr := \<lparr>sa_family = SOCKET_AF_UNIX, sa_pid = owner_pid (sock s i), sa_port = 0\<rparr>,
                     refcount := 1\<rparr>) (s\<lparr>next_sockfd := i32 (next_sockfd s + 1)\<rparr>);
              s2 = upd_sock i (\<lambda>k. k\<lparr>peer := Some v\<rparr>) s1;
              s3 = upd_sock v (\<lambda>k. k\<lparr>peer := Some i\<rparr>) s2;
              s4 = upd_sock i (\<lambda>k. k\<lparr>sk_state := SOCKET_STATE_CONNECTED, remote_addr := ad\<rparr>) s3;
              s5 = upd_sock l (accept_put (Some v)) s4
          in (0, printk ''[SOCKET] Connected fd=%d to PID:%d PORT:%d\<newline>''
                   [KInt sockfd, KInt (sint (sa_pid ad)), KInt (sint (sa_port ad))] s5))"

text \<open>The memory after the new message has been filled in, and its linking behind the old tail.\<close>

definition fill_msg :: "u32 \<Rightarrow> u32 \<Rightarrow> u32 \<Rightarrow> socket_address \<Rightarrow> memory \<Rightarrow> memory" where
  "fill_msg msg buf len src m =
     (let m1 = memcpy m (unat msg) (unat buf) (unat len);
          m2 = wr32 m1 (unat msg + 4096) len;
          m3 = wr_address m2 (unat msg + 4100) src
      in wr32 m3 (unat msg + 4112) 0)"

definition queue_msg :: "u32 \<Rightarrow> nat \<Rightarrow> 'a sockets_scheme \<Rightarrow> 'a sockets_scheme" where
  "queue_msg msg j s =
     (let s1 = (if msg_queue_tail (sock s j) \<noteq> 0
                then s\<lparr>mem := wr32 (mem s) (unat (msg_queue_tail (sock s j)) + 4112) msg\<rparr>
                else upd_sock j (\<lambda>k. k\<lparr>msg_queue_head := msg\<rparr>) s)
      in upd_sock j (\<lambda>k. k\<lparr>msg_queue_tail := msg, msg_count := i32 (msg_count k + 1)\<rparr>) s1)"

definition msg_limit :: "u32 \<Rightarrow> u32" where
  "msg_limit len = (if SOCKET_MSG_SIZE < len then SOCKET_MSG_SIZE else len)"

definition socket_send :: "int \<Rightarrow> u32 \<Rightarrow> u32 \<Rightarrow> int \<Rightarrow> 'a sockets_scheme \<Rightarrow> (int \<times> 'a sockets_scheme) kresult" where
  "socket_send sockfd buf len flags s =
     (case socket_get_by_fd sockfd s of None \<Rightarrow> kret (-1, s) | Some i \<Rightarrow>
        if buf = 0 \<or> len = 0 then kret (-1, s)
        else if sk_state (sock s i) \<noteq> SOCKET_STATE_CONNECTED then kret (-1, s)
        else case peer (sock s i) of None \<Rightarrow> kret (-1, s) | Some j \<Rightarrow>
          let n = msg_limit len in
          kbind (kmalloc 4116 s) (\<lambda>(msg, s1).
            if msg = 0 then kret (-1, s1)
            else
              let s2 = queue_msg msg j (s1\<lparr>mem := fill_msg msg buf n (local_addr (sock s1 i)) (mem s1)\<rparr>)
              in kret (sint n, printk ''[SOCKET] Sent %d bytes from fd=%d to fd=%d\<newline>''
                   [KInt (sint n), KInt sockfd, KInt (sk_fd (sock s2 j))] s2)))"

text \<open>Taking the first message off the queue, before its data is copied and it is freed.\<close>

definition pop_msg :: "nat \<Rightarrow> 'a sockets_scheme \<Rightarrow> 'a sockets_scheme" where
  "pop_msg i s =
     (let s1 = upd_sock i (\<lambda>k. k\<lparr>msg_queue_head := rd32 (mem s) (unat (msg_queue_head k) + 4112)\<rparr>) s;
          s2 = (if msg_queue_head (sock s1 i) = 0
                then upd_sock i (\<lambda>k. k\<lparr>msg_queue_tail := 0\<rparr>) s1 else s1)
      in upd_sock i (\<lambda>k. k\<lparr>msg_count := i32 (msg_count k - 1)\<rparr>) s2)"

definition socket_recv :: "int \<Rightarrow> u32 \<Rightarrow> u32 \<Rightarrow> int \<Rightarrow> 'a sockets_scheme \<Rightarrow> (int \<times> 'a sockets_scheme) kresult" where
  "socket_recv sockfd buf len flags s =
     (case socket_get_by_fd sockfd s of None \<Rightarrow> kret (-1, s) | Some i \<Rightarrow>
        if buf = 0 \<or> len = 0 then kret (-1, s)
        else if msg_queue_head (sock s i) = 0 then kret (0, s)
        else
          let msg = msg_queue_head (sock s i);
              s1 = pop_msg i s;
              mlen = rd32 (mem s1) (unat msg + 4096);
              copy_len = (if len < mlen then len else mlen);
              s2 = s1\<lparr>mem := memcpy (mem s1) (unat buf) (unat msg) (unat copy_len)\<rparr>
          in kbind (kfree msg s2) (\<lambda>s3.
               kret (sint copy_len, printk ''[SOCKET] Received %d bytes on fd=%d\<newline>''
                 [KInt (sint copy_len), KInt sockfd] s3)))"

partial_function (option) free_msgs :: "u32 \<Rightarrow> 'a sockets_scheme \<Rightarrow> 'a sockets_scheme kresult" where
  "free_msgs msg s =
     (if msg = 0 then kret s
      else let nxt = rd32 (mem s) (unat msg + 4112)
        in kbind (kfree msg s) (free_msgs nxt))"

definition socket_close :: "int \<Rightarrow> 'a sockets_scheme \<Rightarrow> (int \<times> 'a sockets_scheme) kresult" where
  "socket_close sockfd s =
     (case socket_get_by_fd sockfd s of None \<Rightarrow> kret (-1, s) | Some i \<Rightarrow>
        let s1 = (case peer (sock s i) of None \<Rightarrow> s
                  | Some j \<Rightarrow> upd_sock j (\<lambda>k. k\<lparr>sk_state := SOCKET_STATE_CLOSED\<rparr>)
                      (upd_sock j (\<lambda>k. k\<lparr>peer := None\<rparr>) s))
        in kbind (free_msgs (msg_queue_head (sock s1 i)) s1) (\<lambda>s2.
             kret (0, printk ''[SOCKET] Closed socket fd=%d\<newline>'' [KInt sockfd]
               (upd_sock i (\<lambda>_. socket_zero\<lparr>sk_state := SOCKET_STATE_CLOSED, sk_fd := -1\<rparr>) s2))))"

definition socket_can_read :: "int \<Rightarrow> 'a sockets_scheme \<Rightarrow> int" where
  "socket_can_read sockfd s = (case socket_get_by_fd sockfd s of None \<Rightarrow> 0
     | Some i \<Rightarrow> if 0 < msg_count (sock s i) then 1 else 0)"

definition socket_can_write :: "int \<Rightarrow> 'a sockets_scheme \<Rightarrow> int" where
  "socket_can_write sockfd s = (case socket_get_by_fd sockfd s of None \<Rightarrow> 0
     | Some i \<Rightarrow> if sk_state (sock s i) = SOCKET_STATE_CONNECTED then 1 else 0)"

section \<open>System calls\<close>

definition sys_socket :: "u32 \<Rightarrow> u32 \<Rightarrow> u32 \<Rightarrow> 'a sockets_scheme \<Rightarrow> int \<times> 'a sockets_scheme" where
  "sys_socket family type protocol s =
     (case process_get_current s of None \<Rightarrow> (-1, s)
      | Some p \<Rightarrow> socket_create (pid (proc s p)) (sint family) (sint type) (sint protocol) s)"

definition sys_bind :: "u32 \<Rightarrow> u32 \<Rightarrow> 'a sockets_scheme \<Rightarrow> int \<times> 'a sockets_scheme" where
  "sys_bind sockfd addr_ptr s = socket_bind (sint sockfd) addr_ptr s"

definition sys_listen :: "u32 \<Rightarrow> u32 \<Rightarrow> 'a sockets_scheme \<Rightarrow> int \<times> 'a sockets_scheme" where
  "sys_listen sockfd backlog s = socket_listen (sint sockfd) (sint backlog) s"

definition sys_accept :: "u32 \<Rightarrow> u32 \<Rightarrow> 'a sockets_scheme \<Rightarrow> (int \<times> 'a sockets_scheme) option" where
  "sys_accept sockfd addr_ptr s = socket_accept (sint sockfd) addr_ptr s"

definition sys_connect :: "u32 \<Rightarrow> u32 \<Rightarrow> 'a sockets_scheme \<Rightarrow> int \<times> 'a sockets_scheme" where
  "sys_connect sockfd addr_ptr s = socket_connect (sint sockfd) addr_ptr s"

definition sys_send :: "u32 \<Rightarrow> u32 \<Rightarrow> u32 \<Rightarrow> u32 \<Rightarrow> 'a sockets_scheme \<Rightarrow> (int \<times> 'a sockets_scheme) kresult" where
  "sys_send sockfd buf_ptr len flags s = socket_send (sint sockfd) buf_ptr len (sint flags) s"

definition sys_recv :: "u32 \<Rightarrow> u32 \<Rightarrow> u32 \<Rightarrow> u32 \<Rightarrow> 'a sockets_scheme \<Rightarrow> (int \<times> 'a sockets_scheme) kresult" where
  "sys_recv sockfd buf_ptr len flags s = socket_recv (sint sockfd) buf_ptr len (sint flags) s"

definition sys_socket_close :: "u32 \<Rightarrow> 'a sockets_scheme \<Rightarrow> (int \<times> 'a sockets_scheme) kresult" where
  "sys_socket_close sockfd s = socket_close (sint sockfd) s"

section \<open>Lemmas: the table\<close>

lemma upd_sock_fields [simp]:
  "length (socket_table (upd_sock i f s)) = length (socket_table s)"
  "next_sockfd (upd_sock i f s) = next_sockfd s"
  "mem (upd_sock i f s) = mem s" "hw (upd_sock i f s) = hw s"
  "heap_start (upd_sock i f s) = heap_start s" "heap_initialized (upd_sock i f s) = heap_initialized s"
  by (simp_all add: upd_sock_def)

lemma sock_upd_sock:
  "i < length (socket_table s) \<Longrightarrow> sock (upd_sock i f s) j = (if j = i then f (sock s i) else sock s j)"
  by (simp add: upd_sock_def)

lemma heap_rep_upd_sock [simp]: "heap_rep (upd_sock i f s) L = heap_rep s L"
  by (simp add: heap_rep_def heap_abs_def)

lemma find_slot:
  assumes "find P [0..<n] = Some i"
  shows "i < n" "P i"
  using assms by (auto simp: find_Some_iff)

section \<open>Created sockets are unusable\<close>

text \<open>The operations of the interface as a sequence of calls, with their results.\<close>

datatype sock_op = SCreate u32 int int int | SBind int u32 | SListen int int | SAccept int u32
  | SConnect int u32 | SSend int u32 u32 int | SRecv int u32 u32 int | SClose int

fun is_create :: "sock_op \<Rightarrow> bool" where
  "is_create (SCreate _ _ _ _) = True"
| "is_create _ = False"

fun sock_step :: "sock_op \<Rightarrow> 'a sockets_scheme \<Rightarrow> (int \<times> 'a sockets_scheme) kresult" where
  "sock_step (SCreate p f t r) s = kret (socket_create p f t r s)"
| "sock_step (SBind fd a) s = kret (socket_bind fd a s)"
| "sock_step (SListen fd b) s = kret (socket_listen fd b s)"
| "sock_step (SAccept fd a) s = klift (socket_accept fd a s)"
| "sock_step (SConnect fd a) s = kret (socket_connect fd a s)"
| "sock_step (SSend fd b n f) s = socket_send fd b n f s"
| "sock_step (SRecv fd b n f) s = socket_recv fd b n f s"
| "sock_step (SClose fd) s = socket_close fd s"

fun sock_run :: "sock_op list \<Rightarrow> 'a sockets_scheme \<Rightarrow> (int list \<times> 'a sockets_scheme) kresult" where
  "sock_run [] s = kret ([], s)"
| "sock_run (op # ops) s = kbind (sock_step op s) (\<lambda>(r, s1).
     kbind (sock_run ops s1) (\<lambda>(rs, s2). kret (r # rs, s2)))"

definition all_closed :: "'a sockets_scheme \<Rightarrow> bool" where
  "all_closed s \<longleftrightarrow> length (socket_table s) = MAX_SOCKETS
     \<and> (\<forall>k \<in> set (socket_table s). sk_state k = SOCKET_STATE_CLOSED)"

definition free_slots :: "'a sockets_scheme \<Rightarrow> nat" where
  "free_slots s = length (filter (\<lambda>fd. fd = -1) (map sk_fd (socket_table s)))"

lemma all_closed_lookup: "all_closed s \<Longrightarrow> socket_get_by_fd fd s = None"
  by (auto simp: all_closed_def socket_get_by_fd_def find_None_iff simp del: upt_rec_numeral)

lemma free_slots_update:
  assumes "i < length (socket_table s)" "sk_fd (sock s i) = -1"
  shows "free_slots (upd_sock i (\<lambda>_. k) s) + (if sk_fd k = -1 then 0 else 1) = free_slots s"
proof -
  let ?t = "socket_table s"
  have "?t = take i ?t @ sock s i # drop (Suc i) ?t" using assms(1) by (rule id_take_nth_drop)
  then have "free_slots s = length (filter (\<lambda>fd. fd = -1) (map sk_fd (take i ?t @ sock s i # drop (Suc i) ?t)))"
    by (simp add: free_slots_def)
  then show ?thesis using assms by (simp add: free_slots_def upd_sock_def upd_conv_take_nth_drop)
qed

lemma all_closed_update:
  "all_closed s \<Longrightarrow> sk_state k = SOCKET_STATE_CLOSED \<Longrightarrow> all_closed (upd_sock i (\<lambda>_. k) s)"
  using set_update_subset_insert [of "socket_table s" i k] by (auto simp: all_closed_def upd_sock_def)

lemma all_closed_cong: "socket_table s' = socket_table s \<Longrightarrow> all_closed s' = all_closed s"
  by (simp add: all_closed_def)

lemma create_cases:
  assumes "socket_create p f t r s = (fd, s')"
  obtains "fd = -1" "s' = s"
  | i k where "socket_alloc s = Some i" "sk_fd k = fd" "sk_state k = SOCKET_STATE_CLOSED"
      "socket_table s' = socket_table (upd_sock i (\<lambda>_. k) s)"
proof (cases "\<exists>i. f = 1 \<and> (t = 1 \<or> t = 2) \<and> socket_alloc s = Some i")
  case True
  then obtain i where i: "f = 1" "t = 1 \<or> t = 2" "socket_alloc s = Some i" by blast
  then have ok: "\<not> (t \<noteq> 1 \<and> t \<noteq> 2)" by blast
  define k where "k = socket_zero\<lparr>sk_fd := next_sockfd s, sk_state := SOCKET_STATE_CLOSED,
    sk_type := word_of_int t, sk_family := word_of_int f, owner_pid := p, refcount := 1\<rparr>"
  have "fd = next_sockfd s \<and> socket_table s' = socket_table (upd_sock i (\<lambda>_. k) s)"
    unfolding k_def using assms i(1,3) ok unfolding socket_create_def by (auto simp: Let_def upd_sock_def)
  then show thesis using that(2) [OF i(3), of k] by (simp add: k_def)
next
  case False
  then have "socket_create p f t r s = (-1, s)"
    unfolding socket_create_def by (auto split: option.splits)
  with assms that(1) show thesis by simp
qed

lemma create_closed:
  assumes closed: "all_closed s" and run: "socket_create p f t r s = (fd, s')"
  shows "all_closed s' \<and> free_slots s' + (if fd = -1 then 0 else 1) \<le> free_slots s"
  using run
proof (cases rule: create_cases)
  case (2 i k)
  have i: "i < length (socket_table s)" "sk_fd (sock s i) = -1"
    using find_slot [OF 2(1) [unfolded socket_alloc_def]] closed by (auto simp: all_closed_def)
  have "all_closed s'" using all_closed_update [OF closed 2(3)] all_closed_cong [OF 2(4)] by simp
  moreover have "free_slots s' = free_slots (upd_sock i (\<lambda>_. k) s)" using 2(4) by (simp add: free_slots_def)
  ultimately show ?thesis using free_slots_update [OF i, of k] 2(2) by auto
qed (use closed in simp)

lemma step_closed:
  assumes closed: "all_closed s"
  obtains r s' where "sock_step op s = kret (r, s')" "all_closed s'" "is_create op \<or> r = -1"
    "free_slots s' + (if r = -1 then 0 else 1) \<le> free_slots s"
proof (cases op)
  case (SCreate p f t c)
  obtain r s' where rs: "socket_create p f t c s = (r, s')" by force
  with create_closed [OF closed rs] SCreate that show thesis by simp
qed (use closed that [of "-1" s] all_closed_lookup [OF closed] in
  \<open>simp_all add: socket_bind_def socket_listen_def socket_accept_def socket_connect_def
    socket_send_def socket_recv_def socket_close_def\<close>)

lemma run_closed:
  "all_closed s \<Longrightarrow> \<exists>rs s'. sock_run ops s = kret (rs, s') \<and> all_closed s'
     \<and> list_all2 (\<lambda>op r. is_create op \<or> r = -1) ops rs
     \<and> free_slots s' + length (filter (\<lambda>r. r \<noteq> -1) rs) \<le> free_slots s"
proof (induction ops arbitrary: s)
  case (Cons op ops)
  obtain r s1 where r: "sock_step op s = kret (r, s1)" "all_closed s1" "is_create op \<or> r = -1"
      "free_slots s1 + (if r = -1 then 0 else 1) \<le> free_slots s"
    by (rule step_closed [OF Cons.prems])
  from Cons.IH [OF r(2)] obtain rs s' where rs: "sock_run ops s1 = kret (rs, s')" "all_closed s'"
      "list_all2 (\<lambda>op r. is_create op \<or> r = -1) ops rs"
      "free_slots s' + length (filter (\<lambda>r. r \<noteq> -1) rs) \<le> free_slots s1" by blast
  with r show ?case by (intro exI [of _ "r # rs"] exI [of _ s']) (auto split: if_splits)
qed simp

text \<open>
  C19. \<open>socket_create\<close> leaves the new socket in the state \<open>SOCKET_STATE_CLOSED\<close>, in which
  \<open>socket_get_by_fd\<close> never finds it. Whatever sequence of calls follows \<open>socket_init\<close>, with whatever
  arguments, every bind, listen, accept, connect, send, receive and close in it returns -1, the calls
  always return, no descriptor is ever found, and at most 256 creations ever succeed.
\<close>

theorem sockets_unusable:
  "\<exists>rs s'. sock_run ops (socket_init s) = kret (rs, s')
     \<and> list_all2 (\<lambda>op r. is_create op \<or> r = -1) ops rs
     \<and> (\<forall>fd. socket_get_by_fd fd s' = None)
     \<and> length (filter (\<lambda>r. r \<noteq> -1) rs) \<le> MAX_SOCKETS"
proof -
  have "all_closed (socket_init s)" by (simp add: all_closed_def socket_init_def socket_zero_def)
  moreover have "free_slots (socket_init s) = MAX_SOCKETS" by (simp add: free_slots_def socket_init_def)
  ultimately obtain rs s' where "sock_run ops (socket_init s) = kret (rs, s')" "all_closed s'"
      "list_all2 (\<lambda>op r. is_create op \<or> r = -1) ops rs" "length (filter (\<lambda>r. r \<noteq> -1) rs) \<le> MAX_SOCKETS"
    using run_closed [of "socket_init s" ops] by auto
  with all_closed_lookup show ?thesis by blast
qed

section \<open>The accept queue\<close>

definition accept_ok :: "socket \<Rightarrow> bool" where
  "accept_ok k \<longleftrightarrow> length (accept_queue k) = 16 \<and> accept_queue_head k < 16 \<and> accept_queue_count k \<le> 16
     \<and> accept_queue_tail k = (accept_queue_head k + accept_queue_count k) mod 16"

definition accept_contents :: "socket \<Rightarrow> nat option list" where
  "accept_contents k = ring (accept_queue k) (accept_queue_head k) (accept_queue_count k)"

interpretation aq: bounded_queue accept_put accept_get "\<lambda>k. accept_queue_count k = 0" accept_ok
  accept_contents 16
proof
  fix k :: socket and p :: "nat option"
  assume ok: "accept_ok k"
  show "accept_ok (accept_put p k) \<and> accept_contents (accept_put p k) =
      (if length (accept_contents k) < 16 then accept_contents k @ [p] else accept_contents k)"
    using ok ring_put [of "accept_queue_count k" "accept_queue k" "accept_queue_head k" p]
    by (auto simp: accept_ok_def accept_put_def accept_contents_def mod_Suc_eq)
  show "(accept_queue_count k = 0) = (accept_contents k = [])"
    using length_ring [of "accept_queue k" "accept_queue_head k" "accept_queue_count k"]
    by (auto simp: accept_contents_def simp del: length_ring)
  show "length (accept_contents k) \<le> 16" using ok by (simp add: accept_ok_def accept_contents_def)
  assume ne: "accept_contents k \<noteq> []"
  then obtain n where n: "accept_queue_count k = Suc n"
    by (cases "accept_queue_count k") (auto simp: accept_contents_def)
  show "accept_ok (snd (accept_get k)) \<and> fst (accept_get k) = hd (accept_contents k) \<and>
      accept_contents (snd (accept_get k)) = tl (accept_contents k)"
    using ok n ring_get [of "accept_queue_head k" "accept_queue k" n]
    by (simp add: accept_ok_def accept_get_def accept_contents_def mod_simps)
qed

section \<open>Message queues\<close>

text \<open>
  The queue of socket \<open>i\<close> holds the messages \<open>ds\<close> (their bytes, oldest first): its entries \<open>qs\<close> are
  allocated blocks of 4116 bytes linked from \<open>msg_queue_head\<close>, the last one is \<open>msg_queue_tail\<close>, on a
  sound heap whose allocated blocks are \<open>L\<close>.
\<close>

definition msg_data :: "memory \<Rightarrow> u32 \<Rightarrow> u8 list" where
  "msg_data m q = map (\<lambda>i. m (unat q + i)) [0..<unat (rd32 m (unat q + 4096))]"

definition msgs_at :: "'a sockets_scheme \<Rightarrow> (nat \<times> nat) set \<Rightarrow> nat \<Rightarrow> u32 list \<Rightarrow> u8 list list \<Rightarrow> bool" where
  "msgs_at s L i qs ds \<longleftrightarrow> heap_rep s L \<and> chain (mem s) 4112 (msg_queue_head (sock s i)) qs \<and> owned L 4116 qs
     \<and> msg_queue_tail (sock s i) = (if qs = [] then 0 else last qs)
     \<and> ds = map (msg_data (mem s)) qs \<and> (\<forall>q \<in> set qs. unat (rd32 (mem s) (unat q + 4096)) \<le> 4096)"

text \<open>The entries only depend on their own bytes, less the link for the data.\<close>

lemma msg_data_cong:
  assumes "\<And>x. unat q \<le> x \<Longrightarrow> x < unat q + 4100 \<Longrightarrow> m' x = m x" "unat (rd32 m (unat q + 4096)) \<le> 4096"
  shows "msg_data m' q = msg_data m q" "rd32 m' (unat q + 4096) = rd32 m (unat q + 4096)"
proof -
  show len: "rd32 m' (unat q + 4096) = rd32 m (unat q + 4096)" by (rule rd32_cong, rule assms(1)) auto
  show "msg_data m' q = msg_data m q"
    using assms unfolding msg_data_def len by (intro map_cong) auto
qed

lemma msgs_data_cong:
  assumes "\<And>q x. q \<in> set qs \<Longrightarrow> unat q \<le> x \<Longrightarrow> x < unat q + 4100 \<Longrightarrow> m' x = m x"
    "\<forall>q \<in> set qs. unat (rd32 m (unat q + 4096)) \<le> 4096"
  shows "map (msg_data m') qs = map (msg_data m) qs" "\<forall>q \<in> set qs. unat (rd32 m' (unat q + 4096)) \<le> 4096"
proof -
  have "msg_data m' q = msg_data m q \<and> rd32 m' (unat q + 4096) = rd32 m (unat q + 4096)" if "q \<in> set qs" for q
    using msg_data_cong [of q m' m] assms that by blast
  with assms(2) show "map (msg_data m') qs = map (msg_data m) qs"
    "\<forall>q \<in> set qs. unat (rd32 m' (unat q + 4096)) \<le> 4096" by auto
qed

lemma msgs_frame:
  assumes ms: "msgs_at s L i qs ds"
    and eq: "\<And>q x. q \<in> set qs \<Longrightarrow> unat q \<le> x \<Longrightarrow> x < unat q + 4100 \<Longrightarrow> mem s' x = mem s x"
    and rest: "heap_rep s' L'" "owned L' 4116 qs'" "set qs' \<subseteq> set qs" "chain (mem s') 4112 (msg_queue_head (sock s' i)) qs'"
      "msg_queue_tail (sock s' i) = (if qs' = [] then 0 else last qs')"
  shows "msgs_at s' L' i qs' (map (msg_data (mem s)) qs')"
proof -
  have "\<forall>q \<in> set qs'. unat (rd32 (mem s) (unat q + 4096)) \<le> 4096"
    using ms rest(3) by (auto simp: msgs_at_def)
  moreover have "\<And>q x. q \<in> set qs' \<Longrightarrow> unat q \<le> x \<Longrightarrow> x < unat q + 4100 \<Longrightarrow> mem s' x = mem s x"
    using eq rest(3) by blast
  ultimately have "map (msg_data (mem s')) qs' = map (msg_data (mem s)) qs'"
    "\<forall>q \<in> set qs'. unat (rd32 (mem s') (unat q + 4096)) \<le> 4096"
    using msgs_data_cong [of qs' "mem s'" "mem s"] by blast+
  with rest show ?thesis by (simp add: msgs_at_def)
qed

lemma owned_live:
  "owned L n qs \<Longrightarrow> q \<in> set qs \<Longrightarrow> unat q \<le> x \<Longrightarrow> x < unat q + n \<Longrightarrow> x \<in> live_bytes L"
  by (auto simp: owned_def intro: live_bytesI dest!: bspec)

text \<open>The bytes and links a fresh message is filled with.\<close>

lemma fill_msg_reads:
  assumes len: "unat len \<le> 4096"
    and sep: "unat buf + unat len \<le> unat msg \<or> unat msg + 4116 \<le> unat buf"
  shows "msg_data (fill_msg msg buf len src m) msg = map (\<lambda>i. m (unat buf + i)) [0..<unat len]"
    "rd32 (fill_msg msg buf len src m) (unat msg + 4096) = len"
    "rd32 (fill_msg msg buf len src m) (unat msg + 4112) = 0"
    "\<And>x. x < unat msg \<or> unat msg + 4116 \<le> x \<Longrightarrow> fill_msg msg buf len src m x = m x"
proof -
  have cp: "memcpy m (unat msg) (unat buf) (unat len) x =
      (if unat msg \<le> x \<and> x < unat msg + unat len then m (unat buf + (x - unat msg)) else m x)" for x
    using sep by (intro memcpy_apply) auto
  show rd: "rd32 (fill_msg msg buf len src m) (unat msg + 4096) = len"
    "rd32 (fill_msg msg buf len src m) (unat msg + 4112) = 0"
    by (simp_all add: fill_msg_def wr_address_def Let_def mem_simps)
  show "fill_msg msg buf len src m x = m x" if "x < unat msg \<or> unat msg + 4116 \<le> x" for x
    using that len by (auto simp: fill_msg_def wr_address_def Let_def mem_simps cp)
  have "fill_msg msg buf len src m (unat msg + i) = m (unat buf + i)" if "i < unat len" for i
    using that len by (simp add: fill_msg_def wr_address_def Let_def mem_simps cp)
  then show "msg_data (fill_msg msg buf len src m) msg = map (\<lambda>i. m (unat buf + i)) [0..<unat len]"
    unfolding msg_data_def rd by (intro map_cong) auto
qed

lemma more_sockets:
  fixes s s' :: "'a sockets_scheme"
  assumes "kheap.more s' = kheap.more s"
  shows "socket_table s' = socket_table s" "next_sockfd s' = next_sockfd s"
  using assms by (cases s; cases s'; simp)+

lemma ranges_apart:
  assumes "\<And>k. k < n \<Longrightarrow> b + k \<notin> {e ..< e + w}" "0 < n" "0 < (w :: nat)"
  shows "b + n \<le> e \<or> e + w \<le> b"
proof (rule ccontr)
  assume "\<not> ?thesis"
  then have lt: "b < e + w" "e < b + n" by auto
  have "b + (if e \<le> b then 0 else e - b) \<in> {e ..< e + w}" using lt assms(3) by auto
  moreover have "(if e \<le> b then 0 else e - b) < n" using lt assms(2) by auto
  ultimately show False using assms(1) by blast
qed

text \<open>Taking a message block from the heap and filling it from a buffer the heap does not touch.\<close>

lemma alloc_msg:
  fixes s :: "'a sockets_scheme"
  assumes rep: "heap_rep s L" and buf: "\<forall>k < unat n. unat buf + k \<in> live_bytes L \<union> unmanaged"
    and n: "n \<noteq> 0" "unat n \<le> 4096"
  obtains s1 where "kmalloc 4116 s = kret (0, s1)" "heap_rep s1 L" "mem s1 = mem s" "socket_table s1 = socket_table s"
  | e l s1 where "kmalloc 4116 s = kret (e, s1)" "e \<noteq> 0" "4116 \<le> l" "socket_table s1 = socket_table s"
      "heap_rep (s1\<lparr>mem := fill_msg e buf n src (mem s1)\<rparr>) (insert (unat e, l) L)"
      "\<forall>x \<in> live_bytes L \<union> unmanaged. fill_msg e buf n src (mem s1) x = mem s x"
      "msg_data (fill_msg e buf n src (mem s1)) e = map (\<lambda>k. mem s (unat buf + k)) [0..<unat n]"
      "rd32 (fill_msg e buf n src (mem s1)) (unat e + 4096) = n"
      "rd32 (fill_msg e buf n src (mem s1)) (unat e + 4112) = 0"
      "\<forall>qs. owned L 4116 qs \<longrightarrow> owned (insert (unat e, l) L) 4116 (qs @ [e])"
proof -
  have sz: "(4116 :: u32) \<noteq> 0" "unat (4116 :: u32) + 19 < 2 ^ 32" by auto
  from kheap.alloc_law [OF rep sz] obtain e s1 where al: "kmalloc 4116 s = kret (e, s1)"
    and res: "if e = 0 then heap_rep s1 L \<and> mem s1 = mem s else \<exists>l \<ge> unat (4116 :: u32).
      heap_rep s1 (insert (unat e, l) L) \<and> {unat e ..< unat e + l} \<inter> (live_bytes L \<union> unmanaged) = {}
      \<and> (\<forall>x \<in> live_bytes L \<union> unmanaged. mem s1 x = mem s x)" by blast
  note tab = more_sockets(1) [OF kmalloc_more [OF al]]
  show thesis
  proof (cases "e = 0")
    case True
    with al res tab that(1) show thesis by simp
  next
    case False
    with res obtain l0 where l0: "4116 \<le> l0" "{unat e ..< unat e + l0} \<inter> (live_bytes L \<union> unmanaged) = {}"
      "\<forall>x \<in> live_bytes L \<union> unmanaged. mem s1 x = mem s x" by auto
    have "unat buf + k \<notin> {unat e ..< unat e + 4116}" if "k < unat n" for k
    proof
      assume "unat buf + k \<in> {unat e ..< unat e + 4116}"
      then have "unat buf + k \<in> {unat e ..< unat e + l0}" using l0(1) by auto
      with l0(2) buf that show False by blast
    qed
    then have sep: "unat buf + unat n \<le> unat e \<or> unat e + 4116 \<le> unat buf"
      by (rule ranges_apart) (use n(1) in \<open>auto simp: unat_gt_0\<close>)
    note fill = fill_msg_reads [OF n(2) sep, where src = src and m = "mem s1"]
    obtain l where l: "unat (4116 :: u32) \<le> l" "heap_rep s1 (insert (unat e, l) L)"
      "\<And>qs k. owned L k qs \<Longrightarrow> 0 < k \<Longrightarrow> k \<le> unat (4116 :: u32) \<Longrightarrow>
         e \<notin> set qs \<and> owned (insert (unat e, l) L) k qs"
      "\<And>m. (\<And>x. x < unat e \<or> unat e + unat (4116 :: u32) \<le> x \<Longrightarrow> m x = mem s1 x) \<Longrightarrow>
         heap_rep (s1\<lparr>mem := m\<rparr>) (insert (unat e, l) L) \<and> (\<forall>x \<in> live_bytes L \<union> unmanaged. m x = mem s x)"
      using kheap.alloc_node [OF rep sz al False] by blast
    from l(4) [of "fill_msg e buf n src (mem s1)"] fill(4)
    have h: "heap_rep (s1\<lparr>mem := fill_msg e buf n src (mem s1)\<rparr>) (insert (unat e, l) L)"
      "\<forall>x \<in> live_bytes L \<union> unmanaged. fill_msg e buf n src (mem s1) x = mem s x" by auto
    have own: "\<forall>qs. owned L 4116 qs \<longrightarrow> owned (insert (unat e, l) L) 4116 (qs @ [e])"
    proof (intro allI impI)
      fix qs assume "owned L 4116 qs"
      with l(3) [of 4116 qs] have "e \<notin> set qs" "owned (insert (unat e, l) L) 4116 qs" by auto
      with l(1) show "owned (insert (unat e, l) L) 4116 (qs @ [e])" by (auto simp: owned_def)
    qed
    have "map (\<lambda>k. mem s1 (unat buf + k)) [0..<unat n] = map (\<lambda>k. mem s (unat buf + k)) [0..<unat n]"
      using l0(3) buf by (intro map_cong) auto
    with fill(1) have "msg_data (fill_msg e buf n src (mem s1)) e = map (\<lambda>k. mem s (unat buf + k)) [0..<unat n]"
      by simp
    from that(2) [OF al False _ tab h(1,2) this fill(2,3) own] l(1) show thesis by simp
  qed
qed

text \<open>What the data operations leave alone: descriptors, states, peers and addresses.\<close>

definition ends :: "socket \<Rightarrow> int \<times> socket_state \<times> nat option \<times> socket_address" where
  "ends k = (sk_fd k, sk_state k, peer k, local_addr k)"

definition same_ends :: "'a sockets_scheme \<Rightarrow> 'a sockets_scheme \<Rightarrow> bool" where
  "same_ends s s' \<longleftrightarrow> map ends (socket_table s') = map ends (socket_table s)"

lemma same_ends_table: "socket_table s' = socket_table s \<Longrightarrow> same_ends s s'"
  by (simp add: same_ends_def)

lemma same_ends_upd:
  assumes "\<And>k. ends (f k) = ends k" "same_ends s t"
  shows "same_ends s (upd_sock i f t)"
proof (cases "i < length (socket_table t)")
  case True
  then have "ends (f (sock t i)) = map ends (socket_table t) ! i" using assms(1) by simp
  then have "map ends ((socket_table t)[i := f (sock t i)]) = map ends (socket_table t)"
    by (simp only: map_update list_update_id)
  with assms(2) show ?thesis by (simp add: same_ends_def upd_sock_def)
qed (use assms(2) in \<open>simp add: same_ends_def upd_sock_def list_update_beyond\<close>)

lemma same_ends_nth: "same_ends s s' \<Longrightarrow> i < length (socket_table s) \<Longrightarrow> ends (sock s' i) = ends (sock s i)"
  unfolding same_ends_def by (metis length_map nth_map)

lemma same_ends_lookup:
  assumes "same_ends s s'" "length (socket_table s) = MAX_SOCKETS"
  shows "socket_get_by_fd fd s' = socket_get_by_fd fd s" "length (socket_table s') = MAX_SOCKETS"
proof -
  show "length (socket_table s') = MAX_SOCKETS"
    using assms unfolding same_ends_def by (metis length_map)
  have "sk_fd (sock s' i) = sk_fd (sock s i) \<and> sk_state (sock s' i) = sk_state (sock s i)" if "i < MAX_SOCKETS" for i
    using same_ends_nth [OF assms(1), of i] that assms(2) by (simp add: ends_def)
  then show "socket_get_by_fd fd s' = socket_get_by_fd fd s"
    unfolding socket_get_by_fd_def by (intro find_cong) auto
qed

lemma queue_msg_ends: "same_ends s t \<Longrightarrow> same_ends s (queue_msg e j t)"
  unfolding queue_msg_def Let_def
  by (intro same_ends_upd) (auto simp: ends_def same_ends_def intro: same_ends_upd [unfolded same_ends_def])

lemma queue_msg_at:
  fixes s :: "'a sockets_scheme"
  assumes rep: "heap_rep s L" and ch: "chain (mem s) 4112 (msg_queue_head (sock s j)) qs"
    and tl: "msg_queue_tail (sock s j) = (if qs = [] then 0 else last qs)" and own: "owned L 4116 (qs @ [e])"
    and e: "e \<noteq> 0" "rd32 (mem s) (unat e + 4112) = 0" and j: "j < length (socket_table s)"
    and le: "\<forall>q \<in> set (qs @ [e]). unat (rd32 (mem s) (unat q + 4096)) \<le> 4096"
  shows "msgs_at (queue_msg e j s) L j (qs @ [e]) (map (msg_data (mem s)) (qs @ [e]))"
proof (cases "qs = []")
  case True
  then show ?thesis
    using assms by (simp add: msgs_at_def queue_msg_def sock_upd_sock)
next
  case False
  define m where "m = wr32 (mem s) (unat (last qs) + 4112) e"
  have last: "last qs \<in> set (qs @ [e])" "last qs \<noteq> 0" using chain_nonnull [OF ch] False by auto
  have out: "m x = mem s x" if "q \<in> set (qs @ [e])" "unat q \<le> x" "x < unat q + 4100" for q x
  proof (cases "q = last qs")
    case True
    then show ?thesis using that by (simp add: m_def mem_simps)
  next
    case False
    from kheap.owned_disjoint [OF rep own that(1) last(1) False] that show ?thesis
      by (auto simp: m_def mem_simps)
  qed
  have data: "map (msg_data m) (qs @ [e]) = map (msg_data (mem s)) (qs @ [e])"
    "\<forall>q \<in> set (qs @ [e]). unat (rd32 m (unat q + 4096)) \<le> 4096"
    using msgs_data_cong [of "qs @ [e]" m "mem s"] out le by blast+
  have "heap_rep (s\<lparr>mem := m\<rparr>) L"
  proof (rule heap_rep_put [OF rep])
    fix x assume "x \<notin> live_bytes L \<union> unmanaged"
    with owned_live [OF own last(1), of x] have "x < unat (last qs) \<or> unat (last qs) + 4116 \<le> x"
      by (metis UnI1 not_less)
    then show "m x = mem s x" by (auto simp: m_def mem_simps)
  qed
  moreover have "chain m 4112 (msg_queue_head (sock s j)) (qs @ [e])"
    unfolding m_def by (rule kheap.chain_snoc [OF rep own _ ch False e]) simp
  ultimately show ?thesis
    using data tl False last(2) own j
    by (simp add: msgs_at_def queue_msg_def sock_upd_sock m_def [symmetric] Let_def)
qed

lemma unat_msg_limit: "unat (msg_limit len) = min (unat len) 4096"
  by (simp add: msg_limit_def word_less_nat_alt min_def)

lemma socket_send_queue:
  fixes s :: "'a sockets_scheme"
  assumes ms: "msgs_at s L j qs ds" and fd: "socket_get_by_fd fd s = Some i"
    and i: "sk_state (sock s i) = SOCKET_STATE_CONNECTED" "peer (sock s i) = Some j"
    and j: "j < length (socket_table s)" and arg: "buf \<noteq> 0" "len \<noteq> 0"
    and n: "n = msg_limit len"
    and buf: "\<forall>k < unat n. unat buf + k \<in> live_bytes L \<union> unmanaged"
  shows "(\<exists>s'. kmalloc 4116 s = kret (0, s') \<and> socket_send fd buf len flags s = kret (-1, s')
        \<and> msgs_at s' L j qs ds \<and> same_ends s s')
    \<or> (\<exists>s1 s' e l. kmalloc 4116 s = kret (e, s1) \<and> e \<noteq> 0
        \<and> socket_send fd buf len flags s = kret (int (unat n), s') \<and> same_ends s s'
        \<and> msgs_at s' (insert (unat e, l) L) j (qs @ [e]) (ds @ [map (\<lambda>k. mem s (unat buf + k)) [0..<unat n]]))"
proof -
  have rep: "heap_rep s L" and ch: "chain (mem s) 4112 (msg_queue_head (sock s j)) qs" and own: "owned L 4116 qs"
    and tl: "msg_queue_tail (sock s j) = (if qs = [] then 0 else last qs)" and ds: "ds = map (msg_data (mem s)) qs"
    and le: "\<forall>q \<in> set qs. unat (rd32 (mem s) (unat q + 4096)) \<le> 4096"
    using ms by (auto simp: msgs_at_def)
  have n': "n \<noteq> 0" "unat n \<le> 4096" using arg(2) unfolding n msg_limit_def by (auto simp: word_less_nat_alt not_less)
  have sn: "sint n = int (unat n)" using n'(2) by (simp add: sint_small)
  show ?thesis
  proof (cases rule: alloc_msg [OF rep buf n', where src = "local_addr (sock s i)"])
    case (1 s1)
    then have "msgs_at s1 L j qs ds" using ms by (simp add: msgs_at_def)
    with 1(1) same_ends_table [OF 1(4)] fd i arg show ?thesis by (simp add: socket_send_def Let_def)
  next
    case (2 e l s1)
    define m where "m = fill_msg e buf n (local_addr (sock s i)) (mem s1)"
    define s2 where "s2 = queue_msg e j (s1\<lparr>mem := m\<rparr>)"
    have "\<exists>h. socket_send fd buf len flags s = kret (int (unat n), s2\<lparr>hw := h\<rparr>)"
      using 2(1,2,4) fd i arg sn by (auto simp: socket_send_def Let_def n m_def s2_def)
    moreover have "msgs_at (s2\<lparr>hw := h\<rparr>) (insert (unat e, l) L) j (qs @ [e])
        (ds @ [map (\<lambda>k. mem s (unat buf + k)) [0..<unat n]])" for h
    proof -
      have same: "m x = mem s x" if "q \<in> set qs" "unat q \<le> x" "x < unat q + 4116" for q x
        using 2(6) owned_live [OF own that] unfolding m_def by blast
      have le': "\<forall>q \<in> set (qs @ [e]). unat (rd32 m (unat q + 4096)) \<le> 4096"
        and data: "map (msg_data m) (qs @ [e]) = ds @ [map (\<lambda>k. mem s (unat buf + k)) [0..<unat n]]"
        using msgs_data_cong [of qs m "mem s"] same le ds 2(7,8) n'(2) by (auto simp: m_def [symmetric])
      have "chain m 4112 (msg_queue_head (sock s j)) qs"
        using ch chain_frame [of L m "mem s" 4116 qs 4112] 2(6) own by (auto simp: m_def)
      then have "msgs_at s2 (insert (unat e, l) L) j (qs @ [e]) (map (msg_data m) (qs @ [e]))"
        using queue_msg_at [of "s1\<lparr>mem := m\<rparr>" "insert (unat e, l) L" j qs e] 2 own tl j le'
        by (simp add: s2_def m_def [symmetric])
      then show ?thesis unfolding data by (simp add: msgs_at_def)
    qed
    moreover have "same_ends s (s2\<lparr>hw := h\<rparr>)" for h
      using queue_msg_ends [OF same_ends_table [of "s1\<lparr>mem := m\<rparr>" s]] 2(4) by (simp add: s2_def same_ends_def)
    ultimately show ?thesis using 2(1,2) by blast
  qed
qed

lemma pop_msg_fields [simp]:
  "mem (pop_msg i s) = mem s" "hw (pop_msg i s) = hw s" "heap_rep (pop_msg i s) L = heap_rep s L"
  by (simp_all add: pop_msg_def Let_def)

lemma pop_msg_ends: "same_ends s t \<Longrightarrow> same_ends s (pop_msg i t)"
  unfolding pop_msg_def Let_def by (simp add: same_ends_upd ends_def)

lemma pop_msg_sock:
  assumes "i < length (socket_table s)"
  shows "msg_queue_head (sock (pop_msg i s) i) = rd32 (mem s) (unat (msg_queue_head (sock s i)) + 4112)"
    "msg_queue_tail (sock (pop_msg i s) i) =
       (if rd32 (mem s) (unat (msg_queue_head (sock s i)) + 4112) = 0 then 0 else msg_queue_tail (sock s i))"
  using assms by (simp_all add: pop_msg_def Let_def sock_upd_sock)

lemma socket_recv_queue:
  fixes s :: "'a sockets_scheme"
  assumes ms: "msgs_at s L i (q # qs) (d # ds)" and fd: "socket_get_by_fd fd s = Some i"
    and i: "i < length (socket_table s)" and arg: "buf \<noteq> 0" "len \<noteq> 0"
    and n: "n = min (unat len) (length d)"
    and buf: "\<forall>k < n. unat buf + k \<in> live_bytes L \<union> unmanaged
      \<and> (\<forall>r \<in> set (q # qs). unat buf + k < unat r \<or> unat r + 4116 \<le> unat buf + k)"
  shows "\<exists>s' l. socket_recv fd buf len flags s = kret (int n, s') \<and> (unat q, l) \<in> L
    \<and> msgs_at s' (L - {(unat q, l)}) i qs ds \<and> same_ends s s' \<and> map (\<lambda>k. mem s' (unat buf + k)) [0..<n] = take n d"
proof -
  have rep: "heap_rep s L" and ch: "chain (mem s) 4112 q (q # qs)" and own: "owned L 4116 (q # qs)"
    and hd: "msg_queue_head (sock s i) = q" "q \<noteq> 0" "msg_queue_tail (sock s i) = last (q # qs)"
    and d: "d = msg_data (mem s) q" "ds = map (msg_data (mem s)) qs"
    and le: "unat (rd32 (mem s) (unat q + 4096)) \<le> 4096"
    using ms by (auto simp: msgs_at_def)
  define mlen where "mlen = rd32 (mem s) (unat q + 4096)"
  define cl where "cl = (if len < mlen then len else mlen)"
  have ld: "length d = unat mlen" by (simp add: d(1) msg_data_def mlen_def)
  have cl: "unat cl = n" "n \<le> 4096"
    using le n ld by (auto simp: cl_def mlen_def word_less_nat_alt min_def)
  then have sn: "sint cl = int n" using sint_small [of cl] by simp
  define m where "m = memcpy (mem s) (unat buf) (unat q) n"
  have sep: "n = 0 \<or> unat buf + n \<le> unat q \<or> unat q + 4116 \<le> unat buf"
  proof (cases "n = 0")
    case False
    have "unat buf + k \<notin> {unat q ..< unat q + 4116}" if "k < n" for k using buf that by fastforce
    with False ranges_apart [of n "unat buf" "unat q" 4116] show ?thesis by simp
  qed simp
  have m: "m x = (if unat buf \<le> x \<and> x < unat buf + n then mem s (unat q + (x - unat buf)) else mem s x)" for x
    using sep cl(2) memcpy_apply [of "unat buf" "unat q" n "mem s" x] by (cases "n = 0") (auto simp: m_def)
  have node: "m x = mem s x" if "r \<in> set (q # qs)" "unat r \<le> x" "x < unat r + 4116" for r x
  proof -
    have "\<not> (unat buf \<le> x \<and> x < unat buf + n)"
      using buf [rule_format, of "x - unat buf"] that by (metis add_diff_cancel_left' le_add_diff_inverse linorder_not_le nat_add_left_cancel_less)
    then show ?thesis unfolding m by (rule if_not_P)
  qed
  define s1 where "s1 = (pop_msg i s)\<lparr>mem := m\<rparr>"
  have rep1: "heap_rep s1 L"
    unfolding s1_def
  proof (rule heap_rep_put)
    fix x assume x: "x \<notin> live_bytes L \<union> unmanaged"
    have "\<not> (unat buf \<le> x \<and> x < unat buf + n)"
    proof
      assume in_buf: "unat buf \<le> x \<and> x < unat buf + n"
      then have "x - unat buf < n" "unat buf + (x - unat buf) = x" by auto
      with buf x show False by metis
    qed
    then have "m x = mem s x" unfolding m by (rule if_not_P)
    then show "m x = mem (pop_msg i s) x" by simp
  qed (use rep in simp)
  have "\<And>r. r \<in> set (q # qs) \<Longrightarrow> rd32 m (unat r + 4112) = rd32 (mem s) (unat r + 4112)"
    by (rule rd32_cong, erule node) auto
  then have nx: "rd32 m (unat q + 4112) = rd32 (mem s) (unat q + 4112)" and ch1: "chain (mem s1) 4112 q (q # qs)"
    using ch chain_cong [of "q # qs" m 4112 "mem s" q] by (auto simp: s1_def)
  obtain s2 L2 where s2: "kfree q s1 = kret s2" "heap_rep s2 L2" "owned L2 4116 qs"
      "chain (mem s2) 4112 (rd32 (mem s1) (unat q + 4112)) qs"
      "\<And>x. x \<in> live_bytes L \<union> unmanaged \<Longrightarrow> mem s2 x = mem s1 x"
      "\<exists>l \<ge> 4116. (unat q, l) \<in> L \<and> L2 = L - {(unat q, l)}"
    by (rule kheap.free_node [OF rep1 ch1 own]) auto
  have tab: "socket_table s2 = socket_table (pop_msg i s)"
    using more_sockets(1) [OF kfree_more [OF s2(1)]] by (simp add: s1_def)
  have "rd32 (mem s) (unat q + 4112) = 0 \<longleftrightarrow> qs = []" using ch by (cases qs) auto
  then have "msgs_at s2 L2 i qs (map (msg_data (mem s)) qs)"
    using s2(2,3,4) nx hd pop_msg_sock [OF i] tab owned_live [OF own] node s2(5)
    by (intro msgs_frame [OF ms]) (auto simp: s1_def)
  moreover have "socket_recv fd buf len flags s = kret (int n, s2\<lparr>hw := h\<rparr>)"
    if "h = printk_hw ''[SOCKET] Received %d bytes on fd=%d\<newline>'' [KInt (int n), KInt fd] (hw s2)" for h
    using fd arg hd cl(1) sn s2(1) that
    by (simp add: socket_recv_def Let_def mlen_def [symmetric] cl_def s1_def m_def split: if_splits)
  moreover have "map (\<lambda>k. mem s2 (unat buf + k)) [0..<n] = take n d"
  proof (rule nth_equalityI)
    show "length (map (\<lambda>k. mem s2 (unat buf + k)) [0..<n]) = length (take n d)" using n by simp
  next
    fix k assume "k < length (map (\<lambda>k. mem s2 (unat buf + k)) [0..<n])"
    then have k: "k < n" by simp
    then have "mem s2 (unat buf + k) = m (unat buf + k)" using s2(5) buf by (simp add: s1_def)
    with k n ld show "map (\<lambda>k. mem s2 (unat buf + k)) [0..<n] ! k = take n d ! k"
      by (simp add: m d(1) msg_data_def mlen_def)
  qed
  moreover have "same_ends s (s2\<lparr>hw := h\<rparr>)" for h
    using pop_msg_ends [of s s] tab by (simp add: same_ends_def)
  ultimately show ?thesis using s2(6) d(2) by (fastforce simp: msgs_at_def)
qed

lemma free_msgs_all:
  fixes s :: "'a sockets_scheme"
  assumes "heap_rep s L" "chain (mem s) 4112 p qs" "owned L 4116 qs"
  shows "\<exists>s' lens. free_msgs p s = kret s' \<and> length lens = length qs \<and> set (zip (map unat qs) lens) \<subseteq> L
    \<and> heap_rep s' (L - set (zip (map unat qs) lens)) \<and> socket_table s' = socket_table s"
  using assms
proof (induction qs arbitrary: p s L)
  case Nil
  then show ?case by (subst free_msgs.simps) simp
next
  case (Cons q qs)
  then have p: "p = q" "q \<noteq> 0" "chain (mem s) 4112 q (q # qs)" by auto
  obtain s1 L1 where s1: "kfree q s = kret s1" "heap_rep s1 L1" "owned L1 4116 qs"
      "chain (mem s1) 4112 (rd32 (mem s) (unat q + 4112)) qs"
      "\<exists>l \<ge> 4116. (unat q, l) \<in> L \<and> L1 = L - {(unat q, l)}"
    by (rule kheap.free_node [OF Cons.prems(1) p(3) Cons.prems(3)]) auto
  from s1(5) obtain l where l: "(unat q, l) \<in> L" "L1 = L - {(unat q, l)}" by blast
  from Cons.IH [OF s1(2,4,3)] obtain s' lens where IH:
      "free_msgs (rd32 (mem s) (unat q + 4112)) s1 = kret s'" "length lens = length qs"
      "set (zip (map unat qs) lens) \<subseteq> L1" "heap_rep s' (L1 - set (zip (map unat qs) lens))"
      "socket_table s' = socket_table s1" by blast
  have "free_msgs p s = kret s'" using p(1,2) s1(1) IH(1) by (subst free_msgs.simps) simp
  moreover have "L - set (zip (map unat (q # qs)) (l # lens)) = L1 - set (zip (map unat qs) lens)"
    using l(2) by auto
  moreover have "set (zip (map unat (q # qs)) (l # lens)) \<subseteq> L" using l IH(3) by auto
  moreover have "socket_table s1 = socket_table s" by (rule more_sockets(1) [OF kfree_more [OF s1(1)]])
  ultimately show ?case using IH(2,4,5) by (intro exI [of _ s'] exI [of _ "l # lens"]) simp
qed

section \<open>Properties: messages\<close>

text \<open>
  C20. Sending appends. For a connected socket whose peer's queue holds the messages \<open>ds\<close> on a sound
  heap, and a non-empty buffer in memory the heap does not manage or in allocated blocks: when \<open>kmalloc\<close>
  has no block for the message, \<open>socket_send\<close> returns -1 with the queue unchanged; otherwise it returns
  the number of bytes sent, which is \<open>len\<close> cut to 4096, and the peer's queue then holds \<open>ds\<close> followed by one
  message with exactly these first bytes of the buffer, in the block the heap gave for it.
\<close>

theorem socket_send_appends:
  fixes s :: "'a sockets_scheme"
  assumes "msgs_at s L j qs ds" "socket_get_by_fd fd s = Some i"
    "sk_state (sock s i) = SOCKET_STATE_CONNECTED" "peer (sock s i) = Some j"
    "j < length (socket_table s)" "buf \<noteq> 0" "len \<noteq> 0"
    "\<forall>k < min (unat len) 4096. unat buf + k \<in> live_bytes L \<union> unmanaged"
  shows "(\<exists>s'. kmalloc 4116 s = kret (0, s') \<and> socket_send fd buf len flags s = kret (-1, s')
        \<and> msgs_at s' L j qs ds \<and> same_ends s s')
    \<or> (\<exists>s1 s' e l. kmalloc 4116 s = kret (e, s1) \<and> e \<noteq> 0
        \<and> socket_send fd buf len flags s = kret (int (min (unat len) 4096), s') \<and> same_ends s s'
        \<and> msgs_at s' (insert (unat e, l) L) j (qs @ [e])
            (ds @ [map (\<lambda>k. mem s (unat buf + k)) [0..<min (unat len) 4096]]))"
  using socket_send_queue [OF assms(1-7) refl, of flags] assms(8) unfolding unat_msg_limit by blast

text \<open>
  C21. Receiving takes the oldest message. On a socket whose queue holds \<open>d # ds\<close>, \<open>socket_recv\<close> with
  a buffer that does not overlap the queued messages returns the smaller of the buffer size and the
  message length, leaves exactly that prefix of \<open>d\<close> in the buffer, frees the message and leaves \<open>ds\<close>
  in the queue.
\<close>

theorem socket_recv_pops:
  fixes s :: "'a sockets_scheme"
  assumes "msgs_at s L i (q # qs) (d # ds)" "socket_get_by_fd fd s = Some i" "i < length (socket_table s)"
    "buf \<noteq> 0" "len \<noteq> 0"
    "\<forall>k < min (unat len) (length d). unat buf + k \<in> live_bytes L \<union> unmanaged
      \<and> (\<forall>r \<in> set (q # qs). unat buf + k < unat r \<or> unat r + 4116 \<le> unat buf + k)"
  shows "\<exists>s' l. socket_recv fd buf len flags s = kret (int (min (unat len) (length d)), s')
    \<and> (unat q, l) \<in> L \<and> msgs_at s' (L - {(unat q, l)}) i qs ds \<and> same_ends s s'
    \<and> map (\<lambda>k. mem s' (unat buf + k)) [0..<min (unat len) (length d)] = take (min (unat len) (length d)) d"
  by (rule socket_recv_queue [OF assms(1-5) refl assms(6)])

section \<open>Properties: connections\<close>

lemma connect_step:
  fixes s :: "'a sockets_scheme"
  assumes fd: "socket_get_by_fd fd s = Some i" and ad: "addr \<noteq> 0" "ad = rd_address (mem s) (unat addr)"
    and l: "socket_find_by_address ad s = Some l" and v: "socket_alloc s = Some v" and il: "i \<noteq> l"
    and len: "length (socket_table s) = MAX_SOCKETS" and ok: "accept_ok (sock s l)"
  obtains s' where "socket_connect fd addr s = (0, s')" "length (socket_table s') = MAX_SOCKETS"
    "i \<noteq> v" "l \<noteq> v" "i < MAX_SOCKETS" "v < MAX_SOCKETS" "l < MAX_SOCKETS"
    "sock s' i = (sock s i)\<lparr>peer := Some v, sk_state := SOCKET_STATE_CONNECTED, remote_addr := ad\<rparr>"
    "sk_fd (sock s' v) = next_sockfd s" "sk_state (sock s' v) = SOCKET_STATE_CONNECTED"
    "peer (sock s' v) = Some i" "owner_pid (sock s' v) = owner_pid (sock s l)"
    "local_addr (sock s' v) = local_addr (sock s l)" "sa_pid (remote_addr (sock s' v)) = owner_pid (sock s i)"
    "sock s' l = accept_put (Some v) (sock s l)"
    "\<forall>k. k \<noteq> i \<and> k \<noteq> v \<and> k \<noteq> l \<longrightarrow> sock s' k = sock s k"
proof -
  have bnd: "i < MAX_SOCKETS" "l < MAX_SOCKETS" "v < MAX_SOCKETS"
    and st: "sk_state (sock s i) \<noteq> SOCKET_STATE_CLOSED" "sk_state (sock s l) = SOCKET_STATE_LISTENING"
      "sk_state (sock s v) = SOCKET_STATE_CLOSED"
    using find_slot [OF fd [unfolded socket_get_by_fd_def]] find_slot [OF l [unfolded socket_find_by_address_def]]
      find_slot [OF v [unfolded socket_alloc_def]] by auto
  then have neq: "i \<noteq> v" "l \<noteq> v" by auto
  note [simp] = sock_upd_sock len bnd neq neq [symmetric] il il [symmetric]
  show thesis
    by (rule that [of "snd (socket_connect fd addr s)"])
      (use fd l v in \<open>simp_all add: socket_connect_def Let_def ad\<close>)
qed

text \<open>
  Connecting. When the descriptor is found, a socket other than it listens at the address and
  the table has a free slot \<open>v\<close>, \<open>socket_connect\<close> returns 0 and the client and the new server-side
  socket in \<open>v\<close> are connected to each other; the new socket is put at the end of the listener's
  accept queue only if the queue holds fewer than 16 connections, and is dropped without an error
  otherwise. Every other socket is unchanged.
\<close>

theorem socket_connect_outcome:
  fixes s :: "'a sockets_scheme"
  assumes "socket_get_by_fd fd s = Some i" "addr \<noteq> 0"
    "socket_find_by_address (rd_address (mem s) (unat addr)) s = Some l" "socket_alloc s = Some v" "i \<noteq> l"
    "length (socket_table s) = MAX_SOCKETS" "accept_ok (sock s l)"
  shows "\<exists>s'. socket_connect fd addr s = (0, s')
    \<and> peer (sock s' i) = Some v \<and> peer (sock s' v) = Some i
    \<and> sk_state (sock s' i) = SOCKET_STATE_CONNECTED \<and> sk_state (sock s' v) = SOCKET_STATE_CONNECTED
    \<and> sk_fd (sock s' v) = next_sockfd s \<and> accept_ok (sock s' l)
    \<and> accept_contents (sock s' l) = (if length (accept_contents (sock s l)) < 16
        then accept_contents (sock s l) @ [Some v] else accept_contents (sock s l))
    \<and> (\<forall>k. k \<notin> {i, v, l} \<longrightarrow> sock s' k = sock s k)"
proof -
  obtain s' where s': "socket_connect fd addr s = (0, s')"
    "sock s' i = (sock s i)\<lparr>peer := Some v, sk_state := SOCKET_STATE_CONNECTED,
       remote_addr := rd_address (mem s) (unat addr)\<rparr>"
    "sk_fd (sock s' v) = next_sockfd s" "sk_state (sock s' v) = SOCKET_STATE_CONNECTED"
    "peer (sock s' v) = Some i" "sock s' l = accept_put (Some v) (sock s l)"
    "\<forall>k. k \<noteq> i \<and> k \<noteq> v \<and> k \<noteq> l \<longrightarrow> sock s' k = sock s k"
    by (rule connect_step [OF assms(1,2) refl assms(3-7)])
  with aq.put_law [OF assms(7), of "Some v"] show ?thesis by auto
qed

text \<open>
  Closing. On a connected socket with its messages on a sound heap, \<open>socket_close\<close> returns 0,
  frees every queued message and the slot itself, and the descriptor's slot is free again. The peer is
  disconnected by marking it closed, but its descriptor stays: from then on its slot is found neither by
  \<open>socket_get_by_fd\<close> nor by \<open>socket_alloc\<close>, so that it is lost.
\<close>

theorem socket_close_outcome:
  fixes s :: "'a sockets_scheme"
  assumes ms: "msgs_at s L i qs ds" and fd: "socket_get_by_fd fd s = Some i"
    and len: "length (socket_table s) = MAX_SOCKETS"
    and j: "peer (sock s i) = Some j" "j \<noteq> i" "j < MAX_SOCKETS" "sk_fd (sock s j) \<noteq> -1"
  shows "\<exists>s' lens. socket_close fd s = kret (0, s')
    \<and> length lens = length qs \<and> heap_rep s' (L - set (zip (map unat qs) lens))
    \<and> sock s' i = socket_zero\<lparr>sk_fd := -1\<rparr> \<and> sock s' j = (sock s j)\<lparr>peer := None, sk_state := SOCKET_STATE_CLOSED\<rparr>
    \<and> socket_alloc s' \<noteq> Some j \<and> (\<forall>f. socket_get_by_fd f s' \<noteq> Some j)"
proof -
  have i: "i < MAX_SOCKETS" using find_slot [OF fd [unfolded socket_get_by_fd_def]] by simp
  define s1 where "s1 = upd_sock j (\<lambda>k. k\<lparr>sk_state := SOCKET_STATE_CLOSED\<rparr>) (upd_sock j (\<lambda>k. k\<lparr>peer := None\<rparr>) s)"
  have "heap_rep s1 L" "chain (mem s1) 4112 (msg_queue_head (sock s1 i)) qs" "owned L 4116 qs"
    using ms j len by (auto simp: msgs_at_def s1_def sock_upd_sock)
  from free_msgs_all [OF this] obtain s2 lens where s2:
      "free_msgs (msg_queue_head (sock s1 i)) s1 = kret s2" "length lens = length qs"
      "heap_rep s2 (L - set (zip (map unat qs) lens))" "socket_table s2 = socket_table s1" by blast
  define s' where "s' = printk ''[SOCKET] Closed socket fd=%d\<newline>'' [KInt fd]
    (upd_sock i (\<lambda>_. socket_zero\<lparr>sk_state := SOCKET_STATE_CLOSED, sk_fd := -1\<rparr>) s2)"
  have "socket_close fd s = kret (0, s')"
    using fd j(1) s2(1) by (simp add: socket_close_def s1_def s'_def)
  moreover have "heap_rep s' (L - set (zip (map unat qs) lens))" using s2(3) by (simp add: s'_def)
  moreover have "sock s' i = socket_zero\<lparr>sk_fd := -1\<rparr>"
    using s2(4) i len by (simp add: s'_def upd_sock_def s1_def socket_zero_def)
  moreover have sj: "sock s' j = (sock s j)\<lparr>peer := None, sk_state := SOCKET_STATE_CLOSED\<rparr>"
    using s2(4) j len by (simp add: s'_def upd_sock_def s1_def)
  moreover have "socket_alloc s' \<noteq> Some j"
  proof
    assume "socket_alloc s' = Some j"
    from find_slot [OF this [unfolded socket_alloc_def]] sj j(4) show False by simp
  qed
  moreover have "socket_get_by_fd f s' \<noteq> Some j" for f
  proof
    assume "socket_get_by_fd f s' = Some j"
    from find_slot [OF this [unfolded socket_get_by_fd_def]] sj show False by simp
  qed
  ultimately show ?thesis using s2(2) by blast
qed

text \<open>
  Accepting. On a listening socket whose accept queue holds the connections \<open>c # cs\<close>, oldest
  first, \<open>socket_accept\<close> returns the descriptor of \<open>c\<close>, leaves \<open>cs\<close> in the queue and stores the
  client's address at a non-null pointer; with an empty queue it returns -1 and changes nothing.
\<close>

theorem socket_accept_outcome:
  fixes s :: "'a sockets_scheme"
  assumes fd: "socket_get_by_fd fd s = Some i" and st: "sk_state (sock s i) = SOCKET_STATE_LISTENING"
    and len: "length (socket_table s) = MAX_SOCKETS" and ok: "accept_ok (sock s i)"
    and q: "accept_contents (sock s i) = map Some cs"
  shows "case cs of [] \<Rightarrow> socket_accept fd addr s = Some (-1, s)
    | c # cs' \<Rightarrow> \<exists>s'. socket_accept fd addr s = Some (sk_fd (sock s c), s')
        \<and> accept_ok (sock s' i) \<and> accept_contents (sock s' i) = map Some cs'
        \<and> mem s' = (if addr = 0 then mem s else wr_address (mem s) (unat addr) (remote_addr (sock s c)))"
proof -
  have i: "i < length (socket_table s)" using find_slot [OF fd [unfolded socket_get_by_fd_def]] len by simp
  show ?thesis
  proof (cases cs)
    case Nil
    with q aq.empty_law [OF ok] fd st show ?thesis by (simp add: socket_accept_def)
  next
    case (Cons c cs')
    with q have "accept_contents (sock s i) = Some c # map Some cs'" by simp
    with aq.get_law [OF ok] aq.empty_law [OF ok] have g: "accept_queue_count (sock s i) \<noteq> 0"
      "accept_ok (snd (accept_get (sock s i)))" "fst (accept_get (sock s i)) = Some c"
      "accept_contents (snd (accept_get (sock s i))) = map Some cs'" by auto
    have keep: "sk_fd (snd (accept_get k)) = sk_fd k" "remote_addr (snd (accept_get k)) = remote_addr k" for k
      by (simp_all add: accept_get_def)
    show ?thesis
      using Cons fd st g keep i by (simp add: socket_accept_def Let_def sock_upd_sock)
  qed
qed

section \<open>An example\<close>

text \<open>Two sockets connected to each other and one that listens, on a fresh heap.\<close>

definition sockets_example :: sockets where
  "sockets_example = (sockets_boot (procs_boot paging_ready))\<lparr>socket_table :=
     socket_zero\<lparr>sk_fd := 1, sk_state := SOCKET_STATE_CONNECTED, peer := Some 1\<rparr>
     # socket_zero\<lparr>sk_fd := 2, sk_state := SOCKET_STATE_CONNECTED, peer := Some 0\<rparr>
     # socket_zero\<lparr>sk_fd := 3, sk_state := SOCKET_STATE_LISTENING, local_addr := rd_address (mem paging_ready) 0x1000\<rparr>
     # replicate 253 (socket_zero\<lparr>sk_fd := -1\<rparr>)\<rparr>"

lemma upt_table: "[0..<256] = 0 # 1 # 2 # 3 # [4..<256]"
  by (simp add: upt_conv_Cons del: upt_rec_numeral)

lemma example_fields:
  "mem sockets_example = mem paging_ready" "heap_initialized sockets_example = heap_initialized paging_ready"
  "heap_start sockets_example = heap_start paging_ready" "length (socket_table sockets_example) = 256"
  by (simp_all add: sockets_example_def sockets_boot_def procs_boot_def sockets.defs procs.defs paging.defs)

lemma example_heap: "heap_abs sockets_example [(HEAP_SIZE, True)]"
  using paging_ready_heap by (simp add: heap_abs_def example_fields)

lemma example_socks:
  "sock sockets_example 0 = socket_zero\<lparr>sk_fd := 1, sk_state := SOCKET_STATE_CONNECTED, peer := Some 1\<rparr>"
  "sock sockets_example 1 = socket_zero\<lparr>sk_fd := 2, sk_state := SOCKET_STATE_CONNECTED, peer := Some 0\<rparr>"
  "sock sockets_example 2 = socket_zero\<lparr>sk_fd := 3, sk_state := SOCKET_STATE_LISTENING,
     local_addr := rd_address (mem sockets_example) 0x1000\<rparr>"
  "sock sockets_example 3 = socket_zero\<lparr>sk_fd := -1\<rparr>"
  unfolding example_fields(1) by (simp_all add: sockets_example_def numeral_2_eq_2 numeral_3_eq_3)

lemma example_lookup:
  "socket_get_by_fd 1 sockets_example = Some 0" "socket_get_by_fd 2 sockets_example = Some 1"
  "socket_get_by_fd 3 sockets_example = Some 2" "socket_alloc sockets_example = Some 3"
  "socket_find_by_address (rd_address (mem sockets_example) 0x1000) sockets_example = Some 2"
  unfolding socket_get_by_fd_def socket_alloc_def socket_find_by_address_def upt_table
  by (simp_all add: example_socks [simplified] socket_zero_def del: upt_rec_numeral)

lemma example_msgs: "msgs_at sockets_example {} 1 [] []"
  using example_heap example_socks(2)
  by (auto simp: msgs_at_def heap_rep_def socket_zero_def owned_def intro!: exI [of _ "[(HEAP_SIZE, True)]"])

lemma example_kmalloc: "\<exists>s. kmalloc 4116 sockets_example = kret (0x500010, s)"
proof -
  have "amalloc (request 4116) HEAP_START [(HEAP_SIZE, True)] =
      Some (HEAP_START, [(4132, False), (0x100000 - 4132, True)])"
    by (simp add: request_def)
  with kmalloc_step [OF example_heap, of 4116] show ?thesis by auto
qed

lemma example_send:
  obtains s e l where "socket_send 1 0x1000 3 0 sockets_example = kret (3, s)" "same_ends sockets_example s"
    "msgs_at s {(unat e, l)} 1 [e] [map (\<lambda>k. mem sockets_example (0x1000 + k)) [0..<3]]"
proof -
  have "kmalloc 4116 sockets_example \<noteq> kret (0, s)" for s using example_kmalloc by auto
  with socket_send_queue [OF example_msgs example_lookup(1), of "0x1000" 3 3 0] that show thesis
    by (auto simp: example_socks [simplified] example_fields socket_zero_def msg_limit_def unmanaged_def)
qed

theorem socket_send_appends_witness:
  "\<exists>s' e l. socket_send 1 0x1000 3 0 sockets_example = kret (3, s')
     \<and> msgs_at s' {(unat e, l)} 1 [e] [map (\<lambda>k. mem sockets_example (0x1000 + k)) [0..<3]]"
proof -
  have "kmalloc 4116 sockets_example \<noteq> kret (0, s)" for s using example_kmalloc by auto
  with socket_send_appends [OF example_msgs example_lookup(1), of "0x1000" 3 0] show ?thesis
    by (auto simp: example_socks [simplified] example_fields socket_zero_def msg_limit_def unmanaged_def)
qed

theorem socket_recv_pops_witness:
  "\<exists>(s :: sockets) e s'. msg_queue_head (sock s 1) = e \<and> e \<noteq> 0 \<and> socket_recv 2 0x2000 2 0 s = kret (2, s')
     \<and> msgs_at s' {} 1 [] []"
proof -
  obtain s e l where s: "same_ends sockets_example s"
    "msgs_at s {(unat e, l)} 1 [e] [map (\<lambda>k. mem sockets_example (0x1000 + k)) [0..<3]]" by (rule example_send)
  have fd: "socket_get_by_fd 2 s = Some 1" and len: "length (socket_table s) = 256"
    using same_ends_lookup [OF s(1)] example_lookup example_fields by auto
  have e: "0x500010 \<le> unat e"
    using s(2) heap_rep_block [of s "{(unat e, l)}" "unat e" l] by (simp add: msgs_at_def)
  have "\<forall>k < min (unat (2 :: u32)) (length (map (\<lambda>k. mem sockets_example (0x1000 + k)) [0..<3])).
      unat (0x2000 :: u32) + k \<in> live_bytes {(unat e, l)} \<union> unmanaged
      \<and> (\<forall>r \<in> set [e]. unat (0x2000 :: u32) + k < unat r \<or> unat r + 4116 \<le> unat (0x2000 :: u32) + k)"
    using e by (auto simp: unmanaged_def)
  from socket_recv_pops [OF s(2) fd _ _ _ this, of 0] len s(2) show ?thesis
    by (auto simp: msgs_at_def)
qed

theorem socket_connect_outcome_witness:
  "\<exists>s'. socket_connect 1 0x1000 sockets_example = (0, s') \<and> peer (sock s' 3) = Some 0
     \<and> accept_contents (sock s' 2) = [Some 3]"
proof -
  have ok: "accept_ok (sock sockets_example 2)" "accept_contents (sock sockets_example 2) = []"
    by (simp_all add: example_socks socket_zero_def accept_ok_def accept_contents_def)
  from socket_connect_outcome [OF example_lookup(1), of "0x1000" 2 3] ok example_lookup(4,5) show ?thesis
    by (auto simp: example_fields)
qed

theorem socket_accept_outcome_witness:
  "\<exists>s s'. socket_connect 1 0x1000 sockets_example = (0, s) \<and> socket_accept 3 0 s = Some (1, s')"
proof -
  have ok: "accept_ok (sock sockets_example 2)"
    by (simp add: example_socks socket_zero_def accept_ok_def)
  obtain s where s: "socket_connect 1 0x1000 sockets_example = (0, s)" "length (socket_table s) = 256"
    "sk_fd (sock s 3) = next_sockfd sockets_example" "sock s 0 = (sock sockets_example 0)\<lparr>peer := Some 3,
       sk_state := SOCKET_STATE_CONNECTED, remote_addr := rd_address (mem sockets_example) 0x1000\<rparr>"
    "sock s 2 = accept_put (Some 3) (sock sockets_example 2)"
    "\<forall>k. k \<noteq> 0 \<and> k \<noteq> 3 \<and> k \<noteq> 2 \<longrightarrow> sock s k = sock sockets_example k"
    by (rule connect_step [OF example_lookup(1) _ refl, of "0x1000" 2 3])
      (use ok example_lookup(4,5) in \<open>auto simp: example_fields\<close>)
  have two: "accept_ok (sock s 2)" "accept_contents (sock s 2) = map Some [3]"
    "sk_fd (sock s 2) = 3" "sk_state (sock s 2) = SOCKET_STATE_LISTENING"
    by (simp_all add: s(5) example_socks socket_zero_def accept_put_def accept_ok_def accept_contents_def ring_def)
  have nf: "next_sockfd sockets_example = 1"
    by (simp add: sockets_example_def sockets_boot_def sockets.defs procs.defs)
  have fd: "socket_get_by_fd 3 s = Some 2"
    using s(3-6) two(3,4) nf example_socks unfolding socket_get_by_fd_def upt_table
    by (simp add: socket_zero_def del: upt_rec_numeral)
  from socket_accept_outcome [OF fd two(4) s(2) two(1,2), of 0] s(1,3) nf show ?thesis by auto
qed

theorem socket_close_outcome_witness:
  "\<exists>s'. socket_close 2 sockets_example = kret (0, s') \<and> socket_alloc s' \<noteq> Some 0
     \<and> (\<forall>f. socket_get_by_fd f s' \<noteq> Some 0)"
  using socket_close_outcome [OF example_msgs example_lookup(2), of 0]
  by (auto simp: example_fields example_socks [simplified] socket_zero_def)

end
