(* ===== verification/KFS_Pic.thy ===== *)
theory KFS_Pic
  imports KFS_Console
begin

text \<open>
  The interrupt controller driver \<open>src/pic.c\<close>. The two 8259A chips are devices outside the
  repository: \<open>pic_device\<close> states what the driver relies on, that reading a data port gives the
  mask last written to it outside an initialisation sequence.
\<close>

abbreviation (input) PIC1_COMMAND :: u16 where "PIC1_COMMAND \<equiv> 0x20"
abbreviation (input) PIC1_DATA :: u16 where "PIC1_DATA \<equiv> 0x21"
abbreviation (input) PIC2_COMMAND :: u16 where "PIC2_COMMAND \<equiv> 0xA0"
abbreviation (input) PIC2_DATA :: u16 where "PIC2_DATA \<equiv> 0xA1"
abbreviation (input) PIC_EOI :: u8 where "PIC_EOI \<equiv> 0x20"
abbreviation (input) ICW1_INIT :: u8 where "ICW1_INIT \<equiv> 0x10"
abbreviation (input) ICW1_ICW4 :: u8 where "ICW1_ICW4 \<equiv> 0x01"
abbreviation (input) ICW4_8086 :: u8 where "ICW4_8086 \<equiv> 0x01"
abbreviation (input) PIC1_OFFSET :: u8 where "PIC1_OFFSET \<equiv> 0x20"
abbreviation (input) PIC2_OFFSET :: u8 where "PIC2_OFFSET \<equiv> 0x28"

definition pic_wait :: "'a hardware_scheme \<Rightarrow> 'a hardware_scheme" where
  "pic_wait h = outb 0x80 0 h"

definition pic_init :: "'a hardware_scheme \<Rightarrow> 'a hardware_scheme" where
  "pic_init h =
     (let (mask1, h1) = inb PIC1_DATA h;
          (mask2, h2) = inb PIC2_DATA h1;
          h3 = pic_wait (outb PIC1_COMMAND (ICW1_INIT OR ICW1_ICW4) h2);
          h4 = pic_wait (outb PIC2_COMMAND (ICW1_INIT OR ICW1_ICW4) h3);
          h5 = pic_wait (outb PIC1_DATA PIC1_OFFSET h4);
          h6 = pic_wait (outb PIC2_DATA PIC2_OFFSET h5);
          h7 = pic_wait (outb PIC1_DATA 0x04 h6);
          h8 = pic_wait (outb PIC2_DATA 0x02 h7);
          h9 = pic_wait (outb PIC1_DATA ICW4_8086 h8);
          h10 = pic_wait (outb PIC2_DATA ICW4_8086 h9)
      in outb PIC2_DATA mask2 (outb PIC1_DATA mask1 h10))"

definition pic_send_eoi :: "u8 \<Rightarrow> 'a hardware_scheme \<Rightarrow> 'a hardware_scheme" where
  "pic_send_eoi irq h =
     outb PIC1_COMMAND PIC_EOI (if 8 \<le> irq then outb PIC2_COMMAND PIC_EOI h else h)"

text \<open>The port and bit of an IRQ line. A shift by 32 or more is undefined in C; on the processors
  this kernel targets it shifts by the count modulo 32.\<close>

definition irq_port :: "u8 \<Rightarrow> u16 \<times> nat" where
  "irq_port irq = (if irq < 8 then (PIC1_DATA, unat irq) else (PIC2_DATA, unat (irq - 8)))"

definition irq_bit :: "nat \<Rightarrow> u8" where
  "irq_bit n = ucast (push_bit (n mod 32) 1 :: u32)"

definition pic_mask_irq :: "u8 \<Rightarrow> 'a hardware_scheme \<Rightarrow> 'a hardware_scheme" where
  "pic_mask_irq irq h =
     (let (port, n) = irq_port irq; (v, h1) = inb port h in outb port (v OR irq_bit n) h1)"

definition pic_unmask_irq :: "u8 \<Rightarrow> 'a hardware_scheme \<Rightarrow> 'a hardware_scheme" where
  "pic_unmask_irq irq h =
     (let (port, n) = irq_port irq; (v, h1) = inb port h in outb port (v AND NOT (irq_bit n)) h1)"

definition pic_disable_all :: "'a hardware_scheme \<Rightarrow> 'a hardware_scheme" where
  "pic_disable_all h = outb PIC2_DATA 0xFF (outb PIC1_DATA 0xFF h)"

definition pic_get_mask :: "'a hardware_scheme \<Rightarrow> u16 \<times> 'a hardware_scheme" where
  "pic_get_mask h =
     (let (a, h1) = inb PIC1_DATA h; (b, h2) = inb PIC2_DATA h1
      in (ucast a OR push_bit 8 (ucast b), h2))"

definition pic_set_mask :: "u16 \<Rightarrow> 'a hardware_scheme \<Rightarrow> 'a hardware_scheme" where
  "pic_set_mask irq_mask h =
     outb PIC2_DATA (ucast (drop_bit 8 irq_mask AND 0xFF)) (outb PIC1_DATA (ucast (irq_mask AND 0xFF)) h)"

section \<open>The masks\<close>

text \<open>The last byte written to a port.\<close>

fun last_out :: "u16 \<Rightarrow> io_event list \<Rightarrow> u8 option" where
  "last_out port [] = None"
| "last_out port (Outb p v # es) = (if p = port then Some v else last_out port es)"
| "last_out port (_ # es) = last_out port es"

text \<open>The documented behaviour of the chips: a data port reads back the mask last written.\<close>

definition pic_device :: "'a hardware_scheme \<Rightarrow> bool" where
  "pic_device h \<longleftrightarrow> (\<forall>es v. \<forall>port \<in> {PIC1_DATA, PIC2_DATA}.
     last_out port es = Some v \<longrightarrow> dev h es port = ucast v)"

definition masks :: "'a hardware_scheme \<Rightarrow> u8 option \<times> u8 option" where
  "masks h = (last_out PIC1_DATA (hist h), last_out PIC2_DATA (hist h))"

text \<open>The lines that are masked, from the two masks.\<close>

definition masked :: "'a hardware_scheme \<Rightarrow> nat \<Rightarrow> bool" where
  "masked h n = (if n < 8 then (case fst (masks h) of None \<Rightarrow> False | Some v \<Rightarrow> bit v n)
     else (case snd (masks h) of None \<Rightarrow> False | Some v \<Rightarrow> bit v (n - 8)))"

lemmas pic_defs = outb_def inb_def pic_mask_irq_def pic_unmask_irq_def irq_port_def pic_wait_def
  pic_disable_all_def pic_set_mask_def pic_get_mask_def masks_def

lemma pic_disable_all_masks: "masks (pic_disable_all h) = (Some 0xFF, Some 0xFF)"
  by (simp add: pic_defs)

lemma inb_masks [simp]: "masks (snd (inb p h)) = masks h"
  by (simp add: pic_defs)

lemma irq_bit_bit: "n < 8 \<Longrightarrow> k < 8 \<Longrightarrow> bit (irq_bit n) k \<longleftrightarrow> k = n"
  by (auto simp: irq_bit_def bit_simps)

lemma pic_device_cong: "dev h' = dev h \<Longrightarrow> pic_device h' = pic_device h"
  by (simp add: pic_device_def)

lemma pic_read:
  assumes "pic_device h" "last_out port (hist h) = Some v" "port \<in> {PIC1_DATA, PIC2_DATA}"
  shows "fst (inb port h) = v"
  using assms by (auto simp: pic_device_def inb_def)

lemma masked_known:
  "masks h = (Some a, Some b) \<Longrightarrow> masked h n = (if n < 8 then bit a n else bit b (n - 8))"
  by (simp add: masked_def)

lemma irq_update:
  assumes dev: "pic_device h" and m: "masks h = (Some a, Some b)" and irq: "irq < 16"
  shows "pic_mask_irq irq h = outb (fst (irq_port irq))
      ((if irq < 8 then a else b) OR irq_bit (snd (irq_port irq))) (snd (inb (fst (irq_port irq)) h))"
    "pic_unmask_irq irq h = outb (fst (irq_port irq))
      ((if irq < 8 then a else b) AND NOT (irq_bit (snd (irq_port irq)))) (snd (inb (fst (irq_port irq)) h))"
  using pic_read [OF dev, of PIC1_DATA a] pic_read [OF dev, of PIC2_DATA b] m
  by (auto simp: pic_mask_irq_def pic_unmask_irq_def irq_port_def masks_def split: prod.splits)

text \<open>
  Masking and unmasking act on one line: with chips that read back their masks, and masks that
  have been set once, \<open>pic_mask_irq\<close> disables exactly the given line of the 16, and
  \<open>pic_unmask_irq\<close> enables exactly it; every other line keeps its state.
\<close>

theorem pic_mask_one_line:
  assumes dev: "pic_device h" and m: "masks h = (Some a, Some b)" and irq: "irq < 16" and n: "n < 16"
  shows "(masked (pic_mask_irq irq h) n \<longleftrightarrow> n = unat irq \<or> masked h n)
    \<and> (masked (pic_unmask_irq irq h) n \<longleftrightarrow> n \<noteq> unat irq \<and> masked h n)"
proof
  have u: "unat irq < 16" "irq < 8 \<longleftrightarrow> unat irq < 8" "\<not> irq < 8 \<Longrightarrow> unat (irq - 8) = unat irq - 8"
    using irq by (auto simp: word_less_nat_alt unat_sub word_le_nat_alt)
  note up = irq_update [OF dev m irq]
  have k: "masks (outb p v (snd (inb p h))) =
      (if p = PIC1_DATA then Some v else Some a, if p = PIC2_DATA then Some v else Some b)" for p v
    using m by (simp add: masks_def outb_def inb_def)
  show "masked (pic_mask_irq irq h) n \<longleftrightarrow> n = unat irq \<or> masked h n"
    using u n m unfolding up
    by (auto simp: masked_def k irq_port_def bit_simps irq_bit_bit)
  show "masked (pic_unmask_irq irq h) n \<longleftrightarrow> n \<noteq> unat irq \<and> masked h n"
    using u n m unfolding up
    by (auto simp: masked_def k irq_port_def bit_simps irq_bit_bit)
qed

text \<open>Chips that behave as documented, with every line masked.\<close>

definition pic_power_on :: hardware where
  "pic_power_on = pic_disable_all
     (power_on\<lparr>dev := (\<lambda>es port. case last_out port es of None \<Rightarrow> 0 | Some v \<Rightarrow> ucast v)\<rparr>)"

lemma pic_power_on_device: "pic_device pic_power_on"
  by (simp add: pic_power_on_def pic_device_def pic_disable_all_def outb_def)

theorem pic_mask_one_line_witness:
  "masked (pic_unmask_irq 1 pic_power_on) 2 \<and> \<not> masked (pic_unmask_irq 1 pic_power_on) 1"
proof -
  have m: "masks pic_power_on = (Some 0xFF, Some 0xFF)"
    by (simp add: pic_power_on_def pic_disable_all_masks)
  from pic_mask_one_line [OF pic_power_on_device m, of 1 2]
    pic_mask_one_line [OF pic_power_on_device m, of 1 1]
  show ?thesis by (simp add: masked_known [OF m] bit_simps)
qed

end
