(* ===== verification/KFS_Keyboard.thy ===== *)
theory KFS_Keyboard
  imports KFS_Pic KFS_Queue
begin

text \<open>
  The keyboard driver \<open>src/keyboard.c\<close>: the scancode tables of the three layouts, the modifier
  state, the interrupt handler that turns scancodes into keys, the 256-slot ring buffer between the
  handler and the readers, and the line editor \<open>keyboard_getline\<close>. The lemmas show that the ring
  buffer is a FIFO of capacity 255, that what readers get is the decoding of the scancodes in order,
  and that a line read is the edited line, inside the caller's buffer.
\<close>

section \<open>Scancode tables\<close>

text \<open>Each table has 128 entries; C fills the ones the initialiser does not list with 0.\<close>

definition scancode_table :: "int list \<Rightarrow> int list" where
  "scancode_table xs = xs @ replicate (128 - length xs) 0"

definition scancode_to_ascii_qwerty :: "int list" where
  "scancode_to_ascii_qwerty = scancode_table
     [0, 27, 49, 50, 51, 52, 53, 54, 55, 56, 57, 48, 45, 61, 8, 9, 113, 119, 101, 114, 116,
      121, 117, 105, 111, 112, 91, 93, 10, 0, 97, 115, 100, 102, 103, 104, 106, 107, 108, 59,
      39, 96, 0, 92, 122, 120, 99, 118, 98, 110, 109, 44, 46, 47, 0, 42, 0, 32, 0, 0, 0, 0, 0,
      0, 0, 0, 0, 0, 0, 0, 0, 0, 0, 0, 45, 0, 0, 0, 43, 0, 0, 0, 0, 0, 0, 0, 0, 0, 0, 0]"

definition scancode_to_ascii_qwerty_shift :: "int list" where
  "scancode_to_ascii_qwerty_shift = scancode_table
     [0, 27, 33, 64, 35, 36, 37, 94, 38, 42, 40, 41, 95, 43, 8, 9, 81, 87, 69, 82, 84, 89, 85,
      73, 79, 80, 123, 125, 10, 0, 65, 83, 68, 70, 71, 72, 74, 75, 76, 58, 34, 126, 0, 124,
      90, 88, 67, 86, 66, 78, 77, 60, 62, 63, 0, 42, 0, 32, 0, 0, 0, 0, 0, 0, 0, 0, 0, 0, 0,
      0, 0, 0, 0, 0, 45, 0, 0, 0, 43, 0, 0, 0, 0, 0, 0, 0, 0, 0, 0, 0]"

definition scancode_to_ascii_azerty :: "int list" where
  "scancode_to_ascii_azerty = scancode_table
     [0, 27, 38, 101, 34, 39, 40, 45, 101, 95, 99, 97, 41, 61, 8, 9, 97, 122, 101, 114, 116,
      121, 117, 105, 111, 112, 94, 36, 10, 0, 113, 115, 100, 102, 103, 104, 106, 107, 108,
      109, 117, 96, 0, 42, 119, 120, 99, 118, 98, 110, 44, 59, 58, 33, 0, 42, 0, 32, 0, 0, 0,
      0, 0, 0, 0, 0, 0, 0, 0, 0, 0, 0, 0, 0, 45, 0, 0, 0, 43, 0, 0, 0, 0, 0, 0, 0, 0, 0, 0, 0]"

definition scancode_to_ascii_azerty_shift :: "int list" where
  "scancode_to_ascii_azerty_shift = scancode_table
     [0, 27, 49, 50, 51, 52, 53, 54, 55, 56, 57, 48, 111, 43, 8, 9, 65, 90, 69, 82, 84, 89,
      85, 73, 79, 80, 34, 76, 10, 0, 81, 83, 68, 70, 71, 72, 74, 75, 76, 77, 37, 80, 0, 117,
      87, 88, 67, 86, 66, 78, 63, 46, 47, 83, 0, 42, 0, 32, 0, 0, 0, 0, 0, 0, 0, 0, 0, 0, 0,
      0, 0, 0, 0, 0, 45, 0, 0, 0, 43, 0, 0, 0, 0, 0, 0, 0, 0, 0, 0, 0]"

definition scancode_to_ascii_qwertz :: "int list" where
  "scancode_to_ascii_qwertz = scancode_table
     [0, 27, 49, 50, 51, 52, 53, 54, 55, 56, 57, 48, 115, 39, 8, 9, 113, 119, 101, 114, 116,
      122, 117, 105, 111, 112, 117, 43, 10, 0, 97, 115, 100, 102, 103, 104, 106, 107, 108,
      111, 97, 94, 0, 35, 121, 120, 99, 118, 98, 110, 109, 44, 46, 45, 0, 42, 0, 32, 0, 0, 0,
      0, 0, 0, 0, 0, 0, 0, 0, 0, 0, 0, 0, 0, 45, 0, 0, 0, 43, 0, 0, 0, 0, 0, 0, 0, 0, 0, 0, 0]"

definition scancode_to_ascii_qwertz_shift :: "int list" where
  "scancode_to_ascii_qwertz_shift = scancode_table
     [0, 27, 33, 34, 80, 36, 37, 38, 47, 40, 41, 61, 63, 96, 8, 9, 81, 87, 69, 82, 84, 90, 85,
      73, 79, 80, 85, 42, 10, 0, 65, 83, 68, 70, 71, 72, 74, 75, 76, 79, 65, 111, 0, 39, 89,
      88, 67, 86, 66, 78, 77, 59, 58, 95, 0, 42, 0, 32, 0, 0, 0, 0, 0, 0, 0, 0, 0, 0, 0, 0, 0,
      0, 0, 0, 45, 0, 0, 0, 43, 0, 0, 0, 0, 0, 0, 0, 0, 0, 0, 0]"

section \<open>State\<close>

datatype keyboard_layout = KEYBOARD_LAYOUT_QWERTY | KEYBOARD_LAYOUT_AZERTY | KEYBOARD_LAYOUT_QWERTZ

record keyboard =
  shift_pressed :: bool
  ctrl_pressed :: bool
  alt_pressed :: bool
  current_layout :: keyboard_layout
  keyboard_buffer :: "int list"
  buffer_read_pos :: nat
  buffer_write_pos :: nat

abbreviation (input) KEYBOARD_BUFFER_SIZE :: nat where "KEYBOARD_BUFFER_SIZE \<equiv> 256"
abbreviation (input) KEY_F1 :: int where "KEY_F1 \<equiv> 0x80"

text \<open>The statics of the file before anything runs.\<close>

definition keyboard_boot :: keyboard where
  "keyboard_boot = \<lparr>shift_pressed = False, ctrl_pressed = False, alt_pressed = False,
     current_layout = KEYBOARD_LAYOUT_QWERTY, keyboard_buffer = replicate KEYBOARD_BUFFER_SIZE 0,
     buffer_read_pos = 0, buffer_write_pos = 0\<rparr>"

section \<open>The ring buffer\<close>

definition buffer_is_empty :: "keyboard \<Rightarrow> bool" where
  "buffer_is_empty k \<longleftrightarrow> buffer_read_pos k = buffer_write_pos k"

definition buffer_is_full :: "keyboard \<Rightarrow> bool" where
  "buffer_is_full k \<longleftrightarrow> (buffer_write_pos k + 1) mod KEYBOARD_BUFFER_SIZE = buffer_read_pos k"

definition buffer_put :: "int \<Rightarrow> keyboard \<Rightarrow> keyboard" where
  "buffer_put c k =
     (if \<not> buffer_is_full k
      then k\<lparr>keyboard_buffer := (keyboard_buffer k)[buffer_write_pos k := c],
             buffer_write_pos := (buffer_write_pos k + 1) mod KEYBOARD_BUFFER_SIZE\<rparr>
      else k)"

definition buffer_get :: "keyboard \<Rightarrow> int \<times> keyboard" where
  "buffer_get k =
     (if buffer_is_empty k then (0, k)
      else (keyboard_buffer k ! buffer_read_pos k,
            k\<lparr>buffer_read_pos := (buffer_read_pos k + 1) mod KEYBOARD_BUFFER_SIZE\<rparr>))"

section \<open>Scancodes to keys\<close>

definition get_scancode_map :: "keyboard_layout \<Rightarrow> bool \<Rightarrow> int list" where
  "get_scancode_map layout shifted = (case layout of
       KEYBOARD_LAYOUT_AZERTY \<Rightarrow>
         (if shifted then scancode_to_ascii_azerty_shift else scancode_to_ascii_azerty)
     | KEYBOARD_LAYOUT_QWERTZ \<Rightarrow>
         (if shifted then scancode_to_ascii_qwertz_shift else scancode_to_ascii_qwertz)
     | KEYBOARD_LAYOUT_QWERTY \<Rightarrow>
         (if shifted then scancode_to_ascii_qwerty_shift else scancode_to_ascii_qwerty))"

text \<open>The handler after it has read the scancode from the data port.\<close>

definition keyboard_scancode :: "u8 \<Rightarrow> keyboard \<Rightarrow> keyboard" where
  "keyboard_scancode scancode k =
     (if scancode AND 0x80 \<noteq> 0 then
        let released = scancode AND 0x7F in
        if released = 0x2A \<or> released = 0x36 then k\<lparr>shift_pressed := False\<rparr>
        else if released = 0x1D then k\<lparr>ctrl_pressed := False\<rparr>
        else if released = 0x38 then k\<lparr>alt_pressed := False\<rparr>
        else k
      else if scancode = 0x2A \<or> scancode = 0x36 then k\<lparr>shift_pressed := True\<rparr>
      else if scancode = 0x1D then k\<lparr>ctrl_pressed := True\<rparr>
      else if scancode = 0x38 then k\<lparr>alt_pressed := True\<rparr>
      else if alt_pressed k \<and> 0x3B \<le> scancode \<and> scancode \<le> 0x44
      then buffer_put (KEY_F1 + (uint scancode - 0x3B)) k
      else
        let ascii = get_scancode_map (current_layout k) (shift_pressed k) ! unat scancode
        in if ascii \<noteq> 0 then buffer_put ascii k else k)"

definition keyboard_interrupt_handler ::
  "'a hardware_scheme \<times> keyboard \<Rightarrow> 'a hardware_scheme \<times> keyboard" where
  "keyboard_interrupt_handler = (\<lambda>(h, k).
     let (scancode, h') = inb 0x60 h in (h', keyboard_scancode scancode k))"

definition keyboard_irq_handler ::
  "'a hardware_scheme \<times> keyboard \<Rightarrow> 'a hardware_scheme \<times> keyboard" where
  "keyboard_irq_handler hk =
     (let (h', k') = keyboard_interrupt_handler hk in (pic_send_eoi 1 h', k'))"

definition keyboard_init :: "keyboard \<Rightarrow> keyboard" where
  "keyboard_init k = k\<lparr>shift_pressed := False, ctrl_pressed := False, alt_pressed := False,
     current_layout := KEYBOARD_LAYOUT_QWERTY, buffer_read_pos := 0, buffer_write_pos := 0\<rparr>"

definition keyboard_haskey :: "keyboard \<Rightarrow> bool" where
  "keyboard_haskey k \<longleftrightarrow> \<not> buffer_is_empty k"

definition keyboard_getchar :: "keyboard \<Rightarrow> int \<times> keyboard" where
  "keyboard_getchar k = buffer_get k"

definition keyboard_set_layout :: "keyboard_layout \<Rightarrow> keyboard \<Rightarrow> keyboard" where
  "keyboard_set_layout layout k = k\<lparr>current_layout := layout\<rparr>"

definition keyboard_get_layout :: "keyboard \<Rightarrow> keyboard_layout" where
  "keyboard_get_layout k = current_layout k"

section \<open>Reading a line\<close>

text \<open>
  While the buffer is empty the reader halts until an interrupt. The interrupts to come are the
  argument \<open>env\<close>, the scancodes the keyboard controller will deliver, one per interrupt, each taken
  by \<open>keyboard_irq_handler\<close>; a reader that is still waiting when there are no more never returns
  (\<open>None\<close>). The state is the machine (memory and screen) and the driver.
\<close>

partial_function (option) getline_loop ::
  "u32 \<Rightarrow> int \<Rightarrow> int \<Rightarrow> u8 list \<Rightarrow> 'a machine_scheme \<Rightarrow> keyboard \<Rightarrow>
     (int \<times> 'a machine_scheme \<times> keyboard \<times> u8 list) option" where
  "getline_loop buf max_len pos env s k =
     (if \<not> keyboard_haskey k then
        (case env of
           [] \<Rightarrow> None
         | sc # env' \<Rightarrow> getline_loop buf max_len pos env'
             (on_hw (\<lambda>h. pic_send_eoi 1 (snd (inb 0x60 h))) s) (keyboard_scancode sc k))
      else
        let (c, k') = keyboard_getchar k in
        if c = 10 \<or> c = 13 then
          Some (pos, printk ''\<newline>'' [] (s\<lparr>mem := wr8 (mem s) (unat buf + nat pos) 0\<rparr>), k', env)
        else if c = 8 \<or> c = 0x7F then
          (if 0 < pos
           then getline_loop buf max_len (pos - 1) env (printk [CHR 0x08, CHR '' '', CHR 0x08] [] s) k'
           else getline_loop buf max_len pos env s k')
        else if 32 \<le> c \<and> c < 127 then
          (if pos < max_len - 1
           then getline_loop buf max_len (pos + 1) env
                  (printk ''%c'' [KChar (word_of_int c)]
                    (s\<lparr>mem := wr8 (mem s) (unat buf + nat pos) (word_of_int c)\<rparr>)) k'
           else getline_loop buf max_len pos env s k')
        else getline_loop buf max_len pos env s k')"

definition keyboard_getline ::
  "u32 \<Rightarrow> int \<Rightarrow> u8 list \<Rightarrow> 'a machine_scheme \<Rightarrow> keyboard \<Rightarrow>
     (int \<times> 'a machine_scheme \<times> keyboard \<times> u8 list) option" where
  "keyboard_getline buf max_len env s k =
     (if buf = 0 \<or> max_len \<le> 0 then Some (-1, s, k, env)
      else getline_loop buf max_len 0 env s k)"

section \<open>What the driver should do\<close>

text \<open>The key a scancode gives, from the layout and the modifiers that are down.\<close>

definition is_modifier :: "u8 \<Rightarrow> bool" where
  "is_modifier sc \<longleftrightarrow> sc \<in> {0x2A, 0x36, 0x1D, 0x38}"

definition key_spec :: "keyboard_layout \<Rightarrow> bool \<Rightarrow> bool \<Rightarrow> u8 \<Rightarrow> int list" where
  "key_spec layout shifted alt sc =
     (if 128 \<le> unat sc \<or> is_modifier sc then []
      else if alt \<and> unat sc \<in> {0x3B .. 0x44} then [0x80 + int (unat sc) - 0x3B]
      else filter (\<lambda>c. c \<noteq> 0) [get_scancode_map layout shifted ! unat sc])"

text \<open>A modifier is down after its make code and up after its break code.\<close>

definition held :: "u8 set \<Rightarrow> bool \<Rightarrow> u8 \<Rightarrow> bool" where
  "held codes down sc =
     (if sc \<in> codes then True else if sc - 0x80 \<in> codes \<and> 128 \<le> unat sc then False else down)"

fun decode :: "keyboard_layout \<Rightarrow> bool \<Rightarrow> bool \<Rightarrow> u8 list \<Rightarrow> int list" where
  "decode layout shifted alt [] = []"
| "decode layout shifted alt (sc # scs) = key_spec layout shifted alt sc
     @ decode layout (held {0x2A, 0x36} shifted sc) (held {0x38} alt sc) scs"

abbreviation keys :: "keyboard \<Rightarrow> u8 list \<Rightarrow> int list" where
  "keys k \<equiv> decode (current_layout k) (shift_pressed k) (alt_pressed k)"

text \<open>The contents of the ring buffer and its invariant.\<close>

definition ring_ok :: "keyboard \<Rightarrow> bool" where
  "ring_ok k \<longleftrightarrow> length (keyboard_buffer k) = KEYBOARD_BUFFER_SIZE
     \<and> buffer_read_pos k < KEYBOARD_BUFFER_SIZE \<and> buffer_write_pos k < KEYBOARD_BUFFER_SIZE"

definition pending :: "keyboard \<Rightarrow> int list" where
  "pending k = ring (keyboard_buffer k) (buffer_read_pos k)
     ((buffer_write_pos k + KEYBOARD_BUFFER_SIZE - buffer_read_pos k) mod KEYBOARD_BUFFER_SIZE)"

text \<open>Interrupts and reads in any order.\<close>

datatype kb_op = Irq u8 | Read

fun kb_run :: "kb_op list \<Rightarrow> keyboard \<Rightarrow> int list \<times> keyboard" where
  "kb_run [] k = ([], k)"
| "kb_run (Irq sc # ops) k = kb_run ops (keyboard_scancode sc k)"
| "kb_run (Read # ops) k =
     (if keyboard_haskey k then
        let (c, k') = keyboard_getchar k; (cs, k'') = kb_run ops k' in (c # cs, k'')
      else kb_run ops k)"

fun scancodes :: "kb_op list \<Rightarrow> u8 list" where
  "scancodes [] = []"
| "scancodes (Irq sc # ops) = sc # scancodes ops"
| "scancodes (Read # ops) = scancodes ops"

text \<open>The buffer is not full at any interrupt of the sequence.\<close>

fun kb_room :: "kb_op list \<Rightarrow> keyboard \<Rightarrow> bool" where
  "kb_room [] k \<longleftrightarrow> True"
| "kb_room (Irq sc # ops) k \<longleftrightarrow> \<not> buffer_is_full k \<and> kb_room ops (keyboard_scancode sc k)"
| "kb_room (Read # ops) k \<longleftrightarrow>
     kb_room ops (if keyboard_haskey k then snd (keyboard_getchar k) else k)"

text \<open>The line a sequence of keys makes, and the keys left over; \<open>None\<close> without an Enter.\<close>

fun line_edit :: "nat \<Rightarrow> int list \<Rightarrow> int list \<Rightarrow> (int list \<times> int list) option" where
  "line_edit lim line [] = None"
| "line_edit lim line (c # cs) =
     (if c = 10 \<or> c = 13 then Some (line, cs)
      else if c = 8 \<or> c = 127 then line_edit lim (butlast line) cs
      else if 32 \<le> c \<and> c < 127 \<and> length line + 1 < lim then line_edit lim (line @ [c]) cs
      else line_edit lim line cs)"

section \<open>Lemmas\<close>

lemma ring_distance:
  fixes r w :: nat
  assumes "r < 256" "w < 256"
  shows "(r + (w + 256 - r) mod 256) mod 256 = w" "(w + 256 - r) mod 256 = 0 \<longleftrightarrow> r = w"
    "(w + 1) mod 256 = r \<longleftrightarrow> (w + 256 - r) mod 256 = 255"
    "(w + 1) mod 256 \<noteq> r \<Longrightarrow> ((w + 1) mod 256 + 256 - r) mod 256 = Suc ((w + 256 - r) mod 256)"
    "r \<noteq> w \<Longrightarrow> (w + 256 - r) mod 256 = Suc ((w + 256 - (r + 1) mod 256) mod 256)"
  using assms by (cases "r \<le> w"; auto simp: mod_if)+

lemma buffer_put_law:
  assumes "ring_ok k"
  shows "ring_ok (buffer_put c k)"
    "pending (buffer_put c k) = (if length (pending k) < 255 then pending k @ [c] else pending k)"
proof -
  note d = ring_distance [of "buffer_read_pos k" "buffer_write_pos k"]
  have ok: "length (keyboard_buffer k) = 256" "buffer_read_pos k < 256" "buffer_write_pos k < 256"
    using assms by (auto simp: ring_ok_def)
  then show "ring_ok (buffer_put c k)" by (auto simp: ring_ok_def buffer_put_def)
  define n where "n = (buffer_write_pos k + 256 - buffer_read_pos k) mod 256"
  have "n < 256" by (simp add: n_def)
  with ok d ring_put [of n "keyboard_buffer k" "buffer_read_pos k" c]
  show "pending (buffer_put c k) = (if length (pending k) < 255 then pending k @ [c] else pending k)"
    by (auto simp: buffer_put_def buffer_is_full_def pending_def n_def [symmetric])
qed

lemma buffer_is_empty_pending: "ring_ok k \<Longrightarrow> buffer_is_empty k \<longleftrightarrow> pending k = []"
  using ring_distance(2) [of "buffer_read_pos k" "buffer_write_pos k"]
  by (auto simp: ring_ok_def buffer_is_empty_def pending_def simp flip: length_0_conv)

lemma buffer_is_full_pending: "ring_ok k \<Longrightarrow> buffer_is_full k \<longleftrightarrow> length (pending k) = 255"
  using ring_distance(3) [of "buffer_read_pos k" "buffer_write_pos k"]
  by (auto simp: ring_ok_def buffer_is_full_def pending_def)

lemma buffer_get_law:
  assumes "ring_ok k" "pending k \<noteq> []"
  shows "ring_ok (snd (buffer_get k))" "fst (buffer_get k) = hd (pending k)"
    "pending (snd (buffer_get k)) = tl (pending k)"
proof -
  have ok: "length (keyboard_buffer k) = 256" "buffer_read_pos k < 256" "buffer_write_pos k < 256"
    using assms by (auto simp: ring_ok_def)
  have ne: "buffer_read_pos k \<noteq> buffer_write_pos k"
    using buffer_is_empty_pending [OF assms(1)] assms(2) by (auto simp: buffer_is_empty_def)
  define n where "n = (buffer_write_pos k + 256 - (buffer_read_pos k + 1) mod 256) mod 256"
  have "pending k = keyboard_buffer k ! buffer_read_pos k
      # ring (keyboard_buffer k) ((buffer_read_pos k + 1) mod 256) n"
    using ring_get [of "buffer_read_pos k" "keyboard_buffer k" n] ok
      ring_distance(5) [OF ok(2,3) ne] by (simp add: pending_def n_def)
  with ok ne show "ring_ok (snd (buffer_get k))" "fst (buffer_get k) = hd (pending k)"
    "pending (snd (buffer_get k)) = tl (pending k)"
    by (auto simp: ring_ok_def buffer_get_def buffer_is_empty_def)
       (simp add: pending_def n_def)
qed

interpretation kbq: bounded_queue buffer_put buffer_get buffer_is_empty ring_ok pending 255
proof unfold_locales
  show "length (pending k) \<le> 255" if "ring_ok k" for k
    using that by (auto simp: pending_def)
qed (simp_all add: buffer_put_law buffer_get_law buffer_is_empty_pending)

lemma break_code: "sc AND 0x80 \<noteq> 0 \<longleftrightarrow> 128 \<le> unat (sc :: u8)"
proof -
  have "(0x80 :: u8) = 2 ^ 7" by simp
  then have "sc AND 0x80 \<noteq> 0 \<longleftrightarrow> bit sc 7"
    by (metis and_exp_eq_0_iff_not_bit)
  also have "\<dots> \<longleftrightarrow> bit (unat sc) 7" by (simp add: bit_simps)
  also have "\<dots> \<longleftrightarrow> 128 \<le> unat sc"
  proof -
    have "unat sc div 128 < 2" using unsigned_less [of sc, where ?'a = nat] by simp
    then have "odd (unat sc div 128) \<longleftrightarrow> unat sc div 128 = 1" by (auto simp: less_2_cases_iff)
    also have "\<dots> \<longleftrightarrow> 128 \<le> unat sc" using \<open>unat sc div 128 < 2\<close> by auto
    finally show ?thesis by (simp add: bit_iff_odd)
  qed
  finally show ?thesis .
qed

lemma break_code_key: "128 \<le> unat sc \<Longrightarrow> sc AND 0x7F = (sc - 0x80 :: u8)"
proof -
  assume *: "128 \<le> unat sc"
  have m: "(0x7F :: u8) = mask 7" by (simp add: mask_eq_exp_minus_1)
  have "unat (sc AND 0x7F) = unat sc mod 128"
    unfolding m take_bit_eq_mask [symmetric] by (simp add: unat_take_bit)
  also have "\<dots> = unat sc - 128"
    using * unsigned_less [of sc, where ?'a = nat] by (simp add: mod_if)
  also have "\<dots> = unat (sc - 0x80)" using * by (simp add: unat_sub word_le_nat_alt)
  finally show ?thesis by (simp add: word_unat_eq_iff)
qed

lemma scancode_modifiers:
  "shift_pressed (keyboard_scancode sc k) = held {0x2A, 0x36} (shift_pressed k) sc"
  "alt_pressed (keyboard_scancode sc k) = held {0x38} (alt_pressed k) sc"
  "current_layout (keyboard_scancode sc k) = current_layout k"
  by (auto simp: keyboard_scancode_def Let_def buffer_put_def held_def break_code break_code_key)

lemma scancode_pending:
  assumes "ring_ok k"
  shows "ring_ok (keyboard_scancode sc k)"
    "pending (keyboard_scancode sc k) = (if length (pending k) < 255
       then pending k @ key_spec (current_layout k) (shift_pressed k) (alt_pressed k) sc
       else pending k)"
proof -
  have upd: "ring_ok (k\<lparr>shift_pressed := b\<rparr>) = ring_ok k" "ring_ok (k\<lparr>ctrl_pressed := b\<rparr>) = ring_ok k"
    "ring_ok (k\<lparr>alt_pressed := b\<rparr>) = ring_ok k" "pending (k\<lparr>shift_pressed := b\<rparr>) = pending k"
    "pending (k\<lparr>ctrl_pressed := b\<rparr>) = pending k" "pending (k\<lparr>alt_pressed := b\<rparr>) = pending k" for b
    by (simp_all add: ring_ok_def pending_def)
  have fkey: "0x3B \<le> sc \<and> sc \<le> 0x44 \<longleftrightarrow> unat sc \<in> {0x3B .. 0x44}"
    "uint sc = int (unat sc)"
    by (auto simp: word_le_nat_alt)
  show "ring_ok (keyboard_scancode sc k)"
    using assms by (auto simp: keyboard_scancode_def Let_def upd buffer_put_law)
  show "pending (keyboard_scancode sc k) = (if length (pending k) < 255
       then pending k @ key_spec (current_layout k) (shift_pressed k) (alt_pressed k) sc
       else pending k)"
    using assms unfolding keyboard_scancode_def fkey break_code
    by (auto simp: Let_def upd buffer_put_law key_spec_def is_modifier_def)
qed

lemma getchar_modifiers:
  "shift_pressed (snd (buffer_get k)) = shift_pressed k" "alt_pressed (snd (buffer_get k)) = alt_pressed k"
  "current_layout (snd (buffer_get k)) = current_layout k"
  by (auto simp: buffer_get_def)

lemma key_spec_length: "length (key_spec l sh al sc) \<le> 1"
  by (simp add: key_spec_def)

lemma getchar_step:
  assumes "ring_ok k" "pending k = c # cs"
  obtains k' where "keyboard_haskey k" "keyboard_getchar k = (c, k')" "ring_ok k'" "pending k' = cs"
    "\<And>scs. keys k' scs = keys k scs"
proof -
  from assms have "pending k \<noteq> []" by simp
  from buffer_get_law [OF assms(1) this] assms that [of "snd (buffer_get k)"] show thesis
    by (cases "buffer_get k")
      (auto simp: keyboard_haskey_def keyboard_getchar_def buffer_is_empty_pending
        getchar_modifiers [of k, symmetric])
qed

lemma haskey_pending: "ring_ok k \<Longrightarrow> keyboard_haskey k \<longleftrightarrow> pending k \<noteq> []"
  by (simp add: keyboard_haskey_def buffer_is_empty_pending)

lemma scancode_step:
  assumes "ring_ok k" "length (pending k) < 255"
  shows "pending (keyboard_scancode sc k) @ keys (keyboard_scancode sc k) scs =
    pending k @ keys k (sc # scs)"
  using assms by (simp add: scancode_pending scancode_modifiers)

text \<open>
  The keyboard buffer is a FIFO of capacity 255: putting appends a key, or drops it when 255
  are pending; getting returns the oldest key, or 0 when there is none; the indices stay in the
  array.
\<close>

theorem keyboard_buffer_fifo:
  assumes "ring_ok k"
  shows "ring_ok (buffer_put c k)
    \<and> pending (buffer_put c k) = (if length (pending k) < 255 then pending k @ [c] else pending k)
    \<and> ring_ok (snd (buffer_get k))
    \<and> fst (buffer_get k) = (case pending k of [] \<Rightarrow> 0 | x # xs \<Rightarrow> x)
    \<and> pending (snd (buffer_get k)) = tl (pending k)"
proof (cases "pending k")
  case Nil
  with assms buffer_is_empty_pending [OF assms] show ?thesis
    by (simp add: kbq.put_law buffer_get_def)
next
  case (Cons x xs)
  with assms kbq.get_law [of k] show ?thesis by (simp add: kbq.put_law)
qed

lemma keyboard_boot_ok: "ring_ok keyboard_boot" "pending keyboard_boot = []"
  by (simp_all add: ring_ok_def pending_def keyboard_boot_def)

theorem keyboard_buffer_fifo_witness:
  "pending (buffer_put 97 keyboard_boot) = [97]
     \<and> fst (buffer_get (buffer_put 97 keyboard_boot)) = 97"
  using keyboard_buffer_fifo [OF keyboard_boot_ok(1), of 97]
    keyboard_buffer_fifo [of "buffer_put 97 keyboard_boot" 0]
  by (simp add: keyboard_boot_ok)

text \<open>
  C16. Keys arrive in order: for every interleaving of keyboard interrupts and reads in which the
  buffer is not full when a scancode arrives, the keys read followed by the keys still pending are
  the keys that were pending followed by the decoding of the scancodes (layout tables, Shift and Alt
  held or not, function keys under Alt, break codes and modifiers silent). None is lost,
  duplicated or reordered.
\<close>

theorem keyboard_stream:
  assumes "ring_ok k" "kb_room ops k"
  shows "ring_ok (snd (kb_run ops k))
    \<and> fst (kb_run ops k) @ pending (snd (kb_run ops k)) = pending k @ keys k (scancodes ops)"
  using assms
proof (induction ops arbitrary: k)
  case (Cons op ops)
  show ?case
  proof (cases op)
    case (Irq sc)
    with Cons.prems have "length (pending k) < 255"
      using kbq.cap_law [of k] buffer_is_full_pending [of k] by auto
    with Irq Cons.prems Cons.IH [of "keyboard_scancode sc k"] scancode_step [of k sc "scancodes ops"]
    show ?thesis by (simp add: scancode_pending)
  next
    case Read
    show ?thesis
    proof (cases "pending k")
      case Nil
      with Read Cons show ?thesis by (simp add: haskey_pending)
    next
      case (Cons c cs)
      obtain k' where k': "keyboard_haskey k" "keyboard_getchar k = (c, k')" "ring_ok k'"
          "pending k' = cs" "\<And>scs. keys k' scs = keys k scs"
        using getchar_step [OF Cons.prems(1) Cons] by blast
      with Read Cons Cons.prems Cons.IH [of k'] show ?thesis by (auto split: prod.splits)
    qed
  qed
qed simp

theorem keyboard_stream_witness:
  "fst (kb_run [Irq 0x2A, Irq 0x1E, Irq 0xAA, Irq 0x1E, Read, Read] keyboard_boot) = [65, 97]"
proof -
  have room: "kb_room [Irq 0x2A, Irq 0x1E, Irq 0xAA, Irq 0x1E, Read, Read] keyboard_boot"
    by code_simp
  from keyboard_stream [OF keyboard_boot_ok(1) room] show ?thesis by code_simp
qed

text \<open>The memory holds the line typed so far, and nothing outside the buffer has changed.\<close>

definition line_in :: "memory \<Rightarrow> memory \<Rightarrow> u32 \<Rightarrow> nat \<Rightarrow> int list \<Rightarrow> bool" where
  "line_in m0 m buf lim line \<longleftrightarrow> length line < lim
     \<and> (\<forall>i < length line. m (unat buf + i) = word_of_int (line ! i))
     \<and> (\<forall>x. x < unat buf \<or> unat buf + lim \<le> x \<longrightarrow> m x = m0 x)"

lemma line_in_snoc:
  "line_in m0 m buf lim line \<Longrightarrow> length line + 1 < lim \<Longrightarrow>
     line_in m0 (wr8 m (unat buf + length line) (word_of_int c)) buf lim (line @ [c])"
  by (auto simp: line_in_def nth_append wr8_apply [of m _ _ "unat buf + i" for i])

lemma line_in_butlast: "line_in m0 m buf lim line \<Longrightarrow> line_in m0 m buf lim (butlast line)"
  by (auto simp: line_in_def nth_butlast)

text \<open>One turn of the loop with a key \<open>c\<close> taken out of the buffer.\<close>

definition getline_act where
  "getline_act buf max_len pos env s k c =
     (if c = 10 \<or> c = 13 then
        Some (pos, printk ''\<newline>'' [] (s\<lparr>mem := wr8 (mem s) (unat buf + nat pos) 0\<rparr>), k, env)
      else if c = 8 \<or> c = 0x7F then
        (if 0 < pos
         then getline_loop buf max_len (pos - 1) env (printk [CHR 0x08, CHR '' '', CHR 0x08] [] s) k
         else getline_loop buf max_len pos env s k)
      else if 32 \<le> c \<and> c < 127 \<and> pos < max_len - 1 then
        getline_loop buf max_len (pos + 1) env
          (printk ''%c'' [KChar (word_of_int c)]
            (s\<lparr>mem := wr8 (mem s) (unat buf + nat pos) (word_of_int c)\<rparr>)) k
      else getline_loop buf max_len pos env s k)"

lemma getline_haskey:
  assumes "keyboard_haskey k" "keyboard_getchar k = (c, k')"
  shows "getline_loop buf max_len pos env s k = getline_act buf max_len pos env s k' c"
  by (subst getline_loop.simps) (simp add: getline_act_def assms)

text \<open>What the loop must achieve from a line typed so far.\<close>

definition getline_post where
  "getline_post m0 buf lim res line rest \<longleftrightarrow> (case res of
      None \<Rightarrow> False
    | Some (r, s', k', env') \<Rightarrow> r = int (length line) \<and> ring_ok k'
        \<and> pending k' @ keys k' env' = rest
        \<and> line_in m0 (mem s') buf lim line \<and> mem s' (unat buf + length line) = 0)"

lemma getline_loop_spec:
  fixes s :: "'a machine_scheme"
  assumes "ring_ok k" "line_in m0 (mem s) buf lim line" "0 < lim"
  shows "case line_edit lim line (pending k @ keys k env) of
      None \<Rightarrow> getline_loop buf (int lim) (int (length line)) env s k = None
    | Some (line', rest) \<Rightarrow>
        getline_post m0 buf lim (getline_loop buf (int lim) (int (length line)) env s k) line' rest"
  using assms(1,2)
proof (induction "2 * length env + length (pending k)" arbitrary: env k s line rule: less_induct)
  case less
  show ?case
  proof (cases "pending k")
    case Nil
    then have "\<not> keyboard_haskey k" using less.prems(1) by (simp add: haskey_pending)
    show ?thesis
    proof (cases env)
      case Nil
      with \<open>pending k = []\<close> \<open>\<not> keyboard_haskey k\<close> show ?thesis
        by (simp add: getline_loop.simps)
    next
      case (Cons sc env')
      define k2 where "k2 = keyboard_scancode sc k"
      define s2 where "s2 = on_hw (\<lambda>h. pic_send_eoi 1 (snd (inb 0x60 h))) s"
      have k2: "ring_ok k2" "pending k2 @ keys k2 env' = pending k @ keys k env"
        "length (pending k2) \<le> 1"
        using less.prems(1) \<open>pending k = []\<close> scancode_step [of k sc env'] Cons
          key_spec_length by (auto simp: k2_def scancode_pending)
      have eq: "getline_loop buf (int lim) (int (length line)) env s k =
          getline_loop buf (int lim) (int (length line)) env' s2 k2"
        using \<open>\<not> keyboard_haskey k\<close> Cons
        by (subst getline_loop.simps) (simp add: s2_def k2_def)
      have "mem s2 = mem s" by (simp add: s2_def on_hw_def)
      with less.prems(2) have "line_in m0 (mem s2) buf lim line" by simp
      moreover have "2 * length env' + length (pending k2) < 2 * length env + length (pending k)"
        using k2(3) Cons by simp
      ultimately show ?thesis
        using less.hyps [of env' k2 s2 line] k2(1) unfolding eq k2(2) by blast
    qed
  next
    case (Cons c cs)
    from getchar_step [OF less.prems(1) Cons] obtain k'
      where g: "keyboard_haskey k" "keyboard_getchar k = (c, k')"
      and k': "ring_ok k'" "pending k' = cs" "\<And>scs. keys k' scs = keys k scs" by blast
    note step = getline_haskey [OF g] getline_act_def
    have IH: "case line_edit lim line1 (cs @ keys k env) of
        None \<Rightarrow> getline_loop buf (int lim) (int (length line1)) env s1 k' = None
      | Some (line', rest) \<Rightarrow>
          getline_post m0 buf lim (getline_loop buf (int lim) (int (length line1)) env s1 k') line' rest"
      if "line_in m0 (mem s1) buf lim line1" for s1 :: "'a machine_scheme" and line1
      using less.hyps [of env k' s1 line1] Cons k' that by simp
    consider "c = 10 \<or> c = 13" | "c = 8 \<or> c = 127" | "32 \<le> c \<and> c < 127 \<and> length line + 1 < lim"
      | "c \<noteq> 10 \<and> c \<noteq> 13 \<and> c \<noteq> 8 \<and> c \<noteq> 127 \<and> \<not> (32 \<le> c \<and> c < 127 \<and> length line + 1 < lim)"
      by blast
    then show ?thesis
    proof cases
      case 1
      then have "line_edit lim line (pending k @ keys k env) = Some (line, cs @ keys k env)"
        by (auto simp: Cons)
      moreover from 1 less.prems(2) assms(3) k' have "getline_post m0 buf lim
          (getline_loop buf (int lim) (int (length line)) env s k) line (cs @ keys k env)"
        by (simp add: step getline_post_def line_in_def)
      ultimately show ?thesis by simp
    next
      case 2
      define s1 where "s1 = (if line = [] then s else printk [CHR 0x08, CHR '' '', CHR 0x08] [] s)"
      have "getline_loop buf (int lim) (int (length line)) env s k =
          getline_loop buf (int lim) (int (length (butlast line))) env s1 k'"
        using 2 by (cases "line = []") (auto simp: step s1_def of_nat_diff Suc_leI)
      moreover have "line_edit lim line (pending k @ keys k env) =
          line_edit lim (butlast line) (cs @ keys k env)"
        using 2 by (auto simp: Cons)
      moreover have "line_in m0 (mem s1) buf lim (butlast line)"
        using line_in_butlast [OF less.prems(2)] by (auto simp: s1_def)
      ultimately show ?thesis using IH by metis
    next
      case 3
      define s1 where "s1 = printk ''%c'' [KChar (word_of_int c)]
        (s\<lparr>mem := wr8 (mem s) (unat buf + length line) (word_of_int c)\<rparr>)"
      have "getline_loop buf (int lim) (int (length line)) env s k =
          getline_loop buf (int lim) (int (length (line @ [c]))) env s1 k'"
        using 3 by (auto simp: step s1_def add.commute)
      moreover have "line_edit lim line (pending k @ keys k env) =
          line_edit lim (line @ [c]) (cs @ keys k env)"
        using 3 by (auto simp: Cons)
      moreover have "line_in m0 (mem s1) buf lim (line @ [c])"
        using line_in_snoc [OF less.prems(2)] 3 by (simp add: s1_def)
      ultimately show ?thesis using IH by metis
    next
      case 4
      then have "getline_loop buf (int lim) (int (length line)) env s k =
          getline_loop buf (int lim) (int (length line)) env s k'"
        by (auto simp: step)
      moreover have "line_edit lim line (pending k @ keys k env) = line_edit lim line (cs @ keys k env)"
        using 4 by (auto simp: Cons)
      ultimately show ?thesis using IH [OF less.prems(2)] by metis
    qed
  qed
qed

text \<open>
  C17. Reading a line: with a buffer of \<open>max_len\<close> bytes, \<open>keyboard_getline\<close> returns exactly when the
  pending keys and the keys still to be typed contain an Enter after line editing; then the buffer
  holds the edited line (at most \<open>max_len - 1\<close> characters) and a final NUL, no byte outside the
  buffer has changed, the result is the length of the line, and the keys after the Enter are left
  for the next reader. Without an Enter it waits forever.
\<close>

theorem keyboard_getline_correct:
  fixes s :: "'a machine_scheme"
  assumes "ring_ok k" "buf \<noteq> 0" "0 < lim"
  shows "case line_edit lim [] (pending k @ keys k env) of
      None \<Rightarrow> keyboard_getline buf (int lim) env s k = None
    | Some (line, rest) \<Rightarrow> (\<exists>s' k' env'.
        keyboard_getline buf (int lim) env s k = Some (int (length line), s', k', env')
        \<and> length line < lim \<and> (\<forall>i < length line. mem s' (unat buf + i) = word_of_int (line ! i))
        \<and> mem s' (unat buf + length line) = 0
        \<and> (\<forall>x. x < unat buf \<or> unat buf + lim \<le> x \<longrightarrow> mem s' x = mem s x)
        \<and> ring_ok k' \<and> pending k' @ keys k' env' = rest)"
proof -
  have "line_in (mem s) (mem s) buf lim []" using assms(3) by (simp add: line_in_def)
  from getline_loop_spec [OF assms(1) this assms(3), of env] assms(2,3) show ?thesis
    by (auto simp: keyboard_getline_def getline_post_def line_in_def split: option.splits)
qed

theorem keyboard_getline_correct_witness:
  "\<exists>s' k' env'. keyboard_getline 0x1000 80 [0x23, 0x17, 0x1C]
       \<lparr>mem = (\<lambda>_. 0), hw = power_on\<rparr> keyboard_boot = Some (2, s', k', env')
     \<and> mem s' 0x1000 = 104 \<and> mem s' 0x1001 = 105 \<and> mem s' 0x1002 = 0"
proof -
  have "line_edit 80 [] (pending keyboard_boot @ keys keyboard_boot [0x23, 0x17, 0x1C]) =
      Some ([104, 105], [])"
    unfolding keyboard_boot_ok(2) by code_simp
  with keyboard_getline_correct [OF keyboard_boot_ok(1), of "0x1000" 80 "[0x23, 0x17, 0x1C]"
      "\<lparr>mem = (\<lambda>_. 0), hw = power_on\<rparr>"]
  show ?thesis by (auto simp: All_less_Suc)
qed

end
