(* ===== verification/KFS_Interrupt.thy ===== *)
theory KFS_Interrupt
  imports KFS_Socket KFS_Keyboard
begin

text \<open>
  Interrupts: the descriptor table and the C dispatcher (\<open>src/idt.c\<close>, \<open>include/idt.h\<close>), and the
  assembly stubs that connect them to the processor (\<open>src/interrupt.s\<close>). The processor's registers
  are a record, its stack is in memory, and the interrupt frame the C code sees is the memory at the
  stack pointer the stub passes. Function pointers in the handler table are the constructors of
  \<open>irq_handler\<close>, one per function the kernel registers; what they run is the argument \<open>call\<close> of the
  dispatcher. The lemmas show that the gates hold the addresses they were given, that an interrupt
  whose handler leaves the saved registers alone is invisible to the interrupted code, and that the
  frame layout of \<open>idt.h\<close> is not the order in which the stub pushes.
\<close>

section \<open>The processor\<close>

record cpu =
  r_eax :: u32
  r_ebx :: u32
  r_ecx :: u32
  r_edx :: u32
  r_esi :: u32
  r_edi :: u32
  r_ebp :: u32
  r_esp :: u32
  r_eip :: u32
  r_eflags :: u32
  r_cs :: u32
  r_ds :: u32
  r_es :: u32
  r_fs :: u32
  r_gs :: u32

record idt_entry =
  offset_low :: u16
  selector :: u16
  idt_zero :: u8
  type_attr :: u8
  offset_high :: u16

datatype irq_handler = Timer_irq_handler | Keyboard_irq_handler | Mouse_handler | Syscall_dispatcher

record interrupts = sockets +
  regs :: cpu
  cr2 :: u32
  idt_entries :: "idt_entry list"
  idt_limit :: u16
  idt_base :: u32
  interrupt_handlers :: "irq_handler option list"

abbreviation (input) IDT_ENTRIES :: nat where "IDT_ENTRIES \<equiv> 256"
abbreviation (input) IDT_PRESENT :: u8 where "IDT_PRESENT \<equiv> 0x80"
abbreviation (input) IDT_RING0 :: u8 where "IDT_RING0 \<equiv> 0x00"
abbreviation (input) IDT_RING3 :: u8 where "IDT_RING3 \<equiv> 0x60"
abbreviation (input) IDT_INTERRUPT :: u8 where "IDT_INTERRUPT \<equiv> 0x0E"
abbreviation (input) EXC_PAGE_FAULT :: u32 where "EXC_PAGE_FAULT \<equiv> 0x0E"
abbreviation (input) IRQ0 :: u8 where "IRQ0 \<equiv> 0x20"
abbreviation (input) IRQ1 :: u8 where "IRQ1 \<equiv> 0x21"
abbreviation (input) IRQ12 :: u8 where "IRQ12 \<equiv> 0x2C"
abbreviation (input) INT_SYSCALL :: u8 where "INT_SYSCALL \<equiv> 0x80"

definition idt_entry_zero :: idt_entry where
  "idt_entry_zero = \<lparr>offset_low = 0, selector = 0, idt_zero = 0, type_attr = 0, offset_high = 0\<rparr>"

text \<open>The statics before anything runs, on a processor with given registers.\<close>

definition interrupts_boot :: "cpu \<Rightarrow> sockets \<Rightarrow> interrupts" where
  "interrupts_boot c s = sockets.extend s (interrupts.fields c 0 (replicate IDT_ENTRIES idt_entry_zero) 0 0
     (replicate IDT_ENTRIES None))"

section \<open>The descriptor table\<close>

definition idt_set_gate :: "u8 \<Rightarrow> u32 \<Rightarrow> u16 \<Rightarrow> u8 \<Rightarrow> 'a interrupts_scheme \<Rightarrow> 'a interrupts_scheme" where
  "idt_set_gate num handler sel flags s = s\<lparr>idt_entries := (idt_entries s)[unat num :=
     \<lparr>offset_low = ucast (handler AND 0xFFFF), selector = sel, idt_zero = 0, type_attr = flags OR IDT_PRESENT,
      offset_high = ucast (drop_bit 16 handler AND 0xFFFF)\<rparr>]\<rparr>"

definition idt_register_handler :: "u8 \<Rightarrow> irq_handler \<Rightarrow> 'a interrupts_scheme \<Rightarrow> 'a interrupts_scheme" where
  "idt_register_handler num handler s =
     s\<lparr>interrupt_handlers := (interrupt_handlers s)[unat num := Some handler]\<rparr>"

definition idt_unregister_handler :: "u8 \<Rightarrow> 'a interrupts_scheme \<Rightarrow> 'a interrupts_scheme" where
  "idt_unregister_handler num s =
     s\<lparr>interrupt_handlers := (interrupt_handlers s)[unat num := None]\<rparr>"

definition interrupts_enable :: "'a interrupts_scheme \<Rightarrow> 'a interrupts_scheme" where
  "interrupts_enable s = s\<lparr>regs := (regs s)\<lparr>r_eflags := r_eflags (regs s) OR 0x200\<rparr>\<rparr>"

definition interrupts_disable :: "'a interrupts_scheme \<Rightarrow> 'a interrupts_scheme" where
  "interrupts_disable s = s\<lparr>regs := (regs s)\<lparr>r_eflags := r_eflags (regs s) AND NOT 0x200\<rparr>\<rparr>"

definition interrupts_enabled :: "'a interrupts_scheme \<Rightarrow> bool" where
  "interrupts_enabled s \<longleftrightarrow> r_eflags (regs s) AND 0x200 \<noteq> 0"

text \<open>
  Initialisation. \<open>isr n\<close> and \<open>irq n\<close> are the addresses of the assembly stubs and \<open>table\<close> that of
  \<open>idt_entries\<close>; the linker chooses them. The limit is \<open>8 * 256 - 1\<close>.
\<close>

definition idt_init ::
  "(nat \<Rightarrow> u32) \<Rightarrow> (nat \<Rightarrow> u32) \<Rightarrow> u32 \<Rightarrow> 'a interrupts_scheme \<Rightarrow> 'a interrupts_scheme" where
  "idt_init isr irq table s =
     (let s1 = s\<lparr>idt_limit := 2047, idt_base := table, idt_entries := replicate IDT_ENTRIES idt_entry_zero,
                 interrupt_handlers := replicate IDT_ENTRIES None\<rparr>;
          s2 = on_hw pic_init s1;
          s3 = fold (\<lambda>n. idt_set_gate (of_nat n) (isr n) 0x08 (IDT_INTERRUPT OR IDT_RING0)) [0..<20] s2;
          s4 = fold (\<lambda>n. idt_set_gate (of_nat (32 + n)) (irq n) 0x08 (IDT_INTERRUPT OR IDT_RING0)) [0..<16] s3;
          s5 = idt_set_gate 128 (isr 128) 0x08 (IDT_INTERRUPT OR IDT_RING3) s4
      in on_hw pic_disable_all s5)"

definition gate_offset :: "idt_entry \<Rightarrow> u32" where
  "gate_offset e = ucast (offset_low e) OR push_bit 16 (ucast (offset_high e))"

section \<open>The interrupt frame\<close>

text \<open>The fields of \<open>struct interrupt_frame\<close> at their offsets from the frame pointer.\<close>

definition frame_edi :: "u32 \<Rightarrow> memory \<Rightarrow> u32" where "frame_edi fp m = rd32 m (unat fp)"
definition frame_esi :: "u32 \<Rightarrow> memory \<Rightarrow> u32" where "frame_esi fp m = rd32 m (unat fp + 4)"
definition frame_ebp :: "u32 \<Rightarrow> memory \<Rightarrow> u32" where "frame_ebp fp m = rd32 m (unat fp + 8)"
definition frame_esp :: "u32 \<Rightarrow> memory \<Rightarrow> u32" where "frame_esp fp m = rd32 m (unat fp + 12)"
definition frame_ebx :: "u32 \<Rightarrow> memory \<Rightarrow> u32" where "frame_ebx fp m = rd32 m (unat fp + 16)"
definition frame_edx :: "u32 \<Rightarrow> memory \<Rightarrow> u32" where "frame_edx fp m = rd32 m (unat fp + 20)"
definition frame_ecx :: "u32 \<Rightarrow> memory \<Rightarrow> u32" where "frame_ecx fp m = rd32 m (unat fp + 24)"
definition frame_eax :: "u32 \<Rightarrow> memory \<Rightarrow> u32" where "frame_eax fp m = rd32 m (unat fp + 28)"
definition frame_ds :: "u32 \<Rightarrow> memory \<Rightarrow> u32" where "frame_ds fp m = rd32 m (unat fp + 32)"
definition frame_es :: "u32 \<Rightarrow> memory \<Rightarrow> u32" where "frame_es fp m = rd32 m (unat fp + 36)"
definition frame_int_no :: "u32 \<Rightarrow> memory \<Rightarrow> u32" where "frame_int_no fp m = rd32 m (unat fp + 48)"
definition frame_err_code :: "u32 \<Rightarrow> memory \<Rightarrow> u32" where "frame_err_code fp m = rd32 m (unat fp + 52)"
definition frame_eip :: "u32 \<Rightarrow> memory \<Rightarrow> u32" where "frame_eip fp m = rd32 m (unat fp + 56)"
definition frame_cs :: "u32 \<Rightarrow> memory \<Rightarrow> u32" where "frame_cs fp m = rd32 m (unat fp + 60)"
definition frame_eflags :: "u32 \<Rightarrow> memory \<Rightarrow> u32" where "frame_eflags fp m = rd32 m (unat fp + 64)"
definition frame_user_ss :: "u32 \<Rightarrow> memory \<Rightarrow> u32" where "frame_user_ss fp m = rd32 m (unat fp + 72)"

definition set_frame_eax :: "u32 \<Rightarrow> u32 \<Rightarrow> memory \<Rightarrow> memory" where
  "set_frame_eax fp v m = wr32 m (unat fp + 28) v"

section \<open>The dispatcher\<close>

definition exception_messages :: "string list" where
  "exception_messages = [''Division By Zero'', ''Debug'', ''Non Maskable Interrupt'', ''Breakpoint'', ''Overflow'',
     ''Bound Range Exceeded'', ''Invalid Opcode'', ''Device Not Available'', ''Double Fault'',
     ''Coprocessor Segment Overrun'', ''Invalid TSS'', ''Segment Not Present'', ''Stack Fault'',
     ''General Protection Fault'', ''Page Fault'', ''Reserved'', ''x87 FPU Error'', ''Alignment Check'',
     ''Machine Check'', ''SIMD Floating-Point Exception'']"

text \<open>
  The report on the screen, and the halt: the machine stops for good, which a kernel result shows
  like a panic, with what is then on the screen.
\<close>

definition yes_no :: "bool \<Rightarrow> karg" where
  "yes_no b = KStr (Some (if b then ''Yes'' else ''No''))"

definition exception_report :: "u32 \<Rightarrow> 'a interrupts_scheme \<Rightarrow> 'a interrupts_scheme" where
  "exception_report fp s =
     (let m = mem s; n = frame_int_no fp m; err = frame_err_code fp m;
          s1 = on_hw (\<lambda>h. vga_set_color VGA_COLOR_LIGHT_GREY VGA_COLOR_BLACK
                 (printk_hw ''\<newline>\<newline>  *** CPU EXCEPTION ***  \<newline>\<newline>'' []
                   (vga_set_color VGA_COLOR_WHITE VGA_COLOR_RED (vga_clear h)))) (interrupts_disable s);
          s2 = (if n < 20 then printk ''Exception: %s\<newline>'' [KStr (Some (exception_messages ! unat n))] s1
                else printk ''Exception: Unknown (0x%x)\<newline>'' [KUInt n] s1);
          s3 = printk ''Register Dump:\<newline>'' [] (printk ''Error Code: 0x%x\<newline>\<newline>'' [KUInt err] s2);
          s4 = printk ''  EAX=0x%x  EBX=0x%x  ECX=0x%x  EDX=0x%x\<newline>''
                 [KUInt (frame_eax fp m), KUInt (frame_ebx fp m), KUInt (frame_ecx fp m), KUInt (frame_edx fp m)] s3;
          s5 = printk ''  ESI=0x%x  EDI=0x%x  EBP=0x%x  ESP=0x%x\<newline>''
                 [KUInt (frame_esi fp m), KUInt (frame_edi fp m), KUInt (frame_ebp fp m), KUInt (frame_esp fp m)] s4;
          s6 = printk ''  EIP=0x%x  EFLAGS=0x%x\<newline>'' [KUInt (frame_eip fp m), KUInt (frame_eflags fp m)] s5;
          s7 = printk ''  CS=0x%x  DS=0x%x  ES=0x%x  SS=0x%x\<newline>\<newline>''
                 [KUInt (frame_cs fp m), KUInt (frame_ds fp m), KUInt (frame_es fp m), KUInt (frame_user_ss fp m)] s6;
          s8 = (if n = EXC_PAGE_FAULT then
                  printk ''    Instruction Fetch: %s\<newline>\<newline>'' [yes_no (err AND 0x10 \<noteq> 0)]
                    (printk ''    Reserved: %s\<newline>'' [yes_no (err AND 0x8 \<noteq> 0)]
                    (printk ''    User: %s\<newline>'' [yes_no (err AND 0x4 \<noteq> 0)]
                    (printk ''    Write: %s\<newline>'' [yes_no (err AND 0x2 \<noteq> 0)]
                    (printk ''    Present: %s\<newline>'' [yes_no (err AND 0x1 \<noteq> 0)]
                    (printk ''  Error Code:\<newline>'' []
                    (printk ''  Faulting Address: 0x%x\<newline>'' [KUInt (cr2 s7)]
                    (printk ''Page Fault Details:\<newline>'' [] s7)))))))
                else s7)
      in printk ''System halted.\<newline>'' [] s8)"

definition screen_text :: "hardware \<Rightarrow> string" where
  "screen_text h = map (\<lambda>c. char_of (unat (c AND 0xFF))) (vram h)"

definition default_exception_handler :: "u32 \<Rightarrow> 'a interrupts_scheme \<Rightarrow> 'a interrupts_scheme kresult" where
  "default_exception_handler fp s = kernel_panic (screen_text (hw (exception_report fp s)))"

definition default_irq_handler :: "u32 \<Rightarrow> 'a interrupts_scheme \<Rightarrow> 'a interrupts_scheme" where
  "default_irq_handler fp s =
     (let n = frame_int_no fp (mem s)
      in if 32 \<le> n \<and> n \<le> 47 then on_hw (pic_send_eoi (ucast (n - 32))) s else s)"

text \<open>
  An interrupt number beyond the table would read past its end, which is undefined (\<open>None\<close>); the
  stubs only push numbers below 256.
\<close>

definition interrupt_handler_common ::
  "(irq_handler \<Rightarrow> u32 \<Rightarrow> 'a interrupts_scheme \<Rightarrow> 'a interrupts_scheme kresult) \<Rightarrow> u32 \<Rightarrow>
     'a interrupts_scheme \<Rightarrow> 'a interrupts_scheme kresult" where
  "interrupt_handler_common call fp s =
     (let n = frame_int_no fp (mem s) in
      if 256 \<le> n then None
      else case interrupt_handlers s ! unat n of
        Some f \<Rightarrow> call f fp s
      | None \<Rightarrow>
          if n < 32 then default_exception_handler fp s
          else if 32 \<le> n \<and> n \<le> 47 then kret (default_irq_handler fp s)
          else kret s)"

text \<open>The debugging output of the table.\<close>

definition print_gate :: "string \<Rightarrow> (nat \<Rightarrow> karg list) \<Rightarrow> nat \<Rightarrow> 'a interrupts_scheme \<Rightarrow> 'a interrupts_scheme" where
  "print_gate fmt args i s = (if gate_offset (idt_entries s ! i) \<noteq> 0 then printk fmt (args i) s else s)"

definition idt_print_info :: "'a interrupts_scheme \<Rightarrow> 'a interrupts_scheme" where
  "idt_print_info s =
     (let off = (\<lambda>i. KUInt (gate_offset (idt_entries s ! i)));
          s1 = printk ''Number of Entries: %d\<newline>\<newline>'' [KInt 256]
                 (printk ''IDT Limit: %d bytes\<newline>'' [KInt (uint (idt_limit s) + 1)]
                 (printk ''IDT Base Address: 0x%x\<newline>'' [KUInt (idt_base s)]
                 (printk ''\<newline>=== Interrupt Descriptor Table ===\<newline>'' [] s)));
          s2 = fold (print_gate ''  ISR %d: 0x%x - %s\<newline>''
                 (\<lambda>i. [KInt (int i), off i, KStr (Some (exception_messages ! i))])) [0..<20]
                 (printk ''Exception Handlers (0-19):\<newline>'' [] s1);
          s3 = fold (print_gate ''  IRQ %d: 0x%x\<newline>'' (\<lambda>i. [KInt (int i - 32), off i])) [32..<48]
                 (printk ''\<newline>IRQ Handlers (32-47):\<newline>'' [] s2);
          s4 = print_gate ''  INT 0x80: 0x%x\<newline>'' (\<lambda>i. [off i]) 128 (printk ''\<newline>Syscall Handler:\<newline>'' [] s3)
      in printk ''\<newline>Interrupts: %s\<newline>''
           [KStr (Some (if interrupts_enabled s4 then ''Enabled'' else ''Disabled''))] s4)"

text \<open>The keyboard driver's entries in the table (\<open>src/keyboard.c\<close>).\<close>

definition keyboard_enable_interrupts :: "'a interrupts_scheme \<Rightarrow> 'a interrupts_scheme" where
  "keyboard_enable_interrupts s = on_hw (pic_unmask_irq 1) (idt_register_handler IRQ1 Keyboard_irq_handler s)"

definition keyboard_disable_interrupts :: "'a interrupts_scheme \<Rightarrow> 'a interrupts_scheme" where
  "keyboard_disable_interrupts s = idt_unregister_handler IRQ1 (on_hw (pic_mask_irq 1) s)"

section \<open>The assembly stubs\<close>

definition push :: "u32 \<Rightarrow> 'a interrupts_scheme \<Rightarrow> 'a interrupts_scheme" where
  "push v s = (let a = r_esp (regs s) - 4
     in s\<lparr>regs := (regs s)\<lparr>r_esp := a\<rparr>, mem := wr32 (mem s) (unat a) v\<rparr>)"

definition pop :: "'a interrupts_scheme \<Rightarrow> u32 \<times> 'a interrupts_scheme" where
  "pop s = (rd32 (mem s) (unat (r_esp (regs s))),
     s\<lparr>regs := (regs s)\<lparr>r_esp := r_esp (regs s) + 4\<rparr>\<rparr>)"

definition pushal :: "'a interrupts_scheme \<Rightarrow> 'a interrupts_scheme" where
  "pushal s = (let c = regs s in
     push (r_edi c) (push (r_esi c) (push (r_ebp c) (push (r_esp c)
       (push (r_ebx c) (push (r_edx c) (push (r_ecx c) (push (r_eax c) s))))))))"

text \<open>\<open>popal\<close> skips the saved stack pointer.\<close>

definition popal :: "'a interrupts_scheme \<Rightarrow> 'a interrupts_scheme" where
  "popal s =
     (let (edi, s1) = pop s; (esi, s2) = pop s1; (ebp, s3) = pop s2; (skip, s4) = pop s3;
          (ebx, s5) = pop s4; (edx, s6) = pop s5; (ecx, s7) = pop s6; (eax, s8) = pop s7
      in s8\<lparr>regs := (regs s8)\<lparr>r_edi := edi, r_esi := esi, r_ebp := ebp, r_ebx := ebx, r_edx := edx,
           r_ecx := ecx, r_eax := eax\<rparr>\<rparr>)"

text \<open>
  The common stub. The handler runs with the frame pointer as its argument; its own use of the stack
  below the pushed argument is not modelled, and it returns with the stack pointer it was given.
\<close>

definition load_kernel_segments :: "'a interrupts_scheme \<Rightarrow> 'a interrupts_scheme" where
  "load_kernel_segments s = s\<lparr>regs := (regs s)\<lparr>r_eax := (r_eax (regs s) AND NOT 0xFFFF) OR 0x10,
     r_ds := 0x10, r_es := 0x10, r_fs := 0x10, r_gs := 0x10\<rparr>\<rparr>"

definition stub_save :: "'a interrupts_scheme \<Rightarrow> 'a interrupts_scheme" where
  "stub_save s =
     (let s1 = pushal s; c = regs s
      in load_kernel_segments (push (r_gs c) (push (r_fs c) (push (r_es c) (push (r_ds c) s1)))))"

definition stub_restore :: "'a interrupts_scheme \<Rightarrow> 'a interrupts_scheme" where
  "stub_restore s =
     (let (gs, s1) = pop s; (fs, s2) = pop s1; (es, s3) = pop s2; (ds, s4) = pop s3;
          s5 = popal (s4\<lparr>regs := (regs s4)\<lparr>r_gs := gs, r_fs := fs, r_es := es, r_ds := ds\<rparr>\<rparr>)
      in s5\<lparr>regs := (regs s5)\<lparr>r_esp := r_esp (regs s5) + 8\<rparr>\<rparr>)"

definition iret :: "'a interrupts_scheme \<Rightarrow> 'a interrupts_scheme" where
  "iret s = (let (eip, s1) = pop s; (cs, s2) = pop s1; (fl, s3) = pop s2
     in s3\<lparr>regs := (regs s3)\<lparr>r_eip := eip, r_cs := cs, r_eflags := fl\<rparr>\<rparr>)"

definition isr_common_stub ::
  "(irq_handler \<Rightarrow> u32 \<Rightarrow> 'a interrupts_scheme \<Rightarrow> 'a interrupts_scheme kresult) \<Rightarrow>
     'a interrupts_scheme \<Rightarrow> 'a interrupts_scheme kresult" where
  "isr_common_stub call s =
     (let s1 = stub_save s; fp = r_esp (regs s1); s2 = push fp s1
      in kbind (interrupt_handler_common call fp s2) (\<lambda>s3.
           kret (iret (stub_restore (s3\<lparr>regs := (regs s3)\<lparr>r_esp := fp\<rparr>\<rparr>)))))"

text \<open>
  The processor's part of an interrupt without a privilege change (the kernel has no task state
  segment, so that it never leaves ring 0): flags, code segment and instruction pointer are pushed and
  further interrupts blocked, then the stub pushes a zero error code, unless the processor pushes one,
  and the number.
\<close>

definition interrupt_entry :: "'a interrupts_scheme \<Rightarrow> 'a interrupts_scheme" where
  "interrupt_entry s =
     (let c = regs s in interrupts_disable (push (r_eip c) (push (r_cs c) (push (r_eflags c) s))))"

definition isr_noerrcode ::
  "(irq_handler \<Rightarrow> u32 \<Rightarrow> 'a interrupts_scheme \<Rightarrow> 'a interrupts_scheme kresult) \<Rightarrow> u8 \<Rightarrow>
     'a interrupts_scheme \<Rightarrow> 'a interrupts_scheme kresult" where
  "isr_noerrcode call n s =
     isr_common_stub call (push (ucast n) (push 0 (interrupts_disable (interrupt_entry s))))"

definition isr_errcode ::
  "(irq_handler \<Rightarrow> u32 \<Rightarrow> 'a interrupts_scheme \<Rightarrow> 'a interrupts_scheme kresult) \<Rightarrow> u8 \<Rightarrow> u32 \<Rightarrow>
     'a interrupts_scheme \<Rightarrow> 'a interrupts_scheme kresult" where
  "isr_errcode call n err s =
     isr_common_stub call (push (ucast n) (interrupts_disable (push err (interrupt_entry s))))"

section \<open>Lemmas: gates\<close>

definition gate :: "u32 \<Rightarrow> u8 \<Rightarrow> idt_entry" where
  "gate handler attr = \<lparr>offset_low = ucast (handler AND 0xFFFF), selector = 0x08, idt_zero = 0, type_attr = attr,
     offset_high = ucast (drop_bit 16 handler AND 0xFFFF)\<rparr>"

lemma gate_offset_gate: "gate_offset (gate handler attr) = handler"
proof (rule bit_word_eqI)
  fix i assume "i < LENGTH(32)"
  moreover have "x AND 0xFFFF = take_bit 16 x" for x :: u32
    by (simp add: take_bit_eq_mask mask_eq_exp_minus_1)
  ultimately show "bit (gate_offset (gate handler attr)) i = bit handler i"
    by (auto simp: gate_offset_def gate_def bit_simps)
qed

lemma set_gate_fields [simp]:
  "hw (idt_set_gate n h sel fl s) = hw s" "interrupt_handlers (idt_set_gate n h sel fl s) = interrupt_handlers s"
  "idt_base (idt_set_gate n h sel fl s) = idt_base s" "idt_limit (idt_set_gate n h sel fl s) = idt_limit s"
  by (simp_all add: idt_set_gate_def)

lemma set_gate_entries:
  "idt_entries (idt_set_gate n h 0x08 fl s) = (idt_entries s)[unat n := gate h (fl OR IDT_PRESENT)]"
  by (simp add: idt_set_gate_def gate_def)

lemma set_gates:
  assumes "b + k \<le> 256" "length (idt_entries s) = 256"
  shows "length (idt_entries (fold (\<lambda>n. idt_set_gate (of_nat (b + n)) (h n) 0x08 fl) [0..<k] s)) = 256
    \<and> (\<forall>i < 256. idt_entries (fold (\<lambda>n. idt_set_gate (of_nat (b + n)) (h n) 0x08 fl) [0..<k] s) ! i =
        (if b \<le> i \<and> i < b + k then gate (h (i - b)) (fl OR IDT_PRESENT) else idt_entries s ! i))
    \<and> hw (fold (\<lambda>n. idt_set_gate (of_nat (b + n)) (h n) 0x08 fl) [0..<k] s) = hw s
    \<and> interrupt_handlers (fold (\<lambda>n. idt_set_gate (of_nat (b + n)) (h n) 0x08 fl) [0..<k] s) = interrupt_handlers s"
  using assms
proof (induction k)
  case (Suc k)
  then have "unat (of_nat (b + k) :: u8) = b + k" by (simp add: unat_of_nat del: of_nat_add)
  with Suc show ?case by (auto simp: set_gate_entries nth_list_update simp del: of_nat_add)
qed auto

definition init_gate :: "(nat \<Rightarrow> u32) \<Rightarrow> (nat \<Rightarrow> u32) \<Rightarrow> nat \<Rightarrow> idt_entry" where
  "init_gate isr irq i = (if i < 20 then gate (isr i) 0x8E else if 32 \<le> i \<and> i < 48 then gate (irq (i - 32)) 0x8E
     else if i = 128 then gate (isr 128) 0xEE else idt_entry_zero)"

lemma idt_init_facts:
  "idt_entries (idt_init isr irq table s) = map (init_gate isr irq) [0..<256]"
  "interrupt_handlers (idt_init isr irq table s) = replicate 256 None"
  "masks (hw (idt_init isr irq table s)) = (Some 0xFF, Some 0xFF)"
proof -
  define s2 where "s2 = on_hw pic_init (s\<lparr>idt_limit := 2047, idt_base := table,
    idt_entries := replicate 256 idt_entry_zero, interrupt_handlers := replicate 256 None\<rparr>)"
  define s3 where "s3 = fold (\<lambda>n. idt_set_gate (of_nat (0 + n)) (isr n) 0x08 (IDT_INTERRUPT OR IDT_RING0)) [0..<20] s2"
  define s4 where "s4 = fold (\<lambda>n. idt_set_gate (of_nat (32 + n)) (irq n) 0x08 (IDT_INTERRUPT OR IDT_RING0)) [0..<16] s3"
  have init: "idt_init isr irq table s = on_hw pic_disable_all (idt_set_gate 128 (isr 128) 0x08 (IDT_INTERRUPT OR IDT_RING3) s4)"
    by (simp add: idt_init_def Let_def s4_def s3_def s2_def del: upt_rec_numeral)
  have e2: "length (idt_entries s2) = 256" "\<forall>i < 256. idt_entries s2 ! i = idt_entry_zero"
    "interrupt_handlers s2 = replicate 256 None" by (simp_all add: s2_def)
  note g3 = set_gates [of 0 20 s2 isr "IDT_INTERRUPT OR IDT_RING0", folded s3_def]
  note g4 = set_gates [of 32 16 s3 irq "IDT_INTERRUPT OR IDT_RING0", folded s4_def]
  have "length (idt_entries s4) = 256" "\<forall>i < 256. idt_entries s4 ! i = (if i < 20 then gate (isr i) 0x8E
      else if 32 \<le> i \<and> i < 48 then gate (irq (i - 32)) 0x8E else idt_entry_zero)"
    using g3 g4 e2 by auto
  then show "idt_entries (idt_init isr irq table s) = map (init_gate isr irq) [0..<256]"
    by (intro nth_equalityI) (auto simp: init set_gate_entries init_gate_def nth_list_update simp del: upt_rec_numeral)
  show "interrupt_handlers (idt_init isr irq table s) = replicate 256 None"
    using g3 g4 e2 by (simp add: init)
  show "masks (hw (idt_init isr irq table s)) = (Some 0xFF, Some 0xFF)"
    by (simp add: init pic_disable_all_masks)
qed

text \<open>
  After \<open>idt_init\<close> the gates of the exceptions 0 to 19, of the interrupt lines at 32 to 47 and
  of the system call hold exactly the addresses of their stubs, present, in the kernel's code segment,
  with ring 3 access only for the system call; every other gate is not present, no handler is
  registered, and every interrupt line is masked.
\<close>

theorem idt_init_gates:
  "let s' = idt_init isr irq table s; entries = idt_entries s' in
     length entries = 256
     \<and> map gate_offset (take 20 entries) = map isr [0..<20]
     \<and> map gate_offset (take 16 (drop 32 entries)) = map irq [0..<16]
     \<and> gate_offset (entries ! 128) = isr 128
     \<and> map type_attr entries = map (\<lambda>i. if i < 20 \<or> 32 \<le> i \<and> i < 48 then 0x8E
         else if i = 128 then 0xEE else 0) [0..<256]
     \<and> map selector entries = map (\<lambda>i. if i < 20 \<or> 32 \<le> i \<and> i < 48 \<or> i = 128 then 0x08 else 0) [0..<256]
     \<and> interrupt_handlers s' = replicate 256 None \<and> masks (hw s') = (Some 0xFF, Some 0xFF)"
proof -
  let ?E = "map (init_gate isr irq) [0..<256]"
  have "map gate_offset (take 20 ?E) = map isr [0..<20]"
    "map gate_offset (take 16 (drop 32 ?E)) = map irq [0..<16]"
    by (intro nth_equalityI; simp add: init_gate_def gate_offset_gate del: upt_rec_numeral)+
  moreover have "gate_offset (?E ! 128) = isr 128" by (simp add: init_gate_def gate_offset_gate del: upt_rec_numeral)
  moreover have "map type_attr ?E = map (\<lambda>i. if i < 20 \<or> 32 \<le> i \<and> i < 48 then 0x8E
         else if i = 128 then 0xEE else 0) [0..<256]"
    "map selector ?E = map (\<lambda>i. if i < 20 \<or> 32 \<le> i \<and> i < 48 \<or> i = 128 then 0x08 else 0) [0..<256]"
    by (auto simp: init_gate_def gate_def idt_entry_zero_def simp del: upt_rec_numeral)
  ultimately show ?thesis unfolding Let_def idt_init_facts by (simp del: upt_rec_numeral)
qed

section \<open>Lemmas: the stack of an interrupt\<close>

text \<open>What the stack holds from the frame pointer on when the C handler starts.\<close>

definition saved :: "cpu \<Rightarrow> u8 \<Rightarrow> u32 list" where
  "saved c n = [r_gs c, r_fs c, r_es c, r_ds c, r_edi c, r_esi c, r_ebp c, r_esp c - 20, r_ebx c, r_edx c, r_ecx c,
     r_eax c, ucast n, 0, r_eip c, r_cs c, r_eflags c]"

fun stack_holds :: "memory \<Rightarrow> nat \<Rightarrow> u32 list \<Rightarrow> bool" where
  "stack_holds m a [] \<longleftrightarrow> True"
| "stack_holds m a (v # vs) \<longleftrightarrow> rd32 m a = v \<and> stack_holds m (a + 4) vs"

definition handler_entry :: "u8 \<Rightarrow> 'a interrupts_scheme \<Rightarrow> 'a interrupts_scheme" where
  "handler_entry n s =
     (let s1 = stub_save (push (ucast n) (push 0 (interrupts_disable (interrupt_entry s))))
      in push (r_esp (regs s1)) s1)"

lemma isr_noerrcode_entry:
  "isr_noerrcode call n s =
     (let fp = r_esp (regs s) - 68
      in kbind (interrupt_handler_common call fp (handler_entry n s)) (\<lambda>s3.
           kret (iret (stub_restore (s3\<lparr>regs := (regs s3)\<lparr>r_esp := fp\<rparr>\<rparr>)))))"
  by (simp add: isr_noerrcode_def isr_common_stub_def handler_entry_def stub_save_def pushal_def push_def
      interrupt_entry_def interrupts_disable_def load_kernel_segments_def Let_def)

lemma stack_holds_append:
  "stack_holds m a (xs @ ys) \<longleftrightarrow> stack_holds m a xs \<and> stack_holds m (a + 4 * length xs) ys"
  by (induction xs arbitrary: a) (auto simp: algebra_simps)

lemma stack_holds_nth: "stack_holds m a vs \<Longrightarrow> i < length vs \<Longrightarrow> rd32 m (a + 4 * i) = vs ! i"
proof (induction vs arbitrary: a i)
  case (Cons v vs)
  then show ?case using Cons.IH [of "a + 4" "i - 1"] by (cases i) (auto simp: add.assoc)
qed simp

lemma push_stack:
  assumes "4 * length vs \<le> unat (r_esp (regs s))"
  shows "stack_holds (mem (fold push vs s)) (unat (r_esp (regs s)) - 4 * length vs) (rev vs)
    \<and> (\<forall>x. x < unat (r_esp (regs s)) - 4 * length vs \<or> unat (r_esp (regs s)) \<le> x \<longrightarrow>
         mem (fold push vs s) x = mem s x)"
  using assms
proof (induction vs arbitrary: s)
  case (Cons v vs)
  let ?e = "unat (r_esp (regs s))" and ?s1 = "push v s"
  have e1: "unat (r_esp (regs ?s1)) = ?e - 4"
    using Cons.prems by (simp add: push_def Let_def unat_sub_u32)
  have m1: "mem ?s1 = wr32 (mem s) (?e - 4) v"
    using e1 by (simp add: push_def Let_def)
  have IH: "stack_holds (mem (fold push vs ?s1)) (?e - 4 - 4 * length vs) (rev vs)"
    "\<forall>x. x < ?e - 4 - 4 * length vs \<or> ?e - 4 \<le> x \<longrightarrow> mem (fold push vs ?s1) x = mem ?s1 x"
    using Cons.IH [of ?s1] Cons.prems unfolding e1 by auto
  have "rd32 (mem (fold push vs ?s1)) (?e - 4) = rd32 (mem ?s1) (?e - 4)"
    using IH(2) by (intro rd32_cong) auto
  moreover have "?e - 4 - 4 * length vs + 4 * length (rev vs) = ?e - 4" using Cons.prems by simp
  ultimately have "stack_holds (mem (fold push (v # vs) s)) (?e - 4 * length (v # vs)) (rev (v # vs))"
    using IH(1) by (simp add: stack_holds_append m1)
  moreover have "mem (fold push (v # vs) s) x = mem s x" if "x < ?e - 4 * length (v # vs) \<or> ?e \<le> x" for x
  proof -
    have "mem (fold push vs ?s1) x = mem ?s1 x" using that IH(2) Cons.prems by auto
    moreover have "wr32 (mem s) (?e - 4) v x = mem s x"
      using that Cons.prems by (intro wr32_other) auto
    ultimately show ?thesis by (simp add: m1)
  qed
  ultimately show ?case by blast
qed simp

lemma handler_entry_stack:
  assumes "72 \<le> unat (r_esp (regs s))"
  shows "stack_holds (mem (handler_entry n s)) (unat (r_esp (regs s)) - 68) (saved (regs s) n)"
    "\<forall>x. x < unat (r_esp (regs s)) - 72 \<or> unat (r_esp (regs s)) \<le> x \<longrightarrow> mem (handler_entry n s) x = mem s x"
    "handler_entry n s = s\<lparr>mem := mem (handler_entry n s), regs := regs (handler_entry n s)\<rparr>"
proof -
  define vs where "vs = (let c = regs s in [r_eflags c, r_cs c, r_eip c, 0, ucast n, r_eax c, r_ecx c, r_edx c,
    r_ebx c, r_esp c - 20, r_ebp c, r_esi c, r_edi c, r_ds c, r_es c, r_fs c, r_gs c, r_esp c - 68])"
  have m: "mem (handler_entry n s) = mem (fold push vs s)"
    by (simp add: vs_def handler_entry_def stub_save_def pushal_def push_def interrupt_entry_def
        interrupts_disable_def load_kernel_segments_def Let_def)
  have len: "length vs = 18" and rev: "rev vs = (r_esp (regs s) - 68) # saved (regs s) n"
    by (simp_all add: vs_def saved_def Let_def)
  note st = push_stack [of vs s, unfolded len rev]
  show "stack_holds (mem (handler_entry n s)) (unat (r_esp (regs s)) - 68) (saved (regs s) n)"
    using st assms by (simp add: m)
  show "\<forall>x. x < unat (r_esp (regs s)) - 72 \<or> unat (r_esp (regs s)) \<le> x \<longrightarrow> mem (handler_entry n s) x = mem s x"
    using st assms by (simp add: m)
  show "handler_entry n s = s\<lparr>mem := mem (handler_entry n s), regs := regs (handler_entry n s)\<rparr>"
    by (simp add: handler_entry_def stub_save_def pushal_def push_def
      interrupt_entry_def interrupts_disable_def load_kernel_segments_def Let_def)
qed

text \<open>Leaving: the registers come back from the stack, whatever the handler did to them.\<close>

lemma unat_minus_numeral:
  "numeral k \<le> unat e \<Longrightarrow> numeral k < (2 :: nat) ^ 32 \<Longrightarrow> unat (e - numeral k :: u32) = unat e - numeral k"
proof -
  assume "numeral k \<le> unat e" and k: "numeral k < (2 :: nat) ^ 32"
  have "n < 2 ^ 32 \<Longrightarrow> unat (of_nat n :: u32) = n" for n by (simp add: unat_of_nat)
  from this [OF k] have "unat (of_nat (numeral k) :: u32) = numeral k" .
  then have "unat (numeral k :: u32) = numeral k" by (simp only: of_nat_numeral)
  with \<open>numeral k \<le> unat e\<close> show ?thesis by (simp only: unat_sub_u32)
qed

definition saved_kept :: "memory \<Rightarrow> nat \<Rightarrow> u32 list \<Rightarrow> bool" where
  "saved_kept m a vs \<longleftrightarrow> (\<forall>i \<in> {0, 1, 2, 3, 4, 5, 6, 8, 9, 10, 11, 14, 15, 16}. rd32 m (a + 4 * i) = vs ! i)"

lemma stub_leave:
  assumes e: "72 \<le> unat (r_esp c)" and kept: "saved_kept (mem s) (unat (r_esp c) - 68) (saved c n)"
  shows "iret (stub_restore (s\<lparr>regs := (regs s)\<lparr>r_esp := r_esp c - 68\<rparr>\<rparr>)) = s\<lparr>regs := c\<rparr>"
proof -
  have "rd32 (mem s) (unat (r_esp c) - 68 + 4 * i) = saved c n ! i"
    if "i \<in> {0, 1, 2, 3, 4, 5, 6, 8, 9, 10, 11, 14, 15, 16}" for i
    using kept that unfolding saved_kept_def by blast
  from this [of 0] this [of 1] this [of 2] this [of 3] this [of 4] this [of 5] this [of 6] this [of 8]
    this [of 9] this [of 10] this [of 11] this [of 14] this [of 15] this [of 16]
  show ?thesis
    using e by (cases c) (simp add: iret_def stub_restore_def popal_def pop_def Let_def unat_minus_numeral saved_def)
qed

text \<open>
  C18. An interrupt is invisible to the code it interrupts. Whatever the interrupt, whatever its
  handler does to memory and devices: if the handler returns and has left the saved registers on the
  stack as they were (the saved stack pointer, the interrupt number and the error code may have
  changed), then after the stub's \<open>iret\<close> every register of the interrupted code has its old value, the
  flags and the stack pointer included, and the rest of the state is what the handler left.
\<close>

theorem interrupt_transparent:
  fixes s :: "'a interrupts_scheme"
  assumes esp: "72 \<le> unat (r_esp (regs s))"
    and ret: "interrupt_handler_common call (r_esp (regs s) - 68) (handler_entry n s) = kret s3"
    and kept: "\<forall>x. unat (r_esp (regs s)) - 68 \<le> x \<and> x < unat (r_esp (regs s)) \<and>
      \<not> (unat (r_esp (regs s)) - 40 \<le> x \<and> x < unat (r_esp (regs s)) - 36) \<and>
      \<not> (unat (r_esp (regs s)) - 20 \<le> x \<and> x < unat (r_esp (regs s)) - 12) \<longrightarrow>
        mem s3 x = mem (handler_entry n s) x"
  shows "isr_noerrcode call n s = kret (s3\<lparr>regs := regs s\<rparr>)"
proof -
  let ?e = "unat (r_esp (regs s))"
  have "rd32 (mem s3) (?e - 68 + 4 * i) = saved (regs s) n ! i"
    if "i \<in> {0, 1, 2, 3, 4, 5, 6, 8, 9, 10, 11, 14, 15, 16}" for i
  proof -
    have "rd32 (mem s3) (?e - 68 + 4 * i) = rd32 (mem (handler_entry n s)) (?e - 68 + 4 * i)"
      by (rule rd32_cong, rule kept [rule_format]) (use that esp in auto)
    also have "\<dots> = saved (regs s) n ! i"
      by (rule stack_holds_nth [OF handler_entry_stack(1) [OF esp]]) (use that in \<open>auto simp: saved_def\<close>)
    finally show ?thesis .
  qed
  then have "saved_kept (mem s3) (?e - 68) (saved (regs s) n)" unfolding saved_kept_def by blast
  from stub_leave [OF esp this] ret show ?thesis by (simp add: isr_noerrcode_entry Let_def)
qed

text \<open>
  The frame as the C code sees it: the structure of \<open>idt.h\<close> has the general registers first and the
  segment registers after them, but the stub pushes the segment registers last, so that they come
  first in memory and every field below the interrupt number is another register.
\<close>

lemma handler_frame:
  fixes s :: "'a interrupts_scheme" and n :: u8
  assumes esp: "72 \<le> unat (r_esp (regs s))"
  defines "fp \<equiv> r_esp (regs s) - 68" and "m \<equiv> mem (handler_entry n s)"
  shows "frame_int_no fp m = ucast n" "frame_err_code fp m = 0" "frame_eip fp m = r_eip (regs s)"
    "frame_eax fp m = r_esp (regs s) - 20" "frame_ebx fp m = r_edi (regs s)" "frame_ecx fp m = r_ebp (regs s)"
    "frame_edx fp m = r_esi (regs s)" "frame_esi fp m = r_fs (regs s)" "frame_edi fp m = r_gs (regs s)"
proof -
  have fp: "unat fp = unat (r_esp (regs s)) - 68" using esp by (simp add: fp_def unat_minus_numeral)
  have rd: "rd32 m (unat fp + 4 * i) = saved (regs s) n ! i" if "i < 17" for i
    using stack_holds_nth [OF handler_entry_stack(1) [OF esp], of i n] that by (simp add: m_def fp saved_def)
  show "frame_int_no fp m = ucast n" "frame_err_code fp m = 0" "frame_eip fp m = r_eip (regs s)"
    "frame_eax fp m = r_esp (regs s) - 20" "frame_ebx fp m = r_edi (regs s)" "frame_ecx fp m = r_ebp (regs s)"
    "frame_edx fp m = r_esi (regs s)" "frame_esi fp m = r_fs (regs s)" "frame_edi fp m = r_gs (regs s)"
    using rd [of 12] rd [of 13] rd [of 14] rd [of 7] rd [of 4] rd [of 6] rd [of 5] rd [of 1] rd [of 0]
    by (simp_all add: frame_int_no_def frame_err_code_def frame_eip_def frame_eax_def frame_ebx_def frame_ecx_def
        frame_edx_def frame_esi_def frame_edi_def saved_def)
qed

section \<open>An example\<close>

definition cpu_example :: cpu where
  "cpu_example = \<lparr>r_eax = 1, r_ebx = 1, r_ecx = 0x1000, r_edx = 5, r_esi = 0, r_edi = 0, r_ebp = 0x200040,
     r_esp = 0x200000, r_eip = 0x100000, r_eflags = 0x202, r_cs = 8, r_ds = 16, r_es = 16, r_fs = 16, r_gs = 16\<rparr>"

definition intr_example :: interrupts where
  "intr_example = interrupts_boot cpu_example sockets_example"

lemma intr_example_fields:
  "regs intr_example = cpu_example" "interrupt_handlers intr_example = replicate 256 None"
  by (simp_all add: intr_example_def interrupts_boot_def interrupts.defs sockets.defs)

theorem interrupt_transparent_witness:
  "\<exists>s3. isr_noerrcode (\<lambda>_ _ s. kret s) 34 intr_example = kret (s3\<lparr>regs := cpu_example\<rparr>)
     \<and> hw s3 = pic_send_eoi 2 (hw intr_example)"
proof -
  have e: "72 \<le> unat (r_esp (regs intr_example))" by (simp add: intr_example_fields cpu_example_def)
  let ?s = "handler_entry 34 intr_example"
  have h: "interrupt_handlers ?s = replicate 256 None" "hw ?s = hw intr_example"
    by (subst handler_entry_stack(3) [OF e], simp add: intr_example_fields)+
  have n: "frame_int_no (r_esp (regs intr_example) - 68) (mem ?s) = 34"
    using handler_frame(1) [OF e, of 34] by simp
  have "interrupt_handler_common (\<lambda>_ _ s. kret s) (r_esp (regs intr_example) - 68) ?s =
      kret (on_hw (pic_send_eoi 2) ?s)"
    by (simp add: interrupt_handler_common_def n h default_irq_handler_def)
  from interrupt_transparent [OF e this] h show ?thesis by (auto simp: intr_example_fields)
qed

end
