(* ===== verification/KFS_Scheduler.thy ===== *)
theory KFS_Scheduler
  imports KFS_Process
begin

text \<open>
  Correctness of the scheduler of \<open>src/process.c\<close>: the two passes over the process table are one
  search in cyclic order, a ready process is chosen after at most 255 switches whatever the others
  do, and the switch keeps the one-running-process invariant.
\<close>

section \<open>Cyclic search\<close>

abbreviation ready :: "process list \<Rightarrow> nat \<Rightarrow> bool" where
  "ready pt i \<equiv> state (pt ! i) = PROCESS_STATE_READY"

lemma pass_one_found: "cur \<notin> set is \<Longrightarrow> pass_one pt cur True is = find (ready pt) is"
  by (induction "is") auto

lemma pass_one_split:
  "cur \<notin> set xs \<Longrightarrow> cur \<notin> set ys \<Longrightarrow> pass_one pt cur False (xs @ cur # ys) = find (ready pt) ys"
  by (induction xs) (auto simp: pass_one_found)

lemma pass_two_split: "cur \<notin> set xs \<Longrightarrow> pass_two pt cur (xs @ cur # ys) = find (ready pt) xs"
  by (induction xs) auto

lemma upt_split: "cur < n \<Longrightarrow> [0..<n] = [0..<cur] @ cur # [Suc cur..<n]"
  using upt_add_eq_append [of 0 cur "n - cur"] by (simp add: upt_conv_Cons)

lemma find_append: "find P (xs @ ys) = (case find P xs of None \<Rightarrow> find P ys | Some x \<Rightarrow> Some x)"
  by (induction xs) auto

lemma schedule_next_cyclic:
  assumes "cur < MAX_PROCESSES"
  shows "schedule_next pt (Some cur) = find (ready pt) ([Suc cur..<MAX_PROCESSES] @ [0..<cur] @ [cur])"
proof -
  have "pass_one pt cur False [0..<MAX_PROCESSES] = find (ready pt) [Suc cur..<MAX_PROCESSES]"
    by (subst upt_split [OF assms]) (rule pass_one_split; simp)
  moreover have "pass_two pt cur [0..<MAX_PROCESSES] = find (ready pt) [0..<cur]"
    by (subst upt_split [OF assms]) (rule pass_two_split; simp)
  ultimately show ?thesis
    by (simp add: schedule_next_def find_append split: option.split del: upt_rec_numeral upt_Suc)
qed

text \<open>The steps from \<open>cur\<close> to \<open>i\<close> in table order.\<close>

definition dist :: "nat \<Rightarrow> nat \<Rightarrow> nat" where
  "dist cur i = (i + MAX_PROCESSES - cur) mod MAX_PROCESSES"

lemma dist_if:
  "cur < MAX_PROCESSES \<Longrightarrow> i < MAX_PROCESSES \<Longrightarrow>
     dist cur i = (if cur \<le> i then i - cur else i + MAX_PROCESSES - cur)"
  by (simp add: dist_def mod_if)

lemma dist_step:
  assumes "a < MAX_PROCESSES" "b < MAX_PROCESSES" "c < MAX_PROCESSES" "b \<noteq> a" "dist a b \<le> dist a c"
  shows "dist b c < dist a c"
  using assms by (simp add: dist_if split: if_splits; arith)

lemma cyclic_nth:
  assumes "cur < MAX_PROCESSES" "k < MAX_PROCESSES"
  shows "([Suc cur..<MAX_PROCESSES] @ [0..<cur] @ [cur]) ! k = (cur + Suc k) mod MAX_PROCESSES"
  using assms by (auto simp: nth_append nth_upt mod_if simp del: upt_rec_numeral upt_Suc)

lemma schedule_next_nearest:
  assumes cur: "cur < MAX_PROCESSES" and j: "j < MAX_PROCESSES" "j \<noteq> cur" "ready pt j"
  obtains n where "schedule_next pt (Some cur) = Some n" "n < MAX_PROCESSES" "n \<noteq> cur" "ready pt n"
    "dist cur n \<le> dist cur j"
proof -
  define xs where "xs = [Suc cur..<MAX_PROCESSES] @ [0..<cur] @ [cur]"
  have len: "length xs = MAX_PROCESSES" using cur by (simp add: xs_def)
  have nth: "\<And>k. k < MAX_PROCESSES \<Longrightarrow> xs ! k = (cur + Suc k) mod MAX_PROCESSES"
    unfolding xs_def by (rule cyclic_nth [OF cur])
  define k where "k = dist cur j - 1"
  have d: "0 < dist cur j" "dist cur j < MAX_PROCESSES" "(cur + dist cur j) mod MAX_PROCESSES = j"
    using cur j by (auto simp: dist_def mod_if)
  then have k: "k < MAX_PROCESSES" "xs ! k = j" "k \<noteq> 255"
    using nth [of k] by (auto simp: k_def)
  then have "j \<in> set xs" using len nth_mem [of k xs] by simp
  with j(3) have "find (ready pt) xs \<noteq> None" unfolding find_None_iff by blast
  then obtain n where n: "find (ready pt) xs = Some n" by auto
  then obtain i where i: "i < MAX_PROCESSES" "ready pt (xs ! i)" "n = xs ! i"
      "\<forall>l < i. \<not> ready pt (xs ! l)"
    unfolding find_Some_iff len by blast
  have "i \<le> k" using i(4) k(2) j(3) not_less by blast
  then have "dist cur n = Suc i" "n \<noteq> cur"
    using nth [OF i(1)] i(3) cur k(1,3) by (auto simp: dist_def mod_if split: if_splits)
  with \<open>i \<le> k\<close> d(1) have "dist cur n \<le> dist cur j" by (simp add: k_def)
  moreover have "n < MAX_PROCESSES" using i(3) nth [OF i(1)] by simp
  ultimately show thesis
    using that [of n] n i(2,3) \<open>n \<noteq> cur\<close> schedule_next_cyclic [OF cur, of pt, folded xs_def] by simp
qed

section \<open>Properties\<close>

text \<open>
  C5. Round robin: the process the scheduler selects is the first ready one in cyclic table order
  after the current process, the current process itself coming last; without a current process it
  is the first ready one of the table.
\<close>

theorem schedule_round_robin:
  assumes "cur < MAX_PROCESSES"
  shows "schedule_next pt (Some cur) =
      find (ready pt) ([Suc cur..<MAX_PROCESSES] @ [0..<cur] @ [cur])
    \<and> schedule_next pt None = find (ready pt) [0..<MAX_PROCESSES]"
proof
  show "schedule_next pt (Some cur) = find (ready pt) ([Suc cur..<MAX_PROCESSES] @ [0..<cur] @ [cur])"
    by (rule schedule_next_cyclic [OF assms])
  show "schedule_next pt None = find (ready pt) [0..<MAX_PROCESSES]"
    unfolding schedule_next_def by (rule option.case(1))
qed

text \<open>A table with one ready process, in slot 3.\<close>

definition example_table :: "process list" where
  "example_table = (replicate MAX_PROCESSES process_zero)
     [3 := process_zero\<lparr>state := PROCESS_STATE_READY\<rparr>]"

lemma example_table_ready: "i < MAX_PROCESSES \<Longrightarrow> ready example_table i \<longleftrightarrow> i = 3"
  by (cases "i = 3") (simp_all add: example_table_def process_zero_def)

theorem schedule_round_robin_witness: "schedule_next example_table (Some 254) = Some 3"
proof -
  have "find (ready example_table) ([Suc 254..<MAX_PROCESSES] @ [0..<254] @ [254]) = Some 3"
    using upt_split [of 3 254] by (simp add: find_append find_None_iff example_table_ready
        upt_conv_Cons del: upt_rec_numeral upt_Suc)
  with schedule_round_robin [of 254 example_table] show ?thesis by simp
qed

text \<open>
  The processes a sequence of scheduler calls selects; between two calls the states of all
  processes may change arbitrarily, the table at each call is an element of the list.
\<close>

fun schedule_run :: "process list list \<Rightarrow> nat \<Rightarrow> nat list" where
  "schedule_run [] cur = []"
| "schedule_run (pt # pts) cur =
     (let n = (case schedule_next pt (Some cur) of None \<Rightarrow> cur | Some n \<Rightarrow> n)
      in n # schedule_run pts n)"

lemma schedule_run_reaches:
  assumes "cur < MAX_PROCESSES" "j < MAX_PROCESSES" "j \<noteq> cur" "\<forall>pt \<in> set pts. ready pt j"
    "dist cur j \<le> length pts"
  shows "j \<in> set (schedule_run pts cur)"
  using assms
proof (induction pts arbitrary: cur)
  case Nil
  then show ?case by (simp add: dist_if split: if_splits)
next
  case (Cons pt pts)
  obtain n where n: "schedule_next pt (Some cur) = Some n" "n < MAX_PROCESSES" "n \<noteq> cur" "ready pt n"
      "dist cur n \<le> dist cur j"
    using schedule_next_nearest [of cur j pt] Cons.prems by auto
  show ?case
  proof (cases "n = j")
    case False
    with n Cons.prems(1-3) have "dist n j < dist cur j"
      using dist_step [of cur n j] by simp
    with Cons.IH [of n] Cons.prems n False show ?thesis by simp
  qed (use n in simp)
qed

text \<open>
  C7. No starvation: a process that stays ready is selected within 255 calls of the scheduler,
  whatever the states of the other processes are at each call.
\<close>

theorem schedule_no_starvation:
  assumes "cur < MAX_PROCESSES" "j < MAX_PROCESSES" "j \<noteq> cur" "\<forall>pt \<in> set pts. ready pt j"
    "255 \<le> length pts"
  shows "j \<in> set (schedule_run pts cur)"
proof (rule schedule_run_reaches)
  have "dist cur j < MAX_PROCESSES" by (simp add: dist_def)
  with assms(5) show "dist cur j \<le> length pts" by simp
qed (use assms in auto)

theorem schedule_no_starvation_witness: "3 \<in> set (schedule_run (replicate 255 example_table) 254)"
  by (rule schedule_no_starvation) (simp_all add: example_table_ready)

section \<open>One running process\<close>

text \<open>
  Only the current process is in state RUNNING. Handlers of signals are code of the processes; what
  the kernel relies on is that they leave the process states and the current process alone.
\<close>

definition one_running :: "'a procs_scheme \<Rightarrow> bool" where
  "one_running s \<longleftrightarrow> length (process_table s) = MAX_PROCESSES
     \<and> (\<forall>c. current_process s = Some c \<longrightarrow> c < MAX_PROCESSES)
     \<and> (\<forall>i < MAX_PROCESSES. state (proc s i) = PROCESS_STATE_RUNNING \<longrightarrow> current_process s = Some i)"

definition same_states :: "'a procs_scheme \<Rightarrow> 'a procs_scheme \<Rightarrow> bool" where
  "same_states s s' \<longleftrightarrow> map state (process_table s') = map state (process_table s)
     \<and> current_process s' = current_process s"

definition handlers_ok :: "(u32 \<Rightarrow> int \<Rightarrow> 'a procs_scheme \<Rightarrow> 'a procs_scheme kresult) \<Rightarrow> bool" where
  "handlers_ok call \<longleftrightarrow> (\<forall>h sig s s'. call h sig s = kret s' \<longrightarrow> same_states s s')"

lemma same_states_refl [simp]: "same_states s s"
  by (simp add: same_states_def)

lemma same_states_trans: "same_states s s' \<Longrightarrow> same_states s' s'' \<Longrightarrow> same_states s s''"
  by (simp add: same_states_def)

lemma same_states_more: "kheap.more s' = kheap.more s \<Longrightarrow> same_states s s'"
  using more_fields [of s' s] by (simp add: same_states_def)

lemma same_states_hw [simp]: "same_states s (s\<lparr>hw := h\<rparr>)"
  by (simp add: same_states_def)

lemma same_states_queue: "same_states s (upd_proc p (\<lambda>q. q\<lparr>signal_queue := x\<rparr>) s)"
  by (simp add: same_states_def upd_proc_def map_update list_update_same_conv)
     (metis list_update_id map_update length_map nth_map list_update_beyond not_le)

lemma signal_process_states:
  assumes "handlers_ok call" "process_signal_process call pp s = kret s'"
  shows "same_states s s'"
proof (rule signal_process_rel [OF _ _ _ _ _ _ assms(2)])
  show "same_states s s'" if "kfree e s = kret s'" for e s s'
    using that by (intro same_states_more kfree_more)
qed (use assms(1) in \<open>auto simp: handlers_ok_def intro: same_states_trans same_states_queue\<close>)

lemma switch_to_fields [simp]:
  "length (process_table (switch_to n s)) = length (process_table s)"
  "current_process (switch_to n s) = Some n"
  by (auto simp: switch_to_def Let_def split: option.split)

lemma switch_to_states:
  assumes "one_running s" "n < MAX_PROCESSES" "i < MAX_PROCESSES"
  shows "state (proc (switch_to n s) i) =
       (if i = n then PROCESS_STATE_RUNNING
        else if state (proc s i) = PROCESS_STATE_RUNNING then PROCESS_STATE_READY else state (proc s i))"
proof -
  have len: "length (process_table s) = MAX_PROCESSES"
    and cur: "\<And>c. current_process s = Some c \<Longrightarrow> c < MAX_PROCESSES"
    using assms(1) unfolding one_running_def by blast+
  have run: "current_process s = Some i" if "state (proc s i) = PROCESS_STATE_RUNNING"
    using assms(1,3) that unfolding one_running_def by blast
  define s1 where "s1 = (case current_process s of None \<Rightarrow> s
      | Some c \<Rightarrow> if state (proc s c) = PROCESS_STATE_RUNNING
                 then upd_proc c (\<lambda>q. q\<lparr>state := PROCESS_STATE_READY\<rparr>) s else s)"
  have s1: "length (process_table s1) = MAX_PROCESSES" "state (proc s1 i) =
      (if state (proc s i) = PROCESS_STATE_RUNNING then PROCESS_STATE_READY else state (proc s i))"
    using len run by (auto simp: s1_def proc_upd_proc cur split: option.splits)
  define s2 where "s2 = s1\<lparr>current_process := Some n\<rparr>"
  have s2: "process_table s2 = process_table s1" by (simp add: s2_def)
  have "process_table (switch_to n s) =
      process_table (upd_proc n (\<lambda>q. q\<lparr>state := PROCESS_STATE_RUNNING\<rparr>) s2)"
    unfolding switch_to_def s1_def [symmetric] s2_def [symmetric] Let_def by simp
  with s1 s2 assms(2) show ?thesis by (simp add: proc_upd_proc)
qed

lemma same_states_proc:
  assumes "same_states s s'"
  shows "length (process_table s') = length (process_table s)"
    "i < length (process_table s) \<Longrightarrow> state (proc s' i) = state (proc s i)"
    "current_process s' = current_process s"
proof -
  from assms have m: "map state (process_table s') = map state (process_table s)"
    and "current_process s' = current_process s" by (auto simp: same_states_def)
  then show "current_process s' = current_process s" by simp
  from m show len: "length (process_table s') = length (process_table s)" by (metis length_map)
  show "i < length (process_table s) \<Longrightarrow> state (proc s' i) = state (proc s i)"
    using m len by (metis nth_map)
qed

lemma schedule_next_bound:
  assumes "schedule_next pt cur = Some n" "\<forall>c. cur = Some c \<longrightarrow> c < MAX_PROCESSES"
  shows "n < MAX_PROCESSES" "ready pt n"
proof -
  obtain xs where "set xs \<subseteq> {..<MAX_PROCESSES}" "find (ready pt) xs = Some n"
  proof (cases cur)
    case None
    then have "find (ready pt) [0..<MAX_PROCESSES] = Some n"
      using assms(1) unfolding schedule_next_def by (simp only: option.case)
    then show thesis by (intro that [of "[0..<MAX_PROCESSES]"]) auto
  next
    case (Some c)
    then show thesis
      using assms schedule_next_cyclic [of c pt]
      by (intro that [of "[Suc c..<MAX_PROCESSES] @ [0..<c] @ [c]"])
         (auto simp del: upt_rec_numeral upt_Suc)
  qed
  then show "n < MAX_PROCESSES" "ready pt n"
    unfolding find_Some_iff by (metis lessThan_iff nth_mem subsetD)+
qed

lemma process_schedule_cases:
  assumes one: "one_running s" and ok: "handlers_ok call" and ret: "process_schedule call s = kret s'"
  obtains "schedule_next (process_table s) (current_process s) = None" "s' = s"
  | n where "schedule_next (process_table s) (current_process s) = Some n" "current_process s = Some n" "s' = s"
  | n where "schedule_next (process_table s) (current_process s) = Some n" "current_process s \<noteq> Some n"
    "n < MAX_PROCESSES" "same_states (switch_to n s) s'"
proof (cases "schedule_next (process_table s) (current_process s)")
  case None
  with ret have "s' = s" by (simp add: process_schedule_def)
  with None show thesis by (rule that(1))
next
  case (Some n)
  show thesis
  proof (cases "current_process s = Some n")
    case True
    with Some ret have "s' = s" by (simp add: process_schedule_def)
    with Some True show thesis by (rule that(2))
  next
    case False
    with Some ret obtain s1 h where s1: "process_signal_process call (Some n) (switch_to n s) = kret s1"
      "s' = s1\<lparr>hw := h\<rparr>"
      by (auto simp: process_schedule_def process_switch_def kbind_eq_kret split: option.splits)
    have "same_states (switch_to n s) s'"
      using signal_process_states [OF ok s1(1)] s1(2) same_states_trans same_states_hw by blast
    moreover have "n < MAX_PROCESSES"
      using schedule_next_bound(1) [OF Some] one unfolding one_running_def by blast
    ultimately show thesis using that(3) Some False by blast
  qed
qed

text \<open>
  C6. A scheduler call changes states correctly: if at most the current process is RUNNING and
  signal handlers leave process states alone, then after \<open>process_schedule\<close> the same holds; when the
  search gives another process it is now current and RUNNING, the previous one is READY if it was
  RUNNING, and every other state is unchanged; otherwise nothing has happened.
\<close>

theorem process_schedule_states:
  assumes one: "one_running s" and ok: "handlers_ok call" and ret: "process_schedule call s = kret s'"
  shows "one_running s' \<and> (case schedule_next (process_table s) (current_process s) of
      None \<Rightarrow> s' = s
    | Some n \<Rightarrow> if current_process s = Some n then s' = s
        else current_process s' = Some n \<and> state (proc s' n) = PROCESS_STATE_RUNNING
          \<and> (\<forall>i < MAX_PROCESSES. i \<noteq> n \<longrightarrow> state (proc s' i) =
               (if state (proc s i) = PROCESS_STATE_RUNNING then PROCESS_STATE_READY
                else state (proc s i))))"
  using process_schedule_cases [OF assms]
proof cases
  case (3 n)
  note sw = switch_to_states [OF one 3(3)] and ss = same_states_proc [OF 3(4)]
  have len: "length (process_table s) = MAX_PROCESSES" using one by (simp add: one_running_def)
  have "state (proc s' i) = (if i = n then PROCESS_STATE_RUNNING
      else if state (proc s i) = PROCESS_STATE_RUNNING then PROCESS_STATE_READY else state (proc s i))"
    if "i < MAX_PROCESSES" for i
    using ss(2) [of i] sw len that by simp
  with 3 len ss(1,3) show ?thesis by (auto simp: one_running_def)
qed (use one in auto)

text \<open>A system with the example table and no current process.\<close>

definition example_procs :: procs where
  "example_procs = (procs_boot paging_ready)\<lparr>process_table := example_table\<rparr>"

theorem process_schedule_states_witness:
  "\<exists>s'. process_schedule (\<lambda>_ _ s. kret s) example_procs = kret s' \<and> one_running s'
     \<and> current_process s' = Some 3 \<and> state (proc s' 3) = PROCESS_STATE_RUNNING"
proof -
  have tab: "process_table example_procs = example_table" "current_process example_procs = None"
    by (simp_all add: example_procs_def procs_boot_def paging.defs procs.defs)
  have nxt: "schedule_next example_table None = Some 3"
    using upt_split [of 3 256] find_None_iff [of "ready example_table" "[0..<3]"]
    by (simp add: schedule_next_def find_append example_table_ready del: upt_rec_numeral upt_Suc)
  have q: "signal_queue (proc (switch_to 3 example_procs) 3) = 0"
    by (simp add: switch_to_def tab upd_proc_def paging_switch_directory_def example_table_def
        process_zero_def Let_def)
  have "length (process_table example_procs) = MAX_PROCESSES"
      "\<forall>i < MAX_PROCESSES. state (proc example_procs i) \<noteq> PROCESS_STATE_RUNNING"
    by (auto simp: tab example_table_def nth_list_update process_zero_def)
  then have one: "one_running example_procs" by (simp add: one_running_def tab)
  have ok: "handlers_ok (\<lambda>_ _ s. kret s)" by (simp add: handlers_ok_def)
  obtain s' where s': "process_schedule (\<lambda>_ _ s. kret s) example_procs = kret s'"
    using q by (simp add: process_schedule_def process_switch_def tab nxt signal_process_unfold)
  from process_schedule_states [OF one ok s'] s' show ?thesis by (simp add: tab nxt)
qed

end
