(* ===== verification/KFS_Timer.thy ===== *)
theory KFS_Timer
  imports KFS_Interrupt KFS_Scheduler
begin

text \<open>
  The programmable interval timer (\<open>src/timer.c\<close>, \<open>include/timer.h\<close>): the tick counter, a 32-bit word
  that wraps, the interrupt handler that calls the scheduler on every tenth tick, and waiting. The
  lemmas show when a wait ends and how the ticks drive the scheduler.
\<close>

section \<open>State and operations\<close>

record timer = interrupts +
  timer_ticks :: u32

definition timer_boot :: "interrupts \<Rightarrow> timer" where
  "timer_boot s = interrupts.extend s (timer.fields 0)"

abbreviation (input) PIT_CHANNEL0 :: u16 where "PIT_CHANNEL0 \<equiv> 0x40"
abbreviation (input) PIT_COMMAND :: u16 where "PIT_COMMAND \<equiv> 0x43"
abbreviation (input) PIT_FREQUENCY :: u32 where "PIT_FREQUENCY \<equiv> 1193182"
abbreviation (input) TIMER_FREQUENCY :: u32 where "TIMER_FREQUENCY \<equiv> 100"
abbreviation (input) SCHEDULE_FREQUENCY :: u32 where "SCHEDULE_FREQUENCY \<equiv> 10"

text \<open>\<open>call\<close> runs a process's signal handler, as for \<open>process_schedule\<close>.\<close>

definition timer_irq_handler ::
  "(u32 \<Rightarrow> int \<Rightarrow> 'a timer_scheme \<Rightarrow> 'a timer_scheme kresult) \<Rightarrow> 'a timer_scheme \<Rightarrow> 'a timer_scheme kresult" where
  "timer_irq_handler call s =
     (let s1 = s\<lparr>timer_ticks := timer_ticks s + 1\<rparr>
      in kbind (if timer_ticks s1 mod SCHEDULE_FREQUENCY = 0 then process_schedule call s1 else kret s1)
           (\<lambda>s2. kret (on_hw (pic_send_eoi 0) s2)))"

definition timer_divisor :: "u32 \<Rightarrow> u32" where
  "timer_divisor frequency =
     (let divisor = PIT_FREQUENCY div frequency;
          divisor = (if 0xFFFF < divisor then 0xFFFF else divisor)
      in if divisor < 1 then 1 else divisor)"

text \<open>A frequency of 0 is a division by zero (\<open>None\<close>).\<close>

definition timer_init :: "u32 \<Rightarrow> 'a timer_scheme \<Rightarrow> 'a timer_scheme option" where
  "timer_init frequency s =
     (if frequency = 0 then None
      else
        let divisor = timer_divisor frequency;
            s1 = idt_register_handler IRQ0 Timer_irq_handler s;
            s2 = on_hw (outb PIT_COMMAND 0x36) s1;
            s3 = on_hw (outb PIT_CHANNEL0 (ucast (divisor AND 0xFF))) s2;
            s4 = on_hw (outb PIT_CHANNEL0 (ucast (drop_bit 8 divisor AND 0xFF))) s3;
            s5 = on_hw (pic_unmask_irq 0) s4
        in Some (printk ''[TIMER] Initialized at %d Hz (divisor %d)\<newline>''
             [KInt (sint frequency), KInt (sint divisor)] s5))"

definition timer_get_ticks :: "'a timer_scheme \<Rightarrow> u32" where
  "timer_get_ticks s = timer_ticks s"

text \<open>
  Waiting halts until the next interrupt. The argument \<open>env\<close> is the number of timer interrupts still
  to come; a wait that needs more never returns.
\<close>

fun timer_wait_loop ::
  "(u32 \<Rightarrow> int \<Rightarrow> 'a timer_scheme \<Rightarrow> 'a timer_scheme kresult) \<Rightarrow> u32 \<Rightarrow> nat \<Rightarrow> 'a timer_scheme \<Rightarrow>
     'a timer_scheme kresult" where
  "timer_wait_loop call end_ticks 0 s = (if timer_ticks s < end_ticks then None else kret s)"
| "timer_wait_loop call end_ticks (Suc env) s =
     (if timer_ticks s < end_ticks
      then kbind (timer_irq_handler call s) (timer_wait_loop call end_ticks env)
      else kret s)"

definition timer_wait ::
  "(u32 \<Rightarrow> int \<Rightarrow> 'a timer_scheme \<Rightarrow> 'a timer_scheme kresult) \<Rightarrow> u32 \<Rightarrow> nat \<Rightarrow> 'a timer_scheme \<Rightarrow>
     'a timer_scheme kresult" where
  "timer_wait call ticks env s = timer_wait_loop call (timer_ticks s + ticks) env s"

section \<open>Ticks\<close>

text \<open>A number of timer interrupts in a row.\<close>

fun timer_run ::
  "(u32 \<Rightarrow> int \<Rightarrow> 'a timer_scheme \<Rightarrow> 'a timer_scheme kresult) \<Rightarrow> nat \<Rightarrow> 'a timer_scheme \<Rightarrow>
     'a timer_scheme kresult" where
  "timer_run call 0 s = kret s"
| "timer_run call (Suc n) s = kbind (timer_irq_handler call s) (timer_run call n)"

definition keeps_ticks :: "(u32 \<Rightarrow> int \<Rightarrow> 'a timer_scheme \<Rightarrow> 'a timer_scheme kresult) \<Rightarrow> bool" where
  "keeps_ticks call \<longleftrightarrow> (\<forall>h sig s s'. call h sig s = kret s' \<longrightarrow> timer_ticks s' = timer_ticks s)"

lemma more_ticks:
  fixes s s' :: "'a timer_scheme"
  assumes "kheap.more s' = kheap.more s"
  shows "timer_ticks s' = timer_ticks s"
  using assms by (cases s; cases s'; simp)

lemma switch_to_ticks [simp]: "timer_ticks (switch_to n (s :: 'a timer_scheme)) = timer_ticks s"
  by (auto simp: switch_to_def Let_def upd_proc_def paging_switch_directory_def split: option.split)

lemma schedule_ticks:
  fixes s :: "'a timer_scheme"
  assumes ok: "keeps_ticks call" and ret: "process_schedule call s = kret s'"
  shows "timer_ticks s' = timer_ticks s"
proof -
  have signals: "timer_ticks s2 = timer_ticks s1" if "process_signal_process call pp s1 = kret s2" for pp s1 s2
  proof (rule signal_process_rel [OF _ _ _ _ _ _ that])
    show "timer_ticks s2 = timer_ticks s1" if "kfree e s1 = kret s2" for e and s1 s2 :: "'a timer_scheme"
      using that by (rule more_ticks [OF kfree_more])
  qed (use ok in \<open>auto simp: keeps_ticks_def upd_proc_def\<close>)
  show ?thesis
    using ret signals
    by (fastforce simp: process_schedule_def process_switch_def kbind_eq_kret split: option.splits if_splits)
qed

lemma timer_irq_ticks:
  "keeps_ticks call \<Longrightarrow> timer_irq_handler call s = kret s' \<Longrightarrow> timer_ticks s' = timer_ticks s + 1"
  by (auto simp: timer_irq_handler_def kbind_eq_kret Let_def split: if_splits dest!: schedule_ticks)

lemma wait_loop_run:
  assumes "keeps_ticks call" "timer_run call n s = kret s'" "unat (timer_ticks s) + n < 2 ^ 32" "n \<le> env"
  shows "timer_wait_loop call (timer_ticks s + of_nat n) env s = kret s'"
  using assms(2-4)
proof (induction n arbitrary: s env)
  case 0
  then show ?case by (cases env) auto
next
  case (Suc n)
  then obtain s1 where s1: "timer_irq_handler call s = kret s1" "timer_run call n s1 = kret s'"
    by (auto simp: kbind_eq_kret)
  have t1: "timer_ticks s1 = timer_ticks s + 1" by (rule timer_irq_ticks [OF assms(1) s1(1)])
  have u1: "unat (timer_ticks s1) = unat (timer_ticks s) + 1"
    using Suc.prems(2) unfolding t1 by (simp add: unat_add_u32)
  have "unat (timer_ticks s + of_nat (Suc n)) = unat (timer_ticks s) + Suc n"
    using Suc.prems(2) by (subst unat_add_u32) (simp_all add: unat_of_nat del: of_nat_Suc)
  then have lt: "timer_ticks s < timer_ticks s + of_nat (Suc n)" by (simp add: word_less_nat_alt del: of_nat_Suc)
  obtain env' where env: "env = Suc env'" using Suc.prems(3) by (cases env) auto
  have "timer_wait_loop call (timer_ticks s1 + of_nat n) env' s1 = kret s'"
    using Suc.IH [OF s1(2)] Suc.prems(2,3) u1 env by simp
  then show ?case using lt s1(1) env by (simp add: t1 add.commute add.left_commute)
qed

text \<open>
  C23. Waiting. When signal handlers leave the tick counter alone, a wait for \<open>n\<close> ticks that does not
  take the counter past \<open>2^32\<close> returns after exactly \<open>n\<close> timer interrupts, in the state they lead to;
  a wait that does take it past \<open>2^32\<close> returns at once.
\<close>

theorem timer_wait_exact:
  assumes "keeps_ticks call" "timer_run call (unat n) s = kret s'" "unat n \<le> env"
  shows "timer_wait call n env s = kret (if unat (timer_ticks s) + unat n < 2 ^ 32 then s' else s)"
proof (cases "unat (timer_ticks s) + unat n < 2 ^ 32")
  case True
  with wait_loop_run [OF assms(1,2) _ assms(3)] show ?thesis by (simp add: timer_wait_def)
next
  case False
  have wrap: "(a + b) mod M \<le> a" if "M \<le> a + b" "b < M" for a b M :: nat
  proof -
    have "(a + b) mod M = (a + b - M) mod M" using that(1) by (rule le_mod_geq)
    also have "\<dots> \<le> a + b - M" by (rule mod_less_eq_dividend)
    finally show ?thesis using that(2) by linarith
  qed
  have "unat n < 2 ^ LENGTH(32)" by (rule unsigned_less)
  with False wrap have "unat (timer_ticks s + n) \<le> unat (timer_ticks s)"
    unfolding unat_word_ariths by (simp add: not_less)
  then have "\<not> timer_ticks s < timer_ticks s + n" by (simp add: word_less_nat_alt)
  with False show ?thesis unfolding timer_wait_def by (cases env) auto
qed

section \<open>An example\<close>

definition timer_example :: timer where
  "timer_example = timer_boot intr_example"

theorem timer_wait_exact_witness:
  "\<exists>s'. timer_wait (\<lambda>_ _ s. kret s) 2 5 timer_example = kret s' \<and> timer_ticks s' = 2"
proof -
  have t: "timer_ticks timer_example = 0" by (simp add: timer_example_def timer_boot_def timer.defs interrupts.defs)
  have ok: "keeps_ticks (\<lambda>_ _ (s :: timer). kret s)" by (simp add: keeps_ticks_def)
  have u: "unat (2 :: u32) = Suc (Suc 0)" by simp
  obtain s' where s': "timer_run (\<lambda>_ _ s. kret s) (unat (2 :: u32)) timer_example = kret s'" "timer_ticks s' = 2"
    unfolding u using t by (simp add: timer_irq_handler_def Let_def)
  from timer_wait_exact [OF ok s'(1), of 5] s' t show ?thesis by simp
qed

end
