(* ===== verification/KFS_Syscall.thy ===== *)
theory KFS_Syscall
  imports KFS_Timer
begin

text \<open>
  System calls (\<open>src/syscall.c\<close>, \<open>include/syscall.h\<close>): the handler table, registration, the dispatcher
  that reads its arguments from the interrupt frame, and the calls the file defines itself. The
  function pointers of the table are the constructors of \<open>syscall_handler\<close>, and \<open>syscall_run\<close> calls the
  function a constructor stands for. The lemmas show which call every number reaches, what
  \<open>sys_write\<close> prints, and what an \<open>INT 0x80\<close> does through the assembly stub.
\<close>

section \<open>State and operations\<close>

datatype syscall_handler =
  Sys_write | Sys_read | Sys_exit | Sys_fork | Sys_wait | Sys_getuid | Sys_kill | Sys_mmap | Sys_brk
| Sys_socket | Sys_bind | Sys_listen | Sys_accept | Sys_connect | Sys_send | Sys_recv

record syscalls = timer +
  syscall_handlers :: "syscall_handler option list"

abbreviation (input) MAX_SYSCALLS :: nat where "MAX_SYSCALLS \<equiv> 256"

definition syscalls_boot :: "timer \<Rightarrow> syscalls" where
  "syscalls_boot s = timer.extend s (syscalls.fields (replicate MAX_SYSCALLS None))"

definition sys_write :: "u32 \<Rightarrow> u32 \<Rightarrow> u32 \<Rightarrow> 'a machine_scheme \<Rightarrow> int \<times> 'a machine_scheme" where
  "sys_write fd buf count s =
     (if fd = 1 \<and> buf \<noteq> 0 \<and> 0 < count
      then (sint count, fold (\<lambda>i s. printk ''%c'' [KChar (mem s (unat (buf + of_nat i)))] s) [0..<unat count] s)
      else (-1, s))"

definition sys_read :: "u32 \<Rightarrow> u32 \<Rightarrow> u32 \<Rightarrow> int" where
  "sys_read fd buf count = -1"

definition sys_exit :: "u32 \<Rightarrow> 'a machine_scheme \<Rightarrow> int \<times> 'a machine_scheme" where
  "sys_exit status s = (0, printk ''\<newline>[SYSCALL] Process exited with status %d\<newline>'' [KInt (sint status)] s)"

definition syscall_run ::
  "syscall_handler \<Rightarrow> u32 \<Rightarrow> u32 \<Rightarrow> u32 \<Rightarrow> u32 \<Rightarrow> u32 \<Rightarrow> 'a syscalls_scheme \<Rightarrow>
     (int \<times> 'a syscalls_scheme) kresult" where
  "syscall_run h a1 a2 a3 a4 a5 s = (case h of
       Sys_write \<Rightarrow> kret (sys_write a1 a2 a3 s)
     | Sys_read \<Rightarrow> kret (sys_read a1 a2 a3, s)
     | Sys_exit \<Rightarrow> kret (sys_exit a1 s)
     | Sys_fork \<Rightarrow> sys_fork s
     | Sys_wait \<Rightarrow> sys_wait a1 s
     | Sys_getuid \<Rightarrow> kret (sys_getuid s, s)
     | Sys_kill \<Rightarrow> sys_kill a1 a2 s
     | Sys_mmap \<Rightarrow> sys_mmap a1 a2 a3 a4 s
     | Sys_brk \<Rightarrow> sys_brk a1 s
     | Sys_socket \<Rightarrow> kret (sys_socket a1 a2 a3 s)
     | Sys_bind \<Rightarrow> kret (sys_bind a1 a2 s)
     | Sys_listen \<Rightarrow> kret (sys_listen a1 a2 s)
     | Sys_accept \<Rightarrow> klift (sys_accept a1 a2 s)
     | Sys_connect \<Rightarrow> kret (sys_connect a1 a2 s)
     | Sys_send \<Rightarrow> sys_send a1 a2 a3 a4 s
     | Sys_recv \<Rightarrow> sys_recv a1 a2 a3 a4 s)"

definition syscall_dispatcher :: "u32 \<Rightarrow> 'a syscalls_scheme \<Rightarrow> 'a syscalls_scheme kresult" where
  "syscall_dispatcher fp s =
     (let m = mem s; syscall_num = frame_eax fp m;
          arg1 = frame_ebx fp m; arg2 = frame_ecx fp m; arg3 = frame_edx fp m;
          arg4 = frame_esi fp m; arg5 = frame_edi fp m;
          invalid = (let s1 = printk ''[SYSCALL] Invalid syscall number: %d\<newline>'' [KInt (sint syscall_num)] s
                     in kret (s1\<lparr>mem := set_frame_eax fp (-1) (mem s1)\<rparr>))
      in if MAX_SYSCALLS \<le> unat syscall_num then invalid
         else case syscall_handlers s ! unat syscall_num of
           None \<Rightarrow> invalid
         | Some h \<Rightarrow> kbind (syscall_run h arg1 arg2 arg3 arg4 arg5 s) (\<lambda>(result, s1).
             kret (s1\<lparr>mem := set_frame_eax fp (word_of_int result) (mem s1)\<rparr>)))"

definition syscall_register ::
  "u32 \<Rightarrow> syscall_handler \<Rightarrow> 'a syscalls_scheme \<Rightarrow> int \<times> 'a syscalls_scheme" where
  "syscall_register syscall_num h s =
     (if MAX_SYSCALLS \<le> unat syscall_num then (-1, s)
      else (0, s\<lparr>syscall_handlers := (syscall_handlers s)[unat syscall_num := Some h]\<rparr>))"

definition syscall_unregister :: "u32 \<Rightarrow> 'a syscalls_scheme \<Rightarrow> int \<times> 'a syscalls_scheme" where
  "syscall_unregister syscall_num s =
     (if MAX_SYSCALLS \<le> unat syscall_num then (-1, s)
      else (0, s\<lparr>syscall_handlers := (syscall_handlers s)[unat syscall_num := None]\<rparr>))"

abbreviation (input) SYS_EXIT :: u32 where "SYS_EXIT \<equiv> 0"
abbreviation (input) SYS_WRITE :: u32 where "SYS_WRITE \<equiv> 1"
abbreviation (input) SYS_READ :: u32 where "SYS_READ \<equiv> 2"
abbreviation (input) SYS_KILL :: u32 where "SYS_KILL \<equiv> 8"
abbreviation (input) SYS_FORK :: u32 where "SYS_FORK \<equiv> 9"
abbreviation (input) SYS_WAIT :: u32 where "SYS_WAIT \<equiv> 10"
abbreviation (input) SYS_GETUID :: u32 where "SYS_GETUID \<equiv> 11"
abbreviation (input) SYS_MMAP :: u32 where "SYS_MMAP \<equiv> 12"
abbreviation (input) SYS_BRK :: u32 where "SYS_BRK \<equiv> 13"
abbreviation (input) SYS_SOCKET :: u32 where "SYS_SOCKET \<equiv> 14"
abbreviation (input) SYS_BIND :: u32 where "SYS_BIND \<equiv> 15"
abbreviation (input) SYS_LISTEN :: u32 where "SYS_LISTEN \<equiv> 16"
abbreviation (input) SYS_ACCEPT :: u32 where "SYS_ACCEPT \<equiv> 17"
abbreviation (input) SYS_CONNECT :: u32 where "SYS_CONNECT \<equiv> 18"
abbreviation (input) SYS_SEND :: u32 where "SYS_SEND \<equiv> 19"
abbreviation (input) SYS_RECV :: u32 where "SYS_RECV \<equiv> 20"

definition syscall_init :: "'a syscalls_scheme \<Rightarrow> 'a syscalls_scheme" where
  "syscall_init s =
     (let s1 = s\<lparr>syscall_handlers := replicate MAX_SYSCALLS None\<rparr>;
          s2 = idt_register_handler INT_SYSCALL Syscall_dispatcher s1;
          s3 = fold (\<lambda>(n, h) s. snd (syscall_register n h s))
                 [(SYS_WRITE, Sys_write), (SYS_READ, Sys_read), (SYS_EXIT, Sys_exit),
                  (SYS_FORK, Sys_fork), (SYS_WAIT, Sys_wait), (SYS_GETUID, Sys_getuid), (SYS_KILL, Sys_kill),
                  (SYS_MMAP, Sys_mmap), (SYS_BRK, Sys_brk),
                  (SYS_SOCKET, Sys_socket), (SYS_BIND, Sys_bind), (SYS_LISTEN, Sys_listen),
                  (SYS_ACCEPT, Sys_accept), (SYS_CONNECT, Sys_connect), (SYS_SEND, Sys_send),
                  (SYS_RECV, Sys_recv)] s2
      in printk ''[SYSCALL] Syscall system initialized\<newline>'' [] s3)"

section \<open>The table\<close>

text \<open>The call of every number of \<open>syscall.h\<close>.\<close>

fun syscall_of :: "nat \<Rightarrow> syscall_handler option" where
  "syscall_of n = map_of [(0, Sys_exit), (1, Sys_write), (2, Sys_read), (8, Sys_kill), (9, Sys_fork), (10, Sys_wait),
     (11, Sys_getuid), (12, Sys_mmap), (13, Sys_brk), (14, Sys_socket), (15, Sys_bind), (16, Sys_listen),
     (17, Sys_accept), (18, Sys_connect), (19, Sys_send), (20, Sys_recv)] n"

declare syscall_of.simps [simp del]

lemma syscall_init_handlers: "syscall_handlers (syscall_init s) = map syscall_of [0..<256]"
proof (rule nth_equalityI)
  have upd: "syscall_handlers (syscall_init s) = (replicate 256 None)
      [1 := Some Sys_write, 2 := Some Sys_read, 0 := Some Sys_exit, 9 := Some Sys_fork, 10 := Some Sys_wait,
       11 := Some Sys_getuid, 8 := Some Sys_kill, 12 := Some Sys_mmap, 13 := Some Sys_brk, 14 := Some Sys_socket,
       15 := Some Sys_bind, 16 := Some Sys_listen, 17 := Some Sys_accept, 18 := Some Sys_connect,
       19 := Some Sys_send, 20 := Some Sys_recv]"
    by (simp add: syscall_init_def syscall_register_def idt_register_handler_def Let_def)
  show "length (syscall_handlers (syscall_init s)) = length (map syscall_of [0..<256])" by (simp add: upd)
  fix i assume "i < length (syscall_handlers (syscall_init s))"
  then have "i < 256" by (simp add: upd)
  then show "syscall_handlers (syscall_init s) ! i = map syscall_of [0..<256] ! i"
    unfolding upd by (simp add: nth_list_update syscall_of.simps del: upt_rec_numeral)
qed

lemma syscall_init_registered:
  "length (interrupt_handlers s) = 256 \<Longrightarrow> interrupt_handlers (syscall_init s) ! 128 = Some Syscall_dispatcher"
  by (simp add: syscall_init_def syscall_register_def idt_register_handler_def Let_def)

text \<open>
  C25. Dispatch. With the table \<open>syscall_init\<close> makes, the dispatcher runs for every number in the frame's
  \<open>eax\<close> exactly the call \<open>syscall.h\<close> assigns to it, on the arguments in \<open>ebx\<close>, \<open>ecx\<close>, \<open>edx\<close>, \<open>esi\<close> and \<open>edi\<close>, and
  leaves its result in the frame's \<open>eax\<close>; for every other number, those of the declared but missing
  calls 3 to 7 included, it changes nothing but the screen and leaves -1 there.
\<close>

theorem syscall_dispatch:
  assumes "syscall_handlers s = syscall_handlers (syscall_init s0)"
  shows "syscall_dispatcher fp s = (let m = mem s in case syscall_of (unat (frame_eax fp m)) of
      Some h \<Rightarrow> kbind (syscall_run h (frame_ebx fp m) (frame_ecx fp m) (frame_edx fp m) (frame_esi fp m) (frame_edi fp m) s)
        (\<lambda>(result, s'). kret (s'\<lparr>mem := set_frame_eax fp (word_of_int result) (mem s')\<rparr>))
    | None \<Rightarrow> kret ((printk ''[SYSCALL] Invalid syscall number: %d\<newline>'' [KInt (sint (frame_eax fp m))] s)
        \<lparr>mem := set_frame_eax fp (-1) m\<rparr>))"
proof (cases "unat (frame_eax fp (mem s)) < 256")
  case True
  with assms show ?thesis
    by (simp add: syscall_dispatcher_def syscall_init_handlers Let_def split: option.split del: upt_rec_numeral)
next
  case False
  then have "syscall_of (unat (frame_eax fp (mem s))) = None" by (simp add: syscall_of.simps)
  with False show ?thesis by (simp add: syscall_dispatcher_def Let_def)
qed

section \<open>Writing\<close>

lemma printk_char_fold:
  "fold (\<lambda>i s. printk ''%c'' [KChar (mem s (f i))] s) xs s = on_hw (vga_print (map (\<lambda>i. char_of (unat (mem s (f i)))) xs)) s"
proof (induction xs arbitrary: s)
  case Nil
  then show ?case by (simp add: vga_print_def)
next
  case (Cons x xs)
  have one: "printk ''%c'' [KChar (mem s (f x))] s = on_hw (vga_print [char_of (unat (mem s (f x)))]) s"
    by (simp add: printk_hw_def printk_conv_def)
  show ?case
    by (simp only: fold.simps comp_def one Cons.IH)
      (simp add: on_hw_def vga_print_def)
qed

text \<open>
  \<open>sys_write\<close> on the standard output puts exactly the \<open>count\<close> bytes from \<open>buf\<close> on the screen, in
  order, zero bytes included, and returns \<open>count\<close>; on any other descriptor, with a null buffer or with
  nothing to write it prints nothing and returns -1.
\<close>

theorem sys_write_prints:
  "sys_write fd buf count s =
     (if fd = 1 \<and> buf \<noteq> 0 \<and> count \<noteq> 0
      then (sint count, on_hw (vga_print (map (\<lambda>i. char_of (unat (mem s (unat (buf + of_nat i))))) [0..<unat count])) s)
      else (-1, s))"
  by (simp add: sys_write_def printk_char_fold word_neq_0_conv del: message_simps)

section \<open>From the instruction to the dispatcher\<close>

text \<open>The function pointers of the interrupt table, with those of other files as an argument.\<close>

definition with_syscalls ::
  "(irq_handler \<Rightarrow> u32 \<Rightarrow> 'a syscalls_scheme \<Rightarrow> 'a syscalls_scheme kresult) \<Rightarrow>
     irq_handler \<Rightarrow> u32 \<Rightarrow> 'a syscalls_scheme \<Rightarrow> 'a syscalls_scheme kresult" where
  "with_syscalls other h fp s = (if h = Syscall_dispatcher then syscall_dispatcher fp s else other h fp s)"

lemma int80_handler:
  fixes s :: "'a syscalls_scheme"
  assumes esp: "276 \<le> unat (r_esp (regs s))" and reg: "interrupt_handlers s ! 128 = Some Syscall_dispatcher"
  defines "fp \<equiv> r_esp (regs s) - 68" and "s1 \<equiv> handler_entry 128 s"
  shows "interrupt_handler_common (with_syscalls other) fp s1 =
    kret ((printk ''[SYSCALL] Invalid syscall number: %d\<newline>'' [KInt (sint (r_esp (regs s) - 20))] s1)
      \<lparr>mem := wr32 (mem s1) (unat (r_esp (regs s)) - 40) (-1)\<rparr>)"
proof -
  have e: "72 \<le> unat (r_esp (regs s))" using esp by simp
  have fp: "unat fp + 28 = unat (r_esp (regs s)) - 40" using esp by (simp add: fp_def unat_minus_numeral)
  have n: "frame_int_no fp (mem s1) = 128"
    using handler_frame(1) [OF e, of 128] by (simp add: fp_def s1_def)
  have eax: "frame_eax fp (mem s1) = r_esp (regs s) - 20"
    using handler_frame(4) [OF e, of 128] by (simp add: fp_def s1_def)
  have h: "interrupt_handlers s1 ! 128 = Some Syscall_dispatcher"
    unfolding s1_def by (subst handler_entry_stack(3) [OF e]) (simp add: reg)
  have big: "256 \<le> unat (r_esp (regs s) - 20)" using esp by (simp add: unat_minus_numeral)
  show ?thesis
    using big by (simp add: interrupt_handler_common_def n h with_syscalls_def syscall_dispatcher_def eax
        set_frame_eax_def fp Let_def)
qed

text \<open>
  C24. No system call ever runs. Whatever the registers hold, an \<open>INT 0x80\<close> with the dispatcher
  registered and at least 276 bytes below the stack pointer ends in the branch for an invalid number:
  the number the dispatcher reads is the stack pointer the stub saved, because the stub pushes the
  segment registers after the general ones while \<open>struct interrupt_frame\<close> has them before. The code
  that made the call sees every register as it was, \<open>eax\<close> included, so that it does not even see
  the error: only the screen and the stack below its stack pointer have changed.
\<close>

theorem int80_always_invalid:
  fixes s :: "'a syscalls_scheme"
  assumes esp: "276 \<le> unat (r_esp (regs s))" and reg: "interrupt_handlers s ! 128 = Some Syscall_dispatcher"
  shows "\<exists>m. isr_noerrcode (with_syscalls other) 128 s =
      kret ((printk ''[SYSCALL] Invalid syscall number: %d\<newline>'' [KInt (sint (r_esp (regs s) - 20))] s)\<lparr>mem := m\<rparr>)
    \<and> (\<forall>x. x < unat (r_esp (regs s)) - 72 \<or> unat (r_esp (regs s)) \<le> x \<longrightarrow> m x = mem s x)"
proof -
  let ?e = "unat (r_esp (regs s))" and ?s1 = "handler_entry 128 s"
  let ?m = "wr32 (mem ?s1) (?e - 40) (-1)"
  have e: "72 \<le> ?e" using esp by simp
  have "saved_kept ?m (?e - 68) (saved (regs s) 128)"
    unfolding saved_kept_def
  proof
    fix i assume i: "i \<in> {0, 1, 2, 3, 4, 5, 6, 8, 9, 10, 11, 14, 15, 16 :: nat}"
    then have "rd32 ?m (?e - 68 + 4 * i) = rd32 (mem ?s1) (?e - 68 + 4 * i)"
      using esp by (intro rd32_wr32_other) auto
    also have "\<dots> = saved (regs s) 128 ! i"
      by (rule stack_holds_nth [OF handler_entry_stack(1) [OF e]]) (use i in \<open>auto simp: saved_def\<close>)
    finally show "rd32 ?m (?e - 68 + 4 * i) = saved (regs s) 128 ! i" .
  qed
  from stub_leave [OF e, of "(printk ''[SYSCALL] Invalid syscall number: %d\<newline>''
      [KInt (sint (r_esp (regs s) - 20))] ?s1)\<lparr>mem := ?m\<rparr>"] this
  have "isr_noerrcode (with_syscalls other) 128 s =
      kret ((printk ''[SYSCALL] Invalid syscall number: %d\<newline>'' [KInt (sint (r_esp (regs s) - 20))] ?s1)
        \<lparr>mem := ?m, regs := regs s\<rparr>)"
    by (simp add: isr_noerrcode_entry int80_handler [OF esp reg] Let_def)
  also have "(printk ''[SYSCALL] Invalid syscall number: %d\<newline>'' [KInt (sint (r_esp (regs s) - 20))] ?s1)
        \<lparr>mem := ?m, regs := regs s\<rparr> =
      (printk ''[SYSCALL] Invalid syscall number: %d\<newline>'' [KInt (sint (r_esp (regs s) - 20))] s)\<lparr>mem := ?m\<rparr>"
    using handler_entry_stack(3) [OF e, of 128] by (cases s; cases ?s1) simp
  finally have run: "isr_noerrcode (with_syscalls other) 128 s =
      kret ((printk ''[SYSCALL] Invalid syscall number: %d\<newline>'' [KInt (sint (r_esp (regs s) - 20))] s)\<lparr>mem := ?m\<rparr>)" .
  have "?m x = mem s x" if "x < ?e - 72 \<or> ?e \<le> x" for x
    using that esp handler_entry_stack(2) [OF e, of 128] by (subst wr32_other) auto
  with run show ?thesis by blast
qed

section \<open>An example\<close>

definition syscalls_example :: syscalls where
  "syscalls_example = syscall_init (syscalls_boot timer_example)"

lemma syscalls_example_fields:
  "regs syscalls_example = cpu_example" "length (interrupt_handlers (syscalls_boot timer_example)) = 256"
  by (simp_all add: syscalls_example_def syscalls_boot_def timer_example_def timer_boot_def syscall_init_def
      syscall_register_def idt_register_handler_def syscalls.defs timer.defs interrupts.defs intr_example_def
      interrupts_boot_def sockets.defs Let_def)

text \<open>A request to read, which the processor's registers hold as call 2, with a correct frame.\<close>

theorem syscall_dispatch_witness:
  "syscall_dispatcher 0x300000 (syscalls_example\<lparr>mem := wr32 (\<lambda>_. 0) 0x30001C 2\<rparr>) =
     kret (syscalls_example\<lparr>mem := wr32 (wr32 (\<lambda>_. 0) 0x30001C 2) 0x30001C (-1)\<rparr>)"
proof -
  have tab: "syscall_handlers (syscalls_example\<lparr>mem := wr32 (\<lambda>_. 0) 0x30001C 2\<rparr>) =
      syscall_handlers (syscall_init (syscalls_boot timer_example))" by (simp add: syscalls_example_def)
  show ?thesis
    unfolding syscall_dispatch [OF tab]
    by (simp add: frame_eax_def set_frame_eax_def syscall_of.simps syscall_run_def sys_read_def Let_def)
qed

theorem int80_always_invalid_witness:
  "r_eax (regs syscalls_example) = 1 \<and>
   (\<exists>s'. isr_noerrcode (with_syscalls (\<lambda>_ _ s. kret s)) 128 syscalls_example = kret s' \<and> regs s' = cpu_example)"
proof -
  have esp: "276 \<le> unat (r_esp (regs syscalls_example))" by (simp add: syscalls_example_fields cpu_example_def)
  have reg: "interrupt_handlers syscalls_example ! 128 = Some Syscall_dispatcher"
    unfolding syscalls_example_def by (rule syscall_init_registered) (rule syscalls_example_fields)
  have "r_eax (regs syscalls_example) = 1" by (simp add: syscalls_example_fields cpu_example_def)
  moreover obtain m where "isr_noerrcode (with_syscalls (\<lambda>_ _ s. kret s)) 128 syscalls_example =
      kret ((printk ''[SYSCALL] Invalid syscall number: %d\<newline>''
        [KInt (sint (r_esp (regs syscalls_example) - 20))] syscalls_example)\<lparr>mem := m\<rparr>)"
    using int80_always_invalid [OF esp reg] by blast
  ultimately show ?thesis by (simp add: syscalls_example_fields)
qed

end
