(* ===== verification/KFS_Signal.thy ===== *)
theory KFS_Signal
  imports KFS_Syscall
begin

text \<open>
  Kernel signals (\<open>src/signal.c\<close>, \<open>include/signal.h\<close>): the table of actions, the word of pending
  signals, immediate and deferred delivery. A handler is the address of its code, with 0 and 1 for
  \<open>SIG_DFL\<close> and \<open>SIG_IGN\<close>; what the code at another address does is the argument \<open>call\<close>. The lemmas show
  that \<open>SIGKILL\<close> and \<open>SIGSTOP\<close> can never be caught and in which order pending signals are delivered.
\<close>

section \<open>State and operations\<close>

record signal_action =
  sig_handler :: u32
  registered :: bool

record signals = syscalls +
  signal_actions :: "signal_action list"
  pending_signals :: u32

type_synonym 'a signal_code = "u32 \<Rightarrow> int \<Rightarrow> 'a signals_scheme \<Rightarrow> 'a signals_scheme kresult"

abbreviation (input) MAX_SIGNALS :: nat where "MAX_SIGNALS \<equiv> 32"
abbreviation (input) SIG_DFL :: u32 where "SIG_DFL \<equiv> 0"
abbreviation (input) SIG_IGN :: u32 where "SIG_IGN \<equiv> 1"
abbreviation (input) SIGKILL :: int where "SIGKILL \<equiv> 9"
abbreviation (input) SIGSTOP :: int where "SIGSTOP \<equiv> 19"

definition default_action :: signal_action where
  "default_action = \<lparr>sig_handler = SIG_DFL, registered = False\<rparr>"

definition signals_boot :: "syscalls \<Rightarrow> signals" where
  "signals_boot s = syscalls.extend s (signals.fields (replicate MAX_SIGNALS default_action) 0)"

definition signal_names :: "string list" where
  "signal_names = [''SIGNAL0'', ''SIGHUP'', ''SIGINT'', ''SIGQUIT'', ''SIGILL'', ''SIGTRAP'', ''SIGABRT'', ''SIGBUS'',
     ''SIGFPE'', ''SIGKILL'', ''SIGUSR1'', ''SIGSEGV'', ''SIGUSR2'', ''SIGPIPE'', ''SIGALRM'', ''SIGTERM'',
     ''SIGSTKFLT'', ''SIGCHLD'', ''SIGCONT'', ''SIGSTOP'', ''SIGTSTP'']"

definition signal_name :: "int \<Rightarrow> string" where
  "signal_name signal = (if signal < 0 \<or> 20 < signal then ''UNKNOWN'' else signal_names ! nat signal)"

definition signal_init :: "'a signals_scheme \<Rightarrow> 'a signals_scheme" where
  "signal_init s = s\<lparr>signal_actions := replicate MAX_SIGNALS default_action, pending_signals := 0\<rparr>"

definition signal_valid :: "int \<Rightarrow> bool" where
  "signal_valid signal \<longleftrightarrow> 0 < signal \<and> signal < int MAX_SIGNALS"

definition signal_register :: "int \<Rightarrow> u32 \<Rightarrow> 'a signals_scheme \<Rightarrow> int \<times> 'a signals_scheme" where
  "signal_register signal h s =
     (if \<not> signal_valid signal then (-1, s)
      else if signal = SIGKILL \<or> signal = SIGSTOP then (-1, s)
      else (0, s\<lparr>signal_actions := (signal_actions s)[nat signal := \<lparr>sig_handler = h, registered = True\<rparr>]\<rparr>))"

definition signal_unregister :: "int \<Rightarrow> 'a signals_scheme \<Rightarrow> int \<times> 'a signals_scheme" where
  "signal_unregister signal s =
     (if \<not> signal_valid signal then (-1, s)
      else (0, s\<lparr>signal_actions := (signal_actions s)[nat signal := default_action]\<rparr>))"

definition signal_raise :: "int \<Rightarrow> 'a signals_scheme \<Rightarrow> int \<times> 'a signals_scheme" where
  "signal_raise signal s =
     (if \<not> signal_valid signal then (-1, s)
      else (0, s\<lparr>pending_signals := pending_signals s OR push_bit (nat signal) 1\<rparr>))"

definition signal_send :: "'a signal_code \<Rightarrow> int \<Rightarrow> 'a signals_scheme \<Rightarrow> (int \<times> 'a signals_scheme) kresult" where
  "signal_send call signal s =
     (if \<not> signal_valid signal then kret (-1, s)
      else
        let a = signal_actions s ! nat signal; h = sig_handler a
        in kbind
             (if registered a \<and> h \<noteq> SIG_DFL \<and> h \<noteq> SIG_IGN then call h signal s
              else if h = SIG_DFL
              then kret (printk ''[SIGNAL] %s (default action)\<newline>'' [KStr (Some (signal_name signal))] s)
              else kret s)
             (\<lambda>s'. kret (0, s')))"

text \<open>The loop over the pending bits: the bit is cleared before the handler runs.\<close>

definition deliver_pending :: "'a signal_code \<Rightarrow> nat \<Rightarrow> 'a signals_scheme \<Rightarrow> 'a signals_scheme kresult" where
  "deliver_pending call i s =
     kbind (signal_send call (int i) (s\<lparr>pending_signals := pending_signals s AND NOT (push_bit i 1)\<rparr>)) (\<lambda>(r, s'). kret s')"

definition signal_process_pending :: "'a signal_code \<Rightarrow> 'a signals_scheme \<Rightarrow> 'a signals_scheme kresult" where
  "signal_process_pending call s =
     (if pending_signals s = 0 then kret s
      else kfold (\<lambda>i s. if pending_signals s AND push_bit i 1 \<noteq> 0 then deliver_pending call i s else kret s)
             [1..<MAX_SIGNALS] s)"

section \<open>Actions\<close>

text \<open>
  What holds in every state the operations reach: the table has its size, signal 0 is never pending
  and the two signals that cannot be caught have their default action.
\<close>

definition signals_ok :: "'a signals_scheme \<Rightarrow> bool" where
  "signals_ok s \<longleftrightarrow> length (signal_actions s) = 32 \<and> \<not> bit (pending_signals s) 0
     \<and> signal_actions s ! 9 = default_action \<and> signal_actions s ! 19 = default_action"

datatype signal_op = Register int u32 | Unregister int | Raise int | Send int | Process_pending

definition signal_step :: "'a signal_code \<Rightarrow> signal_op \<Rightarrow> 'a signals_scheme \<Rightarrow> 'a signals_scheme kresult" where
  "signal_step call p s = (case p of
       Register n h \<Rightarrow> kret (snd (signal_register n h s))
     | Unregister n \<Rightarrow> kret (snd (signal_unregister n s))
     | Raise n \<Rightarrow> kret (snd (signal_raise n s))
     | Send n \<Rightarrow> kbind (signal_send call n s) (\<lambda>(r, s'). kret s')
     | Process_pending \<Rightarrow> signal_process_pending call s)"

lemma kfold_invariant:
  assumes "\<And>x s s'. P s \<Longrightarrow> f x s = kret s' \<Longrightarrow> P s'" "P s" "kfold f xs s = kret s'"
  shows "P s'"
  using assms(2,3) by (induction xs arbitrary: s) (auto simp: kbind_eq_kret intro: assms(1))

lemma and_exp_bit: "x AND 2 ^ i \<noteq> 0 \<longleftrightarrow> bit (x :: u32) i"
  by (simp add: and_exp_eq_0_iff_not_bit push_bit_of_1)

lemma bit_raise: "bit (x OR 2 ^ i :: u32) j \<longleftrightarrow> bit x j \<or> i = j \<and> j < 32"
  by (auto simp: bit_simps)

lemma bit_clear: "bit (x AND NOT (2 ^ i) :: u32) j \<longleftrightarrow> bit x j \<and> i \<noteq> j"
  by (auto simp: bit_simps dest: bit_imp_le_length)

text \<open>What handlers may do: go through the operations, or raise nothing.\<close>

definition keeps_signals :: "'a signal_code \<Rightarrow> bool" where
  "keeps_signals call \<longleftrightarrow> (\<forall>h n s s'. signals_ok s \<longrightarrow> call h n s = kret s' \<longrightarrow> signals_ok s')"

definition raises_nothing :: "'a signal_code \<Rightarrow> bool" where
  "raises_nothing call \<longleftrightarrow> (\<forall>h n s s'. call h n s = kret s' \<longrightarrow> pending_signals s' = pending_signals s)"

lemma keeps_signalsD: "keeps_signals call \<Longrightarrow> signals_ok s \<Longrightarrow> call h n s = kret s' \<Longrightarrow> signals_ok s'"
  by (auto simp: keeps_signals_def)

lemma signals_ok_send:
  assumes call: "keeps_signals call"
    and "signals_ok s" "signal_send call n s = kret (r, s')"
  shows "signals_ok s'"
proof -
  have msg: "signals_ok (s\<lparr>hw := h\<rparr>)" for h using assms(2) by (simp add: signals_ok_def)
  show ?thesis
    using assms(2,3) by (auto simp: signal_send_def Let_def kbind_eq_kret intro: keeps_signalsD [OF call] msg split: if_splits)
qed

lemma signals_ok_deliver:
  assumes call: "keeps_signals call"
    and "signals_ok s" "deliver_pending call i s = kret s'"
  shows "signals_ok s'"
proof -
  have "signals_ok (s\<lparr>pending_signals := pending_signals s AND NOT (push_bit i 1)\<rparr>)"
    using assms(2) by (simp add: signals_ok_def bit_clear)
  from signals_ok_send [OF call this] assms(3) show ?thesis
    by (auto simp: deliver_pending_def kbind_eq_kret)
qed

lemma signals_ok_process:
  assumes call: "keeps_signals call" and ok: "signals_ok s" and run: "signal_process_pending call s = kret s'"
  shows "signals_ok s'"
proof (cases "pending_signals s = 0")
  case False
  let ?f = "\<lambda>i s. if pending_signals s AND push_bit i 1 \<noteq> 0 then deliver_pending call i s else kret s"
  have step: "signals_ok s2" if "signals_ok s1" "?f i s1 = kret s2" for i s1 s2
    using that by (auto intro: signals_ok_deliver [OF call] split: if_splits)
  have "kfold ?f [1..<32] s = kret s'" using run False unfolding signal_process_pending_def by (simp only: if_False)
  from kfold_invariant [where P = signals_ok, OF _ ok this] step show ?thesis by blast
qed (use ok run in \<open>simp add: signal_process_pending_def\<close>)

lemma signals_ok_step:
  assumes call: "keeps_signals call"
    and ok: "signals_ok s" and run: "signal_step call p s = kret s'"
  shows "signals_ok s'"
proof (cases p)
  case (Register n h)
  then show ?thesis using ok run
    by (auto simp: signal_step_def signal_register_def signal_valid_def signals_ok_def nth_list_update split: if_splits)
next
  case (Unregister n)
  then show ?thesis using ok run
    by (auto simp: signal_step_def signal_unregister_def signal_valid_def signals_ok_def nth_list_update split: if_splits)
next
  case (Raise n)
  then show ?thesis using ok run
    by (auto simp: signal_step_def signal_raise_def signal_valid_def signals_ok_def bit_raise split: if_splits)
next
  case (Send n)
  then show ?thesis using ok run
    by (auto simp: signal_step_def kbind_eq_kret intro: signals_ok_send [OF call])
next
  case Process_pending
  with run have "signal_process_pending call s = kret s'" by (simp add: signal_step_def)
  then show ?thesis by (rule signals_ok_process [OF call ok])
qed

text \<open>
  C26. \<open>SIGKILL\<close> and \<open>SIGSTOP\<close> cannot be caught. After \<open>signal_init\<close> and any sequence of registrations,
  unregistrations, raised and sent signals and deliveries, with handlers that may do all of this
  themselves as long as they only go through these operations (they keep \<open>signals_ok\<close>), sending either
  signal runs no handler: it takes the default action.
\<close>

theorem signals_uncatchable:
  assumes call: "keeps_signals call"
    and run: "kfold (signal_step call) ops (signal_init s) = kret s'" and n: "n = SIGKILL \<or> n = SIGSTOP"
  shows "signal_send call n s' =
    kret (0, printk ''[SIGNAL] %s (default action)\<newline>'' [KStr (Some (signal_name n))] s')"
proof -
  have "signals_ok (signal_init s)" by (simp add: signals_ok_def signal_init_def)
  from kfold_invariant [where P = signals_ok, OF _ this run] signals_ok_step [OF call] have "signals_ok s'" by blast
  with n show ?thesis
    by (auto simp: signal_send_def signal_valid_def signals_ok_def default_action_def Let_def)
qed

section \<open>Delivery\<close>

lemma deliver_pending_bits:
  assumes "raises_nothing call"
    and "deliver_pending call i s = kret s'"
  shows "pending_signals s' = pending_signals s AND NOT (2 ^ i)"
  using assms
  by (auto simp: deliver_pending_def signal_send_def raises_nothing_def Let_def kbind_eq_kret split: if_splits)

lemma deliver_loop:
  assumes call: "raises_nothing call"
    and "distinct is"
  shows "kfold (\<lambda>i s. if pending_signals s AND push_bit i 1 \<noteq> 0 then deliver_pending call i s else kret s) is s =
    kfold (deliver_pending call) (filter (bit (pending_signals s)) is) s"
  using assms(2)
proof (induction "is" arbitrary: s)
  case (Cons i "is")
  show ?case
  proof (cases "bit (pending_signals s) i")
    case True
    have "kfold (\<lambda>i s. if pending_signals s AND push_bit i 1 \<noteq> 0 then deliver_pending call i s else kret s) is s' =
        kfold (deliver_pending call) (filter (bit (pending_signals s)) is) s'"
      if "deliver_pending call i s = kret s'" for s'
    proof -
      have "filter (bit (pending_signals s')) is = filter (bit (pending_signals s)) is"
        using Cons.prems deliver_pending_bits [OF call that] by (intro filter_cong) (auto simp: bit_clear)
      with Cons show ?thesis by simp
    qed
    then show ?thesis using True
      by (auto simp: and_exp_bit kbind_def kret_def split: option.split sum.split Option.bind_split)
  next
    case False
    with Cons show ?thesis by (simp add: and_exp_bit)
  qed
qed simp

text \<open>
  C27. Deferred delivery. When the handlers raise no signals themselves, \<open>signal_process_pending\<close>
  delivers exactly the signals that are pending when it starts, each once, in increasing order of
  their numbers, and none is pending afterwards.
\<close>

theorem signals_delivered_in_order:
  assumes call: "raises_nothing call"
    and ok: "signals_ok s"
  shows "signal_process_pending call s = kfold (deliver_pending call) (filter (bit (pending_signals s)) [1..<32]) s
    \<and> (signal_process_pending call s = kret s' \<longrightarrow> pending_signals s' = 0)"
proof -
  have bits: "\<forall>i. bit (pending_signals s') i \<longleftrightarrow> bit (pending_signals s) i \<and> i \<notin> set is"
    if "kfold (deliver_pending call) is s = kret s'" for "is" s s'
    using that
  proof (induction "is" arbitrary: s)
    case (Cons i "is")
    then obtain s1 where "deliver_pending call i s = kret s1" "kfold (deliver_pending call) is s1 = kret s'"
      by (auto simp: kbind_eq_kret)
    with Cons.IH deliver_pending_bits [OF call] show ?case by (auto simp: bit_clear)
  qed simp
  have eq: "signal_process_pending call s = kfold (deliver_pending call) (filter (bit (pending_signals s)) [1..<32]) s"
    unfolding signal_process_pending_def deliver_loop [OF call, OF distinct_upt] by (simp del: upt_rec_numeral)
  have "\<not> bit (pending_signals s') i" if "signal_process_pending call s = kret s'" for i
    using bits [OF that [unfolded eq]] ok bit_imp_le_length [of "pending_signals s" i]
    by (cases "i = 0") (auto simp: signals_ok_def simp del: upt_rec_numeral)
  then have "signal_process_pending call s = kret s' \<longrightarrow> pending_signals s' = 0" by (simp add: bit_eq_iff)
  with eq show ?thesis by simp
qed

section \<open>An example\<close>

text \<open>Handlers that do nothing, and a state in which \<open>SIGTERM\<close> and then \<open>SIGINT\<close> have been raised.\<close>

definition no_code :: "'a signal_code" where
  "no_code h n s = kret s"

definition pending_example :: signals where
  "pending_example = snd (signal_raise 2 (snd (signal_raise 15 (signal_init (signals_boot syscalls_example)))))"

theorem signals_uncatchable_witness:
  "\<exists>s'. kfold (signal_step no_code) [Register 9 0x1000, Register 2 0x2000, Raise 2, Send 2] (signal_init pending_example)
       = kret s'
     \<and> signal_send no_code 9 s' = kret (0, printk ''[SIGNAL] %s (default action)\<newline>'' [KStr (Some ''SIGKILL'')] s')"
proof -
  have k: "keeps_signals (no_code :: unit signal_code)" by (simp add: keeps_signals_def no_code_def)
  obtain s' where run: "kfold (signal_step no_code) [Register 9 0x1000, Register 2 0x2000, Raise 2, Send 2]
      (signal_init pending_example) = kret s'"
    by (simp add: signal_step_def signal_send_def signal_register_def signal_raise_def signal_valid_def
        signal_init_def no_code_def Let_def)
  have "signal_name 9 = ''SIGKILL''" by (simp add: signal_name_def signal_names_def)
  with signals_uncatchable [OF k run, of 9] run show ?thesis by simp
qed

theorem signals_delivered_in_order_witness:
  "signal_process_pending no_code pending_example = kfold (deliver_pending no_code) [2, 15] pending_example"
proof -
  have k: "raises_nothing (no_code :: unit signal_code)" by (simp add: raises_nothing_def no_code_def)
  have p: "pending_signals pending_example = 0x8004"
    by (simp add: pending_example_def signal_raise_def signal_init_def signal_valid_def)
  have ok: "signals_ok pending_example"
    by (simp add: signals_ok_def pending_example_def signal_raise_def signal_init_def signal_valid_def)
  have f: "filter (bit (0x8004 :: u32)) [1..<32] = [2, 15]" by code_simp
  from signals_delivered_in_order [OF k ok] show ?thesis by (simp only: p f)
qed

end
