(* ===== verification/KFS_Screen.thy ===== *)
theory KFS_Screen
  imports KFS_Signal
begin

text \<open>
  Virtual screens (\<open>src/screen.c\<close>, \<open>include/screen.h\<close>): four saved copies of the video memory and of the
  cursor. The lemmas show that together with the live screen they behave as four independent screens:
  printing touches the current one only and switching loses nothing.
\<close>

section \<open>State and operations\<close>

record screens = signals +
  screen_buffers :: "u16 list list"
  current_screen :: int
  screen_cursors :: "(nat \<times> nat) list"

abbreviation (input) MAX_SCREENS :: nat where "MAX_SCREENS \<equiv> 4"

definition blank :: u16 where
  "blank = 32 OR push_bit 8 0x07"

definition screens_boot :: "signals \<Rightarrow> screens" where
  "screens_boot s = signals.extend s (screens.fields (replicate MAX_SCREENS (replicate 2000 0)) 0
     (replicate MAX_SCREENS (0, 0)))"

definition vga_get_cursor_position :: "'a hardware_scheme \<Rightarrow> nat \<times> nat" where
  "vga_get_cursor_position h = (vga_row h, vga_column h)"

definition screen_init :: "'a screens_scheme \<Rightarrow> 'a screens_scheme" where
  "screen_init s = s\<lparr>screen_buffers :=
       (replicate MAX_SCREENS (replicate (VGA_WIDTH * VGA_HEIGHT) blank))[0 := vram (hw s)],
     screen_cursors := replicate MAX_SCREENS (0, 0), current_screen := 0\<rparr>"

definition screen_save :: "'a screens_scheme \<Rightarrow> 'a screens_scheme" where
  "screen_save s =
     s\<lparr>screen_buffers := (screen_buffers s)[nat (current_screen s) := vram (hw s)],
       screen_cursors := (screen_cursors s)[nat (current_screen s) := vga_get_cursor_position (hw s)]\<rparr>"

definition screen_restore :: "int \<Rightarrow> 'a screens_scheme \<Rightarrow> 'a screens_scheme" where
  "screen_restore screen_num s =
     (if screen_num < 0 \<or> int MAX_SCREENS \<le> screen_num then s
      else
        let (row, col) = screen_cursors s ! nat screen_num
        in on_hw (\<lambda>h. vga_set_cursor_position row col (h\<lparr>vram := screen_buffers s ! nat screen_num\<rparr>)) s)"

definition screen_switch :: "int \<Rightarrow> 'a screens_scheme \<Rightarrow> 'a screens_scheme" where
  "screen_switch screen_num s =
     (if screen_num < 0 \<or> int MAX_SCREENS \<le> screen_num \<or> screen_num = current_screen s then s
      else screen_restore screen_num ((screen_save s)\<lparr>current_screen := screen_num\<rparr>))"

definition screen_get_current :: "'a screens_scheme \<Rightarrow> int" where
  "screen_get_current s = current_screen s"

section \<open>Four independent screens\<close>

text \<open>
  The abstract state: the contents and the cursor of each of the four screens, the number of the
  current one and the colour of what is printed next, which the screens share.
\<close>

type_synonym screen = "u16 list \<times> nat \<times> nat"

definition live_screen :: "'a hardware_scheme \<Rightarrow> screen" where
  "live_screen h = (vram h, vga_row h, vga_column h)"

definition on_screen :: "u8 \<Rightarrow> screen \<Rightarrow> hardware" where
  "on_screen color = (\<lambda>(cells, row, col). power_on\<lparr>vram := cells, vga_row := row, vga_column := col, vga_color := color\<rparr>)"

definition screens_abs :: "'a screens_scheme \<Rightarrow> screen list \<times> nat \<times> u8" where
  "screens_abs s = ((zip (screen_buffers s) (screen_cursors s))[nat (current_screen s) := live_screen (hw s)],
     nat (current_screen s), vga_color (hw s))"

definition screens_ok :: "'a screens_scheme \<Rightarrow> bool" where
  "screens_ok s \<longleftrightarrow> 0 \<le> current_screen s \<and> current_screen s < 4 \<and> vga_ok (hw s)
     \<and> length (screen_buffers s) = 4 \<and> length (screen_cursors s) = 4
     \<and> (\<forall>b \<in> set (screen_buffers s). length b = 2000)
     \<and> (\<forall>(row, col) \<in> set (screen_cursors s). row < 25 \<and> col < 80)"

datatype screen_op = Print string | Set_color u8 u8 | Switch int

fun screen_step :: "screen_op \<Rightarrow> 'a screens_scheme \<Rightarrow> 'a screens_scheme" where
  "screen_step (Print t) s = on_hw (vga_print t) s"
| "screen_step (Set_color fg bg) s = on_hw (vga_set_color fg bg) s"
| "screen_step (Switch n) s = screen_switch n s"

fun abs_step :: "screen_op \<Rightarrow> screen list \<times> nat \<times> u8 \<Rightarrow> screen list \<times> nat \<times> u8" where
  "abs_step (Print t) (scrs, cur, color) =
     (scrs[cur := live_screen (vga_print t (on_screen color (scrs ! cur)))], cur, color)"
| "abs_step (Set_color fg bg) (scrs, cur, color) = (scrs, cur, vga_entry_color fg bg)"
| "abs_step (Switch n) (scrs, cur, color) = (scrs, if 0 \<le> n \<and> n < 4 then nat n else cur, color)"

lemma screen_init_ok: "vga_ok (hw s) \<Longrightarrow> screens_ok (screen_init s)"
  by (auto simp: screens_ok_def screen_init_def vga_ok_def numeral_eq_Suc)

text \<open>Printing depends on the contents, the cursor and the colour only.\<close>

lemma vga_putchar_live:
  "live_screen h = live_screen h' \<Longrightarrow> vga_color h = vga_color h' \<Longrightarrow>
     live_screen (vga_putchar c h) = live_screen (vga_putchar c h') \<and> vga_color (vga_putchar c h) = vga_color h'"
  by (auto simp: live_screen_def vga_putchar_def vga_update_cursor_eq vga_roll_def vga_wrap_def vga_put_def
      vga_putentryat_def vga_scroll_def)

lemma vga_print_live:
  "live_screen h = live_screen h' \<Longrightarrow> vga_color h = vga_color h' \<Longrightarrow>
     live_screen (vga_print t h) = live_screen (vga_print t h') \<and> vga_color (vga_print t h) = vga_color h'"
  unfolding vga_print_def
proof (induction t arbitrary: h h')
  case (Cons c t)
  show ?case
    using vga_putchar_live [OF Cons.prems, of "of_char c"] vga_putchar_live [of h' h' "of_char c"]
      Cons.IH [of "vga_putchar (of_char c) h" "vga_putchar (of_char c) h'"] by simp
qed simp

lemma on_screen_live [simp]:
  "live_screen (on_screen color scr) = scr" "vga_color (on_screen color scr) = color"
  by (simp_all add: live_screen_def on_screen_def split: prod.split)

lemma screen_switch_refines:
  assumes ok: "screens_ok s"
  shows "screens_ok (screen_switch n s) \<and> screens_abs (screen_switch n s) = abs_step (Switch n) (screens_abs s)"
proof (cases "n < 0 \<or> 4 \<le> n \<or> n = current_screen s")
  case True
  then show ?thesis using ok by (auto simp: screen_switch_def screens_abs_def screens_ok_def)
next
  case False
  let ?c = "nat (current_screen s)" and ?n = "nat n"
  obtain row col where rc: "screen_cursors s ! ?n = (row, col)" by (cases "screen_cursors s ! ?n")
  have n: "?n < 4" "?n \<noteq> ?c" "?c < 4" using False ok by (auto simp: screens_ok_def)
  have "screen_cursors s ! ?n \<in> set (screen_cursors s)" "screen_buffers s ! ?n \<in> set (screen_buffers s)"
    using n ok by (auto simp: screens_ok_def)
  then have b: "row < 25" "col < 80" "length (screen_buffers s ! ?n) = 2000" using ok rc by (auto simp: screens_ok_def)
  have sw: "screen_switch n s = s\<lparr>screen_buffers := (screen_buffers s)[?c := vram (hw s)],
      screen_cursors := (screen_cursors s)[?c := (vga_row (hw s), vga_column (hw s))], current_screen := n,
      hw := vga_update_cursor ((hw s)\<lparr>vram := screen_buffers s ! ?n, vga_row := row, vga_column := col\<rparr>)\<rparr>"
    using False n rc b by (simp add: screen_switch_def screen_restore_def screen_save_def vga_get_cursor_position_def
        vga_set_cursor_position_def)
  have "screens_ok (screen_switch n s)"
    using ok False b unfolding sw by (auto simp: screens_ok_def vga_ok_def vga_update_cursor_eq dest!: set_update_subset_insert [THEN subsetD])
  moreover have "screens_abs (screen_switch n s) = abs_step (Switch n) (screens_abs s)"
    using ok False n rc unfolding sw
    by (auto simp: screens_abs_def screens_ok_def live_screen_def vga_update_cursor_eq update_zip list_update_swap
        intro!: nth_equalityI simp: nth_list_update)
  ultimately show ?thesis by blast
qed

lemma screen_step_refines:
  assumes ok: "screens_ok s"
  shows "screens_ok (screen_step p s) \<and> screens_abs (screen_step p s) = abs_step p (screens_abs s)"
proof (cases p)
  case (Print t)
  let ?c = "nat (current_screen s)" and ?zs = "zip (screen_buffers s) (screen_cursors s)"
  have c: "?c < length ?zs" using ok by (auto simp: screens_ok_def)
  have live: "live_screen (vga_print t (hw s)) =
      live_screen (vga_print t (on_screen (vga_color (hw s)) (live_screen (hw s))))"
    and col: "vga_color (vga_print t (hw s)) = vga_color (hw s)"
    using vga_print_live [of "hw s" "on_screen (vga_color (hw s)) (live_screen (hw s))" t] by simp_all
  have "screens_ok (screen_step p s)" using ok Print by (simp add: screens_ok_def vga_print_ok)
  with c show ?thesis using live col by (simp add: Print screens_abs_def)
next
  case (Set_color fg bg)
  then show ?thesis using ok
    by (simp add: screens_ok_def screens_abs_def live_screen_def vga_set_color_def vga_ok_def)
next
  case (Switch n)
  then show ?thesis using screen_switch_refines [OF ok, of n] by simp
qed

text \<open>
  C28. The virtual screens refine four independent screens. For every sequence of printed texts,
  colour changes and switches (to numbers that do not exist as well), the live screen and the saved
  copies hold exactly what the sequence leaves on four separate screens of which each text goes to
  the current one; the cursor of each screen comes back with its contents, and stays on the screen.
\<close>

theorem screens_refine:
  assumes "screens_ok s"
  shows "screens_ok (fold screen_step ops s) \<and> screens_abs (fold screen_step ops s) = fold abs_step ops (screens_abs s)"
  using assms
proof (induction ops arbitrary: s)
  case (Cons p ops)
  from Cons.IH [of "screen_step p s"] screen_step_refines [OF Cons.prems, of p] show ?case by simp
qed simp

section \<open>An example\<close>

definition screens_example :: screens where
  "screens_example = screen_init (screens_boot pending_example\<lparr>hw := vga_init power_on\<rparr>)"

theorem screens_refine_witness:
  "screens_abs (fold screen_step [Print ''a'', Switch 2, Print ''b'', Switch 0] screens_example) =
     fold abs_step [Print ''a'', Switch 2, Print ''b'', Switch 0] (screens_abs screens_example)"
proof -
  have "screens_ok screens_example" unfolding screens_example_def by (rule screen_init_ok) (simp add: vga_init_ok)
  from screens_refine [OF this] show ?thesis by blast
qed

end
