(* ===== verification/KFS_Scrollback.thy ===== *)
theory KFS_Scrollback
  imports KFS_Screen
begin

text \<open>
  The scrollback buffer (\<open>src/scrollback.c\<close>, \<open>include/scrollback.h\<close>): a circular buffer of screen lines,
  and a view of it that replaces the screen while the user has scrolled up. The kernel keeps the
  calls into it disabled (\<open>src/vga.c\<close>, \<open>src/kernel.c\<close>); only the mouse driver uses it. The lemmas show
  what a scrolled screen displays and when the screen comes back.
\<close>

section \<open>State and operations\<close>

record scrollback = screens +
  scrollback_buffer :: "u16 list list"
  scrollback_head :: nat
  scrollback_count :: nat
  scrollback_offset :: int
  saved_screen :: "u16 list"
  is_scrolled :: bool

abbreviation (input) SCROLLBACK_LINES :: nat where "SCROLLBACK_LINES \<equiv> 200"

definition scrollback_boot :: "screens \<Rightarrow> scrollback" where
  "scrollback_boot s = screens.extend s (scrollback.fields (replicate SCROLLBACK_LINES (replicate VGA_WIDTH 0)) 0 0 0
     (replicate (VGA_HEIGHT * VGA_WIDTH) 0) False)"

definition scrollback_init :: "'a scrollback_scheme \<Rightarrow> 'a scrollback_scheme" where
  "scrollback_init s = s\<lparr>scrollback_buffer := replicate SCROLLBACK_LINES (replicate VGA_WIDTH blank),
     scrollback_head := 0, scrollback_count := 0, scrollback_offset := 0, is_scrolled := False\<rparr>"

text \<open>The argument is the line the pointer leads to.\<close>

definition scrollback_add_line :: "u16 list \<Rightarrow> 'a scrollback_scheme \<Rightarrow> 'a scrollback_scheme" where
  "scrollback_add_line line_data s =
     (if is_scrolled s then s
      else s\<lparr>scrollback_buffer := (scrollback_buffer s)[scrollback_head s := line_data],
             scrollback_head := (scrollback_head s + 1) mod SCROLLBACK_LINES,
             scrollback_count := (if scrollback_count s < SCROLLBACK_LINES then scrollback_count s + 1
                                  else scrollback_count s)\<rparr>)"

definition scrollback_reset :: "'a scrollback_scheme \<Rightarrow> 'a scrollback_scheme" where
  "scrollback_reset s =
     (let s1 = (if is_scrolled s then (on_hw (\<lambda>h. h\<lparr>vram := saved_screen s\<rparr>) s)\<lparr>is_scrolled := False\<rparr> else s)
      in s1\<lparr>scrollback_offset := 0\<rparr>)"

text \<open>The rows of the view and the mark in its corner.\<close>

definition scroll_row :: "'a scrollback_scheme \<Rightarrow> nat \<Rightarrow> nat \<Rightarrow> u16 list" where
  "scroll_row s start_line row =
     (let buffer_index = (start_line + row) mod SCROLLBACK_LINES
      in if start_line + row < scrollback_count s then scrollback_buffer s ! buffer_index
         else replicate VGA_WIDTH blank)"

definition scroll_indicator :: "u16 list" where
  "scroll_indicator = map (\<lambda>c. of_char c OR push_bit 8 14) ''[SCROLL]''"

definition mark_corner :: "u16 list \<Rightarrow> u16 list" where
  "mark_corner cells = take (VGA_WIDTH - 8) cells @ scroll_indicator @ drop VGA_WIDTH cells"

definition scroll_view :: "'a scrollback_scheme \<Rightarrow> u16 list" where
  "scroll_view s =
     (let start_line = int (scrollback_count s) - int VGA_HEIGHT - scrollback_offset s;
          start_line = (if start_line < 0 then 0 else start_line)
      in mark_corner (concat (map (scroll_row s (nat start_line)) [0..<VGA_HEIGHT])))"

text \<open>
  The parts of \<open>scrollback_scroll\<close>: saving the screen when the user starts to scroll, moving the offset
  within its bounds, and showing the view or the saved screen.
\<close>

definition scroll_start :: "int \<Rightarrow> 'a scrollback_scheme \<Rightarrow> 'a scrollback_scheme" where
  "scroll_start delta s =
     (if \<not> is_scrolled s \<and> 0 < delta then s\<lparr>saved_screen := vram (hw s), is_scrolled := True\<rparr> else s)"

definition scroll_move :: "int \<Rightarrow> 'a scrollback_scheme \<Rightarrow> 'a scrollback_scheme" where
  "scroll_move delta s =
     (let offset = scrollback_offset s + delta;
          max_offset = int (scrollback_count s) - int VGA_HEIGHT;
          max_offset = (if max_offset < 0 then 0 else max_offset)
      in if offset < 0 then
           let s1 = s\<lparr>scrollback_offset := 0\<rparr>
           in if delta < 0 then scrollback_reset (s1\<lparr>is_scrolled := False\<rparr>) else s1
         else if max_offset < offset then s\<lparr>scrollback_offset := max_offset\<rparr>
         else s\<lparr>scrollback_offset := offset\<rparr>)"

definition scroll_show :: "'a scrollback_scheme \<Rightarrow> 'a scrollback_scheme" where
  "scroll_show s =
     (if is_scrolled s \<and> scrollback_offset s = 0
      then on_hw (\<lambda>h. h\<lparr>vram := saved_screen s\<rparr>) (s\<lparr>is_scrolled := False\<rparr>)
      else if is_scrolled s then on_hw (\<lambda>h. h\<lparr>vram := scroll_view s\<rparr>) s
      else s)"

definition scrollback_scroll :: "int \<Rightarrow> 'a scrollback_scheme \<Rightarrow> 'a scrollback_scheme" where
  "scrollback_scroll delta s =
     (if delta = 0 then s else scroll_show (scroll_move delta (scroll_start delta s)))"

lemmas scroll_defs = scrollback_scroll_def scroll_start_def scroll_move_def scroll_show_def scrollback_reset_def Let_def

definition scrollback_get_offset :: "'a scrollback_scheme \<Rightarrow> int" where
  "scrollback_get_offset s = scrollback_offset s"

definition scrollback_is_scrolled :: "'a scrollback_scheme \<Rightarrow> bool" where
  "scrollback_is_scrolled s \<longleftrightarrow> is_scrolled s"

section \<open>The recorded lines\<close>

text \<open>As long as the buffer has not wrapped it holds the lines in the order they were added.\<close>

definition recorded :: "u16 list list \<Rightarrow> 'a scrollback_scheme \<Rightarrow> bool" where
  "recorded ls s \<longleftrightarrow> length ls \<le> 200 \<and> scrollback_count s = length ls
     \<and> scrollback_head s = length ls mod 200 \<and> length (scrollback_buffer s) = 200
     \<and> take (length ls) (scrollback_buffer s) = ls \<and> \<not> is_scrolled s \<and> scrollback_offset s = 0"

lemma recorded_init: "recorded [] (scrollback_init s)"
  by (simp add: recorded_def scrollback_init_def)

lemma recorded_add:
  assumes "recorded ls s" "length ls < 200"
  shows "recorded (ls @ [l]) (scrollback_add_line l s) \<and> hw (scrollback_add_line l s) = hw s"
  using assms by (auto simp: recorded_def scrollback_add_line_def take_Suc_conv_app_nth nth_list_update)

lemma recorded_lines:
  assumes "length ls \<le> 200"
  shows "recorded ls (fold scrollback_add_line ls (scrollback_init s))
    \<and> hw (fold scrollback_add_line ls (scrollback_init s)) = hw s"
  using assms
proof (induction ls rule: rev_induct)
  case Nil
  then show ?case by (simp add: recorded_init) (simp add: scrollback_init_def)
next
  case (snoc l ls)
  then show ?case using recorded_add [of ls "fold scrollback_add_line ls (scrollback_init s)" l] by simp
qed

lemma scroll_row_recorded:
  assumes "recorded ls s" "start + row < length ls"
  shows "scroll_row s start row = ls ! (start + row)"
proof -
  have "scrollback_buffer s ! (start + row) = take (length ls) (scrollback_buffer s) ! (start + row)"
    using assms(2) by simp
  also have "\<dots> = ls ! (start + row)" using assms(1) unfolding recorded_def by (elim conjE) (simp only:)
  finally show ?thesis using assms by (simp add: scroll_row_def recorded_def Let_def)
qed

lemma map_nth_window: "start + n \<le> length ls \<Longrightarrow> map (\<lambda>i. ls ! (start + i)) [0..<n] = take n (drop start ls)"
  by (rule nth_equalityI) auto

text \<open>Scrolling up by \<open>d\<close> lines, at most to the oldest line.\<close>

lemma scroll_up:
  assumes r: "recorded ls s" and d: "0 < d" "d + 25 \<le> length ls"
  defines "v \<equiv> mark_corner (concat (take 25 (drop (length ls - 25 - d) ls)))"
  shows "scrollback_scroll (int d) s = s\<lparr>saved_screen := vram (hw s), is_scrolled := True, scrollback_offset := int d,
    hw := (hw s)\<lparr>vram := v\<rparr>\<rparr>"
proof -
  let ?s = "s\<lparr>saved_screen := vram (hw s), is_scrolled := True, scrollback_offset := int d\<rparr>"
  have "map (scroll_row ?s (length ls - 25 - d)) [0..<25] = map (\<lambda>i. ls ! (length ls - 25 - d + i)) [0..<25]"
  proof (rule map_cong [OF refl])
    fix i assume "i \<in> set [0..<25]"
    then have "length ls - 25 - d + i < length ls" using d by simp
    moreover have "scroll_row ?s (length ls - 25 - d) i = scroll_row s (length ls - 25 - d) i"
      by (simp add: scroll_row_def)
    ultimately show "scroll_row ?s (length ls - 25 - d) i = ls ! (length ls - 25 - d + i)"
      using scroll_row_recorded [OF r] by simp
  qed
  also have "\<dots> = take 25 (drop (length ls - 25 - d) ls)" using d by (intro map_nth_window) simp
  finally have "map (scroll_row ?s (length ls - 25 - d)) [0..<25] = take 25 (drop (length ls - 25 - d) ls)" .
  moreover have "nat (int (length ls) - 25 - int d) = length ls - 25 - d" using d by simp
  ultimately have "scroll_view ?s = v"
    using r d by (simp add: scroll_view_def v_def recorded_def Let_def del: upt_rec_numeral)
  then show ?thesis using r d by (simp add: scroll_defs recorded_def)
qed

text \<open>
  Looking back. With at most 200 lines recorded since \<open>scrollback_init\<close>, scrolling up by \<open>d\<close> lines
  shows the 25 recorded lines that end \<open>d\<close> lines above the latest one, in order, under the mark in the
  corner; scrolling down by \<open>d\<close> again brings the screen back as it was, and so does \<open>scrollback_reset\<close>.
  Scrolling down by more than \<open>d\<close> does not: the old lines stay on the screen, which is no longer taken
  to be scrolled, so that nothing restores it.
\<close>

theorem scrollback_view:
  fixes s :: "'a scrollback_scheme"
  assumes "length ls \<le> 200" "0 < d" "d + 25 \<le> length ls" "d < e"
  defines "s1 \<equiv> fold scrollback_add_line ls (scrollback_init s)"
  defines "s2 \<equiv> scrollback_scroll (int d) s1"
  shows "vram (hw s2) = mark_corner (concat (take 25 (drop (length ls - 25 - d) ls)))
    \<and> vram (hw (scrollback_scroll (- int d) s2)) = vram (hw s) \<and> vram (hw (scrollback_reset s2)) = vram (hw s)
    \<and> vram (hw (scrollback_scroll (- int e) s2)) = vram (hw s2) \<and> \<not> is_scrolled (scrollback_scroll (- int e) s2)"
proof -
  have r: "recorded ls s1" and hw: "hw s1 = hw s" using recorded_lines [OF assms(1), of s] by (simp_all add: s1_def)
  have s2: "s2 = s1\<lparr>saved_screen := vram (hw s1), is_scrolled := True, scrollback_offset := int d,
      hw := (hw s1)\<lparr>vram := mark_corner (concat (take 25 (drop (length ls - 25 - d) ls)))\<rparr>\<rparr>"
    unfolding s2_def by (rule scroll_up [OF r assms(2,3)])
  show ?thesis
    unfolding s2 using assms(2,4) by (simp add: scroll_defs hw)
qed

section \<open>An example\<close>

definition scrollback_example :: scrollback where
  "scrollback_example = scrollback_boot screens_example"

theorem scrollback_view_witness:
  "let ls = replicate 30 (replicate 80 65);
       s2 = scrollback_scroll 2 (fold scrollback_add_line ls (scrollback_init scrollback_example))
   in vram (hw s2) = mark_corner (concat (replicate 25 (replicate 80 65)))
      \<and> vram (hw (scrollback_scroll (-2) s2)) = vram (hw scrollback_example)"
  using scrollback_view [of "replicate 30 (replicate 80 65)" 2 3 scrollback_example] by (simp add: Let_def)

end
