(* ===== verification/KFS_Mouse.thy ===== *)
theory KFS_Mouse
  imports KFS_Scrollback
begin

text \<open>
  The PS/2 mouse driver (\<open>src/mouse.c\<close>, \<open>include/mouse.h\<close>): the dialogue with the controller and the
  interrupt handler, a state machine over the four bytes of a packet that turns the wheel byte into
  scrolling. The lemmas relate the machine to a parser of the byte stream.
\<close>

section \<open>State and operations\<close>

record mouse = scrollback +
  mouse_cycle :: u8
  mouse_byte :: "u8 list"
  scroll_delta :: int

abbreviation (input) PS2_DATA_PORT :: u16 where "PS2_DATA_PORT \<equiv> 0x60"
abbreviation (input) PS2_STATUS_PORT :: u16 where "PS2_STATUS_PORT \<equiv> 0x64"
abbreviation (input) PS2_COMMAND_PORT :: u16 where "PS2_COMMAND_PORT \<equiv> 0x64"
abbreviation (input) MOUSE_ALWAYS_1 :: u8 where "MOUSE_ALWAYS_1 \<equiv> 0x08"

definition mouse_boot :: "scrollback \<Rightarrow> mouse" where
  "mouse_boot s = scrollback.extend s (mouse.fields 0 (replicate 4 0) 0)"

text \<open>Polling the status register until the masked bit has the wanted value, a bounded number of times.\<close>

fun ps2_poll :: "u8 \<Rightarrow> u8 \<Rightarrow> nat \<Rightarrow> 'a hardware_scheme \<Rightarrow> 'a hardware_scheme" where
  "ps2_poll bits want 0 h = h"
| "ps2_poll bits want (Suc timeout) h =
     (let (status, h1) = inb PS2_STATUS_PORT h
      in if status AND bits = want then h1 else ps2_poll bits want timeout h1)"

definition mouse_wait_input :: "'a hardware_scheme \<Rightarrow> 'a hardware_scheme" where
  "mouse_wait_input h = ps2_poll 2 0 100000 h"

definition mouse_wait_output :: "'a hardware_scheme \<Rightarrow> 'a hardware_scheme" where
  "mouse_wait_output h = ps2_poll 1 1 100000 h"

definition mouse_write :: "u8 \<Rightarrow> 'a hardware_scheme \<Rightarrow> 'a hardware_scheme" where
  "mouse_write data h =
     outb PS2_DATA_PORT data (mouse_wait_input (outb PS2_COMMAND_PORT 0xD4 (mouse_wait_input h)))"

definition mouse_read :: "'a hardware_scheme \<Rightarrow> u8 \<times> 'a hardware_scheme" where
  "mouse_read h = inb PS2_DATA_PORT (mouse_wait_output h)"

text \<open>The switch of the handler over the position in the packet.\<close>

definition mouse_data :: "u8 \<Rightarrow> 'a mouse_scheme \<Rightarrow> 'a mouse_scheme" where
  "mouse_data data s =
     (if mouse_cycle s = 0 then
        let s1 = s\<lparr>mouse_byte := (mouse_byte s)[0 := data]\<rparr>
        in if data AND MOUSE_ALWAYS_1 \<noteq> 0 then s1\<lparr>mouse_cycle := mouse_cycle s1 + 1\<rparr> else s1
      else if mouse_cycle s = 1 then s\<lparr>mouse_byte := (mouse_byte s)[1 := data], mouse_cycle := mouse_cycle s + 1\<rparr>
      else if mouse_cycle s = 2 then s\<lparr>mouse_byte := (mouse_byte s)[2 := data], mouse_cycle := mouse_cycle s + 1\<rparr>
      else if mouse_cycle s = 3 then
        let s1 = s\<lparr>mouse_byte := (mouse_byte s)[3 := data]\<rparr>;
            z = sint data;
            s2 = (if z \<noteq> 0 then (scrollback_scroll (- z) (s1\<lparr>scroll_delta := - z\<rparr>))\<lparr>scroll_delta := 0\<rparr> else s1)
        in s2\<lparr>mouse_cycle := 0\<rparr>
      else s)"

definition mouse_handler :: "'a mouse_scheme \<Rightarrow> 'a mouse_scheme" where
  "mouse_handler s =
     (let (status, h1) = inb PS2_STATUS_PORT (hw s); s1 = s\<lparr>hw := h1\<rparr>
      in if status AND 0x20 = 0 then s1
         else let (data, h2) = inb PS2_DATA_PORT (hw s1) in mouse_data data (s1\<lparr>hw := h2\<rparr>))"

text \<open>A command byte followed by the read of its acknowledgement.\<close>

definition mouse_command :: "u8 \<Rightarrow> 'a hardware_scheme \<Rightarrow> 'a hardware_scheme" where
  "mouse_command data h = snd (mouse_read (mouse_write data h))"

definition mouse_init :: "'a mouse_scheme \<Rightarrow> 'a mouse_scheme" where
  "mouse_init s =
     (let h1 = mouse_wait_output (outb PS2_COMMAND_PORT 0x20 (mouse_wait_input (hw s)));
          (config, h2) = inb PS2_DATA_PORT h1;
          h3 = outb PS2_COMMAND_PORT 0xA8 (mouse_wait_input h2);
          h4 = mouse_wait_output (outb PS2_COMMAND_PORT 0x20 (mouse_wait_input h3));
          (status, h5) = inb PS2_DATA_PORT h4;
          status = status OR 0x02 OR 0x01;
          h6 = outb PS2_COMMAND_PORT 0x60 (mouse_wait_input h5);
          h7 = outb PS2_DATA_PORT status (mouse_wait_input h6);
          h8 = fold mouse_command [0xF6, 0xF3, 200, 0xF3, 100, 0xF3, 80] h7;
          h9 = snd (mouse_read (mouse_command 0xF2 h8));
          h10 = mouse_command 0xF4 h9;
          s1 = idt_register_handler IRQ12 Mouse_handler (s\<lparr>hw := h10\<rparr>)
      in s1\<lparr>mouse_cycle := 0, scroll_delta := 0\<rparr>)"

definition mouse_enable_interrupts :: "'a hardware_scheme \<Rightarrow> 'a hardware_scheme" where
  "mouse_enable_interrupts h = (let (m, h1) = inb 0xA1 h in outb 0xA1 (m AND NOT (push_bit 4 1)) h1)"

definition mouse_disable_interrupts :: "'a hardware_scheme \<Rightarrow> 'a hardware_scheme" where
  "mouse_disable_interrupts h = (let (m, h1) = inb 0xA1 h in outb 0xA1 (m OR push_bit 4 1) h1)"

definition mouse_get_scroll_delta :: "'a mouse_scheme \<Rightarrow> int \<times> 'a mouse_scheme" where
  "mouse_get_scroll_delta s = (scroll_delta s, s\<lparr>scroll_delta := 0\<rparr>)"

section \<open>The packets\<close>

text \<open>
  The wheel bytes of a stream: a packet is four bytes of which the first has bit 3 set, and bytes
  before a packet without that bit are skipped.
\<close>

fun wheel_bytes :: "u8 list \<Rightarrow> u8 list" where
  "wheel_bytes (f # x # y # z # rest) =
     (if f AND MOUSE_ALWAYS_1 = 0 then wheel_bytes (x # y # z # rest) else z # wheel_bytes rest)"
| "wheel_bytes short = []"

lemmas wheel_bytes_induct = wheel_bytes.induct [case_names packet none one two three]

text \<open>The state without the driver's own variables.\<close>

definition beyond_mouse :: "'a mouse_scheme \<Rightarrow> 'a mouse_scheme" where
  "beyond_mouse s = s\<lparr>mouse_cycle := 0, mouse_byte := [], scroll_delta := 0\<rparr>"

lemma scroll_view_beyond: "scroll_view (beyond_mouse s) = scroll_view s"
proof -
  have "scroll_row (beyond_mouse s) = scroll_row s" by (simp add: fun_eq_iff scroll_row_def beyond_mouse_def)
  then show ?thesis by (simp add: scroll_view_def del: upt_rec_numeral) (simp add: beyond_mouse_def)
qed

lemma beyond_mouse_fields [simp]:
  "hw (beyond_mouse s) = hw s" "is_scrolled (beyond_mouse s) = is_scrolled s" "saved_screen (beyond_mouse s) = saved_screen s"
  "scrollback_offset (beyond_mouse s) = scrollback_offset s" "scrollback_count (beyond_mouse s) = scrollback_count s"
  by (simp_all add: beyond_mouse_def)

lemma beyond_mouse_update:
  "beyond_mouse (s\<lparr>hw := h\<rparr>) = (beyond_mouse s)\<lparr>hw := h\<rparr>"
  "beyond_mouse (s\<lparr>is_scrolled := b\<rparr>) = (beyond_mouse s)\<lparr>is_scrolled := b\<rparr>"
  "beyond_mouse (s\<lparr>saved_screen := c\<rparr>) = (beyond_mouse s)\<lparr>saved_screen := c\<rparr>"
  "beyond_mouse (s\<lparr>scrollback_offset := d\<rparr>) = (beyond_mouse s)\<lparr>scrollback_offset := d\<rparr>"
  by (simp_all add: beyond_mouse_def)

lemma scrollback_scroll_beyond: "beyond_mouse (scrollback_scroll d s) = scrollback_scroll d (beyond_mouse s)"
proof -
  have "beyond_mouse (scroll_start d s) = scroll_start d (beyond_mouse s)" for s :: "'a mouse_scheme"
    by (simp add: scroll_start_def beyond_mouse_update)
  moreover have "beyond_mouse (scroll_move d s) = scroll_move d (beyond_mouse s)" for s :: "'a mouse_scheme"
    by (simp add: scroll_move_def scrollback_reset_def Let_def beyond_mouse_update)
  moreover have "beyond_mouse (scroll_show s) = scroll_show (beyond_mouse s)" for s :: "'a mouse_scheme"
    by (simp add: scroll_show_def scroll_view_beyond beyond_mouse_update)
  ultimately show ?thesis by (simp add: scrollback_scroll_def)
qed

lemma mouse_data_cycles:
  "mouse_cycle s = 0 \<Longrightarrow> f AND 8 = 0 \<Longrightarrow> mouse_cycle (mouse_data f s) = 0 \<and> beyond_mouse (mouse_data f s) = beyond_mouse s"
  "mouse_cycle s = 0 \<Longrightarrow> f AND 8 \<noteq> 0 \<Longrightarrow> mouse_cycle (mouse_data f s) = 1 \<and> beyond_mouse (mouse_data f s) = beyond_mouse s"
  "mouse_cycle s = 1 \<Longrightarrow> mouse_cycle (mouse_data f s) = 2 \<and> beyond_mouse (mouse_data f s) = beyond_mouse s"
  "mouse_cycle s = 2 \<Longrightarrow> mouse_cycle (mouse_data f s) = 3 \<and> beyond_mouse (mouse_data f s) = beyond_mouse s"
  by (simp_all add: mouse_data_def beyond_mouse_def Let_def)

lemma mouse_data_wheel:
  assumes "mouse_cycle s = 3"
  shows "mouse_cycle (mouse_data z s) = 0 \<and> beyond_mouse (mouse_data z s) = scrollback_scroll (- sint z) (beyond_mouse s)"
proof -
  have strip: "beyond_mouse (s\<lparr>mouse_byte := b, scroll_delta := d\<rparr>) = beyond_mouse s"
    "beyond_mouse (s\<lparr>mouse_byte := b\<rparr>) = beyond_mouse s"
    "beyond_mouse (s\<lparr>mouse_cycle := c\<rparr>) = beyond_mouse s" "beyond_mouse (s\<lparr>scroll_delta := d\<rparr>) = beyond_mouse s"
    for s :: "'a mouse_scheme" and b d c by (simp_all add: beyond_mouse_def)
  have zero: "scrollback_scroll 0 t = t" for t :: "'a mouse_scheme" by (simp add: scrollback_scroll_def)
  show ?thesis
    using assms by (simp add: mouse_data_def Let_def strip scrollback_scroll_beyond zero)
qed

lemma mouse_data_short:
  assumes "mouse_cycle s \<in> set (take (4 - length bytes) [0, 1, 2, 3])"
  shows "beyond_mouse (fold mouse_data bytes s) = beyond_mouse s"
  using assms
proof (induction bytes arbitrary: s)
  case (Cons b bytes)
  then have "length bytes < 3" by (cases "length bytes < 3") auto
  then consider "length bytes = 0" | "length bytes = 1" | "length bytes = 2" by linarith
  then have "mouse_cycle (mouse_data b s) \<in> set (take (4 - length bytes) [0, 1, 2, 3])
      \<and> beyond_mouse (mouse_data b s) = beyond_mouse s"
    using Cons.prems mouse_data_cycles [of s b] by cases (auto simp: numeral_eq_Suc)
  with Cons.IH show ?case by simp
qed simp

lemma mouse_data_hist: "hist (hw (mouse_data d s)) = hist (hw s)"
proof -
  have "hist (hw (scrollback_scroll e t)) = hist (hw t)" for e and t :: "'a mouse_scheme"
    by (simp add: scroll_defs)
  then show ?thesis by (simp add: mouse_data_def Let_def)
qed

text \<open>
  C29. The packet machine. From the start of a packet, whatever bytes arrive, the driver scrolls
  exactly once for every complete packet of the stream, by the negated signed wheel byte, and skips
  the bytes that cannot start a packet; nothing else beyond its own variables changes. Each interrupt
  reads the status and at most one byte; the interrupt controller gets no end-of-interrupt command.
\<close>

theorem mouse_packets:
  assumes "mouse_cycle s = 0"
  shows "beyond_mouse (fold mouse_data bytes s) =
      fold (\<lambda>z. scrollback_scroll (- sint z)) (wheel_bytes bytes) (beyond_mouse s)
    \<and> (hist (hw (mouse_handler s)) = Inb 0x64 # hist (hw s) \<or>
       hist (hw (mouse_handler s)) = Inb 0x60 # Inb 0x64 # hist (hw s))"
proof
  show "beyond_mouse (fold mouse_data bytes s) =
      fold (\<lambda>z. scrollback_scroll (- sint z)) (wheel_bytes bytes) (beyond_mouse s)"
    using assms
  proof (induction bytes arbitrary: s rule: wheel_bytes_induct)
    case (packet f x y z rest)
    show ?case
    proof (cases "f AND 8 = 0")
      case True
      with packet.IH(1) [OF True] packet.prems mouse_data_cycles(1) [of s f] show ?thesis by simp
    next
      case False
      let ?s1 = "mouse_data f s" let ?s2 = "mouse_data x ?s1" let ?s3 = "mouse_data y ?s2"
      have c: "mouse_cycle ?s3 = 3" "beyond_mouse ?s3 = beyond_mouse s"
        using mouse_data_cycles(2) [OF packet.prems False] mouse_data_cycles(3) [of ?s1 x] mouse_data_cycles(4) [of ?s2 y]
        by simp_all
      from packet.IH(2) [OF False, of "mouse_data z ?s3"] mouse_data_wheel [OF c(1), of z] c(2) False
      show ?thesis by simp
    qed
  next
    case none
    then show ?case by simp
  next
    case (one a)
    then show ?case using mouse_data_short [of s "[a]"] by simp
  next
    case (two a b)
    then show ?case using mouse_data_short [of s "[a, b]"] by simp
  next
    case (three a b c)
    then show ?case using mouse_data_short [of s "[a, b, c]"] by simp
  qed
  show "hist (hw (mouse_handler s)) = Inb 0x64 # hist (hw s) \<or>
      hist (hw (mouse_handler s)) = Inb 0x60 # Inb 0x64 # hist (hw s)"
    by (simp add: mouse_handler_def mouse_data_hist inb_def Let_def)
qed

section \<open>An example\<close>

definition mouse_example :: mouse where
  "mouse_example = mouse_boot scrollback_example"

text \<open>One stray byte and a packet whose wheel byte is -1.\<close>

theorem mouse_packets_witness:
  "beyond_mouse (fold mouse_data [0x00, 0x08, 5, 5, 0xFF] mouse_example) =
     scrollback_scroll 1 (beyond_mouse mouse_example)"
proof -
  have "mouse_cycle mouse_example = 0" by (simp add: mouse_example_def mouse_boot_def mouse.defs scrollback.defs)
  from mouse_packets [OF this, of "[0x00, 0x08, 5, 5, 0xFF]"] show ?thesis by simp
qed

end
