(* ===== verification/KFS_Gdt.thy ===== *)
theory KFS_Gdt
  imports KFS_Mouse
begin

text \<open>
  The segment table (\<open>src/gdt.c\<close>, \<open>include/gdt.h\<close>) and \<open>gdt_flush\<close> of \<open>src/boot.s\<close>. The lemmas show that a
  descriptor holds the base and the limit it was given, up to the 20 bits the format has, and which
  segments the kernel runs with.
\<close>

section \<open>State and operations\<close>

record gdt_entry =
  limit_low :: u16
  base_low :: u16
  base_middle :: u8
  access :: u8
  granularity :: u8
  base_high :: u8

text \<open>The table, its pointer structure and the processor's copy of the pointer.\<close>

record gdt = mouse +
  gdt_entries :: "gdt_entry list"
  gdt_limit :: u16
  gdt_base :: u32
  gdtr :: "u16 \<times> u32"

abbreviation (input) GDT_ENTRIES :: nat where "GDT_ENTRIES \<equiv> 6"
abbreviation (input) GDT_ACCESS_PRESENT :: u8 where "GDT_ACCESS_PRESENT \<equiv> 0x80"
abbreviation (input) GDT_ACCESS_RING0 :: u8 where "GDT_ACCESS_RING0 \<equiv> 0x00"
abbreviation (input) GDT_ACCESS_RING3 :: u8 where "GDT_ACCESS_RING3 \<equiv> 0x60"
abbreviation (input) GDT_ACCESS_CODE :: u8 where "GDT_ACCESS_CODE \<equiv> 0x18"
abbreviation (input) GDT_ACCESS_DATA :: u8 where "GDT_ACCESS_DATA \<equiv> 0x10"
abbreviation (input) GDT_ACCESS_RW :: u8 where "GDT_ACCESS_RW \<equiv> 0x02"
abbreviation (input) GDT_ACCESS_EXEC :: u8 where "GDT_ACCESS_EXEC \<equiv> 0x08"
abbreviation (input) GDT_GRAN_4K :: u8 where "GDT_GRAN_4K \<equiv> 0x80"
abbreviation (input) GDT_GRAN_32BIT :: u8 where "GDT_GRAN_32BIT \<equiv> 0x40"
abbreviation (input) GDT_GRAN_LIMIT_HIGH :: u8 where "GDT_GRAN_LIMIT_HIGH \<equiv> 0x0F"
abbreviation (input) USER_STACK_SEGMENT :: u16 where "USER_STACK_SEGMENT \<equiv> 0x30"

definition gdt_entry_zero :: gdt_entry where
  "gdt_entry_zero = \<lparr>limit_low = 0, base_low = 0, base_middle = 0, access = 0, granularity = 0, base_high = 0\<rparr>"

definition gdt_boot :: "mouse \<Rightarrow> gdt" where
  "gdt_boot s = mouse.extend s (gdt.fields (replicate GDT_ENTRIES gdt_entry_zero) 0 0 (0, 0))"

definition gdt_set_gate :: "nat \<Rightarrow> u32 \<Rightarrow> u32 \<Rightarrow> u8 \<Rightarrow> u8 \<Rightarrow> 'a gdt_scheme \<Rightarrow> 'a gdt_scheme" where
  "gdt_set_gate num base limit acc gran s = s\<lparr>gdt_entries := (gdt_entries s)[num :=
     \<lparr>limit_low = ucast (limit AND 0xFFFF), base_low = ucast (base AND 0xFFFF),
      base_middle = ucast (drop_bit 16 base AND 0xFF), access = acc,
      granularity = ucast (drop_bit 16 limit AND 0x0F) OR (gran AND 0xF0),
      base_high = ucast (drop_bit 24 base AND 0xFF)\<rparr>]\<rparr>"

text \<open>
  \<open>gdt_flush\<close> loads the processor's copy and the segment registers; the stack segment register is not
  part of \<open>cpu\<close>, since nothing reads it.
\<close>

definition gdt_flush :: "'a gdt_scheme \<Rightarrow> 'a gdt_scheme" where
  "gdt_flush s = s\<lparr>gdtr := (gdt_limit s, gdt_base s),
     regs := (regs s)\<lparr>r_ds := 0x10, r_es := 0x10, r_fs := 0x10, r_gs := 0x10, r_cs := 0x08\<rparr>\<rparr>"

definition gdt_init :: "u32 \<Rightarrow> 'a gdt_scheme \<Rightarrow> 'a gdt_scheme" where
  "gdt_init table s =
     (let gran = GDT_GRAN_4K OR GDT_GRAN_32BIT OR GDT_GRAN_LIMIT_HIGH;
          s1 = s\<lparr>gdt_limit := 8 * 6 - 1, gdt_base := table\<rparr>;
          s2 = gdt_set_gate 0 0 0 0 0 s1;
          s3 = gdt_set_gate 1 0 0xFFFFFFFF
                 (GDT_ACCESS_PRESENT OR GDT_ACCESS_RING0 OR GDT_ACCESS_CODE OR GDT_ACCESS_EXEC OR GDT_ACCESS_RW) gran s2;
          s4 = gdt_set_gate 2 0 0xFFFFFFFF
                 (GDT_ACCESS_PRESENT OR GDT_ACCESS_RING0 OR GDT_ACCESS_DATA OR GDT_ACCESS_RW) gran s3;
          s5 = gdt_set_gate 3 0 0xFFFFFFFF
                 (GDT_ACCESS_PRESENT OR GDT_ACCESS_RING0 OR GDT_ACCESS_DATA OR GDT_ACCESS_RW) gran s4;
          s6 = gdt_set_gate 4 0 0xFFFFFFFF
                 (GDT_ACCESS_PRESENT OR GDT_ACCESS_RING3 OR GDT_ACCESS_CODE OR GDT_ACCESS_EXEC OR GDT_ACCESS_RW) gran s5;
          s7 = gdt_set_gate 5 0 0xFFFFFFFF
                 (GDT_ACCESS_PRESENT OR GDT_ACCESS_RING3 OR GDT_ACCESS_DATA OR GDT_ACCESS_RW) gran s6
      in gdt_flush s7)"

text \<open>The base and the limit of a descriptor, as the debugging output computes them.\<close>

definition segment_base :: "gdt_entry \<Rightarrow> u32" where
  "segment_base e = ucast (base_low e) OR push_bit 16 (ucast (base_middle e)) OR push_bit 24 (ucast (base_high e))"

definition segment_limit :: "gdt_entry \<Rightarrow> u32" where
  "segment_limit e = ucast (limit_low e) OR push_bit 16 (ucast (granularity e AND 0x0F))"

definition segment_names :: "string list" where
  "segment_names = [''NULL Descriptor'', ''Kernel Code'', ''Kernel Data'', ''Kernel Stack'', ''User Code'', ''User Data'']"

definition print_segment :: "nat \<Rightarrow> 'a gdt_scheme \<Rightarrow> 'a gdt_scheme" where
  "print_segment i s =
     (let e = gdt_entries s ! i;
          s1 = printk ''Entry %d: %s\<newline>'' [KInt (int i), KStr (Some (segment_names ! i))] s;
          s2 = printk ''  Base:  0x%x\<newline>'' [KUInt (segment_base e)] s1;
          s3 = printk ''  Limit: 0x%x\<newline>'' [KUInt (segment_limit e)] s2;
          s4 = printk ''  Access: 0x%x\<newline>'' [KUInt (ucast (access e))] s3
      in printk ''  Gran:  0x%x\<newline>\<newline>'' [KUInt (ucast (granularity e))] s4)"

definition gdt_print_info :: "'a gdt_scheme \<Rightarrow> 'a gdt_scheme" where
  "gdt_print_info s =
     fold print_segment [0..<GDT_ENTRIES]
       (printk ''Number of Entries: %d\<newline>\<newline>'' [KInt 6]
       (printk ''GDT Limit: %d bytes\<newline>'' [KInt (uint (gdt_limit s) + 1)]
       (printk ''GDT Base Address: 0x%x\<newline>'' [KUInt (gdt_base s)]
       (printk ''\<newline>=== Global Descriptor Table ===\<newline>'' [] s))))"

section \<open>Descriptors\<close>

lemma and_low_bits: "x AND 0xFFFF = take_bit 16 x" "x AND 0xFF = take_bit 8 x" "x AND 0x0F = take_bit 4 x" for x :: u32
  by (simp_all add: take_bit_eq_mask mask_eq_exp_minus_1)

lemma and_low_nibble: "y AND 0x0F = take_bit 4 y" for y :: u8
  by (simp add: take_bit_eq_mask mask_eq_exp_minus_1)

lemma bit_high_nibble: "bit (0xF0 :: u8) n \<longleftrightarrow> 4 \<le> n \<and> n < 8"
proof -
  have "list_all (\<lambda>n. bit (0xF0 :: u8) n \<longleftrightarrow> 4 \<le> n) [0..<8]" by code_simp
  then have "n < 8 \<Longrightarrow> bit (0xF0 :: u8) n \<longleftrightarrow> 4 \<le> n" by (simp add: list_all_iff del: upt_rec_numeral)
  with bit_imp_le_length [of "0xF0 :: u8" n] show ?thesis by auto
qed

lemma join_base:
  "ucast (ucast (take_bit 16 x) :: u16) OR push_bit 16 (ucast (ucast (take_bit 8 (drop_bit 16 x)) :: u8))
     OR push_bit 24 (ucast (ucast (take_bit 8 (drop_bit 24 x)) :: u8)) = (x :: u32)"
proof (rule bit_word_eqI)
  fix n assume "n < LENGTH(32)"
  then consider "n < 16" | "16 \<le> n" "n < 24" | "24 \<le> n" "n < 32" by fastforce
  then show "bit (ucast (ucast (take_bit 16 x) :: u16) OR push_bit 16 (ucast (ucast (take_bit 8 (drop_bit 16 x)) :: u8))
     OR push_bit 24 (ucast (ucast (take_bit 8 (drop_bit 24 x)) :: u8)) :: u32) n = bit x n"
    by cases (auto simp: bit_simps)
qed

text \<open>
  A descriptor written by \<open>gdt_set_gate\<close> reads back as what it was given: all 32 bits of the base,
  the low 20 bits of the limit, the access byte and the flags in the high half of the granularity byte
  (its low half is replaced by the limit); no other descriptor changes.
\<close>

theorem gdt_gate_roundtrip:
  fixes s :: "'a gdt_scheme" and base limit :: u32 and acc gran :: u8
  assumes "num < length (gdt_entries s)"
  defines "s' \<equiv> gdt_set_gate num base limit acc gran s"
  shows "segment_base (gdt_entries s' ! num) = base \<and> segment_limit (gdt_entries s' ! num) = limit AND 0xFFFFF
    \<and> access (gdt_entries s' ! num) = acc \<and> granularity (gdt_entries s' ! num) AND 0xF0 = gran AND 0xF0
    \<and> (\<forall>i. i \<noteq> num \<longrightarrow> gdt_entries s' ! i = gdt_entries s ! i)"
proof -
  have twenty: "limit AND 0xFFFFF = take_bit 20 limit" by (simp add: take_bit_eq_mask mask_eq_exp_minus_1)
  let ?e = "gdt_entries s' ! num"
  have "segment_base ?e = base"
    using assms(1) by (simp add: s'_def gdt_set_gate_def segment_base_def and_low_bits join_base)
  moreover have "segment_limit ?e = limit AND 0xFFFFF"
    using assms(1) unfolding twenty
    by (auto intro!: bit_word_eqI simp: s'_def gdt_set_gate_def segment_limit_def and_low_bits and_low_nibble bit_simps)
  moreover have "granularity ?e AND 0xF0 = gran AND 0xF0"
  proof -
    have "ucast (take_bit 4 x) AND (0xF0 :: u8) = 0" for x :: u32
      by (rule bit_word_eqI, unfold bit_and_iff bit_high_nibble bit_unsigned_iff bit_take_bit_iff) simp
    moreover have "granularity ?e = ucast (take_bit 4 (drop_bit 16 limit)) OR (gran AND 0xF0)"
      using assms(1) by (simp add: s'_def gdt_set_gate_def and_low_bits)
    ultimately show ?thesis by (simp add: bit.conj_disj_distrib2 and.assoc)
  qed
  moreover have "access ?e = acc" "\<forall>i. i \<noteq> num \<longrightarrow> gdt_entries s' ! i = gdt_entries s ! i"
    using assms(1) by (simp_all add: s'_def gdt_set_gate_def)
  ultimately show ?thesis by blast
qed

text \<open>The kernel's segments are flat; the selector \<open>USER_STACK_SEGMENT\<close> lies beyond the table.\<close>

lemma gdt_init_flat:
  assumes "length (gdt_entries s) = 6"
  shows "map segment_base (gdt_entries (gdt_init table s)) = [0, 0, 0, 0, 0, 0]"
    "map segment_limit (gdt_entries (gdt_init table s)) = [0, 0xFFFFF, 0xFFFFF, 0xFFFFF, 0xFFFFF, 0xFFFFF]"
    "map access (gdt_entries (gdt_init table s)) = [0, 0x9A, 0x92, 0x92, 0xFA, 0xF2]"
    "map granularity (gdt_entries (gdt_init table s)) = [0, 0xCF, 0xCF, 0xCF, 0xCF, 0xCF]"
    "gdt_limit (gdt_init table s) < USER_STACK_SEGMENT"
proof -
  obtain e0 e1 e2 e3 e4 e5 where e: "gdt_entries s = [e0, e1, e2, e3, e4, e5]"
    using assms by (auto simp: numeral_eq_Suc length_Suc_conv)
  show "map segment_base (gdt_entries (gdt_init table s)) = [0, 0, 0, 0, 0, 0]"
    "map segment_limit (gdt_entries (gdt_init table s)) = [0, 0xFFFFF, 0xFFFFF, 0xFFFFF, 0xFFFFF, 0xFFFFF]"
    "map access (gdt_entries (gdt_init table s)) = [0, 0x9A, 0x92, 0x92, 0xFA, 0xF2]"
    "map granularity (gdt_entries (gdt_init table s)) = [0, 0xCF, 0xCF, 0xCF, 0xCF, 0xCF]"
    "gdt_limit (gdt_init table s) < USER_STACK_SEGMENT"
    by (simp_all add: gdt_init_def gdt_flush_def gdt_set_gate_def e segment_base_def segment_limit_def Let_def)
qed

section \<open>An example\<close>

definition gdt_example :: gdt where
  "gdt_example = gdt_boot mouse_example"

theorem gdt_gate_roundtrip_witness:
  "segment_base (gdt_entries (gdt_set_gate 1 0x12345678 0xABCDE 0x9A 0xC0 gdt_example) ! 1) = 0x12345678
   \<and> segment_limit (gdt_entries (gdt_set_gate 1 0x12345678 0xABCDE 0x9A 0xC0 gdt_example) ! 1) = 0xABCDE"
proof -
  have "1 < length (gdt_entries gdt_example)" by (simp add: gdt_example_def gdt_boot_def gdt.defs mouse.defs)
  from gdt_gate_roundtrip [OF this, of "0x12345678" "0xABCDE" "0x9A" "0xC0"] show ?thesis by simp
qed

end
