(* ===== verification/KFS_Ide.thy ===== *)
theory KFS_Ide
  imports KFS_Gdt
begin

text \<open>
  The IDE disk driver (\<open>src/ide.c\<close>, \<open>include/ide.h\<close>): polling, identification, reading and writing of
  sectors through the ports of a channel. The disk is the device function of the hardware; what the
  driver relies on is \<open>ata_disk\<close>, the documented behaviour of a drive: it is busy for a bounded number of
  status reads, raises its data request only while words of a command are outstanding, transfers as many
  sectors as the command's sector count says, and takes or delivers a word only while the data request is
  up. The lemmas show that a read delivers the requested sectors, that a write transfers the buffer's
  words, in order and completely, to the requested sectors, and that the driver cannot reach a drive
  while an absent drive of its channel is selected.
\<close>

section \<open>State and operations\<close>

datatype ide_channel = IDE_CHANNEL_PRIMARY | IDE_CHANNEL_SECONDARY
datatype ide_drive = IDE_DRIVE_MASTER_IDX | IDE_DRIVE_SLAVE_IDX

record ide_device =
  exists :: bool
  io_base :: u16
  ctrl_base :: u16
  drive :: u8
  sectors :: u32
  size_mb :: u32
  model :: "u8 list"
  lba_supported :: bool

record ide = gdt +
  ide_devices :: "ide_device list"

abbreviation (input) IDE_PRIMARY_IO_BASE :: u16 where "IDE_PRIMARY_IO_BASE \<equiv> 0x1F0"
abbreviation (input) IDE_PRIMARY_CTRL_BASE :: u16 where "IDE_PRIMARY_CTRL_BASE \<equiv> 0x3F6"
abbreviation (input) IDE_SECONDARY_IO_BASE :: u16 where "IDE_SECONDARY_IO_BASE \<equiv> 0x170"
abbreviation (input) IDE_SECONDARY_CTRL_BASE :: u16 where "IDE_SECONDARY_CTRL_BASE \<equiv> 0x376"
abbreviation (input) IDE_REG_DATA :: u16 where "IDE_REG_DATA \<equiv> 0"
abbreviation (input) IDE_REG_SECCOUNT :: u16 where "IDE_REG_SECCOUNT \<equiv> 2"
abbreviation (input) IDE_REG_LBALO :: u16 where "IDE_REG_LBALO \<equiv> 3"
abbreviation (input) IDE_REG_LBAMID :: u16 where "IDE_REG_LBAMID \<equiv> 4"
abbreviation (input) IDE_REG_LBAHI :: u16 where "IDE_REG_LBAHI \<equiv> 5"
abbreviation (input) IDE_REG_DRIVE :: u16 where "IDE_REG_DRIVE \<equiv> 6"
abbreviation (input) IDE_REG_STATUS :: u16 where "IDE_REG_STATUS \<equiv> 7"
abbreviation (input) IDE_REG_COMMAND :: u16 where "IDE_REG_COMMAND \<equiv> 7"
abbreviation (input) IDE_REG_ALTSTATUS :: u16 where "IDE_REG_ALTSTATUS \<equiv> 0"
abbreviation (input) IDE_STATUS_ERR :: u8 where "IDE_STATUS_ERR \<equiv> 0x01"
abbreviation (input) IDE_STATUS_DRQ :: u8 where "IDE_STATUS_DRQ \<equiv> 0x08"
abbreviation (input) IDE_STATUS_RDY :: u8 where "IDE_STATUS_RDY \<equiv> 0x40"
abbreviation (input) IDE_STATUS_BSY :: u8 where "IDE_STATUS_BSY \<equiv> 0x80"
abbreviation (input) IDE_CMD_READ_SECTORS :: u8 where "IDE_CMD_READ_SECTORS \<equiv> 0x20"
abbreviation (input) IDE_CMD_WRITE_SECTORS :: u8 where "IDE_CMD_WRITE_SECTORS \<equiv> 0x30"
abbreviation (input) IDE_CMD_IDENTIFY :: u8 where "IDE_CMD_IDENTIFY \<equiv> 0xEC"
abbreviation (input) IDE_CMD_FLUSH :: u8 where "IDE_CMD_FLUSH \<equiv> 0xE7"
abbreviation (input) IDE_DRIVE_MASTER :: u8 where "IDE_DRIVE_MASTER \<equiv> 0xE0"
abbreviation (input) IDE_DRIVE_SLAVE :: u8 where "IDE_DRIVE_SLAVE \<equiv> 0xF0"

definition ide_device_zero :: ide_device where
  "ide_device_zero = \<lparr>exists = False, io_base = 0, ctrl_base = 0, drive = 0, sectors = 0, size_mb = 0,
     model = replicate 41 0, lba_supported = False\<rparr>"

definition ide_boot :: "gdt \<Rightarrow> ide" where
  "ide_boot s = gdt.extend s (ide.fields (replicate 4 ide_device_zero))"

fun wait_ready_loop :: "nat \<Rightarrow> u16 \<Rightarrow> 'a hardware_scheme \<Rightarrow> int \<times> 'a hardware_scheme" where
  "wait_ready_loop 0 base h = (-1, h)"
| "wait_ready_loop (Suc timeout) base h =
     (let (status, h1) = inb (base + IDE_REG_STATUS) h
      in if status AND IDE_STATUS_BSY = 0 \<and> status AND IDE_STATUS_RDY \<noteq> 0 then (0, h1)
         else wait_ready_loop timeout base h1)"

definition ide_wait_ready :: "u16 \<Rightarrow> 'a hardware_scheme \<Rightarrow> int \<times> 'a hardware_scheme" where
  "ide_wait_ready base h = wait_ready_loop 10000 base h"

fun wait_drq_loop :: "nat \<Rightarrow> u16 \<Rightarrow> 'a hardware_scheme \<Rightarrow> int \<times> 'a hardware_scheme" where
  "wait_drq_loop 0 base h = (-1, h)"
| "wait_drq_loop (Suc timeout) base h =
     (let (status, h1) = inb (base + IDE_REG_STATUS) h
      in if status AND IDE_STATUS_DRQ \<noteq> 0 then (0, h1)
         else if status AND IDE_STATUS_ERR \<noteq> 0 then (-1, h1)
         else wait_drq_loop timeout base h1)"

definition ide_wait_drq :: "u16 \<Rightarrow> 'a hardware_scheme \<Rightarrow> int \<times> 'a hardware_scheme" where
  "ide_wait_drq base h = wait_drq_loop 10000 base h"

definition ide_select_drive :: "u16 \<Rightarrow> u8 \<Rightarrow> 'a hardware_scheme \<Rightarrow> 'a hardware_scheme" where
  "ide_select_drive base drv h =
     ((\<lambda>h. snd (inb (base + IDE_REG_ALTSTATUS) h)) ^^ 4) (outb (base + IDE_REG_DRIVE) drv h)"

definition ide_read_status :: "u16 \<Rightarrow> 'a hardware_scheme \<Rightarrow> u8 \<times> 'a hardware_scheme" where
  "ide_read_status base h = inb (base + IDE_REG_STATUS) h"

definition dev_idx :: "ide_channel \<Rightarrow> ide_drive \<Rightarrow> nat" where
  "dev_idx channel drv =
     (case channel of IDE_CHANNEL_PRIMARY \<Rightarrow> 0 | IDE_CHANNEL_SECONDARY \<Rightarrow> 2)
     + (case drv of IDE_DRIVE_MASTER_IDX \<Rightarrow> 0 | IDE_DRIVE_SLAVE_IDX \<Rightarrow> 1)"

abbreviation device :: "ide_channel \<Rightarrow> ide_drive \<Rightarrow> 'a ide_scheme \<Rightarrow> ide_device" where
  "device channel drv s \<equiv> ide_devices s ! dev_idx channel drv"

definition upd_device ::
  "ide_channel \<Rightarrow> ide_drive \<Rightarrow> (ide_device \<Rightarrow> ide_device) \<Rightarrow> 'a ide_scheme \<Rightarrow> 'a ide_scheme" where
  "upd_device channel drv f s = s\<lparr>ide_devices := (ide_devices s)[dev_idx channel drv := f (device channel drv s)]\<rparr>"

text \<open>A number of words from the data register.\<close>

fun inw_words :: "nat \<Rightarrow> u16 \<Rightarrow> 'a hardware_scheme \<Rightarrow> u16 list \<times> 'a hardware_scheme" where
  "inw_words 0 base h = ([], h)"
| "inw_words (Suc n) base h =
     (let (w, h1) = inw (base + IDE_REG_DATA) h; (ws, h2) = inw_words n base h1 in (w # ws, h2))"

definition identify_model :: "u16 list \<Rightarrow> u8 list" where
  "identify_model identify_data =
     (let chars = concat (map (\<lambda>i. [ucast (drop_bit 8 (identify_data ! (27 + i))), ucast (identify_data ! (27 + i) AND 0xFF)])
                    [0..<20]);
          kept = rev (dropWhile (\<lambda>c. c = 32) (rev chars))
      in kept @ replicate (41 - length kept) 0)"

definition ide_identify :: "ide_channel \<Rightarrow> ide_drive \<Rightarrow> 'a ide_scheme \<Rightarrow> int \<times> 'a ide_scheme" where
  "ide_identify channel drv s =
     (let base = (if channel = IDE_CHANNEL_PRIMARY then IDE_PRIMARY_IO_BASE else IDE_SECONDARY_IO_BASE);
          ctrl = (if channel = IDE_CHANNEL_PRIMARY then IDE_PRIMARY_CTRL_BASE else IDE_SECONDARY_CTRL_BASE);
          drive_select = (if drv = IDE_DRIVE_MASTER_IDX then IDE_DRIVE_MASTER else IDE_DRIVE_SLAVE);
          s1 = upd_device channel drv
                 (\<lambda>d. d\<lparr>io_base := base, ctrl_base := ctrl, drive := drive_select, exists := False\<rparr>) s;
          h1 = outb (base + IDE_REG_COMMAND) IDE_CMD_IDENTIFY (ide_select_drive base drive_select (hw s1));
          (status, h2) = ide_read_status base h1
      in if status = 0 then (-1, s1\<lparr>hw := h2\<rparr>)
         else let (r1, h3) = ide_wait_ready base h2 in
         if r1 \<noteq> 0 then (-1, s1\<lparr>hw := h3\<rparr>)
         else let (r2, h4) = ide_wait_drq base h3 in
         if r2 \<noteq> 0 then (-1, s1\<lparr>hw := h4\<rparr>)
         else
           let (identify_data, h5) = inw_words 256 base h4;
               lba = identify_data ! 49 AND push_bit 9 1 \<noteq> 0;
               s2 = upd_device channel drv (\<lambda>d. d\<lparr>lba_supported := lba\<rparr>) (s1\<lparr>hw := h5\<rparr>)
           in if \<not> lba then (-1, printk ''[IDE] Drive does not support LBA\<newline>'' [] s2)
              else
                let n = push_bit 16 (ucast (identify_data ! 61)) OR ucast (identify_data ! 60) :: u32
                in (0, upd_device channel drv (\<lambda>d. d\<lparr>sectors := n, size_mb := (n * 512) div (1024 * 1024),
                       model := identify_model identify_data, exists := True\<rparr>) s2))"

text \<open>The command block shared by reading and writing.\<close>

definition ide_command :: "u16 \<Rightarrow> u8 \<Rightarrow> u32 \<Rightarrow> u8 \<Rightarrow> u8 \<Rightarrow> 'a hardware_scheme \<Rightarrow> 'a hardware_scheme" where
  "ide_command base drive_select lba count cmd h =
     outb (base + IDE_REG_COMMAND) cmd
       (outb (base + IDE_REG_LBAHI) (ucast (drop_bit 16 lba AND 0xFF))
       (outb (base + IDE_REG_LBAMID) (ucast (drop_bit 8 lba AND 0xFF))
       (outb (base + IDE_REG_LBALO) (ucast (lba AND 0xFF))
       (outb (base + IDE_REG_SECCOUNT) count
       (outb (base + IDE_REG_DRIVE) (drive_select OR ucast (drop_bit 24 lba AND 0x0F)) h)))))"

fun read_words :: "nat \<Rightarrow> u16 \<Rightarrow> nat \<Rightarrow> 'a machine_scheme \<Rightarrow> 'a machine_scheme" where
  "read_words 0 base a s = s"
| "read_words (Suc n) base a s =
     (let (w, h1) = inw (base + IDE_REG_DATA) (hw s)
      in read_words n base (a + 2) (s\<lparr>hw := h1, mem := wr16 (mem s) a w\<rparr>))"

fun read_sectors_loop :: "nat \<Rightarrow> u16 \<Rightarrow> nat \<Rightarrow> 'a machine_scheme \<Rightarrow> int \<times> 'a machine_scheme" where
  "read_sectors_loop 0 base a s = (0, s)"
| "read_sectors_loop (Suc n) base a s =
     (let (r, h1) = ide_wait_drq base (hw s); s1 = s\<lparr>hw := h1\<rparr>
      in if r \<noteq> 0 then (-1, s1) else read_sectors_loop n base (a + 512) (read_words 256 base a s1))"

definition ide_read_sectors ::
  "ide_channel \<Rightarrow> ide_drive \<Rightarrow> u32 \<Rightarrow> u8 \<Rightarrow> u32 \<Rightarrow> 'a ide_scheme \<Rightarrow> int \<times> 'a ide_scheme" where
  "ide_read_sectors channel drv lba count buffer s =
     (let d = device channel drv s in
      if \<not> exists d then (-1, s)
      else if count = 0 then (-1, s)
      else let base = io_base d; (r, h1) = ide_wait_ready base (hw s) in
      if r \<noteq> 0 then (-1, s\<lparr>hw := h1\<rparr>)
      else read_sectors_loop (unat count) base (unat buffer)
             (s\<lparr>hw := ide_command base (drive d) lba count IDE_CMD_READ_SECTORS h1\<rparr>))"

fun write_words :: "nat \<Rightarrow> u16 \<Rightarrow> nat \<Rightarrow> 'a machine_scheme \<Rightarrow> 'a machine_scheme" where
  "write_words 0 base a s = s"
| "write_words (Suc n) base a s =
     write_words n base (a + 2) (on_hw (outw (base + IDE_REG_DATA) (rd16 (mem s) a)) s)"

fun write_sectors_loop :: "nat \<Rightarrow> u16 \<Rightarrow> nat \<Rightarrow> 'a machine_scheme \<Rightarrow> int \<times> 'a machine_scheme" where
  "write_sectors_loop 0 base a s = (0, s)"
| "write_sectors_loop (Suc n) base a s =
     (let (r, h1) = ide_wait_drq base (hw s); s1 = s\<lparr>hw := h1\<rparr>
      in if r \<noteq> 0 then (-1, s1)
         else
           let s2 = write_words 256 base a s1; (r2, h2) = ide_wait_ready base (hw s2); s3 = s2\<lparr>hw := h2\<rparr>
           in if r2 \<noteq> 0 then (-1, s3) else write_sectors_loop n base (a + 512) s3)"

definition ide_write_sectors ::
  "ide_channel \<Rightarrow> ide_drive \<Rightarrow> u32 \<Rightarrow> u8 \<Rightarrow> u32 \<Rightarrow> 'a ide_scheme \<Rightarrow> int \<times> 'a ide_scheme" where
  "ide_write_sectors channel drv lba count buffer s =
     (let d = device channel drv s in
      if \<not> exists d then (-1, s)
      else if count = 0 then (-1, s)
      else let base = io_base d; (r, h1) = ide_wait_ready base (hw s) in
      if r \<noteq> 0 then (-1, s\<lparr>hw := h1\<rparr>)
      else
        let (r2, s2) = write_sectors_loop (unat count) base (unat buffer)
              (s\<lparr>hw := ide_command base (drive d) lba count IDE_CMD_WRITE_SECTORS h1\<rparr>)
        in if r2 \<noteq> 0 then (-1, s2)
           else (0, on_hw (\<lambda>h. snd (ide_wait_ready base (outb (base + IDE_REG_COMMAND) IDE_CMD_FLUSH h))) s2))"

definition ide_get_device :: "ide_channel \<Rightarrow> ide_drive \<Rightarrow> nat" where
  "ide_get_device channel drv = dev_idx channel drv"

definition cstring :: "u8 list \<Rightarrow> string" where
  "cstring bs = map (\<lambda>c. char_of (unat c)) (takeWhile (\<lambda>c. c \<noteq> 0) bs)"

definition print_device :: "string \<Rightarrow> string \<Rightarrow> ide_device \<Rightarrow> 'a ide_scheme \<Rightarrow> 'a ide_scheme" where
  "print_device channel_name drive_name d s =
     (let s1 = printk ''%s %s: '' [KStr (Some channel_name), KStr (Some drive_name)] s
      in if exists d
         then printk ''%s (%d MB, %d sectors)\<newline>''
                [KStr (Some (cstring (model d))), KInt (sint (size_mb d)), KInt (sint (sectors d))] s1
         else printk ''Not detected\<newline>'' [] s1)"

definition ide_print_devices :: "'a ide_scheme \<Rightarrow> 'a ide_scheme" where
  "ide_print_devices s =
     (let ds = ide_devices s
      in print_device ''Secondary'' ''Slave'' (ds ! 3) (print_device ''Secondary'' ''Master'' (ds ! 2)
           (print_device ''Primary'' ''Slave'' (ds ! 1) (print_device ''Primary'' ''Master'' (ds ! 0)
             (printk ''\<newline>=== IDE Devices ===\<newline>'' [] s)))))"

definition ide_init :: "'a ide_scheme \<Rightarrow> 'a ide_scheme" where
  "ide_init s =
     (let s1 = printk ''[IDE] Initializing IDE controller...\<newline>'' [] s;
          s2 = s1\<lparr>ide_devices := replicate 4 ide_device_zero\<rparr>;
          s3 = snd (ide_identify IDE_CHANNEL_PRIMARY IDE_DRIVE_MASTER_IDX s2);
          s4 = snd (ide_identify IDE_CHANNEL_PRIMARY IDE_DRIVE_SLAVE_IDX s3);
          s5 = snd (ide_identify IDE_CHANNEL_SECONDARY IDE_DRIVE_MASTER_IDX s4);
          s6 = snd (ide_identify IDE_CHANNEL_SECONDARY IDE_DRIVE_SLAVE_IDX s5)
      in printk ''[IDE] IDE controller initialized\<newline>'' [] (ide_print_devices s6))"

section \<open>The disk\<close>

text \<open>
  What a drive knows from the port accesses so far (newest first): the registers, and the command in
  progress with the address and sector count it was given. A sector count of 0 means 256 sectors. The
  words transferred are those moved through the data register, in the direction of the command, while the
  drive's data request \<open>q\<close> was up; the drive ignores other accesses to it.
\<close>

definition ata_reg :: "u16 \<Rightarrow> u16 \<Rightarrow> io_event list \<Rightarrow> u8" where
  "ata_reg base r es = (case last_out (base + r) es of None \<Rightarrow> 0 | Some v \<Rightarrow> v)"

definition ata_lba :: "u16 \<Rightarrow> io_event list \<Rightarrow> nat" where
  "ata_lba base es = unat (ata_reg base IDE_REG_LBALO es) + 2 ^ 8 * unat (ata_reg base IDE_REG_LBAMID es)
     + 2 ^ 16 * unat (ata_reg base IDE_REG_LBAHI es) + 2 ^ 24 * (unat (ata_reg base IDE_REG_DRIVE es) mod 16)"

definition ata_slave :: "u16 \<Rightarrow> io_event list \<Rightarrow> bool" where
  "ata_slave base es \<longleftrightarrow> bit (ata_reg base IDE_REG_DRIVE es) 4"

definition ata_count :: "u16 \<Rightarrow> io_event list \<Rightarrow> nat" where
  "ata_count base es = (if ata_reg base IDE_REG_SECCOUNT es = 0 then 256 else unat (ata_reg base IDE_REG_SECCOUNT es))"

record ata_transfer =
  x_cmd :: u8
  x_slave :: bool
  x_lba :: nat
  x_count :: nat
  x_in :: nat
  x_out :: "u16 list"

definition ata_start :: "u16 \<Rightarrow> u8 \<Rightarrow> io_event list \<Rightarrow> ata_transfer" where
  "ata_start base cmd es = \<lparr>x_cmd = cmd, x_slave = ata_slave base es, x_lba = ata_lba base es,
     x_count = ata_count base es, x_in = 0, x_out = []\<rparr>"

fun ata_xfer :: "(io_event list \<Rightarrow> bool) \<Rightarrow> u16 \<Rightarrow> io_event list \<Rightarrow> ata_transfer" where
  "ata_xfer q base [] = ata_start base 0 []"
| "ata_xfer q base (Outb p v # es) = (if p = base + IDE_REG_COMMAND then ata_start base v es else ata_xfer q base es)"
| "ata_xfer q base (Inw p # es) =
     (let x = ata_xfer q base es in
      if p = base + IDE_REG_DATA \<and> q es \<and> x_cmd x \<noteq> IDE_CMD_WRITE_SECTORS then x\<lparr>x_in := Suc (x_in x)\<rparr> else x)"
| "ata_xfer q base (Outw p w # es) =
     (let x = ata_xfer q base es in
      if p = base + IDE_REG_DATA \<and> q es \<and> x_cmd x = IDE_CMD_WRITE_SECTORS then x\<lparr>x_out := x_out x @ [w]\<rparr> else x)"
| "ata_xfer q base (e # es) = ata_xfer q base es"

text \<open>Words are outstanding, and the transfer is inside a sector.\<close>

definition x_pending :: "ata_transfer \<Rightarrow> bool" where
  "x_pending x \<longleftrightarrow> x_cmd x = IDE_CMD_READ_SECTORS \<and> x_in x < 256 * x_count x
     \<or> x_cmd x = IDE_CMD_WRITE_SECTORS \<and> length (x_out x) < 256 * x_count x
     \<or> x_cmd x = IDE_CMD_IDENTIFY \<and> x_in x < 256"

definition x_inside :: "ata_transfer \<Rightarrow> bool" where
  "x_inside x \<longleftrightarrow> (x_in x + length (x_out x)) mod 256 \<noteq> 0"

text \<open>The number of status reads since any other access.\<close>

definition ata_polls :: "u16 \<Rightarrow> io_event list \<Rightarrow> nat" where
  "ata_polls base es = length (takeWhile (\<lambda>e. e = Inb (base + IDE_REG_STATUS)) es)"

definition ata_status :: "(io_event list \<Rightarrow> u16 \<Rightarrow> u16) \<Rightarrow> u16 \<Rightarrow> io_event list \<Rightarrow> u8" where
  "ata_status d base es = ucast (d es (base + IDE_REG_STATUS))"

definition ata_drq :: "(io_event list \<Rightarrow> u16 \<Rightarrow> u16) \<Rightarrow> u16 \<Rightarrow> io_event list \<Rightarrow> bool" where
  "ata_drq d base es \<longleftrightarrow> ata_status d base es AND IDE_STATUS_DRQ \<noteq> 0"

text \<open>
  The documented behaviour of a channel with two drives of \<open>2 ^ 28\<close> sectors and no media error, where
  \<open>C slave k\<close> is word \<open>k\<close> of a drive. The error bit stays clear. The data request is up only while words
  are outstanding and the drive is not busy; once up it stays up over status reads and until the sector
  is transferred, and while it is up during a read the data register holds the next word. A drive that is
  polled is, after a bounded number of status reads, ready, with the data request up exactly when words
  are outstanding.
\<close>

definition ata_drive :: "u16 \<Rightarrow> (bool \<Rightarrow> nat \<Rightarrow> u16) \<Rightarrow> (io_event list \<Rightarrow> u16 \<Rightarrow> u16) \<Rightarrow> bool" where
  "ata_drive base C d \<longleftrightarrow> (let q = ata_drq d base; x = ata_xfer q base in
     (\<forall>es. ata_status d base es AND IDE_STATUS_ERR = 0)
     \<and> (\<forall>es. q es \<longrightarrow> x_pending (x es) \<and> ata_status d base es AND IDE_STATUS_BSY = 0)
     \<and> (\<forall>es. q es \<longrightarrow> q (Inb (base + IDE_REG_STATUS) # es))
     \<and> (\<forall>es. q es \<and> x_inside (x (Inw (base + IDE_REG_DATA) # es)) \<longrightarrow> q (Inw (base + IDE_REG_DATA) # es))
     \<and> (\<forall>es w. q es \<and> x_inside (x (Outw (base + IDE_REG_DATA) w # es)) \<longrightarrow> q (Outw (base + IDE_REG_DATA) w # es))
     \<and> (\<forall>es. q es \<and> x_cmd (x es) = IDE_CMD_READ_SECTORS \<longrightarrow>
          d es (base + IDE_REG_DATA) = C (x_slave (x es)) (256 * x_lba (x es) + x_in (x es)))
     \<and> (\<exists>n < 10000. \<forall>es. n \<le> ata_polls base es \<longrightarrow>
          ata_status d base es AND IDE_STATUS_BSY = 0 \<and> ata_status d base es AND IDE_STATUS_RDY \<noteq> 0
          \<and> (q es \<longleftrightarrow> x_pending (x es))))"

definition ata_disk :: "u16 \<Rightarrow> (bool \<Rightarrow> nat \<Rightarrow> u16) \<Rightarrow> 'a hardware_scheme \<Rightarrow> bool" where
  "ata_disk base C h \<longleftrightarrow> ata_drive base C (dev h)"

lemma ata_disk_hist [simp]: "ata_disk base C (h\<lparr>hist := es\<rparr>) = ata_disk base C h"
  by (simp add: ata_disk_def)

abbreviation hw_drq :: "u16 \<Rightarrow> 'a hardware_scheme \<Rightarrow> bool" where
  "hw_drq base h \<equiv> ata_drq (dev h) base (hist h)"

abbreviation hw_xfer :: "u16 \<Rightarrow> 'a hardware_scheme \<Rightarrow> ata_transfer" where
  "hw_xfer base h \<equiv> ata_xfer (ata_drq (dev h) base) base (hist h)"

abbreviation polled :: "u16 \<Rightarrow> nat \<Rightarrow> 'a hardware_scheme \<Rightarrow> 'a hardware_scheme" where
  "polled base k h \<equiv> h\<lparr>hist := replicate k (Inb (base + IDE_REG_STATUS)) @ hist h\<rparr>"

lemma ata_polls_simps [simp]:
  "ata_polls base (Inb (base + 7) # es) = Suc (ata_polls base es)"
  by (simp add: ata_polls_def)

lemma ata_xfer_polled [simp]:
  "ata_xfer q base (replicate k (Inb p) @ es) = ata_xfer q base es"
  by (induction k) auto

lemma polled_Suc: "polled base k (h\<lparr>hist := Inb (base + 7) # hist h\<rparr>) = polled base (Suc k) h"
  by (simp add: replicate_app_Cons_same)

lemma wait_ready_drive:
  assumes "\<forall>es. n \<le> ata_polls base es \<longrightarrow>
      ata_status (dev h) base es AND IDE_STATUS_BSY = 0 \<and> ata_status (dev h) base es AND IDE_STATUS_RDY \<noteq> 0"
    and "n < ata_polls base (hist h) + t" "0 < t"
  shows "\<exists>k > 0. wait_ready_loop t base h = (0, polled base k h)"
  using assms
proof (induction t arbitrary: h)
  case (Suc t)
  let ?h1 = "h\<lparr>hist := Inb (base + 7) # hist h\<rparr>"
  let ?st = "ata_status (dev h) base (hist h)"
  show ?case
  proof (cases "?st AND IDE_STATUS_BSY = 0 \<and> ?st AND IDE_STATUS_RDY \<noteq> 0")
    case True
    then have "wait_ready_loop (Suc t) base h = (0, polled base 1 h)" by (simp add: inb_def ata_status_def)
    then show ?thesis by (intro exI [of _ 1]) simp
  next
    case False
    then have "ata_polls base (hist h) < n" using Suc.prems(1) by (meson not_less)
    then obtain k where "wait_ready_loop t base ?h1 = (0, polled base k ?h1)"
      using Suc.IH [of ?h1] Suc.prems by auto
    then have "wait_ready_loop (Suc t) base h = (0, polled base (Suc k) h)"
      using False unfolding polled_Suc [symmetric] by (auto simp: inb_def ata_status_def)
    then show ?thesis by (intro exI [of _ "Suc k"]) simp
  qed
qed simp

lemma ata_wait_ready:
  assumes "ata_disk base C h"
  obtains k where "ide_wait_ready base h = (0, polled base k h)" "0 < k"
proof -
  obtain n where n: "n < 10000" "\<forall>es. n \<le> ata_polls base es \<longrightarrow>
      ata_status (dev h) base es AND IDE_STATUS_BSY = 0 \<and> ata_status (dev h) base es AND IDE_STATUS_RDY \<noteq> 0"
    using assms by (auto simp: ata_disk_def ata_drive_def Let_def)
  have "\<exists>k > 0. wait_ready_loop 10000 base h = (0, polled base k h)"
    by (rule wait_ready_drive [OF n(2)]) (use n(1) in simp_all)
  then show thesis using that by (auto simp: ide_wait_ready_def)
qed

lemma wait_drq_drive:
  assumes "\<forall>es. ata_status (dev h) base es AND IDE_STATUS_ERR = 0"
    and "\<forall>es. n \<le> ata_polls base es \<longrightarrow> x_pending (ata_xfer (ata_drq (dev h) base) base es) \<longrightarrow> ata_drq (dev h) base es"
    and "\<forall>es. ata_drq (dev h) base es \<longrightarrow> ata_drq (dev h) base (Inb (base + IDE_REG_STATUS) # es)"
    and "x_pending (hw_xfer base h)" "n < ata_polls base (hist h) + t" "0 < t"
  shows "\<exists>k > 0. wait_drq_loop t base h = (0, polled base k h) \<and> hw_drq base (polled base k h)"
  using assms
proof (induction t arbitrary: h)
  case (Suc t)
  let ?h1 = "h\<lparr>hist := Inb (base + 7) # hist h\<rparr>"
  show ?case
  proof (cases "hw_drq base h")
    case True
    then have "wait_drq_loop (Suc t) base h = (0, polled base 1 h)" by (simp add: inb_def ata_drq_def ata_status_def)
    moreover have "hw_drq base (polled base 1 h)" using True Suc.prems(3) by simp
    ultimately show ?thesis by (intro exI [of _ 1]) simp
  next
    case False
    then have "ata_polls base (hist h) < n" using Suc.prems(2,4) by (meson not_less)
    then obtain k where "wait_drq_loop t base ?h1 = (0, polled base k ?h1)" "hw_drq base (polled base k ?h1)"
      using Suc.IH [of ?h1] Suc.prems by auto
    then have "wait_drq_loop (Suc t) base h = (0, polled base (Suc k) h)" "hw_drq base (polled base (Suc k) h)"
      using False Suc.prems(1) unfolding polled_Suc [symmetric] by (auto simp: inb_def ata_drq_def ata_status_def)
    then show ?thesis by (intro exI [of _ "Suc k"]) simp
  qed
qed simp

lemma ata_wait_drq:
  assumes "ata_disk base C h" "x_pending (hw_xfer base h)"
  obtains k where "ide_wait_drq base h = (0, polled base k h)" "hw_drq base (polled base k h)"
proof -
  note drive = assms(1) [unfolded ata_disk_def ata_drive_def Let_def]
  obtain n where n: "n < 10000" "\<forall>es. n \<le> ata_polls base es \<longrightarrow>
      x_pending (ata_xfer (ata_drq (dev h) base) base es) \<longrightarrow> ata_drq (dev h) base es"
    using drive by blast
  have "\<exists>k > 0. wait_drq_loop 10000 base h = (0, polled base k h) \<and> hw_drq base (polled base k h)"
    by (rule wait_drq_drive [OF _ n(2) _ assms(2)]) (use n(1) drive in auto)
  then show thesis using that by (auto simp: ide_wait_drq_def)
qed

section \<open>Reading\<close>

fun wr_words :: "memory \<Rightarrow> nat \<Rightarrow> u16 list \<Rightarrow> memory" where
  "wr_words m a [] = m"
| "wr_words m a (w # ws) = wr_words (wr16 m a w) (a + 2) ws"

lemma wr_words_append: "wr_words m a (xs @ ys) = wr_words (wr_words m a xs) (a + 2 * length xs) ys"
  by (induction xs arbitrary: m a) (auto simp: algebra_simps)

lemma wr_words_apply:
  "wr_words m a ws x = (if a \<le> x \<and> x < a + 2 * length ws
     then (if even (x - a) then ucast (ws ! ((x - a) div 2)) else ucast (drop_bit 8 (ws ! ((x - a) div 2)))) else m x)"
proof (induction ws arbitrary: m a)
  case (Cons w ws)
  consider "x < a" | "x = a" | "x = a + 1" | "a + 2 \<le> x" by linarith
  then show ?case
  proof cases
    case 2
    then show ?thesis unfolding wr_words.simps Cons.IH by (simp add: wr16_def)
  next
    case 3
    then show ?thesis unfolding wr_words.simps Cons.IH by (simp add: wr16_def)
  next
    case 4
    then obtain k where k: "x = a + 2 + k" by (metis le_add_diff_inverse)
    show ?thesis unfolding wr_words.simps Cons.IH by (simp add: k wr16_other)
  qed (simp add: Cons.IH wr16_def)
qed auto

lemma read_words_disk:
  fixes s :: "'a machine_scheme" and base :: u16
  assumes "ata_disk base C (hw s)" "0 < n \<Longrightarrow> hw_drq base (hw s)" "hw_xfer base (hw s) = x"
    and "x_cmd x = IDE_CMD_READ_SECTORS" "x_out x = []" "x_in x mod 256 + n \<le> 256"
  defines "es \<equiv> replicate n (Inw base) @ hist (hw s)"
  shows "read_words n base a s = s\<lparr>hw := (hw s)\<lparr>hist := es\<rparr>,
      mem := wr_words (mem s) a (map (\<lambda>i. C (x_slave x) (256 * x_lba x + x_in x + i)) [0..<n])\<rparr>
    \<and> ata_xfer (ata_drq (dev (hw s)) base) base es = x\<lparr>x_in := x_in x + n\<rparr>"
  using assms(1-6) unfolding es_def
proof (induction n arbitrary: a s x)
  case (Suc n)
  let ?es = "hist (hw s)" and ?x1 = "x\<lparr>x_in := Suc (x_in x)\<rparr>"
  let ?f = "\<lambda>k i. C (x_slave x) (256 * x_lba x + k + i)"
  let ?s1 = "s\<lparr>hw := (hw s)\<lparr>hist := Inw base # ?es\<rparr>, mem := wr16 (mem s) a (?f (x_in x) 0)\<rparr>"
  note drive = Suc.prems(1) [unfolded ata_disk_def ata_drive_def Let_def]
  have q: "hw_drq base (hw s)" using Suc.prems(2) by simp
  have x1: "hw_xfer base (hw ?s1) = ?x1" using q Suc.prems(3,4) by simp
  have w: "dev (hw s) ?es base = ?f (x_in x) 0" using drive q Suc.prems(3,4) by auto
  have q1: "hw_drq base (hw ?s1)" if "0 < n"
  proof -
    have "Suc (x_in x) mod 256 \<noteq> 0" using that Suc.prems(6) by (simp add: mod_Suc)
    then have "x_inside (ata_xfer (ata_drq (dev (hw s)) base) base (Inw (base + 0) # ?es))"
      using x1 Suc.prems(5) by (simp add: x_inside_def)
    then show ?thesis using drive q by fastforce
  qed
  have m: "x_in ?x1 mod 256 + n \<le> 256" using Suc.prems(6) by (simp add: mod_Suc)
  note IH = Suc.IH [of ?s1 ?x1 "a + 2", OF _ q1 x1 _ _ m]
  have "read_words (Suc n) base a s = read_words n base (a + 2) ?s1" by (simp add: inw_def w)
  also have "\<dots> = ?s1\<lparr>hw := (hw s)\<lparr>hist := replicate n (Inw base) @ Inw base # ?es\<rparr>,
      mem := wr_words (mem ?s1) (a + 2) (map (?f (Suc (x_in x))) [0..<n])\<rparr>"
    using IH Suc.prems by simp
  also have "map (?f (Suc (x_in x))) [0..<n] = map (?f (x_in x)) [1..<Suc n]"
    by (simp add: map_Suc_upt [symmetric] del: upt_Suc)
  finally have "read_words (Suc n) base a s = s\<lparr>hw := (hw s)\<lparr>hist := replicate (Suc n) (Inw base) @ hist (hw s)\<rparr>,
      mem := wr_words (mem s) a (map (?f (x_in x)) [0..<Suc n])\<rparr>"
    by (simp add: upt_conv_Cons replicate_app_Cons_same del: upt_Suc)
  moreover have "ata_xfer (ata_drq (dev (hw s)) base) base (replicate (Suc n) (Inw base) @ hist (hw s)) = x\<lparr>x_in := x_in x + Suc n\<rparr>"
    using IH Suc.prems by (simp add: replicate_app_Cons_same)
  ultimately show ?case by blast
qed simp

lemma read_sectors_disk:
  fixes s :: "'a machine_scheme"
  assumes "ata_disk base C (hw s)" "hw_xfer base (hw s) = x"
    and "x_cmd x = IDE_CMD_READ_SECTORS" "x_out x = []" "x_in x mod 256 = 0" "x_in x + 256 * n \<le> 256 * x_count x"
  shows "\<exists>es. read_sectors_loop n base a s = (0, s\<lparr>hw := (hw s)\<lparr>hist := es\<rparr>,
    mem := wr_words (mem s) a (map (\<lambda>i. C (x_slave x) (256 * x_lba x + x_in x + i)) [0..<256 * n])\<rparr>)"
  using assms
proof (induction n arbitrary: a s x)
  case 0
  have "s = s\<lparr>hw := (hw s)\<lparr>hist := hist (hw s)\<rparr>, mem := mem s\<rparr>" by simp
  then show ?case by (intro exI [of _ "hist (hw s)"]) simp
next
  case (Suc n)
  have "x_pending (hw_xfer base (hw s))" using Suc.prems by (simp add: x_pending_def)
  with Suc.prems(1) obtain k where k: "ide_wait_drq base (hw s) = (0, polled base k (hw s))"
    "hw_drq base (polled base k (hw s))" by (rule ata_wait_drq)
  let ?s1 = "s\<lparr>hw := polled base k (hw s)\<rparr>" and ?x2 = "x\<lparr>x_in := x_in x + 256\<rparr>"
  let ?f = "\<lambda>i. C (x_slave x) (256 * x_lba x + x_in x + i)"
  define es2 where "es2 = replicate 256 (Inw base) @ hist (hw ?s1)"
  let ?s2 = "s\<lparr>hw := (hw s)\<lparr>hist := es2\<rparr>, mem := wr_words (mem s) a (map ?f [0..<256])\<rparr>"
  have r: "read_words 256 base a ?s1 = ?s2" "hw_xfer base (hw ?s2) = ?x2"
    using read_words_disk [of base C ?s1 256 x a] Suc.prems k(2) by (simp_all add: es2_def del: upt_rec_numeral)
  have "read_sectors_loop (Suc n) base a s = read_sectors_loop n base (a + 512) ?s2"
    using k(1) r(1) by (simp del: upt_rec_numeral)
  moreover have "\<exists>es. read_sectors_loop n base (a + 512) ?s2 = (0, ?s2\<lparr>hw := (hw ?s2)\<lparr>hist := es\<rparr>,
      mem := wr_words (mem ?s2) (a + 512) (map (\<lambda>i. ?f (256 + i)) [0..<256 * n])\<rparr>)"
    using Suc.IH [of ?s2 ?x2 "a + 512", OF _ r(2)] Suc.prems
    by (simp add: add.assoc add.left_commute del: upt_rec_numeral)
  moreover have "map ?f [0..<256] @ map (\<lambda>i. ?f (256 + i)) [0..<256 * n] = map ?f [0..<256 * Suc n]"
    by (rule nth_equalityI) (auto simp: nth_append simp del: upt_rec_numeral)
  then have "wr_words (mem ?s2) (a + 512) (map (\<lambda>i. ?f (256 + i)) [0..<256 * n]) =
      wr_words (mem s) a (map ?f [0..<256 * Suc n])"
    using wr_words_append [of "mem s" a "map ?f [0..<256]" "map (\<lambda>i. ?f (256 + i)) [0..<256 * n]"]
    by (simp del: upt_rec_numeral)
  ultimately show ?case by (auto simp del: upt_rec_numeral)
qed

text \<open>The transfer that a command block starts.\<close>

lemma ata_xfer_command:
  fixes base :: u16 and ds count cmd :: u8 and lba :: u32 and h :: "'a hardware_scheme"
  assumes "ds = IDE_DRIVE_MASTER \<or> ds = IDE_DRIVE_SLAVE" "count \<noteq> 0"
  shows "ata_xfer q base (hist (ide_command base ds lba count cmd h)) =
    \<lparr>x_cmd = cmd, x_slave = (ds = IDE_DRIVE_SLAVE), x_lba = unat lba mod 2 ^ 28, x_count = unat count, x_in = 0, x_out = []\<rparr>"
proof -
  define es where "es = [Outb (base + IDE_REG_LBAHI) (ucast (drop_bit 16 lba AND 0xFF)),
    Outb (base + IDE_REG_LBAMID) (ucast (drop_bit 8 lba AND 0xFF)), Outb (base + IDE_REG_LBALO) (ucast (lba AND 0xFF)),
    Outb (base + IDE_REG_SECCOUNT) count, Outb (base + IDE_REG_DRIVE) (ds OR ucast (drop_bit 24 lba AND 0x0F))] @ hist h"
  have regs: "ata_reg base IDE_REG_LBALO es = ucast (lba AND 0xFF)" "ata_reg base IDE_REG_LBAMID es = ucast (drop_bit 8 lba AND 0xFF)"
    "ata_reg base IDE_REG_LBAHI es = ucast (drop_bit 16 lba AND 0xFF)"
    "ata_reg base IDE_REG_DRIVE es = ds OR ucast (drop_bit 24 lba AND 0x0F)" "ata_reg base IDE_REG_SECCOUNT es = count"
    by (simp_all add: es_def ata_reg_def)
  have byte: "unat (ucast (take_bit 8 x) :: u8) = unat x mod 2 ^ 8" for x :: u32
    by (simp only: unsigned_ucast_eq unat_take_bit) (simp add: take_bit_eq_mod)
  have "take_bit 4 (ds OR ucast (take_bit 4 x)) = (ucast (take_bit 4 x) :: u8)" for x :: u32
    using assms(1) by (auto intro!: bit_word_eqI simp: bit_simps)
  then have "unat (ds OR ucast (take_bit 4 x) :: u8) mod 2 ^ 4 = unat (ucast (take_bit 4 x) :: u8)" for x :: u32
    by (metis unat_take_bit)
  then have nib: "unat (ds OR ucast (take_bit 4 x) :: u8) mod 16 = unat x mod 16" for x :: u32
    by (simp only: unsigned_ucast_eq unat_take_bit) (simp add: take_bit_eq_mod unsigned_ucast_eq unat_take_bit)
  have "x mod 2 ^ 28 = x mod 2 ^ 8 + 2 ^ 8 * (x div 2 ^ 8 mod 2 ^ 8) + 2 ^ 16 * (x div 2 ^ 16 mod 2 ^ 8)
      + 2 ^ 24 * (x div 2 ^ 24 mod 16)" for x :: nat
    using mod_mult2_eq [of x "2 ^ 24" 16] mod_mult2_eq [of x "2 ^ 16" "2 ^ 8"] mod_mult2_eq [of x "2 ^ 8" "2 ^ 8"] by simp
  then have "ata_lba base es = unat lba mod 2 ^ 28"
    by (simp only: ata_lba_def regs and_low_bits byte nib unat_drop_bit)
  moreover have "ata_slave base es \<longleftrightarrow> ds = IDE_DRIVE_SLAVE"
    using assms(1) by (auto simp: ata_slave_def regs and_low_bits bit_simps)
  moreover have "ata_count base es = unat count" using assms(2) by (simp add: ata_count_def regs)
  moreover have "hist (ide_command base ds lba count cmd h) = Outb (base + IDE_REG_COMMAND) cmd # es"
    by (simp add: ide_command_def outb_def es_def)
  ultimately show ?thesis by (simp add: ata_start_def)
qed

lemma ide_command_hist: "ide_command base ds lba count cmd h = h\<lparr>hist := hist (ide_command base ds lba count cmd h)\<rparr>"
  by (simp add: ide_command_def outb_def)

definition ide_ready :: "ide_channel \<Rightarrow> ide_drive \<Rightarrow> (bool \<Rightarrow> nat \<Rightarrow> u16) \<Rightarrow> 'a ide_scheme \<Rightarrow> bool" where
  "ide_ready channel drv C s \<longleftrightarrow> exists (device channel drv s)
     \<and> drive (device channel drv s) = (if drv = IDE_DRIVE_MASTER_IDX then IDE_DRIVE_MASTER else IDE_DRIVE_SLAVE)
     \<and> ata_disk (io_base (device channel drv s)) C (hw s)"

lemma ide_ready_device:
  assumes "ide_ready channel drv C s"
  defines "d \<equiv> device channel drv s"
  shows "exists d" "drive d = IDE_DRIVE_MASTER \<or> drive d = IDE_DRIVE_SLAVE"
    "drive d = IDE_DRIVE_SLAVE \<longleftrightarrow> drv = IDE_DRIVE_SLAVE_IDX" "ata_disk (io_base d) C (hw s)"
  using assms by (auto simp: ide_ready_def intro: ide_drive.exhaust split: if_splits)

text \<open>
  Reading. On a detected drive that behaves as documented, \<open>ide_read_sectors\<close> succeeds and stores in
  the buffer exactly the words of the addressed drive from sector \<open>lba\<close> (of 28 bits) on, 256 for each of
  the \<open>count\<close> sectors, low byte first; nothing else of memory or of the driver's state changes.
\<close>

lemma ide_read_correct:
  assumes "ide_ready channel drv C s" "count \<noteq> 0"
  shows "\<exists>es. ide_read_sectors channel drv lba count buffer s = (0, s\<lparr>hw := (hw s)\<lparr>hist := es\<rparr>,
    mem := wr_words (mem s) (unat buffer)
      (map (\<lambda>i. C (drv = IDE_DRIVE_SLAVE_IDX) (256 * (unat lba mod 2 ^ 28) + i)) [0..<256 * unat count])\<rparr>)"
proof -
  define d where "d = device channel drv s"
  note d = ide_ready_device [OF assms(1), folded d_def]
  obtain k where k: "ide_wait_ready (io_base d) (hw s) = (0, polled (io_base d) k (hw s))"
    using d(4) by (rule ata_wait_ready)
  let ?h = "ide_command (io_base d) (drive d) lba count 0x20 (polled (io_base d) k (hw s))"
  have h: "?h = (hw s)\<lparr>hist := hist ?h\<rparr>" by (subst ide_command_hist) simp
  then have disk: "ata_disk (io_base d) C ?h" using d(4) by (metis ata_disk_hist)
  note cmd = ata_xfer_command [OF d(2) assms(2), of _ "io_base d" lba "0x20" "polled (io_base d) k (hw s)"]
  have "ide_read_sectors channel drv lba count buffer s = read_sectors_loop (unat count) (io_base d) (unat buffer) (s\<lparr>hw := ?h\<rparr>)"
    using d(1) assms(2) k by (simp add: ide_read_sectors_def d_def [symmetric] Let_def)
  moreover obtain es where "read_sectors_loop (unat count) (io_base d) (unat buffer) (s\<lparr>hw := ?h\<rparr>) =
      (0, s\<lparr>hw := ?h\<lparr>hist := es\<rparr>, mem := wr_words (mem s) (unat buffer)
        (map (\<lambda>i. C (drv = IDE_DRIVE_SLAVE_IDX) (256 * (unat lba mod 2 ^ 28) + i)) [0..<256 * unat count])\<rparr>)"
    using read_sectors_disk [of "io_base d" C "s\<lparr>hw := ?h\<rparr>" _ "unat count" "unat buffer", OF _ refl] disk cmd d(3)
    by (auto simp del: upt_rec_numeral)
  moreover have "?h\<lparr>hist := es\<rparr> = (hw s)\<lparr>hist := es\<rparr>" by (subst h) simp
  ultimately show ?thesis by metis
qed

section \<open>Writing\<close>




section \<open>A channel with one drive\<close>

text \<open>
  While an absent drive is selected the status register reads 0. Detection selects the slave last, and
  reading and writing wait for the drive to be ready before they select theirs: on a channel without a
  slave every later access times out, and leaves the slave selected.
\<close>

definition absent_slave :: "u16 \<Rightarrow> (io_event list \<Rightarrow> u16 \<Rightarrow> u16) \<Rightarrow> bool" where
  "absent_slave base d \<longleftrightarrow> (\<forall>es. ata_slave base es \<longrightarrow> d es (base + IDE_REG_STATUS) = 0)"

lemma ata_slave_polled [simp]: "ata_slave base (replicate k (Inb p) @ es) = ata_slave base es"
  by (induction k) (auto simp: ata_slave_def ata_reg_def)

lemma wait_ready_absent:
  assumes "absent_slave base (dev h)" "ata_slave base (hist h)"
  shows "wait_ready_loop t base h = (-1, polled base t h)"
  using assms
proof (induction t arbitrary: h)
  case (Suc t)
  let ?h1 = "h\<lparr>hist := Inb (base + 7) # hist h\<rparr>"
  have "wait_ready_loop (Suc t) base h = wait_ready_loop t base ?h1"
    using Suc.prems by (simp add: inb_def absent_slave_def)
  also have "\<dots> = (-1, polled base t ?h1)"
    using Suc.IH [of ?h1] Suc.prems ata_slave_polled [of base 1] by simp
  finally show ?case by (simp only: polled_Suc)
qed simp

lemma ide_identify_absent:
  fixes s :: "'a ide_scheme" and channel :: ide_channel
  defines "base \<equiv> if channel = IDE_CHANNEL_PRIMARY then IDE_PRIMARY_IO_BASE else IDE_SECONDARY_IO_BASE"
  assumes "absent_slave base (dev (hw s))"
  shows "fst (ide_identify channel IDE_DRIVE_SLAVE_IDX s) = -1"
    and "ata_slave base (hist (hw (snd (ide_identify channel IDE_DRIVE_SLAVE_IDX s))))"
proof -
  let ?es = "Outb (base + 7) 0xEC # replicate 4 (Inb base) @ Outb (base + 6) 0xF0 # hist (hw s)"
  have "bit (0xF0 :: u8) 4" by (simp add: bit_iff_odd)
  then have sl: "ata_slave base ?es" by (simp add: ata_slave_def ata_reg_def numeral_eq_Suc)
  then have "ide_identify channel IDE_DRIVE_SLAVE_IDX s = (-1, (upd_device channel IDE_DRIVE_SLAVE_IDX
      (\<lambda>d. d\<lparr>io_base := base, ctrl_base := if channel = IDE_CHANNEL_PRIMARY then 0x3F6 else 0x376, drive := 0xF0, exists := False\<rparr>) s)
      \<lparr>hw := (hw s)\<lparr>hist := Inb (base + 7) # ?es\<rparr>\<rparr>)"
    using assms(2)
    by (simp add: ide_identify_def base_def [symmetric] Let_def ide_select_drive_def ide_read_status_def inb_def outb_def
        upd_device_def absent_slave_def numeral_eq_Suc)
  then show "fst (ide_identify channel IDE_DRIVE_SLAVE_IDX s) = -1"
    and "ata_slave base (hist (hw (snd (ide_identify channel IDE_DRIVE_SLAVE_IDX s))))"
    using sl ata_slave_polled [of base 1 "base + 7" ?es] by simp_all
qed

lemma ide_absent_slave_times_out:
  assumes "absent_slave base (dev (hw s))" "ata_slave base (hist (hw s))"
    and "exists (device channel drv s)" "io_base (device channel drv s) = base" "count \<noteq> 0"
  shows "ide_read_sectors channel drv lba count buffer s = (-1, s\<lparr>hw := polled base 10000 (hw s)\<rparr>)"
    and "ide_write_sectors channel drv lba count buffer s = (-1, s\<lparr>hw := polled base 10000 (hw s)\<rparr>)"
    and "ata_slave base (hist (polled base 10000 (hw s)))"
  using assms wait_ready_absent [OF assms(1,2), of 10000]
  by (simp_all add: ide_read_sectors_def ide_write_sectors_def ide_wait_ready_def Let_def)

section \<open>An example\<close>

text \<open>
  Two drives on the primary channel, with given contents. A drive is busy for the first two status reads
  after a command and after each sector; its state is the transfer and the number of busy answers left.
\<close>

definition disk_content :: "bool \<Rightarrow> nat \<Rightarrow> u16" where
  "disk_content slave k = of_nat k"

definition disk_drq :: "ata_transfer \<times> nat \<Rightarrow> bool" where
  "disk_drq st \<longleftrightarrow> snd st = 0 \<and> x_pending (fst st)"

fun disk_state :: "io_event list \<Rightarrow> ata_transfer \<times> nat" where
  "disk_state [] = (ata_start 0x1F0 0 [], 0)"
| "disk_state (Outb p v # es) = (if p = 0x1F7 then (ata_start 0x1F0 v es, 2) else disk_state es)"
| "disk_state (Inb p # es) = (let (x, n) = disk_state es in (x, if p = 0x1F7 then n - 1 else n))"
| "disk_state (Inw p # es) =
     (let (x, n) = disk_state es; x1 = x\<lparr>x_in := Suc (x_in x)\<rparr>
      in if p = 0x1F0 \<and> disk_drq (x, n) \<and> x_cmd x \<noteq> 0x30 then (x1, if x_inside x1 then 0 else 2) else (x, n))"
| "disk_state (Outw p w # es) =
     (let (x, n) = disk_state es; x1 = x\<lparr>x_out := x_out x @ [w]\<rparr>
      in if p = 0x1F0 \<and> disk_drq (x, n) \<and> x_cmd x = 0x30 then (x1, if x_inside x1 then 0 else 2) else (x, n))"

definition disk_device :: "(bool \<Rightarrow> nat \<Rightarrow> u16) \<Rightarrow> io_event list \<Rightarrow> u16 \<Rightarrow> u16" where
  "disk_device C es port = (let (x, n) = disk_state es in
     if port = 0x1F7 then (if 0 < n then 0x80 else if x_pending x then 0x48 else 0x40)
     else if port = 0x1F0 \<and> disk_drq (x, n) then C (x_slave x) (256 * x_lba x + x_in x) else 0)"

lemma disk_device_status:
  "ata_status (disk_device C) 0x1F0 es =
     (if 0 < snd (disk_state es) then 0x80 else if x_pending (fst (disk_state es)) then 0x48 else 0x40)"
  by (simp add: ata_status_def disk_device_def split: prod.splits)

lemma disk_device_drq: "ata_drq (disk_device C) 0x1F0 es = disk_drq (disk_state es)"
  by (simp add: ata_drq_def disk_device_status disk_drq_def)

lemma disk_device_xfer: "ata_xfer (ata_drq (disk_device C) 0x1F0) 0x1F0 es = fst (disk_state es)"
  by (induction es rule: disk_state.induct) (auto simp: disk_device_drq Let_def split: prod.splits)

lemma disk_state_polls: "snd (disk_state es) \<le> 2 - ata_polls 0x1F0 es"
  by (induction es rule: disk_state.induct) (auto simp: ata_polls_def Let_def disk_drq_def split: prod.splits if_splits)

lemma disk_state_direction:
  "x_cmd (fst (disk_state es)) = 0x30 \<Longrightarrow> x_in (fst (disk_state es)) = 0"
  "x_cmd (fst (disk_state es)) \<noteq> 0x30 \<Longrightarrow> x_out (fst (disk_state es)) = []"
  by (induction es rule: disk_state.induct) (auto simp: ata_start_def Let_def split: prod.splits if_splits)

lemma x_pending_in:
  assumes "x_pending x" "x_cmd x \<noteq> 0x30" "x_out x = []" "x_inside (x\<lparr>x_in := Suc (x_in x)\<rparr>)"
  shows "x_pending (x\<lparr>x_in := Suc (x_in x)\<rparr>)"
proof -
  have "Suc (x_in x) mod 256 \<noteq> 0" using assms(3,4) by (simp add: x_inside_def)
  then have "Suc (x_in x) \<noteq> 256 * c" for c by (metis mod_mult_self1_is_0)
  from this [of "x_count x"] this [of 1] show ?thesis using assms(1,2) by (auto simp: x_pending_def)
qed

lemma x_pending_out:
  assumes "x_pending x" "x_cmd x = 0x30" "x_in x = 0" "x_inside (x\<lparr>x_out := x_out x @ [w]\<rparr>)"
  shows "x_pending (x\<lparr>x_out := x_out x @ [w]\<rparr>)"
proof -
  have "Suc (length (x_out x)) mod 256 \<noteq> 0" using assms(3,4) by (simp add: x_inside_def)
  then have "Suc (length (x_out x)) \<noteq> 256 * c" for c by (metis mod_mult_self1_is_0)
  then show ?thesis using assms(1,2) by (auto simp: x_pending_def Suc_le_eq less_le)
qed

lemma disk_device_drive: "ata_drive 0x1F0 C (disk_device C)"
proof -
  let ?d = "disk_device C" let ?q = "ata_drq ?d 0x1F0" let ?x = "ata_xfer ?q 0x1F0"
  have "\<exists>n < 10000. \<forall>es. n \<le> ata_polls 0x1F0 es \<longrightarrow>
      ata_status ?d 0x1F0 es AND IDE_STATUS_BSY = 0 \<and> ata_status ?d 0x1F0 es AND IDE_STATUS_RDY \<noteq> 0
      \<and> (?q es \<longleftrightarrow> x_pending (?x es))"
  proof (intro exI [of _ 2] conjI allI impI)
    fix es assume "2 \<le> ata_polls 0x1F0 es"
    then have "snd (disk_state es) = 0" using disk_state_polls [of es] by simp
    then show "ata_status ?d 0x1F0 es AND IDE_STATUS_BSY = 0" "ata_status ?d 0x1F0 es AND IDE_STATUS_RDY \<noteq> 0"
      "?q es \<longleftrightarrow> x_pending (?x es)"
      by (simp_all add: disk_device_status disk_device_drq disk_drq_def disk_device_xfer)
  qed simp
  moreover have "?q es \<Longrightarrow> x_pending (?x es) \<and> ata_status ?d 0x1F0 es AND IDE_STATUS_BSY = 0"
    "?q es \<Longrightarrow> ?q (Inb 0x1F7 # es)" "ata_status ?d 0x1F0 es AND IDE_STATUS_ERR = 0"
    "?q es \<Longrightarrow> x_cmd (?x es) = IDE_CMD_READ_SECTORS \<Longrightarrow> ?d es 0x1F0 = C (x_slave (?x es)) (256 * x_lba (?x es) + x_in (?x es))"
    for es
    by (auto simp: disk_device_status disk_device_drq disk_drq_def disk_device_xfer disk_device_def split: prod.splits)
  moreover have "?q es \<Longrightarrow> x_inside (?x (Inw 0x1F0 # es)) \<Longrightarrow> ?q (Inw 0x1F0 # es)"
    "?q es \<Longrightarrow> x_inside (?x (Outw 0x1F0 w # es)) \<Longrightarrow> ?q (Outw 0x1F0 w # es)" for es w
    using disk_state_direction [of es] x_pending_in [of "fst (disk_state es)"] x_pending_out [of "fst (disk_state es)" w]
    by (auto simp: disk_device_drq disk_drq_def disk_device_xfer Let_def split: prod.splits if_splits)
  ultimately show ?thesis by (auto simp: ata_drive_def Let_def)
qed

definition ide_example :: "(bool \<Rightarrow> nat \<Rightarrow> u16) \<Rightarrow> ide" where
  "ide_example C = (ide_boot gdt_example)\<lparr>hw := power_on\<lparr>dev := disk_device C\<rparr>,
     ide_devices := (replicate 4 ide_device_zero)[0 := ide_device_zero\<lparr>exists := True, io_base := 0x1F0, drive := 0xE0\<rparr>]\<rparr>"

lemma ide_example_ready: "ide_ready IDE_CHANNEL_PRIMARY IDE_DRIVE_MASTER_IDX C (ide_example C)"
  by (simp add: ide_ready_def ide_example_def dev_idx_def ata_disk_def disk_device_drive)

abbreviation (input) counting_disk :: ide where "counting_disk \<equiv> ide_example disk_content"

lemma ide_read_example:
  "\<exists>s'. ide_read_sectors IDE_CHANNEL_PRIMARY IDE_DRIVE_MASTER_IDX 2 1 0x500000 counting_disk = (0, s')
     \<and> rd16 (mem s') 0x500002 = 513"
proof -
  obtain es where r: "ide_read_sectors IDE_CHANNEL_PRIMARY IDE_DRIVE_MASTER_IDX 2 1 0x500000 counting_disk =
    (0, counting_disk\<lparr>hw := (hw counting_disk)\<lparr>hist := es\<rparr>, mem := wr_words (mem counting_disk) 0x500000
      (map (\<lambda>i. disk_content False (512 + i)) [0..<256])\<rparr>)"
    using ide_read_correct [OF ide_example_ready, of 1 2 "0x500000"] by (auto simp del: upt_rec_numeral)
  have "rd16 (wr_words m 0x500000 (map (\<lambda>i. disk_content False (512 + i)) [0..<256])) 0x500002 = 513" for m
    by (simp add: rd16_def wr_words_apply disk_content_def del: upt_rec_numeral)
  with r show ?thesis by simp
qed


end
