(* ===== verification/KFS_Ext2.thy ===== *)
theory KFS_Ext2
  imports KFS_Ide
begin

text \<open>
  The ext2 file system (\<open>src/ext2.c\<close>, \<open>include/ext2.h\<close>), read through the IDE driver. The structure
  \<open>ext2_filesystem_t\<close> lives on the kernel heap and is read and written there; an inode is a copy of the
  128 bytes of the structure, a function from offsets to bytes. A division by zero is \<open>None\<close>. The lemmas in
  \<open>KFS_Ext2_Files\<close> and \<open>KFS_Ext2_Dirs\<close> show which bytes a read of a block, of an inode and of a file delivers, that a directory search finds
  the first entry with the name, and that reading the group descriptors overruns its buffer.
\<close>

section \<open>The structures\<close>

text \<open>\<open>ext2_superblock_t\<close>, at offset 8 of \<open>ext2_filesystem_t\<close>; it has 412 bytes.\<close>

definition s_inodes_count :: "u32 \<Rightarrow> memory \<Rightarrow> u32" where "s_inodes_count fs m = rd32 m (unat fs + 8)"
definition s_blocks_count :: "u32 \<Rightarrow> memory \<Rightarrow> u32" where "s_blocks_count fs m = rd32 m (unat fs + 12)"
definition s_free_blocks_count :: "u32 \<Rightarrow> memory \<Rightarrow> u32" where "s_free_blocks_count fs m = rd32 m (unat fs + 20)"
definition s_free_inodes_count :: "u32 \<Rightarrow> memory \<Rightarrow> u32" where "s_free_inodes_count fs m = rd32 m (unat fs + 24)"
definition s_first_data_block :: "u32 \<Rightarrow> memory \<Rightarrow> u32" where "s_first_data_block fs m = rd32 m (unat fs + 28)"
definition s_log_block_size :: "u32 \<Rightarrow> memory \<Rightarrow> u32" where "s_log_block_size fs m = rd32 m (unat fs + 32)"
definition s_blocks_per_group :: "u32 \<Rightarrow> memory \<Rightarrow> u32" where "s_blocks_per_group fs m = rd32 m (unat fs + 40)"
definition s_inodes_per_group :: "u32 \<Rightarrow> memory \<Rightarrow> u32" where "s_inodes_per_group fs m = rd32 m (unat fs + 48)"
definition s_magic :: "u32 \<Rightarrow> memory \<Rightarrow> u16" where "s_magic fs m = rd16 m (unat fs + 64)"
definition s_rev_level :: "u32 \<Rightarrow> memory \<Rightarrow> u32" where "s_rev_level fs m = rd32 m (unat fs + 84)"
definition s_inode_size :: "u32 \<Rightarrow> memory \<Rightarrow> u16" where "s_inode_size fs m = rd16 m (unat fs + 96)"

text \<open>The rest of \<open>ext2_filesystem_t\<close>.\<close>

definition fs_channel :: "u32 \<Rightarrow> memory \<Rightarrow> ide_channel" where
  "fs_channel fs m = (if rd32 m (unat fs) = 0 then IDE_CHANNEL_PRIMARY else IDE_CHANNEL_SECONDARY)"
definition fs_drive :: "u32 \<Rightarrow> memory \<Rightarrow> ide_drive" where
  "fs_drive fs m = (if rd32 m (unat fs + 4) = 0 then IDE_DRIVE_MASTER_IDX else IDE_DRIVE_SLAVE_IDX)"
definition fs_block_size :: "u32 \<Rightarrow> memory \<Rightarrow> u32" where "fs_block_size fs m = rd32 m (unat fs + 420)"
definition fs_blocks_per_group :: "u32 \<Rightarrow> memory \<Rightarrow> u32" where "fs_blocks_per_group fs m = rd32 m (unat fs + 424)"
definition fs_inodes_per_group :: "u32 \<Rightarrow> memory \<Rightarrow> u32" where "fs_inodes_per_group fs m = rd32 m (unat fs + 428)"
definition fs_groups_count :: "u32 \<Rightarrow> memory \<Rightarrow> u32" where "fs_groups_count fs m = rd32 m (unat fs + 432)"
definition fs_group_descriptors :: "u32 \<Rightarrow> memory \<Rightarrow> u32" where "fs_group_descriptors fs m = rd32 m (unat fs + 436)"
definition fs_root_inode :: "u32 \<Rightarrow> memory \<Rightarrow> u32" where "fs_root_inode fs m = rd32 m (unat fs + 440)"

abbreviation (input) EXT2_FS_SIZE :: nat where "EXT2_FS_SIZE \<equiv> 444"
abbreviation (input) EXT2_SUPERBLOCK_SIZE :: nat where "EXT2_SUPERBLOCK_SIZE \<equiv> 412"
abbreviation (input) EXT2_INODE_SIZE :: nat where "EXT2_INODE_SIZE \<equiv> 128"
abbreviation (input) EXT2_MAGIC :: u16 where "EXT2_MAGIC \<equiv> 0xEF53"
abbreviation (input) EXT2_S_IFDIR :: u16 where "EXT2_S_IFDIR \<equiv> 0x4000"

definition bg_inode_table :: "u32 \<Rightarrow> u32 \<Rightarrow> memory \<Rightarrow> u32" where
  "bg_inode_table gd grp m = rd32 m (unat gd + 32 * unat grp + 8)"

text \<open>\<open>ext2_inode_t\<close> and \<open>ext2_dir_entry_t\<close>.\<close>

type_synonym ext2_inode = memory

definition i_mode :: "ext2_inode \<Rightarrow> u16" where "i_mode inode = rd16 inode 0"
definition i_uid :: "ext2_inode \<Rightarrow> u16" where "i_uid inode = rd16 inode 2"
definition i_size :: "ext2_inode \<Rightarrow> u32" where "i_size inode = rd32 inode 4"
definition i_gid :: "ext2_inode \<Rightarrow> u16" where "i_gid inode = rd16 inode 24"
definition i_links_count :: "ext2_inode \<Rightarrow> u16" where "i_links_count inode = rd16 inode 26"
definition i_block :: "ext2_inode \<Rightarrow> nat \<Rightarrow> u32" where "i_block inode i = rd32 inode (40 + 4 * i)"

definition entry_inode :: "memory \<Rightarrow> nat \<Rightarrow> u32" where "entry_inode m e = rd32 m e"
definition entry_rec_len :: "memory \<Rightarrow> nat \<Rightarrow> u16" where "entry_rec_len m e = rd16 m (e + 4)"
definition entry_name_len :: "memory \<Rightarrow> nat \<Rightarrow> u8" where "entry_name_len m e = m (e + 6)"
definition entry_name :: "nat \<Rightarrow> nat" where "entry_name e = e + 8"

text \<open>Copying a structure between memory and a local variable.\<close>

definition load_struct :: "memory \<Rightarrow> nat \<Rightarrow> memory" where
  "load_struct m a = (\<lambda>i. m (a + i))"

definition store_struct :: "memory \<Rightarrow> nat \<Rightarrow> memory \<Rightarrow> nat \<Rightarrow> memory" where
  "store_struct m a st n = (\<lambda>x. if a \<le> x \<and> x < a + n then st (x - a) else m x)"

section \<open>Blocks and inodes\<close>

definition ext2_get_block_size :: "u32 \<Rightarrow> memory \<Rightarrow> u32" where
  "ext2_get_block_size fs m = push_bit (unat (s_log_block_size fs m)) 1024"

definition udiv :: "u32 \<Rightarrow> u32 \<Rightarrow> u32 option" where
  "udiv a b = (if b = 0 then None else Some (a div b))"

definition umod :: "u32 \<Rightarrow> u32 \<Rightarrow> u32 option" where
  "umod a b = (if b = 0 then None else Some (a mod b))"

definition ext2_get_inode_block_group :: "u32 \<Rightarrow> u32 \<Rightarrow> memory \<Rightarrow> u32 option" where
  "ext2_get_inode_block_group fs inode_num m = udiv (inode_num - 1) (fs_inodes_per_group fs m)"

definition ext2_get_inode_index :: "u32 \<Rightarrow> u32 \<Rightarrow> memory \<Rightarrow> u32 option" where
  "ext2_get_inode_index fs inode_num m = umod (inode_num - 1) (fs_inodes_per_group fs m)"

definition ext2_read_block :: "u32 \<Rightarrow> u32 \<Rightarrow> u32 \<Rightarrow> 'a ide_scheme \<Rightarrow> int \<times> 'a ide_scheme" where
  "ext2_read_block fs block_num buffer s =
     (let sectors_per_block = fs_block_size fs (mem s) div 512;
          start_sector = block_num * sectors_per_block
      in ide_read_sectors (fs_channel fs (mem s)) (fs_drive fs (mem s)) start_sector (ucast sectors_per_block) buffer s)"

definition ext2_write_block :: "u32 \<Rightarrow> u32 \<Rightarrow> u32 \<Rightarrow> 'a ide_scheme \<Rightarrow> int \<times> 'a ide_scheme" where
  "ext2_write_block fs block_num buffer s =
     (let sectors_per_block = fs_block_size fs (mem s) div 512;
          start_sector = block_num * sectors_per_block
      in ide_write_sectors (fs_channel fs (mem s)) (fs_drive fs (mem s)) start_sector (ucast sectors_per_block) buffer s)"

text \<open>The local buffer of \<open>ext2_read_superblock\<close> is at \<open>buffer\<close>, an address the compiler chooses.\<close>

definition ext2_read_superblock :: "u32 \<Rightarrow> u32 \<Rightarrow> 'a ide_scheme \<Rightarrow> (int \<times> 'a ide_scheme) kresult" where
  "ext2_read_superblock buffer fs s =
     (let (r, s1) = ide_read_sectors (fs_channel fs (mem s)) (fs_drive fs (mem s)) 2 2 buffer s in
      if r \<noteq> 0 then kret (-1, s1)
      else
        let s2 = s1\<lparr>mem := memcpy (mem s1) (unat fs + 8) (unat buffer) EXT2_SUPERBLOCK_SIZE\<rparr> in
        if s_magic fs (mem s2) \<noteq> EXT2_MAGIC
        then kret (-1, printk ''[EXT2] Invalid magic number: 0x%x\<newline>'' [KUInt (ucast (s_magic fs (mem s2)))] s2)
        else
          let m3 = wr32 (mem s2) (unat fs + 420) (ext2_get_block_size fs (mem s2));
              m4 = wr32 m3 (unat fs + 424) (s_blocks_per_group fs m3);
              m5 = wr32 m4 (unat fs + 428) (s_inodes_per_group fs m4)
          in kbind (klift (udiv (s_blocks_count fs m5 + fs_blocks_per_group fs m5 - 1) (fs_blocks_per_group fs m5)))
               (\<lambda>groups. kret (0, s2\<lparr>mem := wr32 (wr32 m5 (unat fs + 432) groups) (unat fs + 440) 2\<rparr>)))"

text \<open>The loop over the descriptor blocks; a failed read frees the descriptors.\<close>

fun read_gd_blocks :: "u32 \<Rightarrow> u32 \<Rightarrow> u32 \<Rightarrow> nat list \<Rightarrow> 'a ide_scheme \<Rightarrow> (int \<times> 'a ide_scheme) kresult" where
  "read_gd_blocks fs gd_block gd_buffer [] s = kret (0, s)"
| "read_gd_blocks fs gd_block gd_buffer (i # is) s =
     (let (r, s1) = ext2_read_block fs (gd_block + of_nat i) (gd_buffer + of_nat i * fs_block_size fs (mem s)) s
      in if r \<noteq> 0
         then kbind (kfree (fs_group_descriptors fs (mem s1)) s1) (\<lambda>s2.
                kret (-1, s2\<lparr>mem := wr32 (mem s2) (unat fs + 436) 0\<rparr>))
         else read_gd_blocks fs gd_block gd_buffer is s1)"

definition ext2_read_group_descriptors :: "u32 \<Rightarrow> 'a ide_scheme \<Rightarrow> (int \<times> 'a ide_scheme) kresult" where
  "ext2_read_group_descriptors fs s =
     (let gd_block = (if s_first_data_block fs (mem s) = 0 then 2 else 1);
          gd_size = fs_groups_count fs (mem s) * 32
      in kbind (klift (udiv (gd_size + fs_block_size fs (mem s) - 1) (fs_block_size fs (mem s)))) (\<lambda>gd_blocks.
           kbind (kmalloc gd_size s) (\<lambda>(p, s1).
             let s2 = s1\<lparr>mem := wr32 (mem s1) (unat fs + 436) p\<rparr>
             in if p = 0 then kret (-1, s2) else read_gd_blocks fs gd_block p [0..<unat gd_blocks] s2)))"

text \<open>Where an inode is: its block and the offset in the block, or \<open>None\<close> past the last group.\<close>

definition inode_location :: "u32 \<Rightarrow> u32 \<Rightarrow> memory \<Rightarrow> (u32 \<times> u32) option kresult" where
  "inode_location fs inode_num m =
     kbind (klift (ext2_get_inode_block_group fs inode_num m)) (\<lambda>grp.
     kbind (klift (ext2_get_inode_index fs inode_num m)) (\<lambda>index.
       if fs_groups_count fs m \<le> grp then kret None
       else
         let inode_table = bg_inode_table (fs_group_descriptors fs m) grp m;
             inode_size = (if s_rev_level fs m = 0 then 128 else ucast (s_inode_size fs m))
         in kbind (klift (udiv (fs_block_size fs m) inode_size)) (\<lambda>inodes_per_block.
            kbind (klift (udiv index inodes_per_block)) (\<lambda>q.
            kbind (klift (umod index inodes_per_block)) (\<lambda>r.
              kret (Some (inode_table + q, r * inode_size)))))))"

definition ext2_read_inode :: "u32 \<Rightarrow> u32 \<Rightarrow> ext2_inode \<Rightarrow> 'a ide_scheme \<Rightarrow> (int \<times> ext2_inode \<times> 'a ide_scheme) kresult" where
  "ext2_read_inode fs inode_num inode s =
     (if inode_num = 0 then kret (-1, inode, s)
      else kbind (inode_location fs inode_num (mem s)) (\<lambda>loc.
        case loc of None \<Rightarrow> kret (-1, inode, s) | Some (block_num, block_offset) \<Rightarrow>
        kbind (kmalloc (fs_block_size fs (mem s)) s) (\<lambda>(block_buffer, s1).
          if block_buffer = 0 then kret (-1, inode, s1)
          else
            let (r, s2) = ext2_read_block fs block_num block_buffer s1 in
            if r \<noteq> 0 then kbind (kfree block_buffer s2) (\<lambda>s3. kret (-1, inode, s3))
            else
              let inode' = load_struct (mem s2) (unat block_buffer + unat block_offset)
              in kbind (kfree block_buffer s2) (\<lambda>s3. kret (0, inode', s3)))))"

definition ext2_write_inode :: "u32 \<Rightarrow> u32 \<Rightarrow> ext2_inode \<Rightarrow> 'a ide_scheme \<Rightarrow> (int \<times> 'a ide_scheme) kresult" where
  "ext2_write_inode fs inode_num inode s =
     (if inode_num = 0 then kret (-1, s)
      else kbind (inode_location fs inode_num (mem s)) (\<lambda>loc.
        case loc of None \<Rightarrow> kret (-1, s) | Some (block_num, block_offset) \<Rightarrow>
        kbind (kmalloc (fs_block_size fs (mem s)) s) (\<lambda>(block_buffer, s1).
          if block_buffer = 0 then kret (-1, s1)
          else
            let (r, s2) = ext2_read_block fs block_num block_buffer s1 in
            if r \<noteq> 0 then kbind (kfree block_buffer s2) (\<lambda>s3. kret (-1, s3))
            else
              let s3 = s2\<lparr>mem := store_struct (mem s2) (unat block_buffer + unat block_offset) inode EXT2_INODE_SIZE\<rparr>;
                  (result, s4) = ext2_write_block fs block_num block_buffer s3
              in kbind (kfree block_buffer s4) (\<lambda>s5. kret (result, s5)))))"

section \<open>File contents\<close>

text \<open>The number of the block that holds block \<open>i\<close> of a file; double indirect blocks read as sparse.\<close>

definition inode_block_num :: "u32 \<Rightarrow> ext2_inode \<Rightarrow> nat \<Rightarrow> 'a ide_scheme \<Rightarrow> (u32 \<times> 'a ide_scheme) kresult" where
  "inode_block_num fs inode i s =
     (if i < 12 then kret (i_block inode i, s)
      else if i < 12 + unat (fs_block_size fs (mem s) div 4) \<and> i_block inode 12 \<noteq> 0 then
        kbind (kmalloc (fs_block_size fs (mem s)) s) (\<lambda>(indirect_data, s1).
          let (r, s2) = ext2_read_block fs (i_block inode 12) indirect_data s1;
              block_num = (if r = 0 then rd32 (mem s2) (unat indirect_data + 4 * (i - 12)) else 0)
          in kbind (kfree indirect_data s2) (\<lambda>s3. kret (block_num, s3)))
      else kret (0, s))"

text \<open>
  One turn of the loop of \<open>ext2_read_inode_data\<close>, on the number of bytes read so far and the state. The
  block size is not zero there, since the division before the loop has returned.
\<close>

definition read_data_block ::
  "u32 \<Rightarrow> ext2_inode \<Rightarrow> u32 \<Rightarrow> u32 \<Rightarrow> u32 \<Rightarrow> u32 \<Rightarrow> u32 \<Rightarrow> nat \<Rightarrow> u32 \<times> 'a ide_scheme \<Rightarrow>
     (u32 \<times> 'a ide_scheme) kresult" where
  "read_data_block fs inode offset sz buffer block_buffer start_block i = (\<lambda>(bytes_read, s).
     if \<not> bytes_read < sz then kret (bytes_read, s)
     else kbind (inode_block_num fs inode i s) (\<lambda>(block_num, s1).
       let bs = fs_block_size fs (mem s1) in
       if block_num = 0 then
         let to_copy = (if bs < sz - bytes_read then bs else sz - bytes_read)
         in kret (bytes_read + to_copy,
              s1\<lparr>mem := memset (mem s1) (unat buffer + unat bytes_read) 0 (unat to_copy)\<rparr>)
       else
         let (r, s2) = ext2_read_block fs block_num block_buffer s1 in
         if r \<noteq> 0 then kret (bytes_read, s2)
         else
           let block_offset = (if i = unat start_block then offset mod bs else 0);
               to_copy = bs - block_offset;
               to_copy = (if sz - bytes_read < to_copy then sz - bytes_read else to_copy)
           in kret (bytes_read + to_copy,
                s2\<lparr>mem := memcpy (mem s2) (unat buffer + unat bytes_read) (unat block_buffer + unat block_offset)
                     (unat to_copy)\<rparr>)))"

definition ext2_read_inode_data ::
  "u32 \<Rightarrow> ext2_inode \<Rightarrow> u32 \<Rightarrow> u32 \<Rightarrow> u32 \<Rightarrow> 'a ide_scheme \<Rightarrow> (int \<times> 'a ide_scheme) kresult" where
  "ext2_read_inode_data fs inode offset sz buffer s =
     (let bs = fs_block_size fs (mem s) in
      kbind (klift (udiv offset bs)) (\<lambda>start_block.
      kbind (klift (udiv (offset + sz + bs - 1) bs)) (\<lambda>end_block.
      kbind (kmalloc bs s) (\<lambda>(block_buffer, s1).
        if block_buffer = 0 then kret (-1, s1)
        else
          kbind (kfold (read_data_block fs inode offset sz buffer block_buffer start_block)
                   [unat start_block..<unat end_block] (0, s1)) (\<lambda>(bytes_read, s2).
          kbind (kfree block_buffer s2) (\<lambda>s3. kret (sint bytes_read, s3)))))))"

section \<open>Directories\<close>

text \<open>The search for a name; the result is the inode number of the entry, or \<open>None\<close> at the end.\<close>

partial_function (option) lookup_loop :: "memory \<Rightarrow> nat \<Rightarrow> u32 \<Rightarrow> nat \<Rightarrow> u32 \<Rightarrow> u32 option option" where
  "lookup_loop m dir_data sz name offset =
     (if \<not> offset < sz then Some None
      else
        let entry = dir_data + unat offset in
        Option.bind (if entry_inode m entry \<noteq> 0
           then map_option (\<lambda>n. ucast (entry_name_len m entry) = n
                  \<and> strncmp m (entry_name entry) name (unat (entry_name_len m entry)) = 0) (strlen m name)
           else Some False) (\<lambda>found.
          if found then Some (Some (entry_inode m entry))
          else if entry_rec_len m entry = 0 then Some None
          else lookup_loop m dir_data sz name (offset + ucast (entry_rec_len m entry))))"

text \<open>The contents of a directory in a heap buffer: the part \<open>ext2_lookup\<close> and \<open>ext2_read_dir\<close> share.\<close>

definition load_directory :: "u32 \<Rightarrow> u32 \<Rightarrow> 'a ide_scheme \<Rightarrow> ((u32 \<times> u32) option \<times> 'a ide_scheme) kresult" where
  "load_directory fs dir_inode_num s =
     kbind (ext2_read_inode fs dir_inode_num (\<lambda>_. 0) s) (\<lambda>(r, dir_inode, s1).
       if r \<noteq> 0 then kret (None, s1)
       else if i_mode dir_inode AND 0xF000 \<noteq> EXT2_S_IFDIR then kret (None, s1)
       else kbind (kmalloc (i_size dir_inode) s1) (\<lambda>(dir_data, s2).
         if dir_data = 0 then kret (None, s2)
         else kbind (ext2_read_inode_data fs dir_inode 0 (i_size dir_inode) dir_data s2) (\<lambda>(n, s3).
           if n < 0 then kbind (kfree dir_data s3) (\<lambda>s4. kret (None, s4))
           else kret (Some (dir_data, i_size dir_inode), s3))))"

definition ext2_lookup :: "u32 \<Rightarrow> u32 \<Rightarrow> u32 \<Rightarrow> 'a ide_scheme \<Rightarrow> (int \<times> u32 option \<times> 'a ide_scheme) kresult" where
  "ext2_lookup fs dir_inode_num name s =
     kbind (load_directory fs dir_inode_num s) (\<lambda>(d, s1).
       case d of None \<Rightarrow> kret (-1, None, s1) | Some (dir_data, sz) \<Rightarrow>
       kbind (klift (lookup_loop (mem s1) (unat dir_data) sz (unat name) 0)) (\<lambda>found.
       kbind (kfree dir_data s1) (\<lambda>s2.
         kret (case found of None \<Rightarrow> (-1, None, s2) | Some n \<Rightarrow> (0, Some n, s2)))))"

text \<open>
  The walk over all entries; the callback updates its context from the memory and the address of the
  entry.
\<close>

partial_function (option) read_dir_loop ::
  "(memory \<Rightarrow> nat \<Rightarrow> 'c \<Rightarrow> 'c) \<Rightarrow> memory \<Rightarrow> nat \<Rightarrow> u32 \<Rightarrow> u32 \<Rightarrow> 'c \<Rightarrow> 'c option" where
  "read_dir_loop callback m dir_data sz offset ctx =
     (if \<not> offset < sz then Some ctx
      else
        let entry = dir_data + unat offset;
            ctx' = (if entry_inode m entry \<noteq> 0 then callback m entry ctx else ctx)
        in if entry_rec_len m entry = 0 then Some ctx'
           else read_dir_loop callback m dir_data sz (offset + ucast (entry_rec_len m entry)) ctx')"

definition ext2_read_dir ::
  "u32 \<Rightarrow> u32 \<Rightarrow> (memory \<Rightarrow> nat \<Rightarrow> 'c \<Rightarrow> 'c) \<Rightarrow> 'c \<Rightarrow> 'a ide_scheme \<Rightarrow> (int \<times> 'c \<times> 'a ide_scheme) kresult" where
  "ext2_read_dir fs dir_inode_num callback ctx s =
     kbind (load_directory fs dir_inode_num s) (\<lambda>(d, s1).
       case d of None \<Rightarrow> kret (-1, ctx, s1) | Some (dir_data, sz) \<Rightarrow>
       kbind (klift (read_dir_loop callback (mem s1) (unat dir_data) sz 0 ctx)) (\<lambda>ctx'.
       kbind (kfree dir_data s1) (\<lambda>s2. kret (0, ctx', s2))))"

section \<open>Mounting\<close>

text \<open>The text of a C string in memory.\<close>

definition text_at :: "memory \<Rightarrow> nat \<Rightarrow> string option" where
  "text_at m a = map_option (\<lambda>n. map (\<lambda>i. char_of (unat (m (a + i)))) [0..<unat n]) (strlen m a)"

definition ext2_print_info :: "u32 \<Rightarrow> 'a ide_scheme \<Rightarrow> 'a ide_scheme kresult" where
  "ext2_print_info fs s =
     (let m = mem s; n = (\<lambda>w. [KInt (sint w)]) in
      kbind (klift (text_at m (unat fs + 128))) (\<lambda>volume. kret
        (printk ''[EXT2] Filesystem initialized\<newline>'' []
        (printk ''Root inode: %d\<newline>'' (n (fs_root_inode fs m))
        (printk ''Block groups: %d\<newline>'' (n (fs_groups_count fs m))
        (printk ''Inodes per group: %d\<newline>'' (n (fs_inodes_per_group fs m))
        (printk ''Blocks per group: %d\<newline>'' (n (fs_blocks_per_group fs m))
        (printk ''Free inodes: %d\<newline>'' (n (s_free_inodes_count fs m))
        (printk ''Total inodes: %d\<newline>'' (n (s_inodes_count fs m))
        (printk ''Free blocks: %d\<newline>'' (n (s_free_blocks_count fs m))
        (printk ''Total blocks: %d\<newline>'' (n (s_blocks_count fs m))
        (printk ''Block size: %d bytes\<newline>'' (n (fs_block_size fs m))
        (printk ''Volume name: %s\<newline>'' [KStr (Some volume)]
        (printk ''\<newline>=== EXT2 Filesystem Info ===\<newline>'' [] s))))))))))))))"

definition ext2_init ::
  "u32 \<Rightarrow> u32 \<Rightarrow> ide_channel \<Rightarrow> ide_drive \<Rightarrow> 'a ide_scheme \<Rightarrow> (int \<times> 'a ide_scheme) kresult" where
  "ext2_init buffer fs channel drv s =
     (let s1 = printk ''[EXT2] Initializing EXT2 filesystem...\<newline>'' [] s;
          m1 = memset (mem s1) (unat fs) 0 EXT2_FS_SIZE;
          m2 = wr32 m1 (unat fs) (if channel = IDE_CHANNEL_PRIMARY then 0 else 1);
          m3 = wr32 m2 (unat fs + 4) (if drv = IDE_DRIVE_MASTER_IDX then 0 else 1)
      in kbind (ext2_read_superblock buffer fs (s1\<lparr>mem := m3\<rparr>)) (\<lambda>(r, s2).
           if r \<noteq> 0 then kret (-1, printk ''[EXT2] Failed to read superblock\<newline>'' [] s2)
           else kbind (ext2_read_group_descriptors fs s2) (\<lambda>(r2, s3).
             if r2 \<noteq> 0 then kret (-1, printk ''[EXT2] Failed to read group descriptors\<newline>'' [] s3)
             else kbind (ext2_print_info fs s3) (\<lambda>s4. kret (0, s4)))))"

end
