(* ===== verification/KFS_Ext2_Files.thy ===== *)
theory KFS_Ext2_Files
  imports KFS_Ext2
begin

text \<open>
  Correctness of the ext2 code: the bytes that blocks, inodes and files deliver on a disk that behaves
  as documented (\<open>ata_disk\<close>) and on a sound heap, through direct and indirect blocks. Directories and the
  group descriptors follow in \<open>KFS_Ext2_Dirs\<close>.
\<close>

section \<open>Devices and structures are kept\<close>

lemma vga_print_dev [simp]: "dev (vga_print t h) = dev h"
  unfolding vga_print_def
  by (induction t arbitrary: h)
    (simp_all add: vga_putchar_def vga_update_cursor_eq vga_roll_def vga_wrap_def vga_put_def vga_putentryat_def vga_scroll_def)

lemma printk_hw_dev [simp]: "dev (printk_hw fmt args h) = dev h"
  by (simp add: printk_hw_def split: option.split)

lemma kmalloc_dev: "kmalloc n s = kret (p, s') \<Longrightarrow> dev (hw s') = dev (hw s)"
  by (auto simp: kmalloc_def kmalloc_init_def Let_def kbind_eq_kret vga_set_color_def split: if_splits)

lemma kfree_dev: "kfree p s = kret s' \<Longrightarrow> dev (hw s') = dev (hw s)"
  by (auto simp: kfree_def Let_def kbind_eq_kret vga_set_color_def split: if_splits)

lemma more_devices:
  fixes s s' :: "'a ide_scheme"
  assumes "kheap.more s' = kheap.more s"
  shows "ide_devices s' = ide_devices s"
  using assms by (cases s; cases s'; simp)

text \<open>The disk of a file system: its byte \<open>k\<close>, and that the driver is ready for it.\<close>

definition disk_byte :: "(bool \<Rightarrow> nat \<Rightarrow> u16) \<Rightarrow> bool \<Rightarrow> nat \<Rightarrow> u8" where
  "disk_byte C slave k = (if even k then ucast (C slave (k div 2)) else ucast (drop_bit 8 (C slave (k div 2))))"

definition fs_byte :: "(bool \<Rightarrow> nat \<Rightarrow> u16) \<Rightarrow> u32 \<Rightarrow> memory \<Rightarrow> nat \<Rightarrow> u8" where
  "fs_byte C fs m = disk_byte C (fs_drive fs m = IDE_DRIVE_SLAVE_IDX)"

definition fs_disk :: "u32 \<Rightarrow> (bool \<Rightarrow> nat \<Rightarrow> u16) \<Rightarrow> 'a ide_scheme \<Rightarrow> bool" where
  "fs_disk fs C s \<longleftrightarrow> ide_ready (fs_channel fs (mem s)) (fs_drive fs (mem s)) C s"

definition fs_same :: "u32 \<Rightarrow> memory \<Rightarrow> memory \<Rightarrow> bool" where
  "fs_same fs m m' \<longleftrightarrow> (\<forall>i < EXT2_FS_SIZE. m' (unat fs + i) = m (unat fs + i))"

lemma fs_same_refl [simp]: "fs_same fs m m"
  by (simp add: fs_same_def)

lemma fs_same_trans: "fs_same fs m m' \<Longrightarrow> fs_same fs m' m'' \<Longrightarrow> fs_same fs m m''"
  by (simp add: fs_same_def)

lemma fs_same_rd32: "fs_same fs m m' \<Longrightarrow> k + 4 \<le> 444 \<Longrightarrow> rd32 m' (unat fs + k) = rd32 m (unat fs + k)"
  by (rule rd32_cong) (simp add: fs_same_def add.assoc)

lemma fs_same_fields:
  assumes "fs_same fs m m'"
  shows "fs_channel fs m' = fs_channel fs m" "fs_drive fs m' = fs_drive fs m" "fs_block_size fs m' = fs_block_size fs m"
  using fs_same_rd32 [OF assms, of 0] fs_same_rd32 [OF assms, of 4] fs_same_rd32 [OF assms, of 420]
  by (simp_all add: fs_channel_def fs_drive_def fs_block_size_def)

lemma fs_disk_same:
  assumes "fs_same fs (mem s) (mem s')" "ide_devices s' = ide_devices s" "dev (hw s') = dev (hw s)" "fs_disk fs C s"
  shows "fs_disk fs C s'"
  using assms by (simp add: fs_disk_def fs_same_fields ide_ready_def ata_disk_def)

section \<open>Blocks\<close>

text \<open>A block size that the disk driver can handle: a number of sectors that fits in its byte.\<close>

definition fs_block_ok :: "u32 \<Rightarrow> memory \<Rightarrow> u32 \<Rightarrow> bool" where
  "fs_block_ok fs m b \<longleftrightarrow> (\<exists>k. 0 < k \<and> k < 256 \<and> unat (fs_block_size fs m) = 512 * k \<and> unat b * k < 2 ^ 28)"

lemma fs_block_ok_same: "fs_same fs m m' \<Longrightarrow> fs_block_ok fs m' b = fs_block_ok fs m b"
  by (simp add: fs_block_ok_def fs_same_fields)

lemma wr_words_disk_bytes:
  assumes "\<And>i. ws i = C sl (256 * lba + i)"
  shows "wr_words m a (map ws [0..<256 * k]) = store_struct m a (\<lambda>i. disk_byte C sl (512 * lba + i)) (512 * k)"
proof
  fix x
  show "wr_words m a (map ws [0..<256 * k]) x = store_struct m a (\<lambda>i. disk_byte C sl (512 * lba + i)) (512 * k) x"
  proof (cases "a \<le> x \<and> x < a + 512 * k")
    case True
    then have i: "(x - a) div 2 < 256 * k" by auto
    have "(512 * lba + (x - a)) div 2 = 256 * lba + (x - a) div 2" by simp
    with True i show ?thesis by (simp add: wr_words_apply store_struct_def disk_byte_def assms)
  qed (auto simp: wr_words_apply store_struct_def)
qed

theorem ext2_read_block_bytes:
  assumes disk: "fs_disk fs C s" and ok: "fs_block_ok fs (mem s) b"
  shows "\<exists>es. ext2_read_block fs b buffer s = (0, s\<lparr>hw := (hw s)\<lparr>hist := es\<rparr>,
    mem := store_struct (mem s) (unat buffer)
      (\<lambda>i. fs_byte C fs (mem s) (unat b * unat (fs_block_size fs (mem s)) + i)) (unat (fs_block_size fs (mem s)))\<rparr>)"
proof -
  from ok obtain k where k: "0 < k" "k < 256" "unat (fs_block_size fs (mem s)) = 512 * k" "unat b * k < 2 ^ 28"
    by (auto simp: fs_block_ok_def)
  let ?spb = "fs_block_size fs (mem s) div 512"
  have spb: "unat ?spb = k" using k(3) by (simp add: unat_div)
  have start: "unat (b * ?spb) = unat b * k"
    using k(4) spb by (simp add: unat_word_ariths)
  have count: "unat (ucast ?spb :: u8) = k"
    using k(2) spb by (simp add: unsigned_ucast_eq take_bit_eq_mod)
  then have "(ucast ?spb :: u8) \<noteq> 0" using k(1) by (metis unsigned_0 less_irrefl)
  from ide_read_correct [OF disk [unfolded fs_disk_def] this, of "b * ?spb" buffer]
  obtain es where "ext2_read_block fs b buffer s = (0, s\<lparr>hw := (hw s)\<lparr>hist := es\<rparr>,
      mem := wr_words (mem s) (unat buffer) (map (\<lambda>i. C (fs_drive fs (mem s) = IDE_DRIVE_SLAVE_IDX)
        (256 * (unat b * k) + i)) [0..<256 * k])\<rparr>)"
    unfolding ext2_read_block_def Let_def count start using k(4) by auto
  moreover have "512 * (unat b * k) = unat b * (512 * k)" by simp
  ultimately show ?thesis
    by (simp only: wr_words_disk_bytes [OF refl] fs_byte_def k(3)) blast
qed

section \<open>Buffers on the heap\<close>

text \<open>A mounted file system: a sound heap that holds its structure, and a disk that is ready.\<close>

definition fs_region :: "u32 \<Rightarrow> nat set" where
  "fs_region fs = {unat fs ..< unat fs + EXT2_FS_SIZE}"

definition ext2_ok :: "u32 \<Rightarrow> (bool \<Rightarrow> nat \<Rightarrow> u16) \<Rightarrow> 'a ide_scheme \<Rightarrow> (nat \<times> nat) set \<Rightarrow> bool" where
  "ext2_ok fs C s L \<longleftrightarrow> heap_rep s L \<and> fs_disk fs C s \<and> fs_region fs \<subseteq> live_bytes L"

definition kept :: "(nat \<times> nat) set \<Rightarrow> memory \<Rightarrow> memory \<Rightarrow> bool" where
  "kept L m m' \<longleftrightarrow> (\<forall>x \<in> live_bytes L \<union> unmanaged. m' x = m x)"

lemma kept_trans: "kept L m m' \<Longrightarrow> kept L m' m'' \<Longrightarrow> kept L m m''"
  by (simp add: kept_def)

lemma fs_regionI: "i < EXT2_FS_SIZE \<Longrightarrow> unat fs + i \<in> fs_region fs"
  by (simp add: fs_region_def)

lemma kept_fs_same: "kept L m m' \<Longrightarrow> fs_region fs \<subseteq> live_bytes L \<Longrightarrow> fs_same fs m m'"
  unfolding kept_def fs_same_def using fs_regionI by blast

lemma ext2_ok_write:
  assumes ok: "ext2_ok fs C s L" and m: "\<And>x. x \<notin> A \<Longrightarrow> m x = mem s x"
    and A: "A \<subseteq> live_bytes L \<union> unmanaged" "A \<inter> fs_region fs = {}"
  shows "ext2_ok fs C (s\<lparr>mem := m, hw := (hw s)\<lparr>hist := es\<rparr>\<rparr>) L" "fs_same fs (mem s) m"
proof -
  show same: "fs_same fs (mem s) m"
    unfolding fs_same_def using m A(2) fs_regionI [of _ fs] by blast
  have "heap_rep (s\<lparr>mem := m\<rparr>) L" using ok m A(1) by (intro heap_rep_put) (auto simp: ext2_ok_def)
  moreover have "fs_disk fs C (s\<lparr>mem := m, hw := (hw s)\<lparr>hist := es\<rparr>\<rparr>)"
    by (rule fs_disk_same [of fs s]) (use ok same in \<open>auto simp: ext2_ok_def\<close>)
  moreover have "heap_rep (s\<lparr>mem := m, hw := (hw s)\<lparr>hist := es\<rparr>\<rparr>) L = heap_rep (s\<lparr>mem := m\<rparr>) L"
    using heap_rep_hw [where s = "s\<lparr>mem := m\<rparr>" and h = "(hw s)\<lparr>hist := es\<rparr>"] by simp
  ultimately show "ext2_ok fs C (s\<lparr>mem := m, hw := (hw s)\<lparr>hist := es\<rparr>\<rparr>) L" using ok by (simp add: ext2_ok_def)
qed

lemma ext2_alloc:
  assumes ok: "ext2_ok fs C s L" and n: "n \<noteq> 0" "unat n + 19 < 2 ^ 32"
  obtains s' where "kmalloc n s = kret (0, s')" "ext2_ok fs C s' L" "mem s' = mem s"
  | p s' len where "kmalloc n s = kret (p, s')" "p \<noteq> 0" "unat n \<le> len" "ext2_ok fs C s' (insert (unat p, len) L)"
      "{unat p ..< unat p + len} \<inter> (live_bytes L \<union> unmanaged) = {}" "kept L (mem s) (mem s')"
proof -
  have rep: "heap_rep s L" and reg: "fs_region fs \<subseteq> live_bytes L" using ok by (auto simp: ext2_ok_def)
  from kheap.alloc_law [OF rep n] obtain p s' where al: "kmalloc n s = kret (p, s')"
    and law: "if p = 0 then heap_rep s' L \<and> mem s' = mem s
      else \<exists>len \<ge> unat n. heap_rep s' (insert (unat p, len) L)
        \<and> {unat p ..< unat p + len} \<inter> (live_bytes L \<union> unmanaged) = {}
        \<and> (\<forall>x \<in> live_bytes L \<union> unmanaged. mem s' x = mem s x)" by blast
  have disk: "fs_disk fs C s'" if "fs_same fs (mem s) (mem s')"
    by (rule fs_disk_same [of fs s]) (use that ok more_devices [OF kmalloc_more [OF al]] kmalloc_dev [OF al] in \<open>auto simp: ext2_ok_def\<close>)
  show thesis
  proof (cases "p = 0")
    case True
    with law have "heap_rep s' L" "mem s' = mem s" by auto
    with disk reg have "ext2_ok fs C s' L" by (simp add: ext2_ok_def)
    show thesis by (rule that(1) [OF al [unfolded True]]) fact+
  next
    case False
    with law obtain len where len: "unat n \<le> len" "heap_rep s' (insert (unat p, len) L)"
      "{unat p ..< unat p + len} \<inter> (live_bytes L \<union> unmanaged) = {}" "kept L (mem s) (mem s')"
      by (auto simp: kept_def)
    have "ext2_ok fs C s' (insert (unat p, len) L)"
      using disk [OF kept_fs_same [OF len(4) reg]] len(2) reg by (auto simp: ext2_ok_def)
    show thesis by (rule that(2) [OF al False len(1) _ len(3,4)]) fact
  qed
qed

lemma ext2_free:
  assumes ok: "ext2_ok fs C s (insert (unat p, len) L)" and reg: "fs_region fs \<subseteq> live_bytes L"
    and disj: "{unat p ..< unat p + len} \<inter> (live_bytes L \<union> unmanaged) = {}" "0 < len"
  obtains s' where "kfree p s = kret s'" "ext2_ok fs C s' L" "kept (insert (unat p, len) L) (mem s) (mem s')"
proof -
  have new: "(unat p, len) \<notin> L"
  proof
    assume "(unat p, len) \<in> L"
    then have "unat p \<in> live_bytes L" using disj(2) by (auto intro: live_bytesI)
    moreover have "unat p \<in> {unat p ..< unat p + len}" using disj(2) by simp
    ultimately show False using disj(1) by blast
  qed
  have rep: "heap_rep s (insert (unat p, len) L)" using ok by (simp add: ext2_ok_def)
  from kheap.free_law [OF rep, of p len] new obtain s' where fr: "kfree p s = kret s'" "heap_rep s' L"
    "kept (insert (unat p, len) L) (mem s) (mem s')" by (auto simp: kept_def)
  have "fs_same fs (mem s) (mem s')" by (rule kept_fs_same [OF fr(3)]) (use reg in auto)
  then have "fs_disk fs C s'"
    by (rule fs_disk_same [of fs s]) (use ok more_devices [OF kfree_more [OF fr(1)]] kfree_dev [OF fr(1)] in \<open>auto simp: ext2_ok_def\<close>)
  with fr reg that show thesis by (simp add: ext2_ok_def)
qed

lemma ext2_ok_region: "ext2_ok fs C s L \<Longrightarrow> fs_region fs \<subseteq> live_bytes L"
  by (simp add: ext2_ok_def)

text \<open>Reading a block into a buffer of the heap.\<close>

lemma ext2_read_into:
  assumes ok: "ext2_ok fs C s (insert (unat p, len) L)" and reg: "fs_region fs \<subseteq> live_bytes L"
    and disj: "{unat p ..< unat p + len} \<inter> (live_bytes L \<union> unmanaged) = {}"
    and bok: "fs_block_ok fs (mem s) b" and len: "unat (fs_block_size fs (mem s)) \<le> len"
  obtains es where "ext2_read_block fs b p s = (0, s\<lparr>hw := (hw s)\<lparr>hist := es\<rparr>,
      mem := store_struct (mem s) (unat p) (\<lambda>i. fs_byte C fs (mem s) (unat b * unat (fs_block_size fs (mem s)) + i))
        (unat (fs_block_size fs (mem s)))\<rparr>)"
    "ext2_ok fs C (s\<lparr>hw := (hw s)\<lparr>hist := es\<rparr>,
      mem := store_struct (mem s) (unat p) (\<lambda>i. fs_byte C fs (mem s) (unat b * unat (fs_block_size fs (mem s)) + i))
        (unat (fs_block_size fs (mem s)))\<rparr>) (insert (unat p, len) L)"
proof -
  let ?m = "store_struct (mem s) (unat p) (\<lambda>i. fs_byte C fs (mem s) (unat b * unat (fs_block_size fs (mem s)) + i))
    (unat (fs_block_size fs (mem s)))"
  have disk: "fs_disk fs C s" using ok by (simp add: ext2_ok_def)
  from ext2_read_block_bytes [OF disk bok] obtain es where
    "ext2_read_block fs b p s = (0, s\<lparr>hw := (hw s)\<lparr>hist := es\<rparr>, mem := ?m\<rparr>)" by blast
  moreover have "ext2_ok fs C (s\<lparr>mem := ?m, hw := (hw s)\<lparr>hist := es\<rparr>\<rparr>) (insert (unat p, len) L)"
    using ext2_ok_write(1) [OF ok, of "{unat p ..< unat p + len}" ?m es] len disj reg
    by (fastforce simp: store_struct_def)
  moreover have "s\<lparr>mem := ?m, hw := (hw s)\<lparr>hist := es\<rparr>\<rparr> = s\<lparr>hw := (hw s)\<lparr>hist := es\<rparr>, mem := ?m\<rparr>" by simp
  ultimately show thesis using that by metis
qed

lemma fs_block_ok_size: "fs_block_ok fs m b \<Longrightarrow> fs_block_size fs m \<noteq> 0 \<and> unat (fs_block_size fs m) + 19 < 2 ^ 32"
  by (auto simp: fs_block_ok_def)

section \<open>Inodes\<close>

text \<open>
  Reading an inode. For an inode number whose place the tables give as offset \<open>off\<close> of block \<open>b\<close>,
  \<open>ext2_read_inode\<close> delivers exactly the 128 bytes of the disk from there on, unless the heap has no room
  for a block, and then it returns -1 and leaves the inode alone. In both cases the heap is as before:
  the buffer has been freed, no other live byte has changed and the file system can still be used.
\<close>

lemma ext2_read_inode_step:
  assumes ok: "ext2_ok fs C s L" and n: "n \<noteq> 0"
    and loc: "inode_location fs n (mem s) = kret (Some (b, off))" and bok: "fs_block_ok fs (mem s) b"
    and off: "unat off + EXT2_INODE_SIZE \<le> unat (fs_block_size fs (mem s))"
  shows "\<exists>r inode' s'. ext2_read_inode fs n inode s = kret (r, inode', s') \<and> ext2_ok fs C s' L \<and> kept L (mem s) (mem s')
    \<and> (if r = 0 then map inode' [0..<EXT2_INODE_SIZE] = map (\<lambda>i. fs_byte C fs (mem s)
           (unat b * unat (fs_block_size fs (mem s)) + unat off + i)) [0..<EXT2_INODE_SIZE]
       else r = -1 \<and> inode' = inode \<and> (\<exists>s1. kmalloc (fs_block_size fs (mem s)) s = kret (0, s1)))"
proof (rule ext2_alloc [OF ok, of "fs_block_size fs (mem s)"])
  let ?bs = "fs_block_size fs (mem s)"
  show "?bs \<noteq> 0" "unat ?bs + 19 < 2 ^ 32" using fs_block_ok_size [OF bok] by auto
  fix s1 assume "kmalloc ?bs s = kret (0, s1)" "ext2_ok fs C s1 L" "mem s1 = mem s"
  then show ?thesis using n by (simp add: ext2_read_inode_def loc kept_def)
next
  let ?bs = "fs_block_size fs (mem s)"
  fix p s1 len
  assume al: "kmalloc ?bs s = kret (p, s1)" "p \<noteq> 0" "unat ?bs \<le> len" and ok1: "ext2_ok fs C s1 (insert (unat p, len) L)"
    and disj: "{unat p ..< unat p + len} \<inter> (live_bytes L \<union> unmanaged) = {}" and kept1: "kept L (mem s) (mem s1)"
  note reg = ext2_ok_region [OF ok]
  have same: "fs_same fs (mem s) (mem s1)" by (rule kept_fs_same [OF kept1 reg])
  note f = fs_same_fields [OF same]
  define blk where "blk = (\<lambda>i. fs_byte C fs (mem s1) (unat b * unat ?bs + i))"
  let ?m2 = "store_struct (mem s1) (unat p) blk (unat ?bs)"
  obtain es where rd: "ext2_read_block fs b p s1 = (0, s1\<lparr>hw := (hw s1)\<lparr>hist := es\<rparr>, mem := ?m2\<rparr>)"
    and ok2: "ext2_ok fs C (s1\<lparr>hw := (hw s1)\<lparr>hist := es\<rparr>, mem := ?m2\<rparr>) (insert (unat p, len) L)"
    using ext2_read_into [OF ok1 reg disj] bok al(3) fs_block_ok_same [OF same] unfolding f blk_def by metis
  have "0 < len" using al(3) off by simp
  from ext2_free [OF ok2 reg disj this] obtain s3 where fr:
    "kfree p (s1\<lparr>hw := (hw s1)\<lparr>hist := es\<rparr>, mem := ?m2\<rparr>) = kret s3" "ext2_ok fs C s3 L"
    "kept (insert (unat p, len) L) ?m2 (mem s3)" by auto
  have run: "ext2_read_inode fs n inode s = kret (0, load_struct ?m2 (unat p + unat off), s3)"
    using n al(2) by (simp add: ext2_read_inode_def loc al(1) rd fr(1))
  have "map (load_struct ?m2 (unat p + unat off)) [0..<128] = map (\<lambda>i. blk (unat off + i)) [0..<128]"
    using off by (intro map_cong refl) (auto simp: load_struct_def store_struct_def simp del: upt_rec_numeral)
  moreover have "blk (unat off + i) = fs_byte C fs (mem s) (unat b * unat ?bs + unat off + i)" for i
    by (simp add: blk_def fs_byte_def f add.assoc)
  moreover have "kept L (mem s) (mem s3)"
  proof -
    have "?m2 x = mem s1 x" if "x \<in> live_bytes L \<union> unmanaged" for x
      using that disj al(3) by (fastforce simp: store_struct_def)
    with kept1 fr(3) show ?thesis by (simp add: kept_def)
  qed
  ultimately show ?thesis using run fr(2) by (simp del: upt_rec_numeral)
qed

section \<open>Files\<close>

text \<open>
  The number of block \<open>i\<close> of a file, zero for a hole: twelve direct blocks, then those the indirect block
  lists. Byte \<open>k\<close> of the file is that of its block on the disk, or zero in a hole.
\<close>

definition file_block :: "(bool \<Rightarrow> nat \<Rightarrow> u16) \<Rightarrow> u32 \<Rightarrow> memory \<Rightarrow> ext2_inode \<Rightarrow> nat \<Rightarrow> u32" where
  "file_block C fs m inode i =
     (let bs = unat (fs_block_size fs m) in
      if i < 12 then i_block inode i
      else if i_block inode 12 = 0 then 0
      else rd32 (fs_byte C fs m) (unat (i_block inode 12) * bs + 4 * (i - 12)))"

definition file_byte :: "(bool \<Rightarrow> nat \<Rightarrow> u16) \<Rightarrow> u32 \<Rightarrow> memory \<Rightarrow> ext2_inode \<Rightarrow> nat \<Rightarrow> u8" where
  "file_byte C fs m inode k =
     (let bs = unat (fs_block_size fs m); b = file_block C fs m inode (k div bs)
      in if b = 0 then 0 else fs_byte C fs m (unat b * bs + k mod bs))"

lemma fs_byte_same: "fs_same fs m m' \<Longrightarrow> fs_byte C fs m' = fs_byte C fs m"
  by (simp add: fs_byte_def fs_same_fields)

lemma file_block_same: "fs_same fs m m' \<Longrightarrow> file_block C fs m' inode i = file_block C fs m inode i"
  by (simp add: file_block_def fs_byte_same fs_same_fields Let_def)

lemma file_byte_same: "fs_same fs m m' \<Longrightarrow> file_byte C fs m' inode k = file_byte C fs m inode k"
  by (simp add: file_byte_def fs_byte_same file_block_same fs_same_fields Let_def)

text \<open>
  What a read asks for, and what it may assume of the inode and of the buffer: a range inside the direct
  and the indirect blocks, whose blocks the driver can address, which does not start in the middle of a
  hole, and a buffer that the heap does not use. The result must fit in an \<open>int\<close>.
\<close>

definition read_ok :: "(bool \<Rightarrow> nat \<Rightarrow> u16) \<Rightarrow> u32 \<Rightarrow> memory \<Rightarrow> (nat \<times> nat) set \<Rightarrow> ext2_inode \<Rightarrow> nat \<Rightarrow> nat \<Rightarrow> u32 \<Rightarrow> bool" where
  "read_ok C fs m L inode offset sz buffer \<longleftrightarrow> (let bs = unat (fs_block_size fs m) in
     fs_block_ok fs m 0 \<and> offset + sz \<le> (12 + bs div 4) * bs \<and> sz < 2 ^ 31
     \<and> (\<forall>i. offset div bs \<le> i \<and> i * bs < offset + sz \<and> file_block C fs m inode i \<noteq> 0 \<longrightarrow>
          fs_block_ok fs m (file_block C fs m inode i))
     \<and> (12 * bs < offset + sz \<and> i_block inode 12 \<noteq> 0 \<longrightarrow> fs_block_ok fs m (i_block inode 12))
     \<and> (file_block C fs m inode (offset div bs) = 0 \<longrightarrow> offset mod bs = 0)
     \<and> {unat buffer ..< unat buffer + sz} \<subseteq> live_bytes L \<union> unmanaged
     \<and> {unat buffer ..< unat buffer + sz} \<inter> fs_region fs = {})"

text \<open>
  Past the direct blocks the code takes a second buffer for the indirect block in every turn, and does not
  check that it got one: there must be room for it beside the first.
\<close>

definition indirect_room :: "u32 \<Rightarrow> ext2_inode \<Rightarrow> nat \<Rightarrow> nat \<Rightarrow> 'a ide_scheme \<Rightarrow> bool" where
  "indirect_room fs inode offset sz s \<longleftrightarrow> (let bs = fs_block_size fs (mem s) in
     12 * unat bs < offset + sz \<and> i_block inode 12 \<noteq> 0 \<longrightarrow>
       (\<forall>bb s1. kmalloc bs s = kret (bb, s1) \<and> bb \<noteq> 0 \<longrightarrow> (\<exists>p s2. kmalloc bs s1 = kret (p, s2) \<and> p \<noteq> 0)))"

text \<open>The number of a block, read through the indirect block where needed.\<close>

lemma rd32_store_struct: "j + 4 \<le> n \<Longrightarrow> rd32 (store_struct m p f n) (p + j) = rd32 f j"
  by (simp add: rd32_def store_struct_def)

lemma rd32_shift: "rd32 (\<lambda>i. f (a + i)) j = rd32 f (a + j)"
  by (simp add: rd32_def add.assoc)

lemma inode_block_num_step:
  fixes s :: "'a ide_scheme"
  assumes ok: "ext2_ok fs C s L" and i: "i < 12 + unat (fs_block_size fs (mem s)) div 4"
    and bok: "12 \<le> i \<Longrightarrow> i_block inode 12 \<noteq> 0 \<Longrightarrow> fs_block_ok fs (mem s) (i_block inode 12)"
    and room: "12 \<le> i \<Longrightarrow> i_block inode 12 \<noteq> 0 \<Longrightarrow> \<exists>p s1. kmalloc (fs_block_size fs (mem s)) s = kret (p, s1) \<and> p \<noteq> 0"
  shows "\<exists>s'. inode_block_num fs inode i s = kret (file_block C fs (mem s) inode i, s')
    \<and> ext2_ok fs C s' L \<and> kept L (mem s) (mem s')"
proof (cases "12 \<le> i \<and> i_block inode 12 \<noteq> 0")
  case False
  then have "inode_block_num fs inode i s = kret (file_block C fs (mem s) inode i, s)"
    by (auto simp: inode_block_num_def file_block_def Let_def)
  with ok show ?thesis by (simp add: kept_def)
next
  case True
  let ?bs = "fs_block_size fs (mem s)" and ?b = "i_block inode 12"
  note bok = bok [OF True [THEN conjunct1] True [THEN conjunct2]]
  from room True obtain p s1 where al: "kmalloc ?bs s = kret (p, s1)" "p \<noteq> 0" by blast
  have nz: "?bs \<noteq> 0" "unat ?bs + 19 < 2 ^ 32" using fs_block_ok_size [OF bok] by auto
  note reg = ext2_ok_region [OF ok]
  have "\<exists>len. unat ?bs \<le> len \<and> ext2_ok fs C s1 (insert (unat p, len) L)
      \<and> {unat p ..< unat p + len} \<inter> (live_bytes L \<union> unmanaged) = {} \<and> kept L (mem s) (mem s1)"
  proof (rule ext2_alloc [OF ok nz])
    show ?thesis if "kmalloc ?bs s = kret (0, s')" for s' using that al by simp
    show ?thesis if "kmalloc ?bs s = kret (q, s')" "unat ?bs \<le> l" "ext2_ok fs C s' (insert (unat q, l) L)"
        "{unat q ..< unat q + l} \<inter> (live_bytes L \<union> unmanaged) = {}" "kept L (mem s) (mem s')" for q s' l
      using that al(1) by auto
  qed
  then obtain len where len: "unat ?bs \<le> len" and ok1: "ext2_ok fs C s1 (insert (unat p, len) L)"
    and disj: "{unat p ..< unat p + len} \<inter> (live_bytes L \<union> unmanaged) = {}" and kept1: "kept L (mem s) (mem s1)" by blast
  have same: "fs_same fs (mem s) (mem s1)" by (rule kept_fs_same [OF kept1 reg])
  note f = fs_same_fields [OF same]
  define blk where "blk = (\<lambda>j. fs_byte C fs (mem s1) (unat ?b * unat ?bs + j))"
  let ?m2 = "store_struct (mem s1) (unat p) blk (unat ?bs)"
  obtain es where rd: "ext2_read_block fs ?b p s1 = (0, s1\<lparr>hw := (hw s1)\<lparr>hist := es\<rparr>, mem := ?m2\<rparr>)"
    and ok2: "ext2_ok fs C (s1\<lparr>hw := (hw s1)\<lparr>hist := es\<rparr>, mem := ?m2\<rparr>) (insert (unat p, len) L)"
    using ext2_read_into [OF ok1 reg disj] bok len fs_block_ok_same [OF same] unfolding f blk_def by metis
  have "0 < len" using len nz(1) by (metis gr_zeroI le_zero_eq unsigned_eq_0_iff)
  from ext2_free [OF ok2 reg disj this] obtain s3 where fr:
    "kfree p (s1\<lparr>hw := (hw s1)\<lparr>hist := es\<rparr>, mem := ?m2\<rparr>) = kret s3" "ext2_ok fs C s3 L"
    "kept (insert (unat p, len) L) ?m2 (mem s3)" by auto
  have j: "4 * (i - 12) + 4 \<le> unat ?bs" using i True by linarith
  have num: "rd32 ?m2 (unat p + 4 * (i - 12)) = file_block C fs (mem s) inode i"
    using True by (simp add: rd32_store_struct [OF j] blk_def rd32_shift file_block_def fs_byte_same [OF same] Let_def)
  have "i < 12 + unat (?bs div 4)" using i by (simp add: unat_div)
  then have run: "inode_block_num fs inode i s = kret (file_block C fs (mem s) inode i, s3)"
    using True by (simp add: inode_block_num_def al(1) rd fr(1) num)
  have "?m2 x = mem s1 x" if "x \<in> live_bytes L \<union> unmanaged" for x
    using that disj len by (fastforce simp: store_struct_def)
  then have "kept L (mem s) (mem s3)" using kept1 fr(3) by (simp add: kept_def)
  with run fr(2) show ?thesis by blast
qed

text \<open>The state of the loop before block \<open>i\<close>.\<close>

definition read_inv where
  "read_inv C fs m0 L bb len inode offset sz buffer i = (\<lambda>(n, s).
     ext2_ok fs C s (insert (unat bb, len) L) \<and> fs_same fs m0 (mem s)
     \<and> unat n = min (unat sz) (i * unat (fs_block_size fs m0) - unat offset)
     \<and> (\<forall>j < unat n. mem s (unat buffer + j) = file_byte C fs m0 inode (unat offset + j))
     \<and> (\<forall>x \<in> live_bytes L \<union> unmanaged. x \<notin> {unat buffer ..< unat buffer + unat sz} \<longrightarrow> mem s x = m0 x))"

lemma read_inv_kept:
  assumes inv: "read_inv C fs m0 L bb len inode offset sz buffer i (n, s)" and reg: "fs_region fs \<subseteq> live_bytes L"
    and ok: "ext2_ok fs C s' (insert (unat bb, len) L)" and kept: "kept (insert (unat bb, len) L) (mem s) (mem s')"
    and A: "{unat buffer ..< unat buffer + unat sz} \<subseteq> live_bytes L \<union> unmanaged"
  shows "read_inv C fs m0 L bb len inode offset sz buffer i (n, s')"
proof -
  have same: "mem s' x = mem s x" if "x \<in> live_bytes L \<union> unmanaged" for x
    using that kept unfolding kept_def live_bytes_insert by blast
  have "mem s' (unat buffer + j) = mem s (unat buffer + j)" if "j < unat n" for j
  proof -
    have "unat n \<le> unat sz" using inv by (simp add: read_inv_def)
    then have "unat buffer + j \<in> {unat buffer ..< unat buffer + unat sz}" using that by simp
    then show ?thesis using A same by blast
  qed
  moreover have "fs_same fs (mem s) (mem s')" unfolding fs_same_def using same fs_regionI reg by blast
  ultimately show ?thesis using inv ok same by (auto simp: read_inv_def intro: fs_same_trans)
qed

text \<open>How far one block takes the read, in numbers.\<close>

lemma block_window:
  fixes i bs offset sz n :: nat
  assumes "0 < bs" "offset div bs \<le> i" "i * bs < offset + sz" "n = min sz (i * bs - offset)" "0 < sz"
  defines "bo \<equiv> (if i = offset div bs then offset mod bs else 0)"
  shows "n < sz" "offset + n = i * bs + bo" "bo < bs" "n + min (sz - n) (bs - bo) = min sz (Suc i * bs - offset)"
proof -
  have o: "offset = offset div bs * bs + offset mod bs" "offset mod bs < bs" using assms(1) by simp_all
  show "bo < bs" using assms(1) by (simp add: bo_def)
  have n: "n = i * bs - offset" "n < sz" using assms(3-5) by auto
  then show "n < sz" by simp
  show pos: "offset + n = i * bs + bo"
  proof (cases "i = offset div bs")
    case True
    then have "i * bs \<le> offset" by simp
    with True n(1) o(1) show ?thesis by (simp add: bo_def)
  next
    case False
    then have "Suc (offset div bs) \<le> i" using assms(2) by simp
    then have "Suc (offset div bs) * bs \<le> i * bs" by (rule mult_le_mono1)
    then have "offset \<le> i * bs" using o by (simp only: mult_Suc)
    with False n(1) show ?thesis by (simp add: bo_def)
  qed
  then have "Suc i * bs - offset = n + (bs - bo)" using \<open>bo < bs\<close> by simp
  then show "n + min (sz - n) (bs - bo) = min sz (Suc i * bs - offset)" using \<open>n < sz\<close> by simp
qed

lemma unat_min: "unat (if a < b then a else b :: u32) = min (unat a) (unat b)"
  by (simp add: min_def word_less_nat_alt word_le_nat_alt)

lemma memcpy_disjoint:
  assumes "{d ..< d + n} \<inter> {s ..< s + n} = {}"
  shows "memcpy m d s n a = (if d \<le> a \<and> a < d + n then m (s + (a - d)) else m a)"
proof (rule memcpy_apply)
  show "d \<le> s \<or> s + n \<le> d"
  proof (rule ccontr)
    assume "\<not> ?thesis"
    then have "d \<in> {d ..< d + n} \<inter> {s ..< s + n}" by auto
    with assms show False by blast
  qed
qed

text \<open>Filling the next \<open>c\<close> bytes of the buffer with the file's bytes takes the invariant to the next block.\<close>

lemma read_inv_extend:
  fixes s s1 :: "'a ide_scheme"
  assumes reg: "fs_region fs \<subseteq> live_bytes L"
    and disj: "{unat bb ..< unat bb + len} \<inter> (live_bytes L \<union> unmanaged) = {}"
    and A: "{unat buffer ..< unat buffer + unat sz} \<subseteq> live_bytes L \<union> unmanaged"
      "{unat buffer ..< unat buffer + unat sz} \<inter> fs_region fs = {}"
    and inv: "read_inv C fs m0 L bb len inode offset sz buffer i (n, s)"
    and c: "unat n + c \<le> unat sz" "unat n + c = min (unat sz) (Suc i * unat (fs_block_size fs m0) - unat offset)"
    and ok1: "ext2_ok fs C s1 (insert (unat bb, len) L)" and n': "unat n' = unat n + c"
    and new: "\<And>j. j < c \<Longrightarrow> m' (unat buffer + unat n + j) = file_byte C fs m0 inode (unat offset + unat n + j)"
    and old: "\<And>x. x \<notin> {unat buffer + unat n ..< unat buffer + unat n + c} \<Longrightarrow> m' x = mem s1 x"
    and same1: "\<And>x. x \<notin> {unat bb ..< unat bb + len} \<Longrightarrow> mem s1 x = mem s x"
  shows "read_inv C fs m0 L bb len inode offset sz buffer (Suc i) (n', s1\<lparr>mem := m'\<rparr>)"
proof -
  let ?B = "{unat buffer + unat n ..< unat buffer + unat n + c}"
  have B: "?B \<subseteq> {unat buffer ..< unat buffer + unat sz}" using c(1) by auto
  have "?B \<subseteq> live_bytes L \<union> unmanaged" by (rule subset_trans [OF B A(1)])
  then have sub: "?B \<subseteq> live_bytes (insert (unat bb, len) L) \<union> unmanaged"
    unfolding live_bytes_insert by blast
  have sub2: "?B \<inter> fs_region fs = {}" using B A(2) by blast
  have ok2: "ext2_ok fs C (s1\<lparr>mem := m'\<rparr>) (insert (unat bb, len) L)" and same2: "fs_same fs (mem s1) m'"
    using ext2_ok_write(1) [OF ok1 old sub sub2, of "hist (hw s1)"] ext2_ok_write(2) [OF ok1 old sub sub2] by simp_all
  have out: "mem s1 x = mem s x" if "x \<in> live_bytes L \<union> unmanaged" for x
    using that disj by (intro same1) blast
  have "fs_same fs (mem s) (mem s1)"
    unfolding fs_same_def using out fs_regionI reg by blast
  moreover have "fs_same fs m0 (mem s)" using inv by (simp add: read_inv_def)
  ultimately have same: "fs_same fs m0 m'" using same2 by (blast intro: fs_same_trans)
  have "m' (unat buffer + j) = file_byte C fs m0 inode (unat offset + j)" if j: "j < unat n'" for j
  proof (cases "j < unat n")
    case True
    have "unat buffer + j \<in> {unat buffer ..< unat buffer + unat sz}" using True c(1) by simp
    then have "unat buffer + j \<in> live_bytes L \<union> unmanaged" using A(1) by blast
    moreover have "m' (unat buffer + j) = mem s1 (unat buffer + j)" using True by (intro old) simp
    ultimately show ?thesis using True inv out by (simp add: read_inv_def)
  next
    case False
    then obtain k where k: "j = unat n + k" by (metis le_add_diff_inverse not_less)
    then have "k < c" using j n' by simp
    with new [of k] k show ?thesis by (simp add: add.assoc)
  qed
  moreover have "m' x = m0 x" if x: "x \<in> live_bytes L \<union> unmanaged" "x \<notin> {unat buffer ..< unat buffer + unat sz}" for x
  proof -
    have "m' x = mem s1 x" using B x(2) by (intro old) blast
    also have "\<dots> = mem s x" by (rule out [OF x(1)])
    also have "\<dots> = m0 x" using inv x by (simp add: read_inv_def)
    finally show ?thesis .
  qed
  ultimately show ?thesis using ok2 same c(2) n' by (simp add: read_inv_def)
qed

lemma read_step:
  assumes reg: "fs_region fs \<subseteq> live_bytes L"
    and disj: "{unat bb ..< unat bb + len} \<inter> (live_bytes L \<union> unmanaged) = {}"
    and len: "unat (fs_block_size fs m0) \<le> len" and r: "read_ok C fs m0 L inode (unat offset) (unat sz) buffer"
    and i: "unat offset div unat (fs_block_size fs m0) \<le> i" "i * unat (fs_block_size fs m0) < unat offset + unat sz" "0 < sz"
    and inv0: "read_inv C fs m0 L bb len inode offset sz buffer i (n, s0)"
    and room: "12 \<le> i \<Longrightarrow> i_block inode 12 \<noteq> 0 \<Longrightarrow> \<exists>p s1. kmalloc (fs_block_size fs m0) s0 = kret (p, s1) \<and> p \<noteq> 0"
  shows "\<exists>r. read_data_block fs inode offset sz buffer bb (offset div fs_block_size fs m0) i (n, s0) = kret r
    \<and> read_inv C fs m0 L bb len inode offset sz buffer (Suc i) r"
proof -
  define bs where "bs = unat (fs_block_size fs m0)"
  define bo where "bo = (if i = unat offset div bs then unat offset mod bs else 0)"
  define c where "c = min (unat sz - unat n) (bs - bo)"
  define bk where "bk = file_block C fs m0 inode i"
  have A: "{unat buffer ..< unat buffer + unat sz} \<subseteq> live_bytes L \<union> unmanaged"
    "{unat buffer ..< unat buffer + unat sz} \<inter> fs_region fs = {}"
    using r by (simp_all add: read_ok_def Let_def)
  have ok0: "ext2_ok fs C s0 (insert (unat bb, len) L)" and same0: "fs_same fs m0 (mem s0)"
    using inv0 by (simp_all add: read_inv_def)
  note f0 = fs_same_fields(3) [OF same0]
  have "0 < bs" using r by (auto simp: read_ok_def Let_def fs_block_ok_def bs_def)
  have end12: "12 * bs < unat offset + unat sz" if "12 \<le> i"
    using mult_le_mono1 [OF that, of bs] i(2) unfolding bs_def by linarith
  obtain s where bn: "inode_block_num fs inode i s0 = kret (bk, s)"
    and ok: "ext2_ok fs C s (insert (unat bb, len) L)" and kept: "kept (insert (unat bb, len) L) (mem s0) (mem s)"
  proof -
    have "unat offset + unat sz \<le> (12 + bs div 4) * bs" using r by (simp add: read_ok_def Let_def bs_def)
    then have "i * bs < (12 + bs div 4) * bs" using i(2) unfolding bs_def by linarith
    then have lt: "i < 12 + unat (fs_block_size fs (mem s0)) div 4" unfolding f0 bs_def by simp
    have bok: "fs_block_ok fs (mem s0) (i_block inode 12)" if "12 \<le> i" "i_block inode 12 \<noteq> 0"
      using r end12 [OF that(1)] that(2) unfolding fs_block_ok_same [OF same0] by (simp add: read_ok_def Let_def bs_def)
    from inode_block_num_step [OF ok0 lt bok room [folded f0]] that show thesis
      by (auto simp: bk_def file_block_same [OF same0])
  qed
  note inv = read_inv_kept [OF inv0 reg ok kept A(1)]
  have same: "fs_same fs m0 (mem s)"
    and n: "unat n = min (unat sz) (i * bs - unat offset)"
    and before: "\<forall>j < unat n. mem s (unat buffer + j) = file_byte C fs m0 inode (unat offset + j)"
    and rest: "\<forall>x \<in> live_bytes L \<union> unmanaged. x \<notin> {unat buffer ..< unat buffer + unat sz} \<longrightarrow> mem s x = m0 x"
    using inv by (simp_all add: read_inv_def bs_def)
  have bs: "fs_block_size fs (mem s) = fs_block_size fs m0" by (rule fs_same_fields [OF same])
  have "0 < unat sz" using i(3) by (simp add: word_less_nat_alt)
  note w = block_window [OF \<open>0 < bs\<close> i(1) [folded bs_def] i(2) [folded bs_def] n this, folded bo_def]
  have lt: "n < sz" using w(1) by (simp add: word_less_nat_alt)
  have sub: "unat (sz - n) = unat sz - unat n" using w(1) by (simp add: unat_sub_u32)
  have c: "0 < c" "c \<le> unat sz - unat n" "unat n + c = min (unat sz) (Suc i * bs - unat offset)"
      "unat n + c \<le> unat sz" "unat n + c = min (unat sz) (Suc i * unat (fs_block_size fs m0) - unat offset)"
    using w unfolding c_def bs_def by linarith+
  have byte: "file_byte C fs m0 inode (unat offset + unat n + j) =
      (if bk = 0 then 0 else fs_byte C fs m0 (unat (bk) * bs + (bo + j)))" if "j < c" for j
  proof -
    have "bo + j < bs" using that w(3) unfolding c_def by linarith
    then have "(i * bs + bo + j) div bs = i" "(i * bs + bo + j) mod bs = bo + j"
      by (simp_all add: add.assoc)
    then show ?thesis by (simp add: file_byte_def bs_def [symmetric] w(2) Let_def bk_def)
  qed
  note finish = read_inv_extend [OF reg disj A inv, where c = c]
  have sum: "unat (n + w) = unat n + c" if "unat w = c" for w
  proof -
    have "unat sz < 2 ^ LENGTH(32)" by (rule unsigned_less)
    with that c(4) show ?thesis by (subst unat_add_u32) simp_all
  qed
  show ?thesis
  proof (cases "bk = 0")
    case True
    have "bo = 0" using True r by (auto simp: bo_def bk_def read_ok_def Let_def bs_def)
    let ?c = "if fs_block_size fs m0 < sz - n then fs_block_size fs m0 else sz - n"
    have uc: "unat ?c = c" unfolding unat_min sub by (simp add: c_def \<open>bo = 0\<close> bs_def min.commute)
    have "read_data_block fs inode offset sz buffer bb (offset div fs_block_size fs m0) i (n, s0) =
        kret (n + ?c, s\<lparr>mem := memset (mem s) (unat buffer + unat n) 0 c\<rparr>)"
      using lt True by (simp add: read_data_block_def bn bs uc [symmetric] Let_def)
    moreover have "read_inv C fs m0 L bb len inode offset sz buffer (Suc i)
        (n + ?c, s\<lparr>mem := memset (mem s) (unat buffer + unat n) 0 c\<rparr>)"
      by (rule finish [OF c(4,5) ok sum [OF uc]]) (auto simp: memset_apply byte True)
    ultimately show ?thesis by blast
  next
    case False
    have bok: "fs_block_ok fs (mem s) (bk)"
      using r False i(1,2) fs_block_ok_same [OF same] by (simp add: read_ok_def Let_def bk_def)
    define m2 where "m2 = store_struct (mem s) (unat bb) (\<lambda>j. fs_byte C fs (mem s) (unat (bk) * bs + j)) bs"
    obtain es where rd: "ext2_read_block fs (bk) bb s = (0, s\<lparr>hw := (hw s)\<lparr>hist := es\<rparr>, mem := m2\<rparr>)"
      and ok2: "ext2_ok fs C (s\<lparr>hw := (hw s)\<lparr>hist := es\<rparr>, mem := m2\<rparr>) (insert (unat bb, len) L)"
      using ext2_read_into [OF ok reg disj bok] len unfolding bs m2_def bs_def by metis
    let ?s2 = "s\<lparr>hw := (hw s)\<lparr>hist := es\<rparr>, mem := m2\<rparr>"
    have f2: "fs_block_size fs m2 = fs_block_size fs m0"
    proof -
      have "m2 x = mem s x" if "x \<in> live_bytes L" for x
        using that disj len by (fastforce simp: m2_def store_struct_def bs_def)
      then have "fs_same fs (mem s) m2" unfolding fs_same_def using fs_regionI reg by blast
      with bs show ?thesis by (simp add: fs_same_fields)
    qed
    let ?bo = "if i = unat (offset div fs_block_size fs m0) then offset mod fs_block_size fs m0 else 0"
    have ubo: "unat ?bo = bo" by (simp add: bo_def bs_def unat_div unat_mod)
    let ?c = "if sz - n < fs_block_size fs m0 - ?bo then sz - n else fs_block_size fs m0 - ?bo"
    have uc: "unat ?c = c"
      unfolding unat_min sub using ubo w(3) by (subst unat_sub_u32) (simp_all add: c_def bs_def)
    let ?m3 = "memcpy m2 (unat buffer + unat n) (unat bb + bo) c"
    have "read_data_block fs inode offset sz buffer bb (offset div fs_block_size fs m0) i (n, s0) =
        kret (n + ?c, ?s2\<lparr>mem := ?m3\<rparr>)"
      using lt False unfolding read_data_block_def by (simp only: prod.case bn kbind_kret rd Let_def bs ubo uc)
        (simp add: Let_def)
    moreover have "read_inv C fs m0 L bb len inode offset sz buffer (Suc i) (n + ?c, ?s2\<lparr>mem := ?m3\<rparr>)"
    proof (rule finish [OF c(4,5) ok2 sum [OF uc]])
      have boc: "bo + c \<le> bs" using w(3) unfolding c_def by linarith
      have "{unat bb + bo ..< unat bb + bo + c} \<subseteq> {unat bb ..< unat bb + len}" using boc len by (auto simp: bs_def)
      moreover have "{unat buffer + unat n ..< unat buffer + unat n + c} \<subseteq> {unat buffer ..< unat buffer + unat sz}"
        using c(4) by auto
      then have "{unat buffer + unat n ..< unat buffer + unat n + c} \<subseteq> live_bytes L \<union> unmanaged"
        using A(1) by (rule subset_trans)
      ultimately have "{unat buffer + unat n ..< unat buffer + unat n + c} \<inter> {unat bb + bo ..< unat bb + bo + c} = {}"
        using disj by blast
      note cp = memcpy_disjoint [OF this]
      show "?m3 (unat buffer + unat n + j) = file_byte C fs m0 inode (unat offset + unat n + j)" if "j < c" for j
        unfolding byte [OF that] using that boc
        by (simp add: cp False m2_def store_struct_def fs_byte_def fs_same_fields [OF same])
      show "?m3 x = mem ?s2 x" if "x \<notin> {unat buffer + unat n ..< unat buffer + unat n + c}" for x
        using that by (auto simp: cp)
      show "mem ?s2 x = mem s x" if "x \<notin> {unat bb ..< unat bb + len}" for x
        using that len by (auto simp: m2_def store_struct_def bs_def)
    qed
    ultimately show ?thesis by blast
  qed
qed

lemma read_loop:
  fixes s :: "'a ide_scheme"
  assumes reg: "fs_region fs \<subseteq> live_bytes L"
    and disj: "{unat bb ..< unat bb + len} \<inter> (live_bytes L \<union> unmanaged) = {}"
    and len: "unat (fs_block_size fs m0) \<le> len" and r: "read_ok C fs m0 L inode (unat offset) (unat sz) buffer"
    and inv: "read_inv C fs m0 L bb len inode offset sz buffer i (n, s)"
    and i: "unat offset div unat (fs_block_size fs m0) \<le> i" "i \<le> e" "0 < sz"
    and e: "\<And>j. j < e \<Longrightarrow> j * unat (fs_block_size fs m0) < unat offset + unat sz"
    and room: "\<And>s :: 'a ide_scheme. heap_rep s (insert (unat bb, len) L) \<Longrightarrow>
      12 * unat (fs_block_size fs m0) < unat offset + unat sz \<Longrightarrow> i_block inode 12 \<noteq> 0 \<Longrightarrow>
      \<exists>p s1. kmalloc (fs_block_size fs m0) s = kret (p, s1) \<and> p \<noteq> 0"
  shows "\<exists>r. kfold (read_data_block fs inode offset sz buffer bb (offset div fs_block_size fs m0)) [i..<e] (n, s) = kret r
    \<and> read_inv C fs m0 L bb len inode offset sz buffer e r"
  using inv i(1,2)
proof (induction "e - i" arbitrary: i n s)
  case 0
  then show ?case by auto
next
  case (Suc d)
  then have "i < e" by simp
  obtain n' s' where step: "read_data_block fs inode offset sz buffer bb (offset div fs_block_size fs m0) i (n, s) = kret (n', s')"
    "read_inv C fs m0 L bb len inode offset sz buffer (Suc i) (n', s')"
  proof -
    have "\<exists>p s1. kmalloc (fs_block_size fs m0) s = kret (p, s1) \<and> p \<noteq> 0" if "12 \<le> i" "i_block inode 12 \<noteq> 0"
    proof (rule room [OF _ _ that(2)])
      show "heap_rep s (insert (unat bb, len) L)" using Suc.prems(1) by (simp add: read_inv_def ext2_ok_def)
      show "12 * unat (fs_block_size fs m0) < unat offset + unat sz"
        using mult_le_mono1 [OF that(1), of "unat (fs_block_size fs m0)"] e [OF \<open>i < e\<close>] by linarith
    qed
    then show thesis using read_step [OF reg disj len r Suc.prems(2) e [OF \<open>i < e\<close>] i(3) Suc.prems(1)] that by auto
  qed
  have "d = e - Suc i" using Suc.hyps(2) by simp
  from Suc.hyps(1) [OF this step(2)] Suc.prems(2) \<open>i < e\<close> step(1) show ?case
    by (simp add: upt_conv_Cons)
qed

text \<open>The first block after the end of the range.\<close>

lemma end_block:
  fixes offset sz bs :: nat
  assumes "0 < bs" "0 < sz"
  defines "e \<equiv> (offset + sz + bs - 1) div bs"
  shows "offset div bs \<le> e" "j < e \<Longrightarrow> j * bs < offset + sz" "offset + sz \<le> e * bs"
proof -
  have up: "e * bs + (offset + sz + bs - 1) mod bs = offset + sz + bs - 1" by (simp add: e_def)
  have "(offset + sz + bs - 1) mod bs < bs" using assms(1) by simp
  with up show "offset + sz \<le> e * bs" by linarith
  show "offset div bs \<le> e" unfolding e_def by (rule div_le_mono) (use assms in simp)
  assume "j < e"
  then have "Suc j * bs \<le> e * bs" by (intro mult_le_mono1) simp
  with up have "bs + j * bs \<le> offset + sz + bs - 1" by (simp only: mult_Suc)
  with assms(2) show "j * bs < offset + sz" by linarith
qed

lemma ext2_read_data_step:
  fixes s :: "'a ide_scheme"
  assumes ok: "ext2_ok fs C s L" and r: "read_ok C fs (mem s) L inode (unat offset) (unat sz) buffer" and sz: "0 < sz"
    and ind: "indirect_room fs inode (unat offset) (unat sz) s"
  shows "\<exists>n s'. ext2_read_inode_data fs inode offset sz buffer s = kret (n, s') \<and> ext2_ok fs C s' L
    \<and> (\<forall>x \<in> live_bytes L \<union> unmanaged. x \<notin> {unat buffer ..< unat buffer + unat sz} \<longrightarrow> mem s' x = mem s x)
    \<and> (if n = -1 then mem s' = mem s \<and> (\<exists>s1. kmalloc (fs_block_size fs (mem s)) s = kret (0, s1))
       else n = int (unat sz) \<and> map (\<lambda>j. mem s' (unat buffer + j)) [0..<unat sz] =
         map (\<lambda>j. file_byte C fs (mem s) inode (unat offset + j)) [0..<unat sz])"
proof -
  define bs where "bs = unat (fs_block_size fs (mem s))"
  obtain k where k: "0 < k" "k < 256" "bs = 512 * k" using r by (auto simp: read_ok_def Let_def fs_block_ok_def bs_def)
  have bound: "unat offset + unat sz \<le> (12 + bs div 4) * bs" and szp: "0 < unat sz" "unat sz < 2 ^ 31"
    using r sz by (simp_all add: read_ok_def Let_def bs_def word_less_nat_alt)
  let ?bs = "fs_block_size fs (mem s)"
  have nz: "?bs \<noteq> 0" "unat ?bs + 19 < 2 ^ 32" using fs_block_ok_size [of fs "mem s" 0] r by (auto simp: read_ok_def Let_def)
  have start: "unat (offset div ?bs) = unat offset div bs" by (simp add: unat_div bs_def)
  have small: "unat offset + unat sz + bs < 2 ^ 32"
  proof -
    have bs': "bs div 4 = 128 * k" "bs \<le> 130560" using k by simp_all
    have "(12 + bs div 4) * bs \<le> (12 + 128 * 255) * 130560" unfolding bs'(1) using k bs'(2) by (intro mult_le_mono) simp_all
    with bound bs'(2) show ?thesis by simp
  qed
  then have "unat (offset + sz + ?bs - 1) = unat offset + unat sz + bs - 1"
    using szp(1) by (subst unat_sub_u32) (simp_all add: unat_add_u32 bs_def [symmetric])
  then have "end": "unat ((offset + sz + ?bs - 1) div ?bs) = (unat offset + unat sz + bs - 1) div bs"
    by (simp add: unat_div bs_def)
  have "0 < bs" using k by simp
  note eb = end_block [OF this szp(1), where offset = "unat offset"]
  show ?thesis
  proof (rule ext2_alloc [OF ok nz])
    fix s1 assume "kmalloc ?bs s = kret (0, s1)" "ext2_ok fs C s1 L" "mem s1 = mem s"
    then show ?thesis by (simp add: ext2_read_inode_data_def udiv_def nz)
  next
    fix bb s1 len
    assume al: "kmalloc ?bs s = kret (bb, s1)" "bb \<noteq> 0" "unat ?bs \<le> len" and ok1: "ext2_ok fs C s1 (insert (unat bb, len) L)"
      and disj: "{unat bb ..< unat bb + len} \<inter> (live_bytes L \<union> unmanaged) = {}" and kept1: "kept L (mem s) (mem s1)"
    note reg = ext2_ok_region [OF ok]
    have same: "fs_same fs (mem s) (mem s1)" by (rule kept_fs_same [OF kept1 reg])
    have inv0: "read_inv C fs (mem s) L bb len inode offset sz buffer (unat offset div bs) (0, s1)"
      using ok1 same kept1 by (simp add: read_inv_def kept_def bs_def)
    have room: "\<exists>p s1'. kmalloc ?bs s' = kret (p, s1') \<and> p \<noteq> 0"
      if "heap_rep s' (insert (unat bb, len) L)" "12 * bs < unat offset + unat sz" "i_block inode 12 \<noteq> 0" for s' :: "'a ide_scheme"
    proof -
      note asm = that
      obtain p s2 where "kmalloc ?bs s1 = kret (p, s2)" "p \<noteq> 0"
        using ind al(1,2) asm(2,3) by (auto simp: indirect_room_def Let_def bs_def)
      moreover have "heap_rep s1 (insert (unat bb, len) L)" using ok1 by (simp add: ext2_ok_def)
      ultimately show ?thesis using kmalloc_room_same [OF _ asm(1) nz] by blast
    qed
    obtain n2 s2 where loop: "kfold (read_data_block fs inode offset sz buffer bb (offset div ?bs))
        [unat offset div bs..<(unat offset + unat sz + bs - 1) div bs] (0, s1) = kret (n2, s2)"
      "read_inv C fs (mem s) L bb len inode offset sz buffer ((unat offset + unat sz + bs - 1) div bs) (n2, s2)"
      using read_loop [OF reg disj al(3) r inv0 _ _ sz, folded bs_def, OF order_refl eb(1,2) room] by auto
    have n2: "n2 = sz" using loop(2) eb(3) by (simp add: read_inv_def bs_def [symmetric] min_def word_unat_eq_iff)
    have ok2: "ext2_ok fs C s2 (insert (unat bb, len) L)" using loop(2) by (simp add: read_inv_def)
    have "0 < len" using al(3) k by (simp add: bs_def)
    from ext2_free [OF ok2 reg disj this] obtain s3 where fr: "kfree bb s2 = kret s3" "ext2_ok fs C s3 L"
      "kept (insert (unat bb, len) L) (mem s2) (mem s3)" by auto
    have "sint sz = int (unat sz)" using szp(2) by (intro sint_small) simp
    then have run: "ext2_read_inode_data fs inode offset sz buffer s = kret (int (unat sz), s3)"
      using al nz loop(1) by (simp add: ext2_read_inode_data_def udiv_def start "end" Let_def n2 fr(1))
    have live: "mem s3 x = mem s2 x" if "x \<in> live_bytes L \<union> unmanaged" for x using fr(3) that by (auto simp: kept_def)
    have "mem s3 (unat buffer + j) = file_byte C fs (mem s) inode (unat offset + j)" if "j < unat sz" for j
    proof -
      have "unat buffer + j \<in> {unat buffer ..< unat buffer + unat sz}" using that by simp
      then have "unat buffer + j \<in> live_bytes L \<union> unmanaged" using r by (simp only: read_ok_def Let_def) blast
      with live loop(2) that show ?thesis by (simp add: read_inv_def n2)
    qed
    then have "map (\<lambda>j. mem s3 (unat buffer + j)) [0..<unat sz] =
        map (\<lambda>j. file_byte C fs (mem s) inode (unat offset + j)) [0..<unat sz]" by simp
    moreover have "\<forall>x \<in> live_bytes L \<union> unmanaged. x \<notin> {unat buffer ..< unat buffer + unat sz} \<longrightarrow> mem s3 x = mem s x"
      using live loop(2) by (simp add: read_inv_def)
    moreover have "uint sz \<noteq> -1" using order_trans [of 0 "uint sz" "-1"] by auto
    ultimately show ?thesis using run fr(2) by simp
  qed
qed

text \<open>
  C30. Reading a file. For a range of less than \<open>2 ^ 31\<close> bytes within the twelve direct blocks and the
  indirect blocks of an inode, \<open>ext2_read_inode_data\<close> returns and fills the buffer with exactly the bytes
  of the file in the range, whatever its position relative to the blocks and however many blocks it spans;
  holes read as zeros. The range must not start inside a hole past its beginning (there the code skips too
  little), and where it passes the direct blocks there must be heap room for a second buffer beside the
  first (the code does not check that it got one). When the heap has no room for the first buffer the call
  returns -1 and leaves the buffer alone. In both cases no other live byte has changed and the heap is as
  before.
\<close>

theorem ext2_read_data_correct:
  assumes ok: "ext2_ok fs C s L" and r: "read_ok C fs (mem s) L inode (unat offset) (unat sz) buffer" and sz: "0 < sz"
    and ind: "indirect_room fs inode (unat offset) (unat sz) s"
  shows "\<exists>n s'. ext2_read_inode_data fs inode offset sz buffer s = kret (n, s') \<and> ext2_ok fs C s' L
    \<and> (\<forall>x \<in> live_bytes L \<union> unmanaged. x \<notin> {unat buffer ..< unat buffer + unat sz} \<longrightarrow> mem s' x = mem s x)
    \<and> (if n = -1 then mem s' = mem s \<and> (\<exists>s1. kmalloc (fs_block_size fs (mem s)) s = kret (0, s1))
       else n = int (unat sz) \<and> map (\<lambda>j. mem s' (unat buffer + j)) [0..<unat sz] =
         map (\<lambda>j. file_byte C fs (mem s) inode (unat offset + j)) [0..<unat sz])"
  by (rule ext2_read_data_step [OF assms])

section \<open>An example\<close>

text \<open>
  A file system with blocks of 1024 bytes and one group, whose structure is the only block on the heap
  and whose group descriptor is at \<open>0x100000\<close>; its inode table starts at block 8. The string "a" is at \<open>0x200000\<close>.
\<close>

definition fs_example_mem :: "memory \<Rightarrow> memory" where
  "fs_example_mem m = fold (\<lambda>(a, v) m. wr32 m a v)
     [(0x500010, 0), (0x500014, 0), (0x50002C, 1), (0x500064, 0), (0x5001B4, 1024), (0x5001BC, 16), (0x5001C0, 1), (0x5001C4, 0x100000),
      (0x100008, 8), (0x200000, 97)] m"

lemma fs_example_mem_frame:
  "x \<notin> {0x500010 ..< 0x500010 + 444} \<union> unmanaged \<Longrightarrow> fs_example_mem m x = m x"
  by (auto simp: fs_example_mem_def wr32_other unmanaged_def)

lemma fs_example_fields:
  "fs_channel 0x500010 (fs_example_mem m) = IDE_CHANNEL_PRIMARY" "fs_drive 0x500010 (fs_example_mem m) = IDE_DRIVE_MASTER_IDX"
  "s_first_data_block 0x500010 (fs_example_mem m) = 1" "s_rev_level 0x500010 (fs_example_mem m) = 0"
  "fs_block_size 0x500010 (fs_example_mem m) = 1024"
  "fs_inodes_per_group 0x500010 (fs_example_mem m) = 16" "fs_groups_count 0x500010 (fs_example_mem m) = 1"
  "fs_group_descriptors 0x500010 (fs_example_mem m) = 0x100000" "bg_inode_table 0x100000 0 (fs_example_mem m) = 8"
  by (simp_all add: fs_channel_def fs_drive_def s_first_data_block_def s_rev_level_def fs_block_size_def fs_inodes_per_group_def fs_groups_count_def
      fs_group_descriptors_def bg_inode_table_def fs_example_mem_def rd32_wr32_other)

lemma fs_example:
  obtains s :: ide and m where "ext2_ok 0x500010 C s {(0x500010, 444)}" "mem s = fs_example_mem m"
    "heap_abs s [(460, False), (0x100000 - 460, True)]"
proof -
  define s0 where "s0 = (ide_example C)\<lparr>mem := mem paging_ready, heap_initialized := heap_initialized paging_ready,
    heap_start := heap_start paging_ready\<rparr>"
  have "heap_abs s0 [(HEAP_SIZE, True)]"
    using paging_ready_heap by (simp add: heap_abs_def s0_def)
  moreover have "amalloc (request 444) HEAP_START [(HEAP_SIZE, True)] = Some (HEAP_START, [(460, False), (0x100000 - 460, True)])"
    by (simp add: request_def)
  ultimately obtain m' where m': "heap_abs (s0\<lparr>mem := m'\<rparr>) [(460, False), (0x100000 - 460, True)]"
    using kmalloc_step [of s0 "[(HEAP_SIZE, True)]" 444] by auto
  define s where "s = s0\<lparr>mem := fs_example_mem m'\<rparr>"
  have live: "live [(460, False), (0x100000 - 460, True)] = {(0x500010, 444)}" by auto
  have abs: "heap_abs s [(460, False), (0x100000 - 460, True)]"
    unfolding s_def using heap_abs_put [OF m', of "fs_example_mem m'", unfolded live] fs_example_mem_frame [of _ m']
    by (simp add: live_bytes_def)
  then have rep: "heap_rep s {(0x500010, 444)}" unfolding heap_rep_def live [symmetric] by fastforce
  have "fs_disk 0x500010 C s"
    using ide_example_ready by (simp add: fs_disk_def s_def s0_def fs_example_fields ide_ready_def)
  with rep have "ext2_ok 0x500010 C s {(0x500010, 444)}"
    by (simp add: ext2_ok_def fs_region_def live_bytes_def)
  then show thesis by (rule that [of s m']) (simp add: s_def, rule abs)
qed
lemma fs_example_room:
  assumes "heap_abs s [(460, False), (0x100000 - 460, True)]"
  shows "kmalloc 1024 s \<noteq> kret (0, s1)"
proof -
  have "amalloc (request 1024) HEAP_START [(460, False), (0x100000 - 460, True)] =
      Some (HEAP_START + 460, [(460, False), (1040, False), (0x100000 - 1500, True)])"
    by (simp add: request_def)
  with kmalloc_step [OF assms, of 1024] show ?thesis by auto
qed

text \<open>Inode 10 of the example is the second one of block 9.\<close>

lemma ext2_read_inode_example:
  "\<exists>(s :: ide) inode s'. ext2_read_inode 0x500010 10 (\<lambda>_. 0) s = kret (0, inode, s')
     \<and> map inode [0..<128] = map (\<lambda>i. disk_byte disk_content False (9344 + i)) [0..<128]"
proof -
  obtain s :: ide and m where s: "ext2_ok 0x500010 disk_content s {(0x500010, 444)}" "mem s = fs_example_mem m"
    "heap_abs s [(460, False), (0x100000 - 460, True)]" by (rule fs_example)
  note f = fs_example_fields [of m]
  have loc: "inode_location 0x500010 10 (mem s) = kret (Some (9, 128))"
    by (simp add: inode_location_def ext2_get_inode_block_group_def ext2_get_inode_index_def udiv_def umod_def s(2) f Let_def)
  have "fs_block_ok 0x500010 (mem s) 9" unfolding fs_block_ok_def s(2) f by (intro exI [of _ 2]) simp
  from ext2_read_inode_step [OF s(1) _ loc this, of "\<lambda>_. 0"] show ?thesis
    using fs_example_room [OF s(3)] by (simp add: s(2) f fs_byte_def del: upt_rec_numeral split: if_splits) blast
qed

text \<open>
  A file whose last direct block is block 10 of the disk and whose indirect block, block 20, lists block 9
  first: a read across both.
\<close>

lemma fs_example_room2:
  assumes "heap_abs s [(460, False), (0x100000 - 460, True)]" "kmalloc 1024 s = kret (bb, s1)"
  shows "\<exists>p s2. kmalloc 1024 s1 = kret (p, s2) \<and> p \<noteq> 0"
proof -
  have "amalloc (request 1024) HEAP_START [(460, False), (0x100000 - 460, True)] =
      Some (HEAP_START + 460, [(460, False), (1040, False), (0x100000 - 1500, True)])"
    by (simp add: request_def)
  with kmalloc_step [OF assms(1), of 1024] assms(2) have s1: "heap_abs s1 [(460, False), (1040, False), (0x100000 - 1500, True)]"
    by (auto simp: heap_abs_update)
  have "amalloc (request 1024) HEAP_START [(460, False), (1040, False), (0x100000 - 1500, True)] =
      Some (HEAP_START + 1500, [(460, False), (1040, False), (1040, False), (0x100000 - 2540, True)])"
    by (simp add: request_def)
  with kmalloc_step [OF s1, of 1024] show ?thesis by auto
qed

definition file_disk :: "bool \<Rightarrow> nat \<Rightarrow> u16" where
  "file_disk slave k = (if k = 10240 then 9 else if 10240 < k \<and> k < 10752 then 0 else of_nat k)"

theorem ext2_read_data_correct_witness:
  "\<exists>(s :: ide) s'. ext2_read_inode_data 0x500010 (wr32 (wr32 (\<lambda>_. 0) 84 10) 88 20) 12264 100 0x200000 s = kret (100, s')
     \<and> map (\<lambda>j. mem s' (0x200000 + j)) [0..<100] =
         map (\<lambda>j. if j < 24 then disk_byte file_disk False (11240 + j) else disk_byte file_disk False (9192 + j)) [0..<100]"
proof -
  obtain s :: ide and m where s: "ext2_ok 0x500010 file_disk s {(0x500010, 444)}" "mem s = fs_example_mem m"
    "heap_abs s [(460, False), (0x100000 - 460, True)]" by (rule fs_example)
  note f = fs_example_fields [of m]
  define inode where "inode = wr32 (wr32 (\<lambda>_. 0 :: u8) 84 10) 88 20"
  have ib: "i_block inode 11 = 10" "i_block inode 12 = 20"
    by (simp_all add: inode_def i_block_def rd32_wr32_other)
  have "rd32 (fs_byte file_disk 0x500010 (mem s)) 20480 = 9"
    by (simp add: rd32_def fs_byte_def disk_byte_def file_disk_def)
  then have blk: "file_block file_disk 0x500010 (mem s) inode 11 = 10" "file_block file_disk 0x500010 (mem s) inode 12 = 9"
    by (simp_all add: file_block_def ib s(2) f Let_def)
  have b: "fs_block_ok 0x500010 (mem s) b" if "b \<le> 20" for b
  proof -
    have "unat b \<le> 20" using that by (simp add: word_le_nat_alt)
    then show ?thesis unfolding fs_block_ok_def s(2) f by (intro exI [of _ 2]) simp
  qed
  have "fs_block_ok 0x500010 (mem s) (file_block file_disk 0x500010 (mem s) inode i)" if "11 \<le> i" "i * 1024 < 12364" for i
  proof -
    have "i = 11 \<or> i = 12" using that by auto
    then show ?thesis using b blk by auto
  qed
  then have r: "read_ok file_disk 0x500010 (mem s) {(0x500010, 444)} inode (unat (12264 :: u32)) (unat (100 :: u32)) 0x200000"
    using b ib blk unfolding read_ok_def by (auto simp: s(2) f fs_region_def unmanaged_def)
  have ir: "indirect_room 0x500010 inode (unat (12264 :: u32)) (unat (100 :: u32)) s"
    using fs_example_room2 [OF s(3)] by (auto simp: indirect_room_def s(2) f)
  from ext2_read_data_correct [OF s(1) r _ ir] obtain n s' where
    "ext2_read_inode_data 0x500010 inode 12264 100 0x200000 s = kret (n, s')"
    "n = 100" "map (\<lambda>j. mem s' (0x200000 + j)) [0..<100] =
       map (\<lambda>j. file_byte file_disk 0x500010 (mem s) inode (12264 + j)) [0..<100]"
    using fs_example_room [OF s(3)] by (auto simp: s(2) f simp del: upt_rec_numeral split: if_splits)
  moreover have "file_byte file_disk 0x500010 (mem s) inode (12264 + j) =
      (if j < 24 then disk_byte file_disk False (11240 + j) else disk_byte file_disk False (9192 + j))" if "j < 100" for j
  proof (cases "j < 24")
    case True
    then have "(12264 + j) div 1024 = 11" "(12264 + j) mod 1024 = 1000 + j" by (simp_all add: mod_if)
    then show ?thesis using True blk by (simp add: file_byte_def s(2) f fs_byte_def Let_def)
  next
    case False
    then have "(12264 + j) div 1024 = 12" "(12264 + j) mod 1024 = j - 24" using that by (simp_all add: mod_if)
    then show ?thesis using False blk by (simp add: file_byte_def s(2) f fs_byte_def Let_def)
  qed
  ultimately show ?thesis unfolding inode_def by (intro exI [of _ s] exI [of _ s']) (auto simp del: upt_rec_numeral)
qed

end
