(* ===== verification/KFS_Ext2_Dirs.thy ===== *)
theory KFS_Ext2_Dirs
  imports KFS_Ext2_Files
begin

text \<open>
  Directories of the ext2 file system: the list of entries that the bytes of a directory represent, the
  search for a name as the search in that list, with the buffers it takes from the heap and gives back;
  and the buffer overrun when the group descriptors are read at mount time.
\<close>

section \<open>Directories\<close>

text \<open>
  A well-formed directory of \<open>sz\<close> bytes at \<open>d\<close>, from offset \<open>off\<close> on: the records follow each other up to
  the end, each holds its name, and the entries are their inode numbers and names.
\<close>

fun dir_at :: "memory \<Rightarrow> nat \<Rightarrow> nat \<Rightarrow> nat \<Rightarrow> (u32 \<times> u8 list) list \<Rightarrow> bool" where
  "dir_at m d sz off [] \<longleftrightarrow> off = sz"
| "dir_at m d sz off ((ino, nm) # es) \<longleftrightarrow>
     (let rl = unat (entry_rec_len m (d + off)) in
      8 + length nm \<le> rl \<and> off + rl \<le> sz \<and> entry_inode m (d + off) = ino
      \<and> unat (entry_name_len m (d + off)) = length nm
      \<and> map (\<lambda>i. m (entry_name (d + off) + i)) [0..<length nm] = nm \<and> dir_at m d sz (off + rl) es)"

text \<open>The inode number a directory gives for a name.\<close>

definition dir_find :: "u8 list \<Rightarrow> (u32 \<times> u8 list) list \<Rightarrow> u32 option" where
  "dir_find t es = map_option fst (find (\<lambda>(i, nm). i \<noteq> 0 \<and> nm = t) es)"

lemma dir_at_cong:
  assumes "\<And>i. i < sz \<Longrightarrow> m' (d' + i) = m (d + i)" "dir_at m d sz off es"
  shows "dir_at m' d' sz off es"
  using assms(2)
proof (induction es arbitrary: off)
  case (Cons e es)
  obtain ino nm where e: "e = (ino, nm)" by (cases e)
  define rl where "rl = unat (entry_rec_len m (d + off))"
  have h: "8 + length nm \<le> rl" "off + rl \<le> sz" using Cons.prems by (simp_all add: e rl_def Let_def)
  have same: "m' (d' + off + i) = m (d + off + i)" if "i < 8 + length nm" for i
    using assms(1) [of "off + i"] that h by (simp add: add.assoc)
  have "entry_rec_len m' (d' + off) = entry_rec_len m (d + off)" "entry_inode m' (d' + off) = entry_inode m (d + off)"
      "entry_name_len m' (d' + off) = entry_name_len m (d + off)"
    using same [of 0] same [of 1] same [of 2] same [of 3] same [of 4] same [of 5] same [of 6]
    by (simp_all add: entry_rec_len_def entry_inode_def entry_name_len_def rd32_def rd16_def ac_simps)
  moreover have "map (\<lambda>i. m' (entry_name (d' + off) + i)) [0..<length nm] = map (\<lambda>i. m (entry_name (d + off) + i)) [0..<length nm]"
    using same by (intro map_cong refl) (simp add: entry_name_def add.assoc)
  ultimately show ?case using Cons by (simp add: e Let_def del: map_eq_conv)
qed simp

lemma strncmp_bytes:
  "cstr m q t \<Longrightarrow> strncmp m p q (length t) = 0 \<longleftrightarrow> map (\<lambda>i. m (p + i)) [0..<length t] = t"
proof (induction t arbitrary: p q)
  case (Cons c t)
  have "map (\<lambda>i. m (p + i)) [0..<Suc (length t)] = m p # map (\<lambda>i. m (p + 1 + i)) [0..<length t]"
    by (simp add: upt_conv_Cons map_Suc_upt [symmetric] del: upt_Suc)
  with Cons.prems Cons.IH [of "q + 1" "p + 1"] show ?case
    by (auto simp: unsigned_eq_0_iff dest: unsigned_word_eqI simp del: upt_Suc)
qed simp

lemma lookup_loop_dir:
  assumes "dir_at m d (unat sz) (unat off) es" "cstr m name t" "length t < 2 ^ 32"
  shows "lookup_loop m d sz name off = Some (dir_find t es)"
  using assms(1)
proof (induction es arbitrary: off)
  case Nil
  then have "off = sz" by (simp add: word_unat_eq_iff)
  then show ?case by (simp add: lookup_loop.simps dir_find_def)
next
  case (Cons e es)
  obtain ino nm where e: "e = (ino, nm)" by (cases e)
  define a where "a = d + unat off"
  have h: "8 + length nm \<le> unat (entry_rec_len m a)" "unat off + unat (entry_rec_len m a) \<le> unat sz" "entry_inode m a = ino"
      "unat (entry_name_len m a) = length nm" "map (\<lambda>i. m (entry_name a + i)) [0..<length nm] = nm"
      "dir_at m d (unat sz) (unat off + unat (entry_rec_len m a)) es"
    using Cons.prems by (simp_all add: e a_def Let_def)
  have lt: "off < sz" "entry_rec_len m a \<noteq> 0" using h(1,2) by (auto simp: word_less_nat_alt)
  have "unat sz < 2 ^ LENGTH(32)" by (rule unsigned_less)
  then have next_off: "unat (off + ucast (entry_rec_len m a)) = unat off + unat (entry_rec_len m a)"
    using h(2) by (subst unat_add_u32) (simp_all add: unat_ucast_up)
  have "(ucast (entry_name_len m a) :: u32) = of_nat (length t) \<longleftrightarrow> length nm = length t"
    using assms(3) h(4) by (auto simp: word_unat_eq_iff unat_ucast_up unsigned_of_nat take_bit_nat_eq_self)
  moreover have "strncmp m (entry_name a) name (length nm) = 0 \<longleftrightarrow> nm = t" if "length nm = length t"
    using strncmp_bytes [OF assms(2), of "entry_name a"] h(5) that by auto
  ultimately have found: "(ucast (entry_name_len m a) = (of_nat (length t) :: u32)
      \<and> strncmp m (entry_name a) name (unat (entry_name_len m a)) = 0) \<longleftrightarrow> nm = t"
    unfolding h(4) by auto
  have "lookup_loop m d sz name off = (if ino \<noteq> 0 \<and> nm = t then Some (Some ino)
      else lookup_loop m d sz name (off + ucast (entry_rec_len m a)))"
    by (subst lookup_loop.simps) (simp add: Let_def lt found h(3) strlen_cstr [OF assms(2,3)] flip: a_def)
  also have "\<dots> = Some (dir_find t (e # es))"
    using Cons.IH [of "off + ucast (entry_rec_len m a)"] h(6) by (simp add: next_off dir_find_def e)
  finally show ?case .
qed

text \<open>An inode of the disk, when its place is in block \<open>b\<close> at offset \<open>off\<close>.\<close>

definition disk_inode :: "(bool \<Rightarrow> nat \<Rightarrow> u16) \<Rightarrow> u32 \<Rightarrow> memory \<Rightarrow> u32 \<Rightarrow> u32 \<Rightarrow> ext2_inode" where
  "disk_inode C fs m b off = (\<lambda>i. fs_byte C fs m (unat b * unat (fs_block_size fs m) + unat off + i))"

lemma inode_fields_cong:
  assumes "\<And>i. i < EXT2_INODE_SIZE \<Longrightarrow> inode' i = inode i"
  shows "i_mode inode' = i_mode inode" "i_size inode' = i_size inode" "k < 15 \<Longrightarrow> i_block inode' k = i_block inode k"
proof -
  show "i_mode inode' = i_mode inode" "i_size inode' = i_size inode"
    by (simp_all add: i_mode_def i_size_def rd16_def rd32_def assms)
  assume "k < 15"
  then show "i_block inode' k = i_block inode k" unfolding i_block_def by (intro rd32_cong assms) simp
qed

lemma file_byte_cong:
  assumes "\<And>i. i < EXT2_INODE_SIZE \<Longrightarrow> inode' i = inode i" "k < 12 * unat (fs_block_size fs m)"
  shows "file_byte C fs m inode' k = file_byte C fs m inode k"
proof -
  have "k div unat (fs_block_size fs m) < 12" using assms(2) by (simp add: less_mult_imp_div_less)
  then show ?thesis using inode_fields_cong(3) [OF assms(1)] by (simp add: file_byte_def file_block_def Let_def)
qed

text \<open>
  What a directory search relies on: the inode is where the tables say, it is a directory with direct
  blocks, and the bytes of the file are the entries \<open>es\<close>.
\<close>

definition dir_file :: "(bool \<Rightarrow> nat \<Rightarrow> u16) \<Rightarrow> u32 \<Rightarrow> memory \<Rightarrow> ext2_inode \<Rightarrow> (u32 \<times> u8 list) list \<Rightarrow> bool" where
  "dir_file C fs m inode es \<longleftrightarrow> (let sz = unat (i_size inode) in
     i_mode inode AND 0xF000 = EXT2_S_IFDIR \<and> 0 < sz \<and> sz \<le> 12 * unat (fs_block_size fs m)
     \<and> (\<forall>i < 12. i_block inode i \<noteq> 0 \<longrightarrow> fs_block_ok fs m (i_block inode i))
     \<and> dir_at (file_byte C fs m inode) 0 sz 0 es)"

definition directory_ok :: "(bool \<Rightarrow> nat \<Rightarrow> u16) \<Rightarrow> u32 \<Rightarrow> u32 \<Rightarrow> memory \<Rightarrow> (u32 \<times> u8 list) list \<Rightarrow> bool" where
  "directory_ok C fs n m es \<longleftrightarrow> n \<noteq> 0 \<and> (\<exists>b off. inode_location fs n m = kret (Some (b, off)) \<and> fs_block_ok fs m b
     \<and> unat off + EXT2_INODE_SIZE \<le> unat (fs_block_size fs m) \<and> dir_file C fs m (disk_inode C fs m b off) es)"

lemma dir_file_cong:
  assumes "dir_file C fs m inode es" "\<And>i. i < EXT2_INODE_SIZE \<Longrightarrow> inode' i = inode i" "fs_same fs m m'"
  shows "dir_file C fs m' inode' es"
proof -
  have sz: "unat (i_size inode) \<le> 12 * unat (fs_block_size fs m)" using assms(1) by (simp add: dir_file_def Let_def)
  have "file_byte C fs m' inode' k = file_byte C fs m inode k" if "k < unat (i_size inode)" for k
    using file_byte_cong [OF assms(2)] file_byte_same [OF assms(3)] that sz by simp
  then have "dir_at (file_byte C fs m' inode') 0 (unat (i_size inode)) 0 es"
    by (rule dir_at_cong [where d = 0 and d' = 0 and m = "file_byte C fs m inode"])
      (use assms(1) in \<open>simp_all add: dir_file_def Let_def\<close>)
  with assms(1) inode_fields_cong [OF assms(2)] fs_same_fields [OF assms(3)] fs_block_ok_same [OF assms(3)] show ?thesis
    by (simp add: dir_file_def Let_def)
qed

text \<open>The heap has no room for one of the buffers of a search.\<close>

definition no_room :: "u32 \<Rightarrow> u32 \<Rightarrow> 'a ide_scheme \<Rightarrow> bool" where
  "no_room fs n s \<longleftrightarrow> (\<exists>s1. kmalloc (fs_block_size fs (mem s)) s = kret (0, s1))
     \<or> (\<exists>inode s1. ext2_read_inode fs n (\<lambda>_. 0) s = kret (0, inode, s1)
         \<and> ((\<exists>s2. kmalloc (i_size inode) s1 = kret (0, s2))
           \<or> (\<exists>p s2 s3. kmalloc (i_size inode) s1 = kret (p, s2) \<and> kmalloc (fs_block_size fs (mem s2)) s2 = kret (0, s3))))"

text \<open>The contents of a directory in a buffer of the heap.\<close>

definition dir_loaded where
  "dir_loaded C fs L m0 es p sz len s \<longleftrightarrow> ext2_ok fs C s (insert (unat p, len) L)
     \<and> {unat p ..< unat p + len} \<inter> (live_bytes L \<union> unmanaged) = {} \<and> 0 < len \<and> kept L m0 (mem s)
     \<and> unat sz \<le> len \<and> dir_at (mem s) (unat p) (unat sz) 0 es"

lemma read_ok_direct:
  assumes dir: "dir_file C fs m inode es" and bok: "fs_block_ok fs m 0"
    and buf: "{unat p ..< unat p + unat (i_size inode)} \<subseteq> live_bytes L \<union> unmanaged"
      "fs_region fs \<inter> {unat p ..< unat p + unat (i_size inode)} = {}"
  shows "read_ok C fs m L inode (unat (0 :: u32)) (unat (i_size inode)) p"
proof -
  define bs where "bs = unat (fs_block_size fs m)"
  have sz: "unat (i_size inode) \<le> 12 * bs" and blk: "\<forall>i < 12. i_block inode i \<noteq> 0 \<longrightarrow> fs_block_ok fs m (i_block inode i)"
    using dir by (simp_all add: dir_file_def Let_def bs_def)
  have "bs \<le> 130560" using bok by (auto simp: fs_block_ok_def bs_def)
  have "fs_block_ok fs m (file_block C fs m inode i)" if "i * bs < unat (i_size inode)" "file_block C fs m inode i \<noteq> 0" for i
  proof -
    have "i * bs < 12 * bs" using less_le_trans [OF that(1) sz] .
    then have "i < 12" by simp
    with blk that(2) show ?thesis by (simp add: file_block_def Let_def)
  qed
  then show ?thesis
    unfolding read_ok_def Let_def bs_def [symmetric] using sz bok buf \<open>bs \<le> 130560\<close> by (simp add: Int_commute add_mult_distrib)
qed

lemma read_directory:
  assumes ok: "ext2_ok fs C s (insert (unat p, len) L)" and reg: "fs_region fs \<subseteq> live_bytes L"
    and disj: "{unat p ..< unat p + len} \<inter> (live_bytes L \<union> unmanaged) = {}" and len: "unat (i_size inode) \<le> len"
    and dir: "dir_file C fs (mem s) inode es" and bok: "fs_block_ok fs (mem s) 0"
  obtains s' where "ext2_read_inode_data fs inode 0 (i_size inode) p s = kret (-1, s')"
      "ext2_ok fs C s' (insert (unat p, len) L)" "kept L (mem s) (mem s')"
      "\<exists>s1. kmalloc (fs_block_size fs (mem s)) s = kret (0, s1)"
  | n s' where "ext2_read_inode_data fs inode 0 (i_size inode) p s = kret (n, s')" "0 \<le> n"
      "dir_loaded C fs L (mem s) es p (i_size inode) len s'"
proof -
  let ?L = "insert (unat p, len) L" and ?B = "{unat p ..< unat p + unat (i_size inode)}"
  have sz: "0 < i_size inode" using dir by (simp add: dir_file_def Let_def word_less_nat_alt)
  have sub: "?B \<subseteq> {unat p ..< unat p + len}" using len by auto
  have "fs_region fs \<inter> ?B = {}" using sub reg disj by blast
  then have r: "read_ok C fs (mem s) ?L inode (unat (0 :: u32)) (unat (i_size inode)) p"
    using sub by (intro read_ok_direct [OF dir bok]) (auto simp: live_bytes_insert)
  have ir: "indirect_room fs inode (unat (0 :: u32)) (unat (i_size inode)) s"
    using dir by (simp add: indirect_room_def dir_file_def Let_def)
  obtain n s' where n: "ext2_read_inode_data fs inode 0 (i_size inode) p s = kret (n, s')" "ext2_ok fs C s' ?L"
      "\<forall>x \<in> live_bytes ?L \<union> unmanaged. x \<notin> ?B \<longrightarrow> mem s' x = mem s x"
      "if n = -1 then mem s' = mem s \<and> (\<exists>s1. kmalloc (fs_block_size fs (mem s)) s = kret (0, s1))
       else n = int (unat (i_size inode)) \<and> map (\<lambda>j. mem s' (unat p + j)) [0..<unat (i_size inode)] =
         map (\<lambda>j. file_byte C fs (mem s) inode (unat (0 :: u32) + j)) [0..<unat (i_size inode)]"
    using ext2_read_data_step [OF ok r sz ir] by blast
  have kept: "kept L (mem s) (mem s')"
  proof -
    have "x \<notin> ?B" if "x \<in> live_bytes L \<union> unmanaged" for x using that sub disj by blast
    with n(3) show ?thesis by (auto simp: kept_def live_bytes_insert)
  qed
  show thesis
  proof (cases "n = -1")
    case True
    with n kept that(1) show thesis by auto
  next
    case False
    have "dir_at (mem s') (unat p) (unat (i_size inode)) 0 es"
      by (rule dir_at_cong [where d = 0 and m = "file_byte C fs (mem s) inode" and m' = "mem s'" and es = es])
        (use dir n(4) False in \<open>simp_all add: dir_file_def Let_def\<close>)
    moreover have "0 < len" using sz len by (simp add: word_less_nat_alt)
    ultimately show thesis using False n kept disj len that(2) by (simp add: dir_loaded_def)
  qed
qed

lemma load_directory_ok:
  assumes ok: "ext2_ok fs C s L" and dir: "directory_ok C fs n (mem s) es"
  obtains s' where "load_directory fs n s = kret (None, s')" "ext2_ok fs C s' L" "kept L (mem s) (mem s')" "no_room fs n s"
  | p sz len s' where "load_directory fs n s = kret (Some (p, sz), s')" "dir_loaded C fs L (mem s) es p sz len s'"
proof -
  let ?bs = "fs_block_size fs (mem s)"
  from dir obtain b off where n: "n \<noteq> 0" and loc: "inode_location fs n (mem s) = kret (Some (b, off))"
    and bok: "fs_block_ok fs (mem s) b" and off: "unat off + 128 \<le> unat ?bs"
    and df: "dir_file C fs (mem s) (disk_inode C fs (mem s) b off) es" by (auto simp: directory_ok_def)
  note reg = ext2_ok_region [OF ok]
  obtain r inode s1 where rd: "ext2_read_inode fs n (\<lambda>_. 0) s = kret (r, inode, s1)" "ext2_ok fs C s1 L" "kept L (mem s) (mem s1)"
      "if r = 0 then map inode [0..<128] = map (disk_inode C fs (mem s) b off) [0..<128]
       else r = -1 \<and> (\<exists>s1. kmalloc ?bs s = kret (0, s1))"
    using ext2_read_inode_step [OF ok n loc bok off, of "\<lambda>_. 0"] unfolding disk_inode_def by (metis (no_types, lifting))
  show thesis
  proof (cases "r = 0")
    case False
    then have "load_directory fs n s = kret (None, s1)" by (simp add: load_directory_def rd(1))
    moreover have "no_room fs n s" using False rd(4) by (auto simp: no_room_def)
    ultimately show thesis using rd that(1) by blast
  next
    case True
    then have "inode i = disk_inode C fs (mem s) b off i" if "i < 128" for i
      using rd(4) that by (simp del: upt_rec_numeral)
    note df1 = dir_file_cong [OF df this kept_fs_same [OF rd(3) reg]]
    have bok1: "fs_block_ok fs (mem s1) 0"
      using bok fs_block_ok_same [OF kept_fs_same [OF rd(3) reg]] by (auto simp: fs_block_ok_def)
    have sz: "i_size inode \<noteq> 0" "unat (i_size inode) + 19 < 2 ^ 32" "i_mode inode AND 0xF000 = EXT2_S_IFDIR"
      using df1 bok1 by (auto simp: dir_file_def Let_def fs_block_ok_def)
    note run = load_directory_def rd(1) True sz(3)
    show thesis
    proof (rule ext2_alloc [OF rd(2) sz(1,2)])
      fix s2 assume s2: "kmalloc (i_size inode) s1 = kret (0, s2)" "ext2_ok fs C s2 L" "mem s2 = mem s1"
      then have "no_room fs n s" using rd(1) True by (auto simp: no_room_def)
      with s2 rd(3) show thesis by (intro that(1) [of s2]) (simp_all add: run)
    next
      fix p s2 len assume al: "kmalloc (i_size inode) s1 = kret (p, s2)" "p \<noteq> 0" "unat (i_size inode) \<le> len"
        "ext2_ok fs C s2 (insert (unat p, len) L)" and disj: "{unat p ..< unat p + len} \<inter> (live_bytes L \<union> unmanaged) = {}"
        and k2: "kept L (mem s1) (mem s2)"
      have same: "fs_same fs (mem s1) (mem s2)" by (rule kept_fs_same [OF k2 reg])
      have k12: "kept L (mem s) (mem s2)" by (rule kept_trans [OF rd(3) k2])
      show thesis
      proof (rule read_directory [OF al(4) reg disj al(3) dir_file_cong [OF df1 refl same]])
        show "fs_block_ok fs (mem s2) 0" using bok1 fs_block_ok_same [OF same] by simp
        fix s3 assume s3: "ext2_read_inode_data fs inode 0 (i_size inode) p s2 = kret (-1, s3)"
          "ext2_ok fs C s3 (insert (unat p, len) L)" "kept L (mem s2) (mem s3)" "\<exists>s1. kmalloc (fs_block_size fs (mem s2)) s2 = kret (0, s1)"
        have "0 < len" using al(3) sz(1) by (metis le_zero_eq not_gr_zero unsigned_eq_0_iff)
        from ext2_free [OF s3(2) reg disj this] obtain s4 where s4: "kfree p s3 = kret s4" "ext2_ok fs C s4 L"
          "kept (insert (unat p, len) L) (mem s3) (mem s4)" by auto
        have "no_room fs n s" using s3(4) al(1) rd(1) True by (auto simp: no_room_def)
        moreover have "kept L (mem s) (mem s4)"
          using k12 s3(3) s4(3) unfolding kept_def live_bytes_insert by auto
        ultimately show thesis using s4 al(1,2) s3(1) by (intro that(1) [of s4]) (simp_all add: run)
      next
        fix k s3 assume s3: "ext2_read_inode_data fs inode 0 (i_size inode) p s2 = kret (k, s3)" "0 \<le> k"
          "dir_loaded C fs L (mem s2) es p (i_size inode) len s3"
        then have "dir_loaded C fs L (mem s) es p (i_size inode) len s3"
          using kept_trans [OF k12] by (auto simp: dir_loaded_def)
        then show thesis using al(1,2) s3(1,2) by (intro that(2) [of p "i_size inode" s3 len]) (simp_all add: run)
      qed
    qed
  qed
qed

text \<open>
  C31. Looking up a name. In a well-formed directory with direct blocks, \<open>ext2_lookup\<close> returns 0 and the
  inode number of the first used entry with exactly that name, or -1 when there is none (or when the
  heap has no room for its buffers); the search ends for every such directory, frees its buffers and
  changes no other live byte.
\<close>

theorem ext2_lookup_correct:
  assumes ok: "ext2_ok fs C s L" and dir: "directory_ok C fs n (mem s) es"
    and name: "cstr (mem s) (unat name) t" "length t < 2 ^ 32" "{unat name .. unat name + length t} \<subseteq> live_bytes L \<union> unmanaged"
  shows "\<exists>r found s'. ext2_lookup fs n name s = kret (r, found, s') \<and> ext2_ok fs C s' L \<and> kept L (mem s) (mem s')
    \<and> ((r, found) = (case dir_find t es of Some i \<Rightarrow> (0, Some i) | None \<Rightarrow> (-1, None))
       \<or> no_room fs n s \<and> (r, found) = (-1, None))"
proof (rule load_directory_ok [OF ok dir])
  fix s1 assume "load_directory fs n s = kret (None, s1)" "ext2_ok fs C s1 L" "kept L (mem s) (mem s1)" "no_room fs n s"
  then show ?thesis by (simp add: ext2_lookup_def)
next
  fix p sz len s1
  assume ld: "load_directory fs n s = kret (Some (p, sz), s1)" and "dir_loaded C fs L (mem s) es p sz len s1"
  then have l: "ext2_ok fs C s1 (insert (unat p, len) L)" "{unat p ..< unat p + len} \<inter> (live_bytes L \<union> unmanaged) = {}"
      "0 < len" "kept L (mem s) (mem s1)" "dir_at (mem s1) (unat p) (unat sz) (unat (0 :: u32)) es"
    by (simp_all add: dir_loaded_def)
  have "mem s1 (unat name + i) = mem s (unat name + i)" if "i \<le> length t" for i
  proof -
    have "unat name + i \<in> live_bytes L \<union> unmanaged" using that by (intro subsetD [OF name(3)]) simp
    then show ?thesis using l(4) by (simp add: kept_def)
  qed
  then have "cstr (mem s1) (unat name) t" using name(1) cstr_cong [of t "mem s1" "unat name" "mem s"] by simp
  note loop = lookup_loop_dir [OF l(5) this name(2)]
  obtain s2 where s2: "kfree p s1 = kret s2" "ext2_ok fs C s2 L" "kept (insert (unat p, len) L) (mem s1) (mem s2)"
    by (rule ext2_free [OF l(1) ext2_ok_region [OF ok] l(2,3)])
  have "kept L (mem s) (mem s2)" using l(4) s2(3) by (auto simp: kept_def live_bytes_insert)
  then show ?thesis using s2(1,2) by (auto simp: ext2_lookup_def ld loop klift_def split: option.split)
qed

text \<open>
  The root directory of an example: an unused entry and a used one, both with the name "a".
\<close>

definition dir_disk :: "bool \<Rightarrow> nat \<Rightarrow> u16" where
  "dir_disk slave k = (case map_of [(4160, 0x4000), (4162, 1024), (4180, 10), (5122, 12), (5123, 1), (5124, 97),
     (5126, 5), (5128, 1012), (5129, 1), (5130, 97)] k of None \<Rightarrow> 0 | Some w \<Rightarrow> w)"

lemma dir_disk_zero: "4180 < k \<Longrightarrow> k < 5120 \<Longrightarrow> dir_disk sl k = 0"
  by (auto simp: dir_disk_def)

lemma dir_disk_inode:
  fixes inode :: ext2_inode
  defines "inode \<equiv> (\<lambda>i. disk_byte dir_disk False (8320 + i))"
  shows "i_mode inode = EXT2_S_IFDIR" "i_size inode = 1024" "i_block inode 0 = 10" "0 < i \<Longrightarrow> i < 12 \<Longrightarrow> i_block inode i = 0"
proof -
  show "i_mode inode = EXT2_S_IFDIR" "i_size inode = 1024" "i_block inode 0 = 10"
    by (simp_all add: inode_def i_mode_def i_size_def i_block_def rd16_def rd32_def disk_byte_def dir_disk_def)
  assume "0 < i" "i < 12"
  then have "disk_byte dir_disk False (8320 + (40 + 4 * i + j)) = 0" if "j < 4" for j
    using that by (simp add: disk_byte_def dir_disk_zero)
  from this [of 0] this [of 1] this [of 2] this [of 3] show "i_block inode i = 0"
    by (simp add: inode_def i_block_def rd32_def)
qed

lemma dir_disk_example: "directory_ok dir_disk 0x500010 2 (fs_example_mem m) [(0, [97]), (5, [97])]"
proof -
  note f = fs_example_fields [of m]
  let ?I = "disk_inode dir_disk 0x500010 (fs_example_mem m) 8 128"
  have b: "fs_byte dir_disk 0x500010 (fs_example_mem m) = disk_byte dir_disk False" by (simp add: fs_byte_def f)
  have I: "?I = (\<lambda>i. disk_byte dir_disk False (8320 + i))" by (simp add: disk_inode_def f b)
  have loc: "inode_location 0x500010 2 (fs_example_mem m) = kret (Some (8, 128))"
    by (simp add: inode_location_def ext2_get_inode_block_group_def ext2_get_inode_index_def udiv_def umod_def f Let_def)
  have bok: "fs_block_ok 0x500010 (fs_example_mem m) b" if "b \<le> 10" for b
  proof -
    have "unat b \<le> 10" using that by (simp add: word_le_nat_alt)
    then show ?thesis unfolding fs_block_ok_def f by (intro exI [of _ 2]) simp
  qed
  have "file_byte dir_disk 0x500010 (fs_example_mem m) ?I k = disk_byte dir_disk False (10240 + k)" if "k < 1024" for k
    using that dir_disk_inode(3) by (simp add: file_byte_def file_block_def f b I Let_def)
  moreover have "dir_at (\<lambda>k. disk_byte dir_disk False (10240 + k)) 0 1024 0 [(0, [97]), (5, [97])]"
    by (simp add: Let_def entry_rec_len_def entry_inode_def entry_name_len_def entry_name_def rd16_def rd32_def disk_byte_def dir_disk_def)
  ultimately have "dir_at (file_byte dir_disk 0x500010 (fs_example_mem m) ?I) 0 1024 0 [(0, [97]), (5, [97])]"
    using dir_at_cong [of 1024 "file_byte dir_disk 0x500010 (fs_example_mem m) ?I" 0 "\<lambda>k. disk_byte dir_disk False (10240 + k)" 0]
    by (simp del: dir_at.simps)
  moreover have "fs_block_ok 0x500010 (fs_example_mem m) (i_block ?I i)" if "i < 12" "i_block ?I i \<noteq> 0" for i
    using that dir_disk_inode(3,4) bok [of 10] unfolding I by (cases "i = 0") auto
  ultimately have "dir_file dir_disk 0x500010 (fs_example_mem m) ?I [(0, [97]), (5, [97])]"
    using dir_disk_inode(1,2) by (simp add: dir_file_def Let_def f I del: dir_at.simps)
  then show ?thesis unfolding directory_ok_def using loc bok [of 8] by (simp add: f)
qed

text \<open>The heap of the example has room for every buffer of the search.\<close>

lemma dir_disk_room:
  assumes s: "ext2_ok 0x500010 dir_disk s {(0x500010, 444)}" "mem s = fs_example_mem m"
    "heap_abs s [(460, False), (0x100000 - 460, True)]"
  shows "\<not> no_room 0x500010 2 s"
proof -
  note f = fs_example_fields [of m]
  let ?bs = "[(460, False), (0x100000 - 460, True)]"
  have live: "live ?bs = {(0x500010, 444)}" by auto
  have loc: "inode_location 0x500010 2 (mem s) = kret (Some (8, 128))"
    by (simp add: inode_location_def ext2_get_inode_block_group_def ext2_get_inode_index_def udiv_def umod_def s(2) f Let_def)
  have bok: "fs_block_ok 0x500010 (mem s) 8" unfolding fs_block_ok_def s(2) f by (intro exI [of _ 2]) simp
  have key: "i_size inode = 1024 \<and> heap_abs s1 ?bs \<and> fs_block_size 0x500010 (mem s2) = 1024"
    if "ext2_read_inode 0x500010 2 (\<lambda>_. 0) s = kret (0, inode, s1)" "kmalloc (i_size inode) s1 = kret (p, s2)"
    for inode p and s1 s2 :: "'a ide_scheme"
  proof -
    from ext2_read_inode_step [OF s(1) _ loc bok, of "\<lambda>_. 0"] that(1)
    have ok1: "ext2_ok 0x500010 dir_disk s1 {(0x500010, 444)}" and k1: "kept {(0x500010, 444)} (mem s) (mem s1)"
      and inode: "map inode [0..<128] = map (\<lambda>i. disk_byte dir_disk False (8320 + i)) [0..<128]"
      by (simp_all add: s(2) f fs_byte_def del: upt_rec_numeral)
    have i: "inode i = disk_byte dir_disk False (8320 + i)" if "i < 128" for i
      using inode that by (simp del: upt_rec_numeral)
    have sz: "i_size inode = 1024"
      using inode_fields_cong(2) [of inode "\<lambda>i. disk_byte dir_disk False (8320 + i)"] i dir_disk_inode(2) by simp
    have abs1: "heap_abs s1 ?bs"
      by (rule heap_abs_same_live [OF s(3)]) (use ok1 live in \<open>simp_all add: ext2_ok_def\<close>)
    note reg = ext2_ok_region [OF ok1]
    have n: "(1024 :: u32) \<noteq> 0" "unat (1024 :: u32) + 19 < 2 ^ 32" by auto
    have "kept {(0x500010, 444)} (mem s1) (mem s2)"
      by (rule ext2_alloc [OF ok1 n]) (use that(2) sz in \<open>auto simp: kept_def\<close>)
    then have "fs_same 0x500010 (mem s) (mem s2)" using kept_fs_same [OF kept_trans [OF k1] reg] by simp
    from fs_same_fields(3) [OF this] sz abs1 show ?thesis by (simp add: s(2) f)
  qed
  show ?thesis unfolding no_room_def
  proof (intro notI, elim disjE exE conjE)
    fix s1 assume "kmalloc (fs_block_size 0x500010 (mem s)) s = kret (0, s1)"
    then show False using fs_example_room [OF s(3)] by (simp add: s(2) f)
  next
    fix inode s1 s2 assume asm: "ext2_read_inode 0x500010 2 (\<lambda>_. 0) s = kret (0, inode, s1)" "kmalloc (i_size inode) s1 = kret (0, s2)"
    from key [OF this] show False using fs_example_room [of s1] asm(2) by simp
  next
    fix inode s1 p s2 s3
    assume asm: "ext2_read_inode 0x500010 2 (\<lambda>_. 0) s = kret (0, inode, s1)" "kmalloc (i_size inode) s1 = kret (p, s2)"
      "kmalloc (fs_block_size 0x500010 (mem s2)) s2 = kret (0, s3)"
    from key [OF asm(1,2)] show False using fs_example_room2 [of s1 p s2] asm(2,3) by auto
  qed
qed

theorem ext2_lookup_correct_witness:
  "\<exists>(s :: ide) s'. ext2_lookup 0x500010 2 0x200000 s = kret (0, Some 5, s')"
proof -
  obtain s :: ide and m where s: "ext2_ok 0x500010 dir_disk s {(0x500010, 444)}" "mem s = fs_example_mem m"
    "heap_abs s [(460, False), (0x100000 - 460, True)]"
    by (rule fs_example)
  have name: "cstr (mem s) (unat (0x200000 :: u32)) [97]"
    by (simp add: s(2) fs_example_mem_def wr32_def)
  have "{unat (0x200000 :: u32) .. unat (0x200000 :: u32) + length [97 :: u8]} \<subseteq> live_bytes {(0x500010, 444)} \<union> unmanaged"
    by (auto simp: unmanaged_def)
  from ext2_lookup_correct [OF s(1) dir_disk_example [of m, folded s(2)] name _ this] dir_disk_room [OF s] show ?thesis
    by (auto simp: dir_find_def)
qed

section \<open>The group descriptors overrun their buffer\<close>

text \<open>Two block lists read from memories with the same headers agree.\<close>

lemma seg_follow:
  assumes "seg m a (xs @ ys) e" "seg m' a zs e" "\<And>x. x \<in> headers a xs \<Longrightarrow> m' x = m x" "ys \<noteq> []" "e < 2 ^ 32"
  shows "\<exists>zs'. seg m' (a + sizes xs) zs' e"
  using assms(1-3)
proof (induction xs arbitrary: a zs)
  case (Cons x xs)
  obtain sz fr where x: "x = (sz, fr)" by (cases x)
  have h: "hdr m a sz fr" "seg m (a + sz) (xs @ ys) e" using Cons.prems(1) by (simp_all add: x)
  have "a + sz \<le> e" "16 \<le> sz" using seg_end [OF h(2)] h(1) by (auto simp: hdr_def)
  then obtain sz' fr' zs' where z: "zs = (sz', fr') # zs'" "hdr m' a sz' fr'" "seg m' (a + sz') zs' e"
    using Cons.prems(2) by (cases zs) (simp, metis prod.exhaust seg.simps(2))
  have "sz' \<le> e" using seg_end [OF z(3)] by simp
  have "hdr m a sz' fr'" using z(2) Cons.prems(3) by (subst hdr_cong [where m' = m']) (simp_all add: x)
  then have "(of_nat sz' :: u32) = of_nat sz" using h(1) by (simp add: hdr_def)
  then have "unat (of_nat sz' :: u32) = unat (of_nat sz :: u32)" by simp
  moreover have "sz' < 2 ^ 32" "sz < 2 ^ 32" using \<open>sz' \<le> e\<close> \<open>a + sz \<le> e\<close> assms(5) by linarith+
  ultimately have "sz' = sz" by (simp add: unsigned_of_nat take_bit_nat_eq_self)
  with z(3) have "seg m' (a + sz) zs' e" by simp
  from Cons.IH [OF h(2) this] Cons.prems(3) have "\<exists>zs'. seg m' (a + sz + sizes xs) zs' e" by (simp add: x)
  then show ?case by (simp add: x add.assoc)
next
  case Nil
  then show ?case by (intro exI [of _ zs]) simp
qed

text \<open>A list of blocks cannot be read from a memory in which a header after the first blocks has no magic number.\<close>

lemma seg_broken:
  assumes "seg m HEAP_START (xs @ y # ys) HEAP_END" "\<And>x. x \<in> headers HEAP_START xs \<Longrightarrow> m' x = m x"
    "rd32 m' (HEAP_START + sizes xs + 12) \<noteq> BLOCK_MAGIC"
  shows "\<not> seg m' HEAP_START zs HEAP_END"
proof
  assume "seg m' HEAP_START zs HEAP_END"
  from seg_follow [OF assms(1) this assms(2)] obtain zs' where zs': "seg m' (HEAP_START + sizes xs) zs' HEAP_END" by auto
  moreover have "HEAP_START + sizes xs < HEAP_END"
    using seg_split [OF assms(1)] by (auto simp: hdr_def)
  ultimately show False using assms(3) by (cases zs') (auto simp: hdr_def)
qed

lemma descriptors_alloc:
  fixes s :: "'a ide_scheme"
  assumes heap: "heap_abs s bs0" "fs_region fs \<subseteq> live_bytes (live bs0)" and disk: "fs_disk fs C s"
    and n: "n \<noteq> 0" "unat n + 19 < 2 ^ 32" and al: "amalloc (request n) HEAP_START bs0 = Some (a, bs1)"
  obtains s1 where "kmalloc n s = kret (of_nat (a + 16), s1)" "heap_abs s1 bs1" "kept (live bs0) (mem s) (mem s1)" "fs_disk fs C s1"
    "fs_same fs (mem s) (mem s1)" "live_bytes (live bs0) \<inter> headers HEAP_START bs1 = {}"
proof -
  from kmalloc_step [OF heap(1) n] al obtain m1 where m1: "kmalloc n s = kret (of_nat (a + 16), s\<lparr>mem := m1,
        total_allocated := total_allocated s + ((n + 3) AND NOT 3), num_allocations := num_allocations s + 1\<rparr>)"
      "heap_abs (s\<lparr>mem := m1\<rparr>) bs1" "kept (live bs0) (mem s) m1"
    by (auto simp: kept_def)
  have same: "fs_same fs (mem s) m1" by (rule kept_fs_same [OF m1(3) heap(2)])
  obtain len where "live bs1 = insert (a + 16, len) (live bs0)" by (rule live_amalloc [OF heap(1) al])
  then have "live_bytes (live bs0) \<inter> headers HEAP_START bs1 = {}"
    using kfree_live_bytes [OF m1(2)] by (auto simp: live_bytes_insert)
  moreover have "fs_disk fs C (s\<lparr>mem := m1, total_allocated := total_allocated s + ((n + 3) AND NOT 3),
      num_allocations := num_allocations s + 1\<rparr>)"
    by (rule fs_disk_same [of fs s]) (use same disk in simp_all)
  ultimately show thesis using m1 same by (intro that [OF m1(1)]) (simp_all add: heap_abs_def)
qed

lemma descriptors_one_block:
  fixes n bs :: nat
  assumes "0 < n" "n \<le> bs"
  shows "(n + bs - 1) div bs = 1"
proof -
  have e: "n + bs - 1 = (n - 1) + bs" "(n - 1) div bs = 0" "bs \<noteq> 0" using assms by simp_all
  show ?thesis unfolding e(1) div_add_self2 [OF e(3)] e(2) by simp
qed

text \<open>What \<open>ext2_read_group_descriptors\<close> does after a successful allocation when one block is enough.\<close>

lemma descriptors_read:
  fixes s s1 :: "'a ide_scheme"
  assumes km: "kmalloc n s = kret (p, s1)" "p \<noteq> 0" "fs_disk fs C s1" "fs_same fs (mem s) (mem s1)"
    and n: "n = fs_groups_count fs (mem s) * 32" "0 < unat n" "unat n \<le> unat (fs_block_size fs (mem s))"
    and b: "b = (if s_first_data_block fs (mem s) = 0 then 2 else 1)" "fs_block_ok fs (mem s) b"
  shows "\<exists>es. ext2_read_group_descriptors fs s = kret (0, s1\<lparr>hw := (hw s1)\<lparr>hist := es\<rparr>,
    mem := store_struct (wr32 (mem s1) (unat fs + 436) p) (unat p)
      (\<lambda>i. fs_byte C fs (mem s) (unat b * unat (fs_block_size fs (mem s)) + i)) (unat (fs_block_size fs (mem s)))\<rparr>)"
proof -
  let ?bs = "fs_block_size fs (mem s)"
  have bs: "unat ?bs \<le> 130560" "?bs \<noteq> 0" using b(2) by (auto simp: fs_block_ok_def)
  have blocks: "unat ((n + ?bs - 1) div ?bs) = 1"
    using n(2,3) bs descriptors_one_block [OF n(2,3)] by (simp add: unat_div unat_sub_u32 unat_add_u32)
  define m2 where "m2 = wr32 (mem s1) (unat fs + 436) p"
  have f: "fs_block_size fs m2 = ?bs" "fs_channel fs m2 = fs_channel fs (mem s)" "fs_drive fs m2 = fs_drive fs (mem s)"
    using fs_same_fields [OF km(4)]
    by (simp_all add: m2_def fs_block_size_def fs_channel_def fs_drive_def rd32_wr32_other)
  have disk2: "fs_disk fs C (s1\<lparr>mem := m2\<rparr>)"
    using km(3) fs_same_fields [OF km(4)] by (simp add: fs_disk_def ide_ready_def f)
  have "fs_block_ok fs m2 b" using b(2) by (simp add: fs_block_ok_def f)
  then have "\<exists>es. ext2_read_block fs b p (s1\<lparr>mem := m2\<rparr>) = (0, s1\<lparr>hw := (hw s1)\<lparr>hist := es\<rparr>,
      mem := store_struct m2 (unat p) (\<lambda>i. fs_byte C fs (mem s) (unat b * unat ?bs + i)) (unat ?bs)\<rparr>)"
    using ext2_read_block_bytes [OF disk2, of b p] by (simp add: f fs_byte_def)
  then obtain es where "ext2_read_block fs b p (s1\<lparr>mem := m2\<rparr>) = (0, s1\<lparr>hw := (hw s1)\<lparr>hist := es\<rparr>,
      mem := store_struct m2 (unat p) (\<lambda>i. fs_byte C fs (mem s) (unat b * unat ?bs + i)) (unat ?bs)\<rparr>)" ..
  then show ?thesis
    using km(2) bs(2) blocks b(1)
    by (intro exI [of _ es]) (simp add: ext2_read_group_descriptors_def udiv_def Let_def km(1) flip: n(1) m2_def)
qed

text \<open>
  C32. The group descriptors overrun their buffer. When the descriptors take less than a block,
  \<open>ext2_read_group_descriptors\<close> allocates 32 bytes for each group, but reads the whole descriptor block
  there. It returns 0, and the bytes of the disk have replaced the header of the next block of the heap:
  unless they happen to contain the magic number of a heap block at that place, the memory does not
  represent a heap any more. The block it reads is the second one if blocks have 1024 bytes, which is
  that of the superblock.
\<close>

theorem group_descriptors_overrun:
  assumes disk: "fs_disk fs C s" and heap: "heap_abs s bs0" "fs_region fs \<subseteq> live_bytes (live bs0)"
    and n: "n = fs_groups_count fs (mem s) * 32" "n \<noteq> 0" "unat (fs_groups_count fs (mem s)) * 32 \<le> unat (fs_block_size fs (mem s))"
    and b: "b = (if s_first_data_block fs (mem s) = 0 then 2 else 1)" "fs_block_ok fs (mem s) b"
    and al: "amalloc (request n) HEAP_START bs0 = Some (HEAP_START + sizes xs, xs @ (sz, False) # y # ys)"
    and sz: "sz \<le> unat (fs_block_size fs (mem s))"
    and magic: "rd32 (fs_byte C fs (mem s)) (unat b * unat (fs_block_size fs (mem s)) + (sz - 4)) \<noteq> BLOCK_MAGIC"
  shows "\<exists>s'. ext2_read_group_descriptors fs s = kret (0, s') \<and> (\<forall>L. \<not> heap_rep s' L)"
proof -
  let ?bs = "unat (fs_block_size fs (mem s))"
  define p where "p = HEAP_START + sizes xs + 16"
  have bs: "?bs \<le> 130560" using b(2) by (auto simp: fs_block_ok_def)
  have un: "unat n = unat (fs_groups_count fs (mem s)) * 32"
    using n(1,3) bs by (simp add: unat_word_ariths)
  have n0: "0 < unat n" "unat n \<le> ?bs" using n(2,3) unfolding un [symmetric] by (simp_all add: unat_gt_0)
  have "unat n + 19 < 2 ^ 32" using n0 bs by simp
  from descriptors_alloc [OF heap disk n(2) this al] obtain s1 where km: "kmalloc n s = kret (of_nat p, s1)"
      "heap_abs s1 (xs @ (sz, False) # y # ys)" "fs_disk fs C s1" "fs_same fs (mem s) (mem s1)"
      "live_bytes (live bs0) \<inter> headers HEAP_START (xs @ (sz, False) # y # ys) = {}" by (auto simp: p_def)
  note seg = heap_absD(3) [OF km(2)]
  have sz16: "16 \<le> sz" "p + sz \<le> HEAP_END + 16" using seg_split [OF seg] by (auto simp: hdr_def p_def)
  then have p: "unat (of_nat p :: u32) = p" by (simp add: unsigned_of_nat take_bit_nat_eq_self)
  then have p0: "(of_nat p :: u32) \<noteq> 0" by (metis add_is_0 p_def unsigned_0 zero_neq_numeral)
  define blk where "blk = (\<lambda>i. fs_byte C fs (mem s) (unat b * ?bs + i))"
  define m3 where "m3 = store_struct (wr32 (mem s1) (unat fs + 436) (of_nat p)) p blk ?bs"
  from descriptors_read [OF km(1) p0 km(3,4) n(1) n0 b] obtain es where
    run: "ext2_read_group_descriptors fs s = kret (0, s1\<lparr>hw := (hw s1)\<lparr>hist := es\<rparr>, mem := m3\<rparr>)"
    unfolding p m3_def blk_def by blast
  have "m3 x = mem s1 x" if x: "x \<in> headers HEAP_START (xs @ [(sz, False)])" for x
  proof -
    have "x \<in> headers HEAP_START xs \<Longrightarrow> x < HEAP_START + sizes xs"
      by (erule headers_bound) (rule seg_sizes [OF seg], simp)
    with x have "x < p" by (auto simp: headers_append p_def)
    moreover have "x \<notin> live_bytes (live bs0)" using x km(5) by (auto simp: headers_append)
    then have "x \<notin> {unat fs + 436 ..< unat fs + 440}" using subsetD [OF heap(2), of x] by (auto simp: fs_region_def)
    ultimately show ?thesis by (auto simp: m3_def store_struct_def wr32_other)
  qed
  moreover have "HEAP_START + sizes (xs @ [(sz, False)]) + 12 = p + (sz - 4)" using sz16(1) by (simp add: p_def)
  moreover have "rd32 m3 (p + (sz - 4)) = rd32 blk (sz - 4)"
    unfolding m3_def using sz sz16(1) by (intro rd32_store_struct) simp
  moreover have "rd32 blk (sz - 4) \<noteq> BLOCK_MAGIC" using magic by (simp add: blk_def rd32_def add.assoc)
  ultimately have "\<not> seg m3 HEAP_START zs HEAP_END" for zs
    using seg_broken [of "mem s1" "xs @ [(sz, False)]" y ys m3] seg by auto
  then show ?thesis unfolding run by (simp add: heap_rep_def heap_abs_def)
qed

text \<open>One group and blocks of 1024 bytes, on a heap that holds the file system structure only.\<close>

theorem group_descriptors_overrun_witness:
  "\<exists>(s :: ide) s'. heap_rep s {(0x500010, 444)} \<and> ext2_read_group_descriptors 0x500010 s = kret (0, s')
     \<and> (\<forall>L. \<not> heap_rep s' L)"
proof -
  obtain s :: ide and m where s: "ext2_ok 0x500010 disk_content s {(0x500010, 444)}" "mem s = fs_example_mem m"
    "heap_abs s [(460, False), (0x100000 - 460, True)]" by (rule fs_example)
  note f = fs_example_fields [of m]
  have ok: "heap_rep s {(0x500010, 444)}" "fs_disk 0x500010 disk_content s" using s(1) by (simp_all add: ext2_ok_def)
  have reg: "fs_region 0x500010 \<subseteq> live_bytes (live [(460, False), (0x100000 - 460, True)])"
    using s(1) by (simp add: ext2_ok_def)
  have b: "fs_block_ok 0x500010 (mem s) 1" unfolding fs_block_ok_def s(2) f by (intro exI [of _ 2]) simp
  have al: "amalloc (request 32) HEAP_START [(460, False), (0x100000 - 460, True)] =
      Some (HEAP_START + sizes [(460, False)], [(460, False)] @ (48, False) # (0x100000 - 508, True) # [])"
    by (simp add: request_def)
  have "rd32 (fs_byte disk_content 0x500010 (mem s)) (unat (1 :: u32) * unat (fs_block_size 0x500010 (mem s)) + (48 - 4)) \<noteq> BLOCK_MAGIC"
    by (simp add: s(2) f fs_byte_def rd32_def disk_byte_def disk_content_def)
  from group_descriptors_overrun [OF ok(2) s(3) reg _ _ _ _ b al _ this] ok(1) show ?thesis
    by (auto simp: s(2) f)
qed

end
