(* ===== verification/KFS_Vfs.thy ===== *)
theory KFS_Vfs
  imports KFS_Ext2_Dirs
begin

text \<open>
  The virtual file system (\<open>src/vfs.c\<close>, \<open>include/vfs.h\<close>): file nodes with their operations, the ext2 and
  the virtual (in-memory) nodes, mounting, path resolution and the initial tree. Nodes live on the
  kernel heap and are read and written there at the offsets of \<open>vfs_node_t\<close>, function pointers included;
  the addresses of the functions in the kernel image and those of the local buffers are constants of the
  state. A call through a pointer to no known function is undefined (\<open>None\<close>). The correctness lemmas are
  in \<open>KFS_Vfs_Paths\<close>, \<open>KFS_Vfs_Nodes\<close> and \<open>KFS_Vfs_Init\<close>.
\<close>

section \<open>Nodes\<close>

abbreviation (input) VFS_FILE_TYPE_UNKNOWN :: u32 where "VFS_FILE_TYPE_UNKNOWN \<equiv> 0"
abbreviation (input) VFS_FILE_TYPE_REGULAR :: u32 where "VFS_FILE_TYPE_REGULAR \<equiv> 1"
abbreviation (input) VFS_FILE_TYPE_DIRECTORY :: u32 where "VFS_FILE_TYPE_DIRECTORY \<equiv> 2"
abbreviation (input) VFS_FILE_TYPE_CHARDEV :: u32 where "VFS_FILE_TYPE_CHARDEV \<equiv> 3"
abbreviation (input) VFS_FILE_TYPE_BLOCKDEV :: u32 where "VFS_FILE_TYPE_BLOCKDEV \<equiv> 4"
abbreviation (input) VFS_FILE_TYPE_FIFO :: u32 where "VFS_FILE_TYPE_FIFO \<equiv> 5"
abbreviation (input) VFS_FILE_TYPE_SOCKET :: u32 where "VFS_FILE_TYPE_SOCKET \<equiv> 6"
abbreviation (input) VFS_FILE_TYPE_SYMLINK :: u32 where "VFS_FILE_TYPE_SYMLINK \<equiv> 7"

text \<open>The fields of \<open>vfs_node_t\<close>; the name is at offset 0 and takes 256 bytes.\<close>

abbreviation (input) VFS_NODE_SIZE :: u32 where "VFS_NODE_SIZE \<equiv> 456"

definition node_size :: "memory \<Rightarrow> u32 \<Rightarrow> u32" where "node_size m p = rd32 m (unat p + 256)"
definition node_type :: "memory \<Rightarrow> u32 \<Rightarrow> u32" where "node_type m p = rd32 m (unat p + 260)"
definition node_inode :: "memory \<Rightarrow> u32 \<Rightarrow> u32" where "node_inode m p = rd32 m (unat p + 264)"
definition node_children :: "memory \<Rightarrow> u32 \<Rightarrow> u32" where "node_children m p = rd32 m (unat p + 280)"
definition node_next_sibling :: "memory \<Rightarrow> u32 \<Rightarrow> u32" where "node_next_sibling m p = rd32 m (unat p + 284)"
definition node_fs :: "memory \<Rightarrow> u32 \<Rightarrow> u32" where "node_fs m p = rd32 m (unat p + 300)"
definition node_ext2_inode :: "memory \<Rightarrow> u32 \<Rightarrow> ext2_inode" where "node_ext2_inode m p = load_struct m (unat p + 304)"
definition node_open :: "memory \<Rightarrow> u32 \<Rightarrow> u32" where "node_open m p = rd32 m (unat p + 432)"
definition node_close :: "memory \<Rightarrow> u32 \<Rightarrow> u32" where "node_close m p = rd32 m (unat p + 436)"
definition node_read :: "memory \<Rightarrow> u32 \<Rightarrow> u32" where "node_read m p = rd32 m (unat p + 440)"
definition node_write :: "memory \<Rightarrow> u32 \<Rightarrow> u32" where "node_write m p = rd32 m (unat p + 444)"
definition node_readdir :: "memory \<Rightarrow> u32 \<Rightarrow> u32" where "node_readdir m p = rd32 m (unat p + 448)"
definition node_finddir :: "memory \<Rightarrow> u32 \<Rightarrow> u32" where "node_finddir m p = rd32 m (unat p + 452)"

text \<open>Assignments to fields, in order.\<close>

definition wr_fields :: "memory \<Rightarrow> u32 \<Rightarrow> (nat \<times> u32) list \<Rightarrow> memory" where
  "wr_fields m p fs = fold (\<lambda>(off, v) m. wr32 m (unat p + off) v) fs m"

section \<open>State\<close>

text \<open>The functions whose addresses are stored in nodes.\<close>

datatype vfs_fn = Ext2_read | Ext2_write | Ext2_readdir | Ext2_finddir | Virtual_read | Virtual_readdir | Virtual_finddir

record vfs_mount =
  mount_path :: "u8 list"
  mount_node :: u32
  mount_fs :: u32

record vfs = ide +
  vfs_root :: u32
  mounts :: "vfs_mount list"
  mount_count :: u32
  fn_addr :: "vfs_fn \<Rightarrow> u32"
  name_buffer :: nat
  path_copy :: nat

definition vfs_mount_zero :: vfs_mount where
  "vfs_mount_zero = \<lparr>mount_path = replicate 256 0, mount_node = 0, mount_fs = 0\<rparr>"

definition vfs_boot :: "(vfs_fn \<Rightarrow> u32) \<Rightarrow> nat \<Rightarrow> nat \<Rightarrow> ide \<Rightarrow> vfs" where
  "vfs_boot addrs name_buf path_buf s =
     ide.extend s (vfs.fields 0 (replicate 16 vfs_mount_zero) 0 addrs name_buf path_buf)"

text \<open>A string argument: a pointer, or a literal of the source.\<close>

datatype str_arg = Ptr nat | Lit string

definition lit_bytes :: "string \<Rightarrow> u8 list" where
  "lit_bytes t = map (\<lambda>c. of_nat (of_char c)) t"

definition strncpy_arg :: "memory \<Rightarrow> nat \<Rightarrow> str_arg \<Rightarrow> nat \<Rightarrow> memory" where
  "strncpy_arg m dest a n = (case a of Ptr p \<Rightarrow> strncpy m dest p n
     | Lit t \<Rightarrow> store_struct m dest (\<lambda>i. if i < length t then lit_bytes t ! i else 0) n)"

section \<open>Nodes of an ext2 file system\<close>

definition ext2_to_vfs_type :: "u16 \<Rightarrow> u32" where
  "ext2_to_vfs_type mode =
     (let t = mode AND 0xF000 in
      if t = 0x8000 then VFS_FILE_TYPE_REGULAR
      else if t = EXT2_S_IFDIR then VFS_FILE_TYPE_DIRECTORY
      else if t = 0x2000 then VFS_FILE_TYPE_CHARDEV
      else if t = 0x6000 then VFS_FILE_TYPE_BLOCKDEV
      else if t = 0x1000 then VFS_FILE_TYPE_FIFO
      else if t = 0xC000 then VFS_FILE_TYPE_SOCKET
      else if t = 0xA000 then VFS_FILE_TYPE_SYMLINK
      else VFS_FILE_TYPE_UNKNOWN)"

definition vfs_create_node_from_ext2 :: "u32 \<Rightarrow> u32 \<Rightarrow> str_arg \<Rightarrow> 'a vfs_scheme \<Rightarrow> (u32 \<times> 'a vfs_scheme) kresult" where
  "vfs_create_node_from_ext2 fs inode_num name s =
     kbind (ext2_read_inode fs inode_num (\<lambda>_. 0) s) (\<lambda>(r, inode, s1).
       if r \<noteq> 0 then kret (0, s1)
       else kbind (kmalloc VFS_NODE_SIZE s1) (\<lambda>(node, s2).
         if node = 0 then kret (0, s2)
         else
           let m1 = memset (mem s2) (unat node) 0 456;
               m2 = wr8 (strncpy_arg m1 (unat node) name 255) (unat node + 255) 0;
               t = ext2_to_vfs_type (i_mode inode);
               m3 = wr_fields m2 node [(264, inode_num), (256, i_size inode), (260, t), (268, ucast (i_links_count inode)),
                      (288, ucast (i_uid inode)), (292, ucast (i_gid inode))];
               m4 = wr16 m3 (unat node + 296) (i_mode inode AND 0xFFF);
               m5 = store_struct (wr_fields m4 node [(300, fs)]) (unat node + 304) inode EXT2_INODE_SIZE;
               m6 = wr_fields m5 node [(440, fn_addr s2 Ext2_read), (444, fn_addr s2 Ext2_write)];
               m7 = (if t = VFS_FILE_TYPE_DIRECTORY
                     then wr_fields m6 node [(448, fn_addr s2 Ext2_readdir), (452, fn_addr s2 Ext2_finddir)] else m6)
           in kret (node, s2\<lparr>mem := m7\<rparr>)))"

definition vfs_ext2_read :: "u32 \<Rightarrow> u32 \<Rightarrow> u32 \<Rightarrow> u32 \<Rightarrow> 'a vfs_scheme \<Rightarrow> (int \<times> 'a vfs_scheme) kresult" where
  "vfs_ext2_read node offset sz buffer s =
     (if node = 0 \<or> node_fs (mem s) node = 0 then kret (-1, s)
      else ext2_read_inode_data (node_fs (mem s) node) (node_ext2_inode (mem s) node) offset sz buffer s)"

definition vfs_ext2_write :: "u32 \<Rightarrow> u32 \<Rightarrow> u32 \<Rightarrow> u32 \<Rightarrow> 'a vfs_scheme \<Rightarrow> (int \<times> 'a vfs_scheme) kresult" where
  "vfs_ext2_write node offset sz buffer s = kret (-1, s)"

text \<open>The name of an entry in a local buffer.\<close>

definition entry_to_name :: "memory \<Rightarrow> nat \<Rightarrow> nat \<Rightarrow> memory" where
  "entry_to_name m name_buf dentry =
     (let name_len = (if entry_name_len m dentry < 255 then unat (entry_name_len m dentry) else 255)
      in wr8 (memcpy m name_buf (entry_name dentry) name_len) (name_buf + name_len) 0)"

text \<open>The context of \<open>readdir_callback\<close> is the current index and the entry found, 0 for none.\<close>

definition readdir_callback :: "u32 \<Rightarrow> memory \<Rightarrow> nat \<Rightarrow> u32 \<times> nat \<Rightarrow> u32 \<times> nat" where
  "readdir_callback index m dentry = (\<lambda>(current, result). (current + 1, if current = index then dentry else result))"

definition vfs_ext2_readdir :: "u32 \<Rightarrow> u32 \<Rightarrow> 'a vfs_scheme \<Rightarrow> (u32 \<times> 'a vfs_scheme) kresult" where
  "vfs_ext2_readdir node index s =
     (if node = 0 \<or> node_fs (mem s) node = 0 then kret (0, s)
      else if node_type (mem s) node \<noteq> VFS_FILE_TYPE_DIRECTORY then kret (0, s)
      else kbind (ext2_read_dir (node_fs (mem s) node) (node_inode (mem s) node) (readdir_callback index) (0, 0) s)
        (\<lambda>(r, (current, result), s1).
          if result = 0 then kret (0, s1)
          else
            let s2 = s1\<lparr>mem := entry_to_name (mem s1) (name_buffer s1) result\<rparr>
            in vfs_create_node_from_ext2 (node_fs (mem s2) node) (entry_inode (mem s2) result) (Ptr (name_buffer s2)) s2))"

text \<open>The context of \<open>finddir_callback\<close> is the inode number and whether it has been found; \<open>None\<close> after a
  comparison that does not end.\<close>

definition finddir_callback :: "nat \<Rightarrow> nat \<Rightarrow> memory \<Rightarrow> nat \<Rightarrow> (u32 \<times> bool) option \<Rightarrow> (u32 \<times> bool) option" where
  "finddir_callback name_buf name m dentry ctx =
     Option.bind ctx (\<lambda>(ino, found).
       if found then Some (ino, found)
       else
         let m' = entry_to_name m name_buf dentry
         in map_option (\<lambda>d. if d = 0 then (entry_inode m' dentry, True) else (ino, False)) (strcmp m' name_buf name))"

definition vfs_ext2_finddir :: "u32 \<Rightarrow> nat \<Rightarrow> 'a vfs_scheme \<Rightarrow> (u32 \<times> 'a vfs_scheme) kresult" where
  "vfs_ext2_finddir node name s =
     (if node = 0 \<or> node_fs (mem s) node = 0 \<or> name = 0 then kret (0, s)
      else if node_type (mem s) node \<noteq> VFS_FILE_TYPE_DIRECTORY then kret (0, s)
      else kbind (ext2_read_dir (node_fs (mem s) node) (node_inode (mem s) node)
                    (finddir_callback (name_buffer s) name) (Some (0, False)) s)
        (\<lambda>(r, ctx, s1). kbind (klift ctx) (\<lambda>(ino, found).
          if found then vfs_create_node_from_ext2 (node_fs (mem s1) node) ino (Ptr name) s1 else kret (0, s1))))"

section \<open>Virtual nodes\<close>

definition vfs_create_virtual_dir :: "string \<Rightarrow> 'a vfs_scheme \<Rightarrow> (u32 \<times> 'a vfs_scheme) kresult" where
  "vfs_create_virtual_dir name s =
     kbind (kmalloc VFS_NODE_SIZE s) (\<lambda>(node, s1).
       if node = 0 then kret (0, s1)
       else
         let m1 = memset (mem s1) (unat node) 0 456;
             m2 = wr8 (strncpy_arg m1 (unat node) (Lit name) 255) (unat node + 255) 0;
             m3 = wr_fields m2 node [(260, VFS_FILE_TYPE_DIRECTORY), (256, 0), (264, 0), (288, 0), (292, 0)];
             m4 = wr16 m3 (unat node + 296) 493
         in kret (node, s1\<lparr>mem := m4\<rparr>))"

text \<open>\<open>virtual_file_data_t\<close>: the address of the contents, then the size. The inode field of the node points to it.\<close>

definition data_content :: "memory \<Rightarrow> u32 \<Rightarrow> u32" where "data_content m p = rd32 m (unat p)"
definition data_size :: "memory \<Rightarrow> u32 \<Rightarrow> u32" where "data_size m p = rd32 m (unat p + 4)"

definition vfs_virtual_read :: "u32 \<Rightarrow> u32 \<Rightarrow> u32 \<Rightarrow> u32 \<Rightarrow> 'a vfs_scheme \<Rightarrow> (int \<times> 'a vfs_scheme) kresult" where
  "vfs_virtual_read node offset sz buffer s =
     (if node = 0 \<or> buffer = 0 then kret (-1, s)
      else
        let m = mem s; data = node_inode m node in
        if data = 0 \<or> data_content m data = 0 then kret (0, s)
        else if data_size m data \<le> offset then kret (0, s)
        else
          let to_read = (if data_size m data < offset + sz then data_size m data - offset else sz)
          in kret (sint to_read, s\<lparr>mem := memcpy m (unat buffer) (unat (data_content m data + offset)) (unat to_read)\<rparr>))"

text \<open>The part of \<open>vfs_create_virtual_file\<close> that stores the contents.\<close>

definition store_content :: "u32 \<Rightarrow> string \<Rightarrow> 'a vfs_scheme \<Rightarrow> 'a vfs_scheme kresult" where
  "store_content node content s =
     kbind (kmalloc 8 s) (\<lambda>(data, s1).
       if data = 0 then kret s1
       else
         let n = of_nat (length content) :: u32; s2 = s1\<lparr>mem := wr_fields (mem s1) data [(4, n)]\<rparr>
         in kbind (kmalloc (n + 1) s2) (\<lambda>(p, s3).
              let s4 = s3\<lparr>mem := wr_fields (mem s3) data [(0, p)]\<rparr> in
              if p \<noteq> 0 then
                let m5 = store_struct (mem s4) (unat p) (\<lambda>i. if i < length content then lit_bytes content ! i else 0)
                           (length content + 1);
                    m6 = wr_fields m5 node [(256, data_size m5 data), (264, data), (440, fn_addr s4 Virtual_read)]
                in kret (s4\<lparr>mem := m6\<rparr>)
              else kfree data s4))"

definition vfs_create_virtual_file :: "string \<Rightarrow> string option \<Rightarrow> 'a vfs_scheme \<Rightarrow> (u32 \<times> 'a vfs_scheme) kresult" where
  "vfs_create_virtual_file name content s =
     kbind (kmalloc VFS_NODE_SIZE s) (\<lambda>(node, s1).
       if node = 0 then kret (0, s1)
       else
         let m1 = memset (mem s1) (unat node) 0 456;
             m2 = wr8 (strncpy_arg m1 (unat node) (Lit name) 255) (unat node + 255) 0;
             m3 = wr_fields m2 node [(260, VFS_FILE_TYPE_REGULAR), (288, 0), (292, 0)];
             m4 = wr16 m3 (unat node + 296) 420
         in case content of
              Some c \<Rightarrow> kbind (store_content node c (s1\<lparr>mem := m4\<rparr>)) (\<lambda>s2. kret (node, s2))
            | None \<Rightarrow> kret (node, s1\<lparr>mem := wr_fields m4 node [(256, 0)]\<rparr>))"

partial_function (option) readdir_loop :: "memory \<Rightarrow> u32 \<Rightarrow> u32 \<Rightarrow> u32 \<Rightarrow> u32 option" where
  "readdir_loop m index current child =
     (if child = 0 then Some 0
      else if current = index then Some child
      else readdir_loop m index (current + 1) (node_next_sibling m child))"

definition vfs_virtual_readdir :: "u32 \<Rightarrow> u32 \<Rightarrow> 'a vfs_scheme \<Rightarrow> (u32 \<times> 'a vfs_scheme) kresult" where
  "vfs_virtual_readdir node index s =
     (if node = 0 \<or> node_type (mem s) node \<noteq> VFS_FILE_TYPE_DIRECTORY then kret (0, s)
      else kbind (klift (readdir_loop (mem s) index 0 (node_children (mem s) node))) (\<lambda>child.
        if child = 0 then kret (0, s)
        else kbind (kmalloc VFS_NODE_SIZE s) (\<lambda>(copy, s1).
          if copy = 0 then kret (0, s1)
          else kret (copy, s1\<lparr>mem := memcpy (mem s1) (unat copy) (unat child) 456\<rparr>))))"

partial_function (option) finddir_loop :: "memory \<Rightarrow> nat \<Rightarrow> u32 \<Rightarrow> u32 option" where
  "finddir_loop m name child =
     (if child = 0 then Some 0
      else Option.bind (strcmp m (unat child) name) (\<lambda>d.
        if d = 0 then Some child else finddir_loop m name (node_next_sibling m child)))"

definition vfs_virtual_finddir :: "u32 \<Rightarrow> nat \<Rightarrow> 'a vfs_scheme \<Rightarrow> (u32 \<times> 'a vfs_scheme) kresult" where
  "vfs_virtual_finddir node name s =
     (if node = 0 \<or> name = 0 \<or> node_type (mem s) node \<noteq> VFS_FILE_TYPE_DIRECTORY then kret (0, s)
      else kbind (klift (finddir_loop (mem s) name (node_children (mem s) node))) (\<lambda>child. kret (child, s)))"

section \<open>Operations through the function pointers of a node\<close>

definition call_read :: "u32 \<Rightarrow> u32 \<Rightarrow> u32 \<Rightarrow> u32 \<Rightarrow> 'a vfs_scheme \<Rightarrow> (int \<times> 'a vfs_scheme) kresult" where
  "call_read node offset sz buffer s =
     (let f = node_read (mem s) node in
      if f = fn_addr s Ext2_read then vfs_ext2_read node offset sz buffer s
      else if f = fn_addr s Virtual_read then vfs_virtual_read node offset sz buffer s
      else None)"

definition call_write :: "u32 \<Rightarrow> u32 \<Rightarrow> u32 \<Rightarrow> u32 \<Rightarrow> 'a vfs_scheme \<Rightarrow> (int \<times> 'a vfs_scheme) kresult" where
  "call_write node offset sz buffer s =
     (if node_write (mem s) node = fn_addr s Ext2_write then vfs_ext2_write node offset sz buffer s else None)"

definition call_readdir :: "u32 \<Rightarrow> u32 \<Rightarrow> 'a vfs_scheme \<Rightarrow> (u32 \<times> 'a vfs_scheme) kresult" where
  "call_readdir node index s =
     (let f = node_readdir (mem s) node in
      if f = fn_addr s Ext2_readdir then vfs_ext2_readdir node index s
      else if f = fn_addr s Virtual_readdir then vfs_virtual_readdir node index s
      else None)"

definition call_finddir :: "u32 \<Rightarrow> nat \<Rightarrow> 'a vfs_scheme \<Rightarrow> (u32 \<times> 'a vfs_scheme) kresult" where
  "call_finddir node name s =
     (let f = node_finddir (mem s) node in
      if f = fn_addr s Ext2_finddir then vfs_ext2_finddir node name s
      else if f = fn_addr s Virtual_finddir then vfs_virtual_finddir node name s
      else None)"

text \<open>No code of the kernel stores a pointer in the fields \<open>open\<close> and \<open>close\<close>.\<close>

definition vfs_open :: "u32 \<Rightarrow> u32 \<Rightarrow> 'a vfs_scheme \<Rightarrow> (int \<times> 'a vfs_scheme) kresult" where
  "vfs_open node flags s =
     (if node = 0 then kret (-1, s) else if node_open (mem s) node \<noteq> 0 then None else kret (0, s))"

definition vfs_close :: "u32 \<Rightarrow> 'a vfs_scheme \<Rightarrow> 'a vfs_scheme kresult" where
  "vfs_close node s = (if node = 0 then kret s else if node_close (mem s) node \<noteq> 0 then None else kret s)"

definition vfs_read :: "u32 \<Rightarrow> u32 \<Rightarrow> u32 \<Rightarrow> u32 \<Rightarrow> 'a vfs_scheme \<Rightarrow> (int \<times> 'a vfs_scheme) kresult" where
  "vfs_read node offset sz buffer s =
     (if node = 0 \<or> buffer = 0 then kret (-1, s)
      else if node_read (mem s) node \<noteq> 0 then call_read node offset sz buffer s
      else kret (-1, s))"

definition vfs_write :: "u32 \<Rightarrow> u32 \<Rightarrow> u32 \<Rightarrow> u32 \<Rightarrow> 'a vfs_scheme \<Rightarrow> (int \<times> 'a vfs_scheme) kresult" where
  "vfs_write node offset sz buffer s =
     (if node = 0 \<or> buffer = 0 then kret (-1, s)
      else if node_write (mem s) node \<noteq> 0 then call_write node offset sz buffer s
      else kret (-1, s))"

definition vfs_readdir :: "u32 \<Rightarrow> u32 \<Rightarrow> 'a vfs_scheme \<Rightarrow> (u32 \<times> 'a vfs_scheme) kresult" where
  "vfs_readdir node index s =
     (if node = 0 then kret (0, s)
      else if node_readdir (mem s) node \<noteq> 0 then call_readdir node index s
      else kret (0, s))"

definition vfs_finddir :: "u32 \<Rightarrow> nat \<Rightarrow> 'a vfs_scheme \<Rightarrow> (u32 \<times> 'a vfs_scheme) kresult" where
  "vfs_finddir node name s =
     (if node = 0 \<or> name = 0 then kret (0, s)
      else if node_finddir (mem s) node \<noteq> 0 then call_finddir node name s
      else kret (0, s))"

section \<open>Paths\<close>

text \<open>The loop over the components of the copied path.\<close>

partial_function (option) resolve_loop :: "nat \<Rightarrow> u32 \<Rightarrow> 'a vfs_scheme \<Rightarrow> (u32 \<times> 'a vfs_scheme) kresult" where
  "resolve_loop token current s =
     kbind (klift (strchr (mem s) token 47)) (\<lambda>p.
       let s1 = (if p \<noteq> 0 then s\<lparr>mem := wr8 (mem s) p 0\<rparr> else s);
           nxt = (if p \<noteq> 0 then p + 1 else 0)
       in if node_finddir (mem s1) current \<noteq> 0
          then kbind (call_finddir current token s1) (\<lambda>(child, s2).
                 if child = 0 then kret (0, s2)
                 else if nxt = 0 then kret (child, s2)
                 else resolve_loop nxt child s2)
          else kret (0, s1))"

text \<open>The comparison with the literal "/" is \<open>cstr\<close> of that string.\<close>

definition vfs_resolve_path :: "nat \<Rightarrow> 'a vfs_scheme \<Rightarrow> (u32 \<times> 'a vfs_scheme) kresult" where
  "vfs_resolve_path path s =
     (if path = 0 \<or> mem s path \<noteq> 47 then kret (0, s)
      else if vfs_root s = 0 then kret (0, s)
      else if cstr (mem s) path [47] then kret (vfs_root s, s)
      else
        let m1 = strncpy (mem s) (path_copy s) (path + 1) 255;
            m2 = wr8 m1 (path_copy s + 255) 0
        in resolve_loop (path_copy s) (vfs_root s) (s\<lparr>mem := m2\<rparr>))"

section \<open>Mounting\<close>

fun strncpy_bytes :: "memory \<Rightarrow> nat \<Rightarrow> nat \<Rightarrow> u8 list" where
  "strncpy_bytes m p 0 = []"
| "strncpy_bytes m p (Suc n) = (if m p = 0 then replicate (Suc n) 0 else m p # strncpy_bytes m (p + 1) n)"

definition vfs_mount_at :: "nat \<Rightarrow> u32 \<Rightarrow> 'a vfs_scheme \<Rightarrow> (int \<times> 'a vfs_scheme) kresult" where
  "vfs_mount_at path fs s =
     (if path = 0 \<or> fs = 0 \<or> 16 \<le> mount_count s then kret (-1, s)
      else kbind (vfs_create_node_from_ext2 fs (fs_root_inode fs (mem s)) (Lit ''/'') s) (\<lambda>(root_node, s1).
        if root_node = 0 then kret (-1, s1)
        else
          let s2 = s1\<lparr>mounts := (mounts s1)[unat (mount_count s1) := \<lparr>mount_path = strncpy_bytes (mem s1) path 255 @ [0],
                     mount_node = root_node, mount_fs = fs\<rparr>], mount_count := mount_count s1 + 1\<rparr>;
              s3 = (if cstr (mem s2) path [47] \<and> vfs_root s2 = 0 then s2\<lparr>vfs_root := root_node\<rparr> else s2)
          in kbind (klift (text_at (mem s3) path)) (\<lambda>t.
               kret (0, printk ''[VFS] Mounted filesystem at %s\<newline>'' [KStr (Some t)] s3))))"

text \<open>The first mount whose path is the given string.\<close>

definition find_mount :: "nat \<Rightarrow> 'a vfs_scheme \<Rightarrow> nat option" where
  "find_mount path s =
     find (\<lambda>i. cstr (mem s) path (takeWhile (\<lambda>c. c \<noteq> 0) (mount_path (mounts s ! i)))) [0..<unat (mount_count s)]"

definition vfs_unmount :: "nat \<Rightarrow> 'a vfs_scheme \<Rightarrow> (int \<times> 'a vfs_scheme) kresult" where
  "vfs_unmount path s =
     (if path = 0 then kret (-1, s)
      else case find_mount path s of None \<Rightarrow> kret (-1, s) | Some i \<Rightarrow>
        kbind (kfree (mount_node (mounts s ! i)) s) (\<lambda>s1.
          let n = unat (mount_count s1) - 1;
              s2 = s1\<lparr>mounts := map (\<lambda>j. mounts s1 ! (if i \<le> j \<and> j < n then j + 1 else j)) [0..<length (mounts s1)],
                     mount_count := mount_count s1 - 1\<rparr>
          in kbind (klift (text_at (mem s2) path)) (\<lambda>t.
               kret (0, printk ''[VFS] Unmounted filesystem at %s\<newline>'' [KStr (Some t)] s2))))"

definition vfs_get_root :: "'a vfs_scheme \<Rightarrow> u32" where
  "vfs_get_root s = vfs_root s"

definition vfs_get_type_name :: "u32 \<Rightarrow> string" where
  "vfs_get_type_name t =
     (if t = VFS_FILE_TYPE_REGULAR then ''file''
      else if t = VFS_FILE_TYPE_DIRECTORY then ''dir''
      else if t = VFS_FILE_TYPE_CHARDEV then ''char''
      else if t = VFS_FILE_TYPE_BLOCKDEV then ''block''
      else if t = VFS_FILE_TYPE_FIFO then ''fifo''
      else if t = VFS_FILE_TYPE_SOCKET then ''socket''
      else if t = VFS_FILE_TYPE_SYMLINK then ''symlink''
      else ''unknown'')"

text \<open>
  The recursion of \<open>vfs_print_tree\<close>: a call for a node, and the loop over the children of a node from
  index \<open>i\<close> on.
\<close>

datatype tree_call = Tree u32 nat | Children u32 nat u32

definition print_node :: "u32 \<Rightarrow> nat \<Rightarrow> 'a vfs_scheme \<Rightarrow> 'a vfs_scheme kresult" where
  "print_node node depth s =
     kbind (klift (text_at (mem s) (unat node))) (\<lambda>name.
       kret (printk ''%s (%s, %d bytes, inode %d)\<newline>'' [KStr (Some name), KStr (Some (vfs_get_type_name (node_type (mem s) node))),
         KInt (sint (node_size (mem s) node)), KInt (sint (node_inode (mem s) node))] ((printk ''  '' [] ^^ depth) s)))"

partial_function (option) tree_loop :: "tree_call \<Rightarrow> 'a vfs_scheme \<Rightarrow> 'a vfs_scheme kresult" where
  "tree_loop c s = (case c of
     Tree node depth \<Rightarrow>
       if node = 0 then kret s
       else kbind (print_node node depth s) (\<lambda>s1.
         if node_type (mem s1) node = VFS_FILE_TYPE_DIRECTORY \<and> node_readdir (mem s1) node \<noteq> 0
         then tree_loop (Children node depth 0) s1 else kret s1)
   | Children node depth i \<Rightarrow>
       kbind (call_readdir node i s) (\<lambda>(child, s1).
         if child = 0 then kret s1
         else if cstr (mem s1) (unat child) [46] \<or> cstr (mem s1) (unat child) [46, 46]
         then kbind (kfree child s1) (\<lambda>s2. tree_loop (Children node depth (i + 1)) s2)
         else kbind (tree_loop (Tree child (depth + 1)) s1) (\<lambda>s2.
                kbind (kfree child s2) (\<lambda>s3. tree_loop (Children node depth (i + 1)) s3))))"

definition vfs_print_tree :: "u32 \<Rightarrow> nat \<Rightarrow> 'a vfs_scheme \<Rightarrow> 'a vfs_scheme kresult" where
  "vfs_print_tree node depth s = tree_loop (Tree node depth) s"

section \<open>The initial tree\<close>

text \<open>Linking a new node below the root, with the message.\<close>

definition add_to_root :: "u32 \<Rightarrow> string \<Rightarrow> 'a vfs_scheme \<Rightarrow> 'a vfs_scheme" where
  "add_to_root node msg s =
     (if node \<noteq> 0 \<and> vfs_root s \<noteq> 0
      then
        let root = vfs_root s;
            m1 = wr_fields (mem s) node [(276, root)];
            m2 = wr_fields m1 node [(284, node_children m1 root)];
            m3 = wr_fields m2 root [(280, node)]
        in printk msg [] (s\<lparr>mem := m3\<rparr>)
      else s)"

definition add_dir :: "string \<Rightarrow> string \<Rightarrow> 'a vfs_scheme \<Rightarrow> 'a vfs_scheme kresult" where
  "add_dir name msg s = kbind (vfs_create_virtual_dir name s) (\<lambda>(node, s1). kret (add_to_root node msg s1))"

definition readme_text :: string where
  "readme_text = ''Welcome to KFS-6!\<newline>This is a test file.\<newline>''"

definition vfs_create_base_dirs :: "'a vfs_scheme \<Rightarrow> 'a vfs_scheme kresult" where
  "vfs_create_base_dirs s =
     kbind (if vfs_root s = 0
            then kbind (vfs_create_virtual_dir ''/'' s) (\<lambda>(node, s1).
                   kret (printk ''[VFS] Created virtual root directory\<newline>'' [] (s1\<lparr>vfs_root := node\<rparr>)))
            else kret s) (\<lambda>s1.
     kbind (add_dir ''dev'' ''[VFS] Created /dev directory\<newline>'' s1) (\<lambda>s2.
     kbind (add_dir ''tmp'' ''[VFS] Created /tmp directory\<newline>'' s2) (\<lambda>s3.
     kbind (add_dir ''home'' ''[VFS] Created /home directory\<newline>'' s3) (\<lambda>s4.
     kbind (vfs_create_virtual_file ''readme.txt'' (Some readme_text) s4) (\<lambda>(node, s5).
       kret (add_to_root node ''[VFS] Created /readme.txt test file\<newline>'' s5))))))"

text \<open>Giving a node, and all children from one on, the operations of virtual directories.\<close>

definition set_dir_ops :: "u32 \<Rightarrow> 'a vfs_scheme \<Rightarrow> 'a vfs_scheme" where
  "set_dir_ops node s =
     s\<lparr>mem := wr_fields (mem s) node [(448, fn_addr s Virtual_readdir), (452, fn_addr s Virtual_finddir)]\<rparr>"

partial_function (option) set_children_ops :: "u32 \<Rightarrow> 'a vfs_scheme \<Rightarrow> 'a vfs_scheme option" where
  "set_children_ops child s =
     (if child = 0 then Some s
      else
        let s1 = (if node_type (mem s) child = VFS_FILE_TYPE_DIRECTORY then set_dir_ops child s else s)
        in set_children_ops (node_next_sibling (mem s1) child) s1)"

definition vfs_init :: "'a vfs_scheme \<Rightarrow> 'a vfs_scheme kresult" where
  "vfs_init s =
     (let s1 = printk ''[VFS] Initializing Virtual File System...\<newline>'' [] s;
          s2 = s1\<lparr>vfs_root := 0, mounts := replicate 16 vfs_mount_zero, mount_count := 0\<rparr>
      in kbind (vfs_create_base_dirs s2) (\<lambda>s3.
         kbind (if vfs_root s3 \<noteq> 0
                then let s4 = set_dir_ops (vfs_root s3) s3
                     in klift (set_children_ops (node_children (mem s4) (vfs_root s4)) s4)
                else kret s3) (\<lambda>s5.
           kret (printk ''[VFS] VFS initialized with virtual filesystem\<newline>'' [] s5))))"

end
