(* ===== verification/KFS_Vfs_Paths.thy ===== *)
theory KFS_Vfs_Paths
  imports KFS_Vfs
begin

text \<open>
  Path resolution in the virtual file system: trees of virtual nodes in memory, the search for a child,
  and the refinement of \<open>vfs_resolve_path\<close>, which cuts a copy of the path in place, to splitting the path
  at its slashes and walking down the tree.
\<close>

section \<open>Splitting a path\<close>

fun split_slash :: "u8 list \<Rightarrow> u8 list list" where
  "split_slash [] = [[]]"
| "split_slash (c # cs) = (if c = 47 then [] # split_slash cs
     else case split_slash cs of [] \<Rightarrow> [] | x # xs \<Rightarrow> (c # x) # xs)"

lemma split_slash_neq_Nil [simp]: "split_slash t \<noteq> []"
  by (induction t) (auto split: list.split)

lemma split_slash_step:
  "split_slash t = takeWhile (\<lambda>c. c \<noteq> 47) t # (if 47 \<in> set t then split_slash (drop (Suc (length (takeWhile (\<lambda>c. c \<noteq> 47) t))) t) else [])"
  by (induction t) (auto split: list.split)

section \<open>Trees of virtual nodes\<close>

datatype vtree = VDir u32 "u8 list" "vtree list" | VFile u32 "u8 list"

fun tptr :: "vtree \<Rightarrow> u32" where
  "tptr (VDir p nm ts) = p" | "tptr (VFile p nm) = p"

fun tname :: "vtree \<Rightarrow> u8 list" where
  "tname (VDir p nm ts) = nm" | "tname (VFile p nm) = nm"

text \<open>Walking down a tree along a list of names.\<close>

fun lookup_path :: "vtree \<Rightarrow> u8 list list \<Rightarrow> vtree option" where
  "lookup_path t [] = Some t"
| "lookup_path (VFile p nm) (c # cs) = None"
| "lookup_path (VDir p nm ts) (c # cs) = (case find (\<lambda>t. tname t = c) ts of None \<Rightarrow> None | Some t \<Rightarrow> lookup_path t cs)"

text \<open>The tree in memory; \<open>f\<close> is the address of \<open>vfs_virtual_finddir\<close>. And the bytes it occupies.\<close>

fun tree_at :: "memory \<Rightarrow> u32 \<Rightarrow> vtree \<Rightarrow> bool" where
  "tree_at m f (VFile p nm) \<longleftrightarrow> p \<noteq> 0 \<and> length nm \<le> 255 \<and> cstr m (unat p) nm \<and> node_finddir m p = 0"
| "tree_at m f (VDir p nm ts) \<longleftrightarrow> p \<noteq> 0 \<and> length nm \<le> 255 \<and> cstr m (unat p) nm \<and> node_finddir m p = f
     \<and> node_type m p = VFS_FILE_TYPE_DIRECTORY \<and> chain m 284 (node_children m p) (map tptr ts) \<and> (\<forall>t \<in> set ts. tree_at m f t)"

fun footprint :: "vtree \<Rightarrow> nat set" where
  "footprint (VFile p nm) = {unat p ..< unat p + 456}"
| "footprint (VDir p nm ts) = {unat p ..< unat p + 456} \<union> (\<Union>t \<in> set ts. footprint t)"

lemma node_footprint: "{unat (tptr t) ..< unat (tptr t) + 456} \<subseteq> footprint t"
  by (cases t) auto

definition node_same :: "memory \<Rightarrow> memory \<Rightarrow> u32 \<Rightarrow> bool" where
  "node_same m m' p \<longleftrightarrow> (\<forall>x \<in> {unat p ..< unat p + 456}. m' x = m x)"

lemma node_same_rd32: "node_same m m' p \<Longrightarrow> off + 4 \<le> 456 \<Longrightarrow> rd32 m' (unat p + off) = rd32 m (unat p + off)"
  by (rule rd32_cong) (simp add: node_same_def add.assoc)

lemma node_same_fields:
  assumes "node_same m m' p"
  shows "node_finddir m' p = node_finddir m p" "node_type m' p = node_type m p" "node_children m' p = node_children m p"
    "node_next_sibling m' p = node_next_sibling m p" "node_inode m' p = node_inode m p"
  using node_same_rd32 [OF assms]
  by (simp_all add: node_finddir_def node_type_def node_children_def node_next_sibling_def node_inode_def)

lemma node_same_name: "node_same m m' p \<Longrightarrow> length nm \<le> 255 \<Longrightarrow> cstr m' (unat p) nm = cstr m (unat p) nm"
  by (rule cstr_cong) (simp add: node_same_def)

lemma tree_at_cong:
  "tree_at m f t \<Longrightarrow> (\<And>x. x \<in> footprint t \<Longrightarrow> m' x = m x) \<Longrightarrow> tree_at m' f t"
proof (induction t)
  case (VFile p nm)
  then have "node_same m m' p" by (simp add: node_same_def)
  from VFile.prems(1) node_same_name [OF this, of nm] node_same_fields [OF this] show ?case by simp
next
  case (VDir p nm ts)
  then have own: "node_same m m' p" by (simp add: node_same_def)
  have sub: "m' x = m x" if "t \<in> set ts" "x \<in> footprint t" for t x using VDir.prems(2) that by auto
  have "rd32 m' (unat q + 284) = rd32 m (unat q + 284)" if "q \<in> set (map tptr ts)" for q
  proof -
    from that obtain t where t: "t \<in> set ts" "q = tptr t" by auto
    have "node_same m m' q" unfolding node_same_def t(2) using sub [OF t(1)] node_footprint [of t] by blast
    then show ?thesis by (rule node_same_rd32) simp
  qed
  then have "chain m' 284 p0 (map tptr ts) = chain m 284 p0 (map tptr ts)" for p0 by (rule chain_cong)
  moreover have "tree_at m' f t" if "t \<in> set ts" for t
    using VDir.IH [OF that] VDir.prems(1) sub [OF that] that by simp
  ultimately show ?case using VDir.prems(1) node_same_name [OF own, of nm] node_same_fields [OF own] by simp
qed

section \<open>Finding a child\<close>

lemma finddir_loop_children:
  assumes "chain m 284 child (map tptr ts)" "\<forall>t \<in> set ts. cstr m (unat (tptr t)) (tname t)" "cstr m name nm"
  shows "finddir_loop m name child = Some (case find (\<lambda>t. tname t = nm) ts of None \<Rightarrow> 0 | Some t \<Rightarrow> tptr t)"
  using assms(1,2)
proof (induction ts arbitrary: child)
  case Nil
  then show ?case by (simp add: finddir_loop.simps)
next
  case (Cons t ts)
  then have child: "child = tptr t" "child \<noteq> 0" "chain m 284 (node_next_sibling m child) (map tptr ts)"
    by (auto simp: node_next_sibling_def)
  obtain d where "strcmp m (unat child) name = Some d" "d = 0 \<longleftrightarrow> tname t = nm"
    using strcmp_cstr [of m "unat child" "tname t" name nm] Cons.prems(2) assms(3) child(1) by auto
  with child Cons.IH [OF child(3)] Cons.prems(2) show ?case
    by (simp add: finddir_loop.simps [of m name "tptr t"])
qed

definition vfs_linked :: "'a vfs_scheme \<Rightarrow> bool" where
  "vfs_linked s \<longleftrightarrow> inj (fn_addr s) \<and> 0 \<notin> range (fn_addr s)"

lemma tree_node:
  assumes "tree_at m f t"
  shows "tptr t \<noteq> 0" "cstr m (unat (tptr t)) (tname t)" "length (tname t) \<le> 255"
  using assms by (cases t; simp)+

lemma call_finddir_tree:
  assumes "vfs_linked s" "tree_at (mem s) (fn_addr s Virtual_finddir) (VDir p nm ts)" "cstr (mem s) name c" "name \<noteq> 0"
  shows "call_finddir p name s = kret (case find (\<lambda>t. tname t = c) ts of None \<Rightarrow> 0 | Some t \<Rightarrow> tptr t, s)"
proof -
  have "fn_addr s Virtual_finddir \<noteq> fn_addr s Ext2_finddir" using assms(1) by (auto simp: vfs_linked_def inj_def)
  moreover have "finddir_loop (mem s) name (node_children (mem s) p) = Some (case find (\<lambda>t. tname t = c) ts of None \<Rightarrow> 0 | Some t \<Rightarrow> tptr t)"
    using assms(2,3) tree_node(2) by (intro finddir_loop_children) fastforce+
  ultimately show ?thesis using assms(2,4) by (simp add: call_finddir_def vfs_virtual_finddir_def Let_def)
qed

section \<open>Path resolution\<close>

text \<open>A path component in memory ends where \<open>strchr\<close> finds the separator.\<close>

lemma cstr_iff: "cstr m p t \<longleftrightarrow> (\<forall>i < length t. m (p + i) = t ! i \<and> t ! i \<noteq> 0) \<and> m (p + length t) = 0"
proof (induction t arbitrary: p)
  case (Cons c t)
  show ?case unfolding cstr.simps Cons.IH length_Cons All_less_Suc2 by auto
qed simp

lemma takeWhile_shorter: "c \<in> set t \<Longrightarrow> length (takeWhile (\<lambda>x. x \<noteq> c) t) < length t"
  by (induction t) auto

lemma cut_component:
  assumes "cstr m p t" "47 \<in> set t"
  defines "n \<equiv> length (takeWhile (\<lambda>c. c \<noteq> 47) t)"
  shows "strchr m p 47 = Some (p + n)" "cstr (wr8 m (p + n) 0) p (take n t)" "cstr (wr8 m (p + n) 0) (p + n + 1) (drop (Suc n) t)"
    "n < length t"
proof -
  show n: "n < length t" unfolding n_def using assms(2) by (rule takeWhile_shorter)
  show "strchr m p 47 = Some (p + n)" using strchr_cstr [OF assms(1), of 47] assms(2) by (simp add: n_def)
  show "cstr (wr8 m (p + n) 0) p (take n t)" using assms(1) n by (auto simp: cstr_iff wr8_apply)
  show "cstr (wr8 m (p + n) 0) (p + n + 1) (drop (Suc n) t)"
  proof -
    have t: "m (p + i) = t ! i \<and> t ! i \<noteq> 0" if "i < length t" for i using assms(1) that by (simp add: cstr_iff)
    have "m (p + n + 1 + i) = t ! (Suc n + i) \<and> t ! (Suc n + i) \<noteq> 0" if "i < length t - Suc n" for i
      using t [of "Suc n + i"] that by (simp add: add.assoc)
    moreover have "p + n + 1 + (length t - Suc n) = p + length t" using n by simp
    then have "m (p + n + 1 + (length t - Suc n)) = 0" using cstr_end [OF assms(1)] by (simp only:)
    ultimately show ?thesis unfolding cstr_iff by (simp add: wr8_apply)
  qed
qed

lemma resolve_loop_tree:
  assumes "vfs_linked s" "tree_at (mem s) (fn_addr s Virtual_finddir) t" "cstr (mem s) token r" "0 < token"
    "footprint t \<inter> {token .. token + length r} = {}"
  shows "\<exists>m'. resolve_loop token (tptr t) s = kret (case lookup_path t (split_slash r) of None \<Rightarrow> 0 | Some t' \<Rightarrow> tptr t', s\<lparr>mem := m'\<rparr>)
     \<and> (\<forall>x. x \<notin> {token .. token + length r} \<longrightarrow> m' x = mem s x)"
  using assms
proof (induction "length r" arbitrary: r t token s rule: less_induct)
  case less
  let ?a = "takeWhile (\<lambda>c. c \<noteq> 47) r" and ?f = "fn_addr s Virtual_finddir"
  have f0: "?f \<noteq> 0" using less.prems(1) by (metis vfs_linked_def rangeI)
  define p where "p = (if 47 \<in> set r then token + length ?a else 0)"
  define m1 where "m1 = (if 47 \<in> set r then wr8 (mem s) p 0 else mem s)"
  define r1 where "r1 = drop (Suc (length ?a)) r"
  have p: "strchr (mem s) token 47 = Some p" using strchr_cstr [OF less.prems(3), of 47] by (simp add: p_def)
  have p0: "p \<noteq> 0 \<longleftrightarrow> 47 \<in> set r" using less.prems(4) by (simp add: p_def)
  have c1: "cstr m1 token ?a" and c2: "47 \<in> set r \<Longrightarrow> cstr m1 (p + 1) r1 \<and> length ?a < length r"
  proof -
    have a: "take (length ?a) r = ?a" by (rule takeWhile_eq_take [symmetric])
    show "cstr m1 token ?a"
    proof (cases "47 \<in> set r")
      case True
      then show ?thesis using cut_component(2) [OF less.prems(3)] unfolding a by (simp add: m1_def p_def)
    next
      case False
      then have a: "?a = r" by (auto simp: takeWhile_eq_all_conv)
      show ?thesis unfolding a using False less.prems(3) by (simp add: m1_def)
    qed
    show "47 \<in> set r \<Longrightarrow> cstr m1 (p + 1) r1 \<and> length ?a < length r"
      using cut_component(3,4) [OF less.prems(3)] by (simp add: m1_def p_def r1_def)
  qed
  have out: "m1 x = mem s x" if "x \<notin> {token .. token + length r}" for x
    using that c2 by (auto simp: m1_def p_def wr8_apply)
  have t1: "tree_at m1 ?f t" by (rule tree_at_cong [OF less.prems(2)]) (use out less.prems(5) in blast)
  have s1: "(if p \<noteq> 0 then s\<lparr>mem := wr8 (mem s) p 0\<rparr> else s) = s\<lparr>mem := m1\<rparr>" using p0 by (simp add: m1_def)
  show ?case
  proof (cases t)
    case (VFile q nm)
    then have "resolve_loop token (tptr t) s = kret (0, s\<lparr>mem := m1\<rparr>)"
      using t1 p s1 by (subst resolve_loop.simps) (simp add: Let_def)
    moreover have "lookup_path t (split_slash r) = None" by (subst split_slash_step) (simp add: VFile)
    ultimately show ?thesis using out by auto
  next
    case (VDir q nm ts)
    have call: "call_finddir q token (s\<lparr>mem := m1\<rparr>) = kret (case find (\<lambda>t. tname t = ?a) ts of None \<Rightarrow> 0 | Some t \<Rightarrow> tptr t, s\<lparr>mem := m1\<rparr>)"
      using t1 less.prems(1,4) c1 unfolding VDir by (intro call_finddir_tree [where nm = nm]) (simp_all add: vfs_linked_def)
    have step: "resolve_loop token q s = (case find (\<lambda>t. tname t = ?a) ts of None \<Rightarrow> kret (0, s\<lparr>mem := m1\<rparr>)
        | Some t' \<Rightarrow> if 47 \<in> set r then resolve_loop (p + 1) (tptr t') (s\<lparr>mem := m1\<rparr>) else kret (tptr t', s\<lparr>mem := m1\<rparr>))"
    proof -
      have nz: "find (\<lambda>t. tname t = ?a) ts = Some t' \<Longrightarrow> tptr t' \<noteq> 0" for t'
        using t1 tree_node(1) unfolding VDir by (fastforce simp: find_Some_iff)
      have "node_finddir m1 q \<noteq> 0" using t1 f0 by (simp add: VDir)
      then have "resolve_loop token q s = kbind (call_finddir q token (s\<lparr>mem := m1\<rparr>)) (\<lambda>(child, s2).
          if child = 0 then kret (0, s2)
          else if (if p \<noteq> 0 then p + 1 else 0) = 0 then kret (child, s2)
          else resolve_loop (if p \<noteq> 0 then p + 1 else 0) child s2)"
        unfolding resolve_loop.simps [of token q s] p klift_Some kbind_kret s1 Let_def by simp
      then show ?thesis using p0 nz by (simp add: call split: option.split)
    qed
    show ?thesis
    proof (cases "find (\<lambda>t. tname t = ?a) ts")
      case None
      then have "lookup_path t (split_slash r) = None" by (subst split_slash_step) (simp add: VDir)
      with step None VDir out show ?thesis by auto
    next
      case (Some t')
      then have t': "t' \<in> set ts" by (auto simp: find_Some_iff)
      have look: "lookup_path t (split_slash r) = lookup_path t' (if 47 \<in> set r then split_slash r1 else [])"
        by (subst split_slash_step) (simp add: VDir Some r1_def)
      show ?thesis
      proof (cases "47 \<in> set r")
        case False
        with step Some VDir out look show ?thesis by auto
      next
        case True
        let ?s1 = "s\<lparr>mem := m1\<rparr>"
        have len: "p + 1 + length r1 = token + length r" "length r1 < length r" using c2 True by (auto simp: r1_def p_def)
        have "footprint t' \<subseteq> footprint t" using t' by (auto simp: VDir)
        moreover have sub: "{p + 1 .. p + 1 + length r1} \<subseteq> {token .. token + length r}" using True len by (auto simp: p_def)
        ultimately have "footprint t' \<inter> {p + 1 .. p + 1 + length r1} = {}" using less.prems(5) by blast
        moreover have "tree_at (mem ?s1) (fn_addr ?s1 Virtual_finddir) t'" using t1 t' by (simp add: VDir)
        moreover have "cstr (mem ?s1) (p + 1) r1" using c2 True by simp
        moreover have "vfs_linked ?s1" using less.prems(1) by (simp add: vfs_linked_def)
        ultimately obtain m' where m': "resolve_loop (p + 1) (tptr t') ?s1 =
            kret (case lookup_path t' (split_slash r1) of None \<Rightarrow> 0 | Some t' \<Rightarrow> tptr t', s\<lparr>mem := m'\<rparr>)"
            "\<And>x. x \<notin> {p + 1 .. p + 1 + length r1} \<Longrightarrow> m' x = m1 x"
          using less.hyps [OF len(2), of ?s1 t' "p + 1"] by auto
        have "m' x = mem s x" if "x \<notin> {token .. token + length r}" for x
          using m'(2) [OF contra_subsetD [OF sub that]] out [OF that] by simp
        with m'(1) step Some True look VDir show ?thesis by auto
      qed
    qed
  qed
qed

lemma resolve_path_step:
  assumes linked: "vfs_linked s" and tree: "tree_at (mem s) (fn_addr s Virtual_finddir) t" "vfs_root s = tptr t"
    and path: "cstr (mem s) path (47 # r)" "0 < path"
    and buf: "0 < path_copy s" "footprint t \<inter> {path_copy s .. path_copy s + 255} = {}"
      "{path .. path + length r + 1} \<inter> {path_copy s .. path_copy s + 255} = {}"
  shows "\<exists>m'. vfs_resolve_path path s =
       kret (if r = [] then tptr t else case lookup_path t (split_slash (take 255 r)) of None \<Rightarrow> 0 | Some t' \<Rightarrow> tptr t',
         s\<lparr>mem := m'\<rparr>)
     \<and> (\<forall>x. x \<notin> {path_copy s .. path_copy s + 255} \<longrightarrow> m' x = mem s x)"
proof (cases "r = []")
  case True
  then show ?thesis using path tree tree_node(1) [OF tree(1)] by (auto simp: vfs_resolve_path_def intro!: exI [of _ "mem s"])
next
  case False
  let ?pc = "path_copy s"
  define m2 where "m2 = wr8 (strncpy (mem s) ?pc (path + 1) 255) (?pc + 255) 0"
  have r: "cstr (mem s) (path + 1) r" "mem s path = 47" "\<not> cstr (mem s) path [47]"
    using path(1) False by (cases r; auto)+
  have "?pc + 255 \<le> path + 1 \<or> path + 1 + length r < ?pc"
  proof (rule ccontr)
    assume "\<not> ?thesis"
    then have "max path ?pc \<in> {path .. path + length r + 1} \<inter> {?pc .. ?pc + 255}" by auto
    with buf(3) show False by blast
  qed
  note cp = strncpy_cstr [OF r(1) this]
  have m2: "cstr m2 ?pc (take 255 r)"
    using cstr_nth [OF r(1)] unfolding cstr_iff m2_def by (simp add: cp [simplified] wr8_apply)
  have out: "m2 x = mem s x" if "x \<notin> {?pc .. ?pc + 255}" for x
    using that by (auto simp: m2_def cp [simplified] wr8_apply)
  have "tree_at m2 (fn_addr s Virtual_finddir) t" by (rule tree_at_cong [OF tree(1)]) (use out buf(2) in blast)
  moreover have "{?pc .. ?pc + length (take 255 r)} \<subseteq> {?pc .. ?pc + 255}" by auto
  moreover have "footprint t \<inter> {?pc .. ?pc + length (take 255 r)} = {}" using calculation(2) buf(2) by blast
  ultimately obtain m' where m': "resolve_loop ?pc (tptr t) (s\<lparr>mem := m2\<rparr>) =
      kret (case lookup_path t (split_slash (take 255 r)) of None \<Rightarrow> 0 | Some t' \<Rightarrow> tptr t', s\<lparr>mem := m'\<rparr>)"
      "\<And>x. x \<notin> {?pc .. ?pc + length (take 255 r)} \<Longrightarrow> m' x = m2 x"
    using resolve_loop_tree [of "s\<lparr>mem := m2\<rparr>" t ?pc "take 255 r"] linked m2 buf(1) by (auto simp: vfs_linked_def)
  have "m' x = mem s x" if "x \<notin> {?pc .. ?pc + 255}" for x
    using m'(2) [of x] out [OF that] that by auto
  moreover have "vfs_resolve_path path s = resolve_loop ?pc (tptr t) (s\<lparr>mem := m2\<rparr>)"
    using path(2) r tree(2) tree_node(1) [OF tree(1)] by (simp add: vfs_resolve_path_def m2_def)
  ultimately show ?thesis using m'(1) False by auto
qed

text \<open>
  C34. Path resolution. When the root is a tree of virtual nodes, \<open>vfs_resolve_path\<close> returns for every
  path the node that one reaches from the root by splitting the path (its first 255 characters after
  the leading slash) at every slash and looking up one name after the other, or the null pointer when
  a name is not found or a file is not the last one; for the path "/" it returns the root. It ends, and
  changes no memory but its own copy of the path.
\<close>

theorem vfs_resolve_path_tree:
  assumes linked: "vfs_linked s" and tree: "tree_at (mem s) (fn_addr s Virtual_finddir) t" "vfs_root s = tptr t"
    and path: "cstr (mem s) path (47 # r)" "0 < path"
    and buf: "0 < path_copy s" "footprint t \<inter> {path_copy s .. path_copy s + 255} = {}"
      "{path .. path + length r + 1} \<inter> {path_copy s .. path_copy s + 255} = {}"
  shows "\<exists>m'. vfs_resolve_path path s =
       kret (if r = [] then tptr t else case lookup_path t (split_slash (take 255 r)) of None \<Rightarrow> 0 | Some t' \<Rightarrow> tptr t',
         s\<lparr>mem := m'\<rparr>)
     \<and> (\<forall>x. x \<notin> {path_copy s .. path_copy s + 255} \<longrightarrow> m' x = mem s x)"
  using assms by (rule resolve_path_step)

text \<open>A root with one file, "a", and the path "/a".\<close>

definition fn_example :: "vfs_fn \<Rightarrow> u32" where
  "fn_example f = (case f of Ext2_read \<Rightarrow> 1 | Ext2_write \<Rightarrow> 2 | Ext2_readdir \<Rightarrow> 3 | Ext2_finddir \<Rightarrow> 4
     | Virtual_read \<Rightarrow> 5 | Virtual_readdir \<Rightarrow> 6 | Virtual_finddir \<Rightarrow> 7)"

lemma fn_example_linked: "fn_addr s = fn_example \<Longrightarrow> vfs_linked s"
  by (auto simp: vfs_linked_def inj_def fn_example_def split: vfs_fn.splits)

definition path_example_mem :: memory where
  "path_example_mem = fold (\<lambda>(a, v) m. wr32 m a v)
     [(0x100000, 0x2F), (0x100104, 2), (0x100118, 0x200000), (0x1001C4, 7), (0x200000, 0x61), (0x200104, 1), (0x1000, 0x612F)] (\<lambda>_. 0)"

definition path_example :: vfs where
  "path_example = (vfs_boot fn_example 0x3000 0x2000 (ide_example disk_content))\<lparr>mem := path_example_mem, vfs_root := 0x100000\<rparr>"

lemma path_example_tree:
  "tree_at path_example_mem 7 (VDir 0x100000 [47] [VFile 0x200000 [97]])" "cstr path_example_mem 0x1000 [47, 97]"
  by (simp_all add: path_example_mem_def node_finddir_def node_type_def node_children_def rd32_wr32_other wr32_def wr8_apply rd32_def)

theorem vfs_resolve_path_tree_witness:
  "\<exists>m'. vfs_resolve_path 0x1000 path_example = kret (0x200000, path_example\<lparr>mem := m'\<rparr>)"
proof -
  have f: "mem path_example = path_example_mem" "fn_addr path_example = fn_example" "vfs_root path_example = 0x100000"
      "path_copy path_example = 0x2000"
    by (simp_all add: path_example_def vfs_boot_def ide.defs vfs.defs)
  have "lookup_path (VDir 0x100000 [47] [VFile 0x200000 [97]]) (split_slash (take 255 [97])) = Some (VFile 0x200000 [97])"
      "({0x100000 ..< 0x1001C8} \<union> {0x200000 ..< 0x2001C8}) \<inter> {0x2000 .. 0x20FF :: nat} = {}" by auto
  with vfs_resolve_path_tree [of path_example "VDir 0x100000 [47] [VFile 0x200000 [97]]" "0x1000" "[97]"] show ?thesis
    using fn_example_linked [OF f(2)] path_example_tree by (auto simp: f fn_example_def)
qed

end
