(* ===== verification/KFS_Vfs_Nodes.thy ===== *)
theory KFS_Vfs_Nodes
  imports KFS_Vfs_Paths
begin

text \<open>
  Virtual nodes on the kernel heap: heaps with room for further blocks, what the creation of a directory
  or of a file with contents leaves in memory, and linking such a node below the root. The nodes are
  fresh heap blocks, so that nothing else changes.
\<close>

section \<open>Heaps with room\<close>

text \<open>A sound heap with live blocks \<open>L\<close> and a free block of at least \<open>K\<close> bytes, header included.\<close>

definition has_room :: "'a kheap_scheme \<Rightarrow> nat \<Rightarrow> (nat \<times> nat) set \<Rightarrow> bool" where
  "has_room s K L \<longleftrightarrow> (\<exists>bs sz. heap_abs s bs \<and> coalesced bs \<and> L = live bs \<and> (sz, True) \<in> set bs \<and> K \<le> sz)"

lemma has_room_rep: "has_room s K L \<Longrightarrow> heap_rep s L"
  by (auto simp: has_room_def heap_rep_def)

lemma has_room_put:
  assumes "has_room s K L" "\<And>x. x \<notin> live_bytes L \<union> unmanaged \<Longrightarrow> m x = mem s x"
  shows "has_room (s\<lparr>mem := m\<rparr>) K L"
  using assms heap_abs_put unfolding has_room_def by metis

lemma has_room_hw [simp]: "has_room (s\<lparr>hw := h\<rparr>) K L = has_room s K L"
  by (simp add: has_room_def)

lemma amalloc_room:
  assumes "amalloc n a bs = Some (p, bs')" "(sz, True) \<in> set bs" "n + 32 \<le> sz"
  shows "\<exists>sz' \<ge> sz - n. (sz', True) \<in> set bs'"
  using assms(1)
proof (rule amallocE)
  fix xs k ys
  assume bs: "bs = xs @ (k, True) # ys" and bs': "bs' = xs @ (if n + 32 \<le> k then [(n, False), (k - n, True)] else [(k, False)]) @ ys"
  show ?thesis
  proof (cases "(sz, True) \<in> set xs \<union> set ys")
    case True
    then show ?thesis by (intro exI [of _ sz]) (auto simp: bs')
  next
    case False
    then have "k = sz" using assms(2) by (auto simp: bs)
    then show ?thesis using assms(3) by (intro exI [of _ "k - n"]) (simp add: bs')
  qed
qed

lemma kmalloc_room:
  assumes room: "has_room s K L" and n: "n \<noteq> 0" "unat n + 19 < 2 ^ 32" and K: "request n + 32 \<le> K"
  obtains p s' len where "kmalloc n s = kret (p, s')" "p \<noteq> 0" "unat n \<le> len" "has_room s' (K - request n) (insert (unat p, len) L)"
    "{unat p ..< unat p + len} \<inter> (live_bytes L \<union> unmanaged) = {}" "kept L (mem s) (mem s')"
proof -
  from room obtain bs sz where bs: "heap_abs s bs" "coalesced bs" "L = live bs" "(sz, True) \<in> set bs" "K \<le> sz"
    by (auto simp: has_room_def)
  obtain a bs' where al: "amalloc (request n) HEAP_START bs = Some (a, bs')"
    using amalloc_None [of "request n" HEAP_START bs] bs(4,5) K by (cases "amalloc (request n) HEAP_START bs") fastforce+
  from kmalloc_step [OF bs(1) n] al obtain m1 where m1: "kmalloc n s = kret (of_nat (a + 16), s\<lparr>mem := m1,
        total_allocated := total_allocated s + ((n + 3) AND NOT 3), num_allocations := num_allocations s + 1\<rparr>)"
      "heap_abs (s\<lparr>mem := m1\<rparr>) bs'" "kept L (mem s) m1"
    by (auto simp: kept_def bs(3))
  obtain len where len: "unat n \<le> len" "live bs' = insert (a + 16, len) L" "a + 16 + len \<le> HEAP_END" "HEAP_START \<le> a"
      "{a + 16 ..< a + 16 + len} \<inter> live_bytes L = {}"
    by (rule live_amalloc [OF bs(1) al]) (auto simp: bs(3))
  have p: "unat (of_nat (a + 16) :: u32) = a + 16" using len(3) by (subst unsigned_of_nat) (simp add: take_bit_nat_eq_self)
  then have p0: "(of_nat (a + 16) :: u32) \<noteq> 0" by (metis add_is_0 unsigned_0 zero_neq_numeral)
  obtain sz' where "sz - request n \<le> sz'" "(sz', True) \<in> set bs'" using amalloc_room [OF al bs(4)] bs(5) K by auto
  then have "has_room (s\<lparr>mem := m1, total_allocated := total_allocated s + ((n + 3) AND NOT 3), num_allocations := num_allocations s + 1\<rparr>)
      (K - request n) (insert (unat (of_nat (a + 16) :: u32), len) L)"
    unfolding has_room_def p using m1(2) coalesced_amalloc [OF al bs(2)] len(2) bs(5)
    by (intro exI [of _ bs'] exI [of _ sz']) (simp add: heap_abs_def)
  moreover have "{a + 16 ..< a + 16 + len} \<inter> (live_bytes L \<union> unmanaged) = {}"
    using len(3-5) by (auto simp: unmanaged_def)
  ultimately show thesis using that [OF m1(1) p0 len(1)] m1(3) p by simp
qed

lemma more_vfs:
  fixes s s' :: "'a vfs_scheme"
  assumes "kheap.more s' = kheap.more s"
  shows "vfs_root s' = vfs_root s" "fn_addr s' = fn_addr s" "path_copy s' = path_copy s" "mounts s' = mounts s" "mount_count s' = mount_count s"
    "ide_devices s' = ide_devices s" "interrupt_handlers s' = interrupt_handlers s"
  using assms by (cases s; cases s'; simp)+

section \<open>Virtual nodes\<close>

text \<open>A node without children that is in no list yet; what it depends on.\<close>

fun leaf_ok :: "memory \<Rightarrow> vtree \<Rightarrow> bool" where
  "leaf_ok m (VDir p nm ts) \<longleftrightarrow> ts = [] \<and> p \<noteq> 0 \<and> length nm \<le> 255 \<and> cstr m (unat p) nm
     \<and> node_type m p = VFS_FILE_TYPE_DIRECTORY \<and> node_children m p = 0"
| "leaf_ok m (VFile p nm) \<longleftrightarrow> p \<noteq> 0 \<and> length nm \<le> 255 \<and> cstr m (unat p) nm
     \<and> node_type m p = VFS_FILE_TYPE_REGULAR \<and> node_finddir m p = 0"

definition leaf_same :: "memory \<Rightarrow> memory \<Rightarrow> u32 \<Rightarrow> bool" where
  "leaf_same m m' p \<longleftrightarrow> (\<forall>i < 456. i < 256 \<or> 260 \<le> i \<and> i < 264 \<or> 280 \<le> i \<and> i < 284 \<or> 452 \<le> i \<longrightarrow> m' (unat p + i) = m (unat p + i))"

lemma leaf_same_fields:
  assumes "leaf_same m m' p"
  shows "node_type m' p = node_type m p" "node_children m' p = node_children m p" "node_finddir m' p = node_finddir m p"
    "length nm \<le> 255 \<Longrightarrow> cstr m' (unat p) nm = cstr m (unat p) nm"
proof -
  have "rd32 m' (unat p + k) = rd32 m (unat p + k)" if "k = 260 \<or> k = 280 \<or> k = 452" for k
    using assms that by (intro rd32_cong) (auto simp: leaf_same_def add.assoc)
  then show "node_type m' p = node_type m p" "node_children m' p = node_children m p" "node_finddir m' p = node_finddir m p"
    by (simp_all add: node_type_def node_children_def node_finddir_def)
  assume "length nm \<le> 255"
  then show "cstr m' (unat p) nm = cstr m (unat p) nm" using assms by (intro cstr_cong) (simp add: leaf_same_def)
qed

lemma leaf_ok_same: "leaf_ok m t \<Longrightarrow> leaf_same m m' (tptr t) \<Longrightarrow> leaf_ok m' t"
  by (cases t) (auto simp: leaf_same_fields)

lemma node_same_leaf: "node_same m m' p \<Longrightarrow> leaf_same m m' p"
  by (simp add: node_same_def leaf_same_def)

text \<open>Names that can be literals of the source.\<close>

definition lit_ok :: "string \<Rightarrow> bool" where
  "lit_ok t \<longleftrightarrow> length t \<le> 255 \<and> 0 \<notin> set (lit_bytes t)"

lemma wr_fields_simps [simp]:
  "wr_fields m p [] = m" "wr_fields m p ((off, v) # fs) = wr_fields (wr32 m (unat p + off) v) p fs"
  by (simp_all add: wr_fields_def)

lemma rd32_wr16_other [mem_simps]: "b + 4 \<le> a \<or> a + 2 \<le> b \<Longrightarrow> rd32 (wr16 m a v) b = rd32 m b"
  by (rule rd32_cong) (auto simp: wr16_other)

lemma length_lit_bytes [simp]: "length (lit_bytes t) = length t"
  by (simp add: lit_bytes_def)

text \<open>The memory after the common part of the creation of a node: zeros and the name.\<close>

definition named_node :: "memory \<Rightarrow> u32 \<Rightarrow> string \<Rightarrow> memory" where
  "named_node m node name = wr8 (strncpy_arg (memset m (unat node) 0 456) (unat node) (Lit name) 255) (unat node + 255) 0"

lemma named_node_apply:
  "named_node m node name x = (if unat node \<le> x \<and> x < unat node + 456
     then if x < unat node + 255 \<and> x - unat node < length name then lit_bytes name ! (x - unat node) else 0 else m x)"
  by (auto simp: named_node_def strncpy_arg_def store_struct_def memset_apply wr8_apply)

lemma named_node_name: "lit_ok name \<Longrightarrow> cstr (named_node m node name) (unat node) (lit_bytes name)"
  by (auto simp: cstr_iff named_node_apply lit_ok_def) (metis length_lit_bytes nth_mem)

lemma named_node_rd32: "256 \<le> k \<Longrightarrow> k + 4 \<le> 456 \<Longrightarrow> rd32 (named_node m node name) (unat node + k) = 0"
  by (simp add: rd32_def named_node_apply)

definition virtual_dir :: "memory \<Rightarrow> u32 \<Rightarrow> string \<Rightarrow> memory" where
  "virtual_dir m node name = wr16 (wr_fields (named_node m node name) node
     [(260, VFS_FILE_TYPE_DIRECTORY), (256, 0), (264, 0), (288, 0), (292, 0)]) (unat node + 296) 493"

lemma virtual_dir_frame: "x < unat node \<or> unat node + 456 \<le> x \<Longrightarrow> virtual_dir m node name x = m x"
  by (auto simp: virtual_dir_def wr16_other wr32_other named_node_apply)

lemma virtual_dir_leaf:
  assumes "lit_ok name" "node \<noteq> 0"
  shows "leaf_ok (virtual_dir m node name) (VDir node (lit_bytes name) [])"
proof -
  have "cstr (virtual_dir m node name) (unat node) (lit_bytes name)"
    using named_node_name [OF assms(1), of m node] assms(1)
    by (subst cstr_cong [where m' = "named_node m node name"]) (auto simp: virtual_dir_def wr16_other wr32_other lit_ok_def)
  then show ?thesis using assms named_node_rd32
    by (simp add: lit_ok_def node_type_def node_children_def virtual_dir_def rd32_wr16_other rd32_wr32_other)
qed

lemma vfs_create_virtual_dir_eq:
  "vfs_create_virtual_dir name s = kbind (kmalloc VFS_NODE_SIZE s) (\<lambda>(node, s1).
     if node = 0 then kret (0, s1) else kret (node, s1\<lparr>mem := virtual_dir (mem s1) node name\<rparr>))"
  unfolding vfs_create_virtual_dir_def virtual_dir_def named_node_def Let_def by (rule refl)

text \<open>What the operations here keep of the state.\<close>

definition vfs_keeps :: "'a vfs_scheme \<Rightarrow> 'a vfs_scheme \<Rightarrow> bool" where
  "vfs_keeps s s' \<longleftrightarrow> fn_addr s' = fn_addr s \<and> path_copy s' = path_copy s \<and> ide_devices s' = ide_devices s
     \<and> interrupt_handlers s' = interrupt_handlers s"

text \<open>Taking a node from the heap and filling it; the writes are inside the node.\<close>

lemma new_node:
  fixes s :: "'a vfs_scheme"
  assumes room: "has_room s K L" and K: "504 \<le> K"
  obtains p s' len where "kmalloc VFS_NODE_SIZE s = kret (p, s')" "p \<noteq> 0" "456 \<le> len" "vfs_keeps s s'" "vfs_root s' = vfs_root s"
    "has_room s' (K - 472) (insert (unat p, len) L)" "{unat p ..< unat p + len} \<inter> (live_bytes L \<union> unmanaged) = {}"
    "kept L (mem s) (mem s')"
    "\<And>m. (\<And>x. x < unat p \<or> unat p + 456 \<le> x \<Longrightarrow> m x = mem s' x) \<Longrightarrow>
      has_room (s'\<lparr>mem := m\<rparr>) (K - 472) (insert (unat p, len) L) \<and> kept L (mem s) m"
proof -
  have r: "request VFS_NODE_SIZE = 472" by (simp add: request_def)
  obtain p s' len where al: "kmalloc VFS_NODE_SIZE s = kret (p, s')" "p \<noteq> 0" "unat VFS_NODE_SIZE \<le> len"
      "has_room s' (K - 472) (insert (unat p, len) L)" "{unat p ..< unat p + len} \<inter> (live_bytes L \<union> unmanaged) = {}"
      "kept L (mem s) (mem s')"
    by (rule kmalloc_room [OF room, of VFS_NODE_SIZE]) (use K r in auto)
  have "has_room (s'\<lparr>mem := m\<rparr>) (K - 472) (insert (unat p, len) L) \<and> kept L (mem s) m"
    if m: "\<And>x. x < unat p \<or> unat p + 456 \<le> x \<Longrightarrow> m x = mem s' x" for m
  proof
    show "has_room (s'\<lparr>mem := m\<rparr>) (K - 472) (insert (unat p, len) L)"
      using al(3) by (intro has_room_put [OF al(4)] m) (auto simp: live_bytes_insert)
    have "m x = mem s' x" if "x \<in> live_bytes L \<union> unmanaged" for x
    proof (rule m)
      have "x \<notin> {unat p ..< unat p + len}" using that al(5) by blast
      then show "x < unat p \<or> unat p + 456 \<le> x" using al(3) by auto
    qed
    then show "kept L (mem s) m" using al(6) by (simp add: kept_def)
  qed
  moreover have "vfs_keeps s s'" "vfs_root s' = vfs_root s" using more_vfs [OF kmalloc_more [OF al(1)]] by (simp_all add: vfs_keeps_def)
  ultimately show thesis using al by (intro that [of p s' len]) auto
qed

lemma create_virtual_dir_room:
  fixes s :: "'a vfs_scheme"
  assumes room: "has_room s K L" and K: "504 \<le> K" and name: "lit_ok name"
  obtains p s' len where "vfs_create_virtual_dir name s = kret (p, s')" "456 \<le> len" "has_room s' (K - 472) (insert (unat p, len) L)"
    "{unat p ..< unat p + len} \<inter> (live_bytes L \<union> unmanaged) = {}" "kept L (mem s) (mem s')"
    "leaf_ok (mem s') (VDir p (lit_bytes name) [])" "vfs_keeps s s'" "vfs_root s' = vfs_root s"
proof (rule new_node [OF room K])
  fix p s1 len assume al: "kmalloc VFS_NODE_SIZE s = kret (p, s1)" "p \<noteq> 0" "456 \<le> len" "vfs_keeps s s1" "vfs_root s1 = vfs_root s"
    "{unat p ..< unat p + len} \<inter> (live_bytes L \<union> unmanaged) = {}"
    and wr: "\<And>m. (\<And>x. x < unat p \<or> unat p + 456 \<le> x \<Longrightarrow> m x = mem s1 x) \<Longrightarrow>
      has_room (s1\<lparr>mem := m\<rparr>) (K - 472) (insert (unat p, len) L) \<and> kept L (mem s) m"
  show thesis
    using al wr [of "virtual_dir (mem s1) p name", OF virtual_dir_frame] virtual_dir_leaf [OF name al(2)]
    by (intro that [of p "s1\<lparr>mem := virtual_dir (mem s1) p name\<rparr>" len])
      (simp_all add: vfs_create_virtual_dir_eq vfs_keeps_def)
qed

section \<open>The root and its children\<close>

definition base_dir :: "memory \<Rightarrow> u32 \<Rightarrow> vtree list \<Rightarrow> bool" where
  "base_dir m root ts \<longleftrightarrow> root \<noteq> 0 \<and> cstr m (unat root) [47] \<and> node_type m root = VFS_FILE_TYPE_DIRECTORY
     \<and> chain m 284 (node_children m root) (map tptr ts) \<and> (\<forall>t \<in> set ts. leaf_ok m t)"

lemma base_dir_same:
  assumes "base_dir m root ts" "\<And>p. p \<in> set (root # map tptr ts) \<Longrightarrow> node_same m m' p"
  shows "base_dir m' root ts"
proof -
  have "chain m' 284 p0 (map tptr ts) = chain m 284 p0 (map tptr ts)" for p0
    using assms(2) by (intro chain_cong node_same_rd32) auto
  moreover have "leaf_ok m' t" if "t \<in> set ts" for t
    by (rule leaf_ok_same [of m]) (use assms that in \<open>auto simp: base_dir_def intro: node_same_leaf\<close>)
  ultimately show ?thesis
    using assms(1) node_same_fields [OF assms(2), of root] node_same_name [OF assms(2), of root "[47]"] by (simp add: base_dir_def)
qed

lemma kept_node_same: "kept L m m' \<Longrightarrow> owned L 456 ps \<Longrightarrow> p \<in> set ps \<Longrightarrow> node_same m m' p"
  by (fastforce simp: node_same_def kept_def owned_def intro: live_bytesI)

text \<open>Linking a leaf below the root.\<close>

lemma add_to_root_base:
  fixes s :: "'a vfs_scheme"
  assumes room: "has_room s K L" and own: "owned L 456 (vfs_root s # tptr t # map tptr ts)"
    and base: "base_dir (mem s) (vfs_root s) ts" and leaf: "leaf_ok (mem s) t"
  shows "has_room (add_to_root (tptr t) msg s) K L" "base_dir (mem (add_to_root (tptr t) msg s)) (vfs_root s) (t # ts)"
    "vfs_keeps s (add_to_root (tptr t) msg s)" "vfs_root (add_to_root (tptr t) msg s) = vfs_root s"
    "x \<notin> {unat (tptr t) ..< unat (tptr t) + 456} \<union> {unat (vfs_root s) ..< unat (vfs_root s) + 456} \<Longrightarrow>
      mem (add_to_root (tptr t) msg s) x = mem s x"
    "k + 4 \<le> 276 \<or> 288 \<le> k \<and> k + 4 \<le> 456 \<Longrightarrow>
      rd32 (mem (add_to_root (tptr t) msg s)) (unat (tptr t) + k) = rd32 (mem s) (unat (tptr t) + k)"
proof -
  let ?r = "vfs_root s" and ?p = "tptr t"
  have nz: "?p \<noteq> 0" "?r \<noteq> 0" using leaf base by (cases t; simp add: base_dir_def)+
  define m3 where "m3 = wr32 (wr32 (wr32 (mem s) (unat ?p + 276) ?r) (unat ?p + 284) (node_children (mem s) ?r)) (unat ?r + 280) ?p"
  have apart: "unat p + 456 \<le> unat q \<or> unat q + 456 \<le> unat p" if "p \<in> set (?r # ?p # map tptr ts)" "q \<in> set (?r # ?p # map tptr ts)" "p \<noteq> q" for p q
    using kheap.owned_disjoint [OF has_room_rep [OF room] own that] .
  have rp: "unat ?p + 456 \<le> unat ?r \<or> unat ?r + 456 \<le> unat ?p" using own by (intro apart) (auto simp: owned_def)
  have "node_children (wr32 (mem s) (unat ?p + 276) ?r) ?r = node_children (mem s) ?r"
    using rp by (auto simp: node_children_def intro: rd32_wr32_other)
  then have run: "add_to_root ?p msg s = printk msg [] (s\<lparr>mem := m3\<rparr>)"
    using nz by (simp add: add_to_root_def m3_def Let_def)
  show x: "mem (add_to_root ?p msg s) x = mem s x"
    if "x \<notin> {unat ?p ..< unat ?p + 456} \<union> {unat ?r ..< unat ?r + 456}" for x
    using that by (auto simp: run m3_def wr32_other printk_def on_hw_def)
  show "rd32 (mem (add_to_root ?p msg s)) (unat ?p + k) = rd32 (mem s) (unat ?p + k)"
    if "k + 4 \<le> 276 \<or> 288 \<le> k \<and> k + 4 \<le> 456"
    using that rp by (auto simp: run m3_def printk_def on_hw_def rd32_wr32_other)
  show "vfs_keeps s (add_to_root ?p msg s)" "vfs_root (add_to_root ?p msg s) = ?r"
    by (simp_all add: run printk_def on_hw_def vfs_keeps_def)
  have live: "{unat q ..< unat q + 456} \<subseteq> live_bytes L" if "q \<in> {?p, ?r}" for q
    using own that by (fastforce simp: owned_def intro: live_bytesI)
  have "has_room (s\<lparr>mem := m3\<rparr>) K L"
  proof (rule has_room_put [OF room])
    fix x assume "x \<notin> live_bytes L \<union> unmanaged"
    then have "x \<notin> {unat ?p ..< unat ?p + 456} \<union> {unat ?r ..< unat ?r + 456}" using live [of ?p] live [of ?r] by blast
    then show "m3 x = mem s x" by (auto simp: m3_def wr32_other)
  qed
  then show "has_room (add_to_root ?p msg s) K L" by (simp add: run printk_def on_hw_def)
  have m3: "node_same (mem s) m3 q" if "q \<in> set (map tptr ts)" for q
    using apart [of q ?r] apart [of q ?p] that own by (fastforce simp: node_same_def m3_def wr32_other owned_def)
  have "leaf_same (mem s) m3 ?p" using rp by (auto simp: leaf_same_def m3_def wr32_other)
  then have "leaf_ok m3 t" by (rule leaf_ok_same [OF leaf])
  moreover have "leaf_ok m3 t'" if "t' \<in> set ts" for t'
    by (rule leaf_ok_same [of "mem s"]) (use base that m3 in \<open>auto simp: base_dir_def intro: node_same_leaf\<close>)
  moreover have "cstr m3 (unat ?r) [47]" "node_type m3 ?r = VFS_FILE_TYPE_DIRECTORY" "node_children m3 ?r = ?p"
    using base rp by (auto simp: base_dir_def m3_def wr32_other node_type_def node_children_def rd32_wr32_other)
  moreover have "rd32 m3 (unat ?p + 284) = node_children (mem s) ?r" using rp by (auto simp: m3_def rd32_wr32_other)
  moreover have "chain m3 284 q0 (map tptr ts) = chain (mem s) 284 q0 (map tptr ts)" for q0
    by (rule chain_cong, rule node_same_rd32) (use m3 in auto)
  ultimately show "base_dir (mem (add_to_root ?p msg s)) ?r (t # ts)"
    using base nz by (simp add: run printk_def on_hw_def base_dir_def)
qed

text \<open>
  The state while the tree is built, for a heap that had the live blocks \<open>L0\<close> and the memory \<open>m0\<close> at the
  beginning.
\<close>

definition fresh_nodes :: "(nat \<times> nat) set \<Rightarrow> u32 list \<Rightarrow> bool" where
  "fresh_nodes L0 ps \<longleftrightarrow> (\<forall>p \<in> set ps. {unat p ..< unat p + 456} \<inter> (live_bytes L0 \<union> unmanaged) = {})"

definition base_inv :: "(nat \<times> nat) set \<Rightarrow> memory \<Rightarrow> nat \<Rightarrow> (nat \<times> nat) set \<Rightarrow> vtree list \<Rightarrow> 'a vfs_scheme \<Rightarrow> bool" where
  "base_inv L0 m0 K L ts s \<longleftrightarrow> has_room s K L \<and> L0 \<subseteq> L \<and> kept L0 m0 (mem s)
     \<and> owned L 456 (vfs_root s # map tptr ts) \<and> fresh_nodes L0 (vfs_root s # map tptr ts) \<and> base_dir (mem s) (vfs_root s) ts"

lemma base_inv_add:
  fixes s s1 :: "'a vfs_scheme"
  assumes inv: "base_inv L0 m0 K L ts s" and room: "has_room s1 K' L'" "insert (unat (tptr t), len) L \<subseteq> L'" "456 \<le> len"
    and new: "{unat (tptr t) ..< unat (tptr t) + len} \<inter> (live_bytes L \<union> unmanaged) = {}" and kept: "kept L (mem s) (mem s1)"
    and leaf: "leaf_ok (mem s1) t" and root: "vfs_root s1 = vfs_root s"
  shows "base_inv L0 m0 K' L' (t # ts) (add_to_root (tptr t) msg s1)"
    "x \<notin> {unat (tptr t) ..< unat (tptr t) + 456} \<union> {unat (vfs_root s) ..< unat (vfs_root s) + 456} \<Longrightarrow>
      mem (add_to_root (tptr t) msg s1) x = mem s1 x"
    "k + 4 \<le> 276 \<or> 288 \<le> k \<and> k + 4 \<le> 456 \<Longrightarrow>
      rd32 (mem (add_to_root (tptr t) msg s1)) (unat (tptr t) + k) = rd32 (mem s1) (unat (tptr t) + k)"
proof -
  note i = inv [unfolded base_inv_def]
  have own: "owned L 456 (vfs_root s # map tptr ts)" "fresh_nodes L0 (vfs_root s # map tptr ts)" "L0 \<subseteq> L" using i by simp_all
  have "tptr t \<notin> set (vfs_root s # map tptr ts)" by (rule kheap.new_not_old [OF new _ room(3) own(1)]) simp
  moreover have "owned L' 456 (vfs_root s # map tptr ts)" by (rule owned_mono [OF own(1)]) (use room(2) in auto)
  ultimately have own1: "owned L' 456 (vfs_root s1 # tptr t # map tptr ts)"
    using room(2,3) by (auto simp: owned_def root)
  have "base_dir (mem s1) (vfs_root s1) ts" unfolding root
    by (rule base_dir_same [of "mem s"]) (use i in \<open>auto intro: kept_node_same [OF kept own(1)]\<close>)
  note add = add_to_root_base [OF room(1) own1 this leaf, where msg = msg]
  have sub: "live_bytes L0 \<subseteq> live_bytes L" by (rule live_bytes_mono [OF own(3)])
  have fresh: "fresh_nodes L0 (vfs_root s # tptr t # map tptr ts)"
  proof -
    have "{unat (tptr t) ..< unat (tptr t) + 456} \<subseteq> {unat (tptr t) ..< unat (tptr t) + len}" using room(3) by auto
    then have "{unat (tptr t) ..< unat (tptr t) + 456} \<inter> (live_bytes L0 \<union> unmanaged) = {}" using new sub by blast
    then show ?thesis using own(2) by (simp add: fresh_nodes_def)
  qed
  have "mem (add_to_root (tptr t) msg s1) x = m0 x" if x: "x \<in> live_bytes L0 \<union> unmanaged" for x
  proof -
    have "x \<notin> {unat (tptr t) ..< unat (tptr t) + 456} \<union> {unat (vfs_root s) ..< unat (vfs_root s) + 456}"
      using fresh x unfolding fresh_nodes_def by auto
    then have "mem (add_to_root (tptr t) msg s1) x = mem s1 x" using add(5) root by simp
    also have "\<dots> = mem s x" using kept x sub by (auto simp: kept_def)
    also have "\<dots> = m0 x" using i x by (simp add: kept_def)
    finally show ?thesis .
  qed
  then show "base_inv L0 m0 K' L' (t # ts) (add_to_root (tptr t) msg s1)" using add own1 fresh own(3) room(2) root by (auto simp: base_inv_def kept_def fresh_nodes_def owned_def)
  show "mem (add_to_root (tptr t) msg s1) x = mem s1 x"
    if "x \<notin> {unat (tptr t) ..< unat (tptr t) + 456} \<union> {unat (vfs_root s) ..< unat (vfs_root s) + 456}"
    using that add(5) root by simp
  show "rd32 (mem (add_to_root (tptr t) msg s1)) (unat (tptr t) + k) = rd32 (mem s1) (unat (tptr t) + k)"
    if "k + 4 \<le> 276 \<or> 288 \<le> k \<and> k + 4 \<le> 456" using add(6) [OF that] .
qed

lemma add_dir_step:
  fixes s :: "'a vfs_scheme"
  assumes inv: "base_inv L0 m0 K L ts s" and K: "504 \<le> K" and name: "lit_ok name"
  obtains s' L' p where "add_dir name msg s = kret s'" "base_inv L0 m0 (K - 472) L' (VDir p (lit_bytes name) [] # ts) s'"
    "vfs_keeps s s'" "L \<subseteq> L'"
proof -
  have room: "has_room s K L" using inv by (simp add: base_inv_def)
  obtain p s1 len where s1: "vfs_create_virtual_dir name s = kret (p, s1)" "456 \<le> len" "has_room s1 (K - 472) (insert (unat p, len) L)"
    "{unat p ..< unat p + len} \<inter> (live_bytes L \<union> unmanaged) = {}" "kept L (mem s) (mem s1)"
    "leaf_ok (mem s1) (VDir p (lit_bytes name) [])" "vfs_keeps s s1" "vfs_root s1 = vfs_root s"
    by (rule create_virtual_dir_room [OF room K name])
  have "base_inv L0 m0 (K - 472) (insert (unat p, len) L) (VDir p (lit_bytes name) [] # ts) (add_to_root p msg s1)"
    using base_inv_add(1) [OF inv s1(3), where t = "VDir p (lit_bytes name) []" and len = len] s1 by simp
  moreover have "vfs_keeps s (add_to_root p msg s1)"
    using s1(7) by (simp add: vfs_keeps_def add_to_root_def printk_def on_hw_def Let_def)
  ultimately show thesis using s1(1) by (intro that) (auto simp: add_dir_def)
qed

section \<open>Virtual files\<close>

text \<open>A file node with its contents; \<open>f\<close> is the address of \<open>vfs_virtual_read\<close>.\<close>

definition file_at :: "memory \<Rightarrow> u32 \<Rightarrow> u32 \<Rightarrow> u8 list \<Rightarrow> bool" where
  "file_at m f p bytes \<longleftrightarrow> node_read m p = f \<and> node_inode m p \<noteq> 0 \<and> data_size m (node_inode m p) = of_nat (length bytes)
     \<and> data_content m (node_inode m p) \<noteq> 0 \<and> unat (data_content m (node_inode m p)) + length bytes < 2 ^ 32
     \<and> map (\<lambda>i. m (unat (data_content m (node_inode m p)) + i)) [0..<length bytes] = bytes"

definition virtual_file :: "memory \<Rightarrow> u32 \<Rightarrow> string \<Rightarrow> memory" where
  "virtual_file m node name = wr16 (wr_fields (named_node m node name) node
     [(260, VFS_FILE_TYPE_REGULAR), (288, 0), (292, 0)]) (unat node + 296) 420"

lemma virtual_file_frame: "x < unat node \<or> unat node + 456 \<le> x \<Longrightarrow> virtual_file m node name x = m x"
  by (auto simp: virtual_file_def wr16_other wr32_other named_node_apply)

lemma virtual_file_leaf:
  assumes "lit_ok name" "node \<noteq> 0"
  shows "leaf_ok (virtual_file m node name) (VFile node (lit_bytes name))"
proof -
  have "cstr (virtual_file m node name) (unat node) (lit_bytes name)"
    using named_node_name [OF assms(1), of m node] assms(1)
    by (subst cstr_cong [where m' = "named_node m node name"]) (auto simp: virtual_file_def wr16_other wr32_other lit_ok_def)
  then show ?thesis using assms named_node_rd32
    by (simp add: lit_ok_def node_type_def node_finddir_def virtual_file_def rd32_wr16_other rd32_wr32_other)
qed

lemma vfs_create_virtual_file_eq:
  "vfs_create_virtual_file name (Some content) s = kbind (kmalloc VFS_NODE_SIZE s) (\<lambda>(node, s1).
     if node = 0 then kret (0, s1)
     else kbind (store_content node content (s1\<lparr>mem := virtual_file (mem s1) node name\<rparr>)) (\<lambda>s2. kret (node, s2)))"
  unfolding vfs_create_virtual_file_def virtual_file_def named_node_def Let_def option.case by (rule refl)

text \<open>The memory after the contents have been stored, for the blocks \<open>d\<close> and \<open>c\<close>.\<close>

definition with_content :: "memory \<Rightarrow> u32 \<Rightarrow> u32 \<Rightarrow> u32 \<Rightarrow> u32 \<Rightarrow> u8 list \<Rightarrow> memory" where
  "with_content m f node d c bytes =
     wr32 (wr32 (wr32 (store_struct (wr32 m (unat d) c) (unat c) (\<lambda>i. if i < length bytes then bytes ! i else 0) (length bytes + 1))
       (unat node + 256) (of_nat (length bytes))) (unat node + 264) d) (unat node + 440) f"

lemma with_content_file:
  assumes "data_size m d = of_nat (length bytes)" "d \<noteq> 0" "c \<noteq> 0" "unat c + length bytes < 2 ^ 32"
    and apart: "unat d + 8 \<le> unat node \<or> unat node + 456 \<le> unat d" "unat c + length bytes + 1 \<le> unat node \<or> unat node + 456 \<le> unat c"
      "unat c + length bytes + 1 \<le> unat d \<or> unat d + 8 \<le> unat c"
  shows "file_at (with_content m f node d c bytes) f node bytes" "leaf_same m (with_content m f node d c bytes) node"
    "node_inode (with_content m f node d c bytes) node = d" "data_content (with_content m f node d c bytes) d = c"
proof -
  let ?m = "with_content m f node d c bytes"
  let ?m1 = "store_struct (wr32 m (unat d) c) (unat c) (\<lambda>i. if i < length bytes then bytes ! i else 0) (length bytes + 1)"
  have o: "rd32 ?m (unat d + k) = rd32 (wr32 m (unat d) c) (unat d + k)" if "k = 0 \<or> k = 4" for k
  proof -
    have "rd32 ?m (unat d + k) = rd32 ?m1 (unat d + k)"
      using apart(1) that by (auto simp: with_content_def rd32_wr32_other)
    also have "\<dots> = rd32 (wr32 m (unat d) c) (unat d + k)"
      using apart(3) that by (intro rd32_cong) (auto simp: store_struct_def)
    finally show ?thesis .
  qed
  have "node_read ?m node = f" by (simp add: node_read_def with_content_def)
  moreover show "node_inode ?m node = d" by (simp add: node_inode_def with_content_def rd32_wr32_other)
  moreover show "data_content ?m d = c" using o [of 0] by (simp add: data_content_def)
  moreover have "data_size ?m d = of_nat (length bytes)"
    using o [of 4] assms(1) by (simp add: data_size_def rd32_wr32_other)
  moreover have "?m (unat c + i) = bytes ! i" if "i < length bytes" for i
    using that apart(2) by (auto simp: with_content_def wr32_other store_struct_def)
  ultimately show "file_at ?m f node bytes"
    using assms(2-4) by (auto simp: file_at_def intro!: nth_equalityI)
  show "leaf_same m ?m node"
    using apart by (auto simp: leaf_same_def with_content_def wr32_other store_struct_def)
qed

lemma ranges_disjoint:
  fixes p q n k :: nat
  assumes "{p ..< p + n} \<inter> {q ..< q + k} = {}" "0 < n" "0 < k"
  shows "p + n \<le> q \<or> q + k \<le> p"
proof (rule ccontr)
  assume "\<not> ?thesis"
  then have "max p q \<in> {p ..< p + n} \<inter> {q ..< q + k}" using assms(2,3) by auto
  with assms(1) show False by blast
qed

text \<open>The bytes of the contents and of their descriptor.\<close>

definition file_bytes :: "memory \<Rightarrow> u32 \<Rightarrow> nat \<Rightarrow> nat set" where
  "file_bytes m p n = {unat (node_inode m p) ..< unat (node_inode m p) + 8}
     \<union> {unat (data_content m (node_inode m p)) ..< unat (data_content m (node_inode m p)) + n}"

lemma file_at_frame:
  assumes f: "file_at m f p bytes" and same: "\<And>x. x \<in> file_bytes m p (length bytes) \<Longrightarrow> m' x = m x"
    and node: "rd32 m' (unat p + 264) = rd32 m (unat p + 264)" "rd32 m' (unat p + 440) = rd32 m (unat p + 440)"
  shows "file_at m' f p bytes" "file_bytes m' p n = file_bytes m p n"
proof -
  have d: "node_inode m' p = node_inode m p" "node_read m' p = node_read m p" using node by (simp_all add: node_inode_def node_read_def)
  have r: "rd32 m' (unat (node_inode m p) + k) = rd32 m (unat (node_inode m p) + k)" if "k = 0 \<or> k = 4" for k
    using that by (intro rd32_cong same) (auto simp: file_bytes_def)
  then have c: "data_content m' (node_inode m p) = data_content m (node_inode m p)" "data_size m' (node_inode m p) = data_size m (node_inode m p)"
    using r [of 0] r [of 4] by (simp_all add: data_content_def data_size_def)
  have "map (\<lambda>i. m' (unat (data_content m (node_inode m p)) + i)) [0..<length bytes] =
      map (\<lambda>i. m (unat (data_content m (node_inode m p)) + i)) [0..<length bytes]"
    by (intro map_cong refl same) (auto simp: file_bytes_def)
  with f show "file_at m' f p bytes" by (simp add: file_at_def d c del: map_eq_conv)
  show "file_bytes m' p n = file_bytes m p n" by (simp add: file_bytes_def d c)
qed

lemma store_content_room:
  fixes s :: "'a vfs_scheme"
  assumes room: "has_room s K L" and node: "(unat node, ln) \<in> L" "456 \<le> ln"
    and n: "length content + 20 < 2 ^ 32" "request (of_nat (length content) + 1) + 88 \<le> K"
  obtains s' d c ld lc where "store_content node content s = kret s'"
    "has_room s' (K - 24 - request (of_nat (length content) + 1)) (insert (unat c, lc) (insert (unat d, ld) L))"
    "8 \<le> ld" "length content < lc" "d \<noteq> 0" "c \<noteq> 0" "{unat d ..< unat d + ld} \<inter> (live_bytes L \<union> unmanaged) = {}"
    "{unat c ..< unat c + lc} \<inter> (live_bytes (insert (unat d, ld) L) \<union> unmanaged) = {}"
    "vfs_keeps s s'" "vfs_root s' = vfs_root s"
    "\<exists>m. mem s' = with_content m (fn_addr s Virtual_read) node d c (lit_bytes content) \<and> data_size m d = of_nat (length content)
       \<and> kept L (mem s) m"
proof -
  let ?n = "of_nat (length content) :: u32"
  have un: "unat ?n = length content" using n(1) by (simp add: unsigned_of_nat take_bit_nat_eq_self)
  then have un1: "unat (?n + 1) = length content + 1" using n(1) by (simp add: unat_add_u32)
  then have nz: "?n + 1 \<noteq> 0" by (metis add_is_0 unsigned_0 zero_neq_one)
  have r8: "request 8 = 24" by (simp add: request_def)
  obtain d s1 ld where d: "kmalloc 8 s = kret (d, s1)" "d \<noteq> 0" "unat (8 :: u32) \<le> ld" "has_room s1 (K - 24) (insert (unat d, ld) L)"
      "{unat d ..< unat d + ld} \<inter> (live_bytes L \<union> unmanaged) = {}" "kept L (mem s) (mem s1)"
    by (rule kmalloc_room [OF room, of 8]) (use n(2) r8 in auto)
  let ?L1 = "insert (unat d, ld) L" and ?s2 = "s1\<lparr>mem := wr32 (mem s1) (unat d + 4) ?n\<rparr>"
  have room2: "has_room ?s2 (K - 24) ?L1"
    using d(3) by (intro has_room_put [OF d(4)] wr32_other) auto
  obtain c s3 lc where c: "kmalloc (?n + 1) ?s2 = kret (c, s3)" "c \<noteq> 0" "unat (?n + 1) \<le> lc"
      "has_room s3 (K - 24 - request (?n + 1)) (insert (unat c, lc) ?L1)"
      "{unat c ..< unat c + lc} \<inter> (live_bytes ?L1 \<union> unmanaged) = {}" "kept ?L1 (mem ?s2) (mem s3)"
    by (rule kmalloc_room [OF room2, of "?n + 1"]) (use n un1 nz in auto)
  define m where "m = mem s3"
  have size: "data_size m d = ?n"
  proof -
    have "rd32 m (unat d + 4) = rd32 (mem ?s2) (unat d + 4)"
      using c(6) d(3) by (intro rd32_cong) (auto simp: kept_def m_def)
    then show ?thesis by (simp add: data_size_def)
  qed
  have dc: "unat c + length content + 1 \<le> unat d \<or> unat d + 8 \<le> unat c"
  proof -
    have "{unat c ..< unat c + lc} \<inter> {unat d ..< unat d + ld} = {}" using c(5) unfolding live_bytes_insert by blast
    then have "unat c + lc \<le> unat d \<or> unat d + ld \<le> unat c" by (rule ranges_disjoint) (use c(3) d(3) un1 in simp_all)
    then show ?thesis using c(3) d(3) un1 by auto
  qed
  let ?f = "fn_addr s Virtual_read" and ?m = "with_content m (fn_addr s Virtual_read) node d c (lit_bytes content)"
  have size2: "data_size (store_struct (wr32 m (unat d) c) (unat c) (\<lambda>i. if i < length content then lit_bytes content ! i else 0)
      (length content + 1)) d = ?n"
  proof -
    have "rd32 (store_struct (wr32 m (unat d) c) (unat c) g (length content + 1)) (unat d + 4) = rd32 m (unat d + 4)" for g
      using dc by (intro rd32_cong) (auto simp: store_struct_def wr32_other)
    then show ?thesis using size by (simp add: data_size_def)
  qed
  have keep: "vfs_keeps s s3" "vfs_root s3 = vfs_root s"
    using more_vfs [OF kmalloc_more [OF d(1)]] more_vfs [OF kmalloc_more [OF c(1)]] by (simp_all add: vfs_keeps_def)
  have run: "store_content node content s = kret (s3\<lparr>mem := ?m\<rparr>)"
    using d(1,2) c(1,2) keep(1) size2 by (simp add: store_content_def Let_def with_content_def m_def vfs_keeps_def)
  have "has_room (s3\<lparr>mem := ?m\<rparr>) (K - 24 - request (?n + 1)) (insert (unat c, lc) ?L1)"
  proof (rule has_room_put [OF c(4)])
    fix x assume x: "x \<notin> live_bytes (insert (unat c, lc) ?L1) \<union> unmanaged"
    have "x \<notin> {unat node ..< unat node + 456}" using x node by (auto intro: live_bytesI)
    with x show "?m x = mem s3 x" using d(3) c(3) un1
      by (auto simp: with_content_def m_def wr32_other store_struct_def)
  qed
  moreover have "kept L (mem s) m"
  proof -
    have "wr32 (mem s1) (unat d + 4) ?n x = mem s1 x" if "x \<in> live_bytes L \<union> unmanaged" for x
    proof (rule wr32_other)
      have "x \<notin> {unat d ..< unat d + ld}" using that d(5) by blast
      then show "x < unat d + 4 \<or> unat d + 4 + 4 \<le> x" using d(3) by auto
    qed
    then show ?thesis using d(6) c(6) by (simp add: kept_def m_def live_bytes_insert)
  qed
  moreover have "vfs_keeps s (s3\<lparr>mem := ?m\<rparr>)" "vfs_root (s3\<lparr>mem := ?m\<rparr>) = vfs_root s" using keep by (simp_all add: vfs_keeps_def)
  ultimately show thesis using that [OF run, of c lc d ld] d c un1 size by auto
qed

lemma create_virtual_file_room:
  fixes s :: "'a vfs_scheme"
  assumes room: "has_room s K L" and name: "lit_ok name"
    and n: "length content + 20 < 2 ^ 32" "request (of_nat (length content) + 1) + 560 \<le> K"
  obtains p s' len L' where "vfs_create_virtual_file name (Some content) s = kret (p, s')"
    "has_room s' (K - 496 - request (of_nat (length content) + 1)) L'" "insert (unat p, len) L \<subseteq> L'" "456 \<le> len"
    "{unat p ..< unat p + len} \<inter> (live_bytes L \<union> unmanaged) = {}" "kept L (mem s) (mem s')"
    "leaf_ok (mem s') (VFile p (lit_bytes name))" "file_at (mem s') (fn_addr s Virtual_read) p (lit_bytes content)"
    "file_bytes (mem s') p (length content) \<inter> (live_bytes (insert (unat p, len) L) \<union> unmanaged) = {}"
    "vfs_keeps s s'" "vfs_root s' = vfs_root s" "file_bytes (mem s') p (length content) \<subseteq> live_bytes L'"
proof (rule new_node [OF room])
  show "504 \<le> K" using n(2) by simp
  fix p s1 len assume al: "kmalloc VFS_NODE_SIZE s = kret (p, s1)" "p \<noteq> 0" "456 \<le> len" "vfs_keeps s s1" "vfs_root s1 = vfs_root s"
    and new: "{unat p ..< unat p + len} \<inter> (live_bytes L \<union> unmanaged) = {}"
    and wr: "\<And>m. (\<And>x. x < unat p \<or> unat p + 456 \<le> x \<Longrightarrow> m x = mem s1 x) \<Longrightarrow>
      has_room (s1\<lparr>mem := m\<rparr>) (K - 472) (insert (unat p, len) L) \<and> kept L (mem s) m"
  let ?n = "of_nat (length content) :: u32" and ?L1 = "insert (unat p, len) L"
  define m1 where "m1 = virtual_file (mem s1) p name"
  have room1: "has_room (s1\<lparr>mem := m1\<rparr>) (K - 472) ?L1" and k1: "kept L (mem s) m1"
    using wr [of m1] virtual_file_frame by (auto simp: m1_def)
  obtain s2 d c ld lc m where s2: "store_content p content (s1\<lparr>mem := m1\<rparr>) = kret s2"
    "has_room s2 (K - 472 - 24 - request (?n + 1)) (insert (unat c, lc) (insert (unat d, ld) ?L1))"
    "8 \<le> ld" "length content < lc" "d \<noteq> 0" "c \<noteq> 0" "{unat d ..< unat d + ld} \<inter> (live_bytes ?L1 \<union> unmanaged) = {}"
    "{unat c ..< unat c + lc} \<inter> (live_bytes (insert (unat d, ld) ?L1) \<union> unmanaged) = {}"
    "vfs_keeps s1 s2" "vfs_root s2 = vfs_root s1"
    and m: "mem s2 = with_content m (fn_addr s1 Virtual_read) p d c (lit_bytes content)" "data_size m d = ?n" "kept ?L1 m1 m"
    by (rule store_content_room [OF room1 _ al(3), where content = content and node = p]) (use n in \<open>auto simp: vfs_keeps_def\<close>)
  have apart: "unat d + 8 \<le> unat p \<or> unat p + 456 \<le> unat d" "unat c + length content + 1 \<le> unat p \<or> unat p + 456 \<le> unat c"
      "unat c + length content + 1 \<le> unat d \<or> unat d + 8 \<le> unat c"
  proof -
    have "{unat d ..< unat d + ld} \<inter> {unat p ..< unat p + len} = {}" "{unat c ..< unat c + lc} \<inter> {unat p ..< unat p + len} = {}"
        "{unat c ..< unat c + lc} \<inter> {unat d ..< unat d + ld} = {}"
      using s2(7,8) unfolding live_bytes_insert by blast+
    then have "unat d + ld \<le> unat p \<or> unat p + len \<le> unat d" "unat c + lc \<le> unat p \<or> unat p + len \<le> unat c"
        "unat c + lc \<le> unat d \<or> unat d + ld \<le> unat c"
      using s2(3,4) al(3) by (auto dest!: ranges_disjoint)
    then show "unat d + 8 \<le> unat p \<or> unat p + 456 \<le> unat d" "unat c + length content + 1 \<le> unat p \<or> unat p + 456 \<le> unat c"
      "unat c + length content + 1 \<le> unat d \<or> unat d + 8 \<le> unat c" using s2(3,4) al(3) by auto
  qed
  have apart2: "unat c + length (lit_bytes content) + 1 \<le> unat p \<or> unat p + 456 \<le> unat c"
      "unat c + length (lit_bytes content) + 1 \<le> unat d \<or> unat d + 8 \<le> unat c" "data_size m d = of_nat (length (lit_bytes content))"
    using apart m(2) by simp_all
  have "unat c + length (lit_bytes content) < 2 ^ 32"
  proof -
    have "unat c + length content \<in> {unat c ..< unat c + lc}" using s2(4) by simp
    then have "unat c + length content \<notin> unmanaged" using s2(8) by blast
    then show ?thesis by (simp add: unmanaged_def)
  qed
  note wc = with_content_file [OF apart2(3) s2(5,6) this apart(1) apart2(1,2), where f = "fn_addr s1 Virtual_read", folded m(1)]
  have fb: "file_bytes (mem s2) p (length content) \<subseteq> {unat d ..< unat d + ld} \<union> {unat c ..< unat c + lc}"
    using s2(3,4) by (auto simp: file_bytes_def wc(3,4))
  have "leaf_same m1 m p" using m(3) al(3) by (simp add: leaf_same_def kept_def live_bytes_insert)
  then have "leaf_same m1 (mem s2) p" using wc(2) by (simp add: leaf_same_def)
  then have "leaf_ok (mem s2) (VFile p (lit_bytes name))"
    using leaf_ok_same [OF virtual_file_leaf [OF name al(2)], of "mem s1"] by (simp add: m1_def)
  moreover have "kept L (mem s) (mem s2)"
  proof -
    have "mem s2 x = m x" if x: "x \<in> live_bytes L \<union> unmanaged" for x
    proof -
      have "x \<notin> {unat p ..< unat p + len}" "x \<notin> {unat d ..< unat d + ld}" "x \<notin> {unat c ..< unat c + lc}"
        using x new s2(7,8) unfolding live_bytes_insert by blast+
      then show ?thesis using al(3) s2(3,4) unfolding m(1) by (auto simp: with_content_def wr32_other store_struct_def)
    qed
    then show ?thesis using k1 m(3) by (simp add: kept_def live_bytes_insert)
  qed
  moreover have "file_bytes (mem s2) p (length content) \<inter> (live_bytes ?L1 \<union> unmanaged) = {}"
    using fb s2(7,8) unfolding live_bytes_insert by blast
  moreover have "file_bytes (mem s2) p (length content) \<subseteq> live_bytes (insert (unat c, lc) (insert (unat d, ld) ?L1))"
    using fb unfolding live_bytes_insert by blast
  moreover have "vfs_keeps s s2" "vfs_root s2 = vfs_root s" "fn_addr s1 = fn_addr s"
    using al(4,5) s2(9,10) by (simp_all add: vfs_keeps_def)
  moreover have "vfs_create_virtual_file name (Some content) s = kret (p, s2)"
    using al(1,2) s2(1) by (simp add: vfs_create_virtual_file_eq m1_def)
  ultimately show thesis using that [of p s2 "insert (unat c, lc) (insert (unat d, ld) ?L1)" len] s2(2) al(3) new wc(1) by fastforce
qed

end
