(* ===== verification/KFS_Vfs_Init.thy ===== *)
theory KFS_Vfs_Init
  imports KFS_Vfs_Nodes
begin

text \<open>
  The initial tree of the virtual file system: \<open>vfs_init\<close> builds the root with its three directories and
  the file \<open>readme.txt\<close>, whose contents \<open>vfs_read\<close> delivers. The bound
  of a read fails when offset and size wrap around (\<open>virtual_read_wrap\<close>).
\<close>

section \<open>The initial tree\<close>

lemma base_inv_hw [simp]: "base_inv L0 m0 K L ts (s\<lparr>hw := h\<rparr>) = base_inv L0 m0 K L ts s"
  by (simp add: base_inv_def)

lemma create_root:
  fixes s :: "'a vfs_scheme"
  assumes room: "has_room s K L" and K: "504 \<le> K"
  obtains p s' L' where "vfs_create_virtual_dir ''/'' s = kret (p, s')" "base_inv L (mem s) (K - 472) L' [] (s'\<lparr>vfs_root := p\<rparr>)"
    "vfs_keeps s s'"
proof (rule create_virtual_dir_room [OF room K, of "''/''"])
  show "lit_ok ''/''" by (simp add: lit_ok_def lit_bytes_def)
  fix p s' len assume s': "vfs_create_virtual_dir ''/'' s = kret (p, s')" "456 \<le> len" "has_room s' (K - 472) (insert (unat p, len) L)"
    "{unat p ..< unat p + len} \<inter> (live_bytes L \<union> unmanaged) = {}" "kept L (mem s) (mem s')"
    "leaf_ok (mem s') (VDir p (lit_bytes ''/'') [])" "vfs_keeps s s'"
  have "lit_bytes ''/'' = [47]" by (simp add: lit_bytes_def)
  with s'(6) have "base_dir (mem s') p []" by (simp add: base_dir_def)
  moreover have "fresh_nodes L [p]"
  proof -
    have "{unat p ..< unat p + 456} \<subseteq> {unat p ..< unat p + len}" using s'(2) by auto
    with s'(4) have "{unat p ..< unat p + 456} \<inter> (live_bytes L \<union> unmanaged) = {}" by blast
    then show ?thesis by (simp add: fresh_nodes_def)
  qed
  moreover have "has_room (s'\<lparr>vfs_root := p\<rparr>) (K - 472) (insert (unat p, len) L)"
    using s'(3) by (simp add: has_room_def heap_abs_def)
  ultimately have "base_inv L (mem s) (K - 472) (insert (unat p, len) L) [] (s'\<lparr>vfs_root := p\<rparr>)"
    using s'(2,5) by (auto simp: base_inv_def owned_def)
  then show thesis by (rule that [OF s'(1) _ s'(7)])
qed

text \<open>The nodes below the root, in the order in which they are found.\<close>

definition base_nodes :: "u32 \<Rightarrow> u32 \<Rightarrow> u32 \<Rightarrow> u32 \<Rightarrow> vtree list" where
  "base_nodes readme home tmp dv = [VFile readme (lit_bytes ''readme.txt''), VDir home (lit_bytes ''home'') [],
     VDir tmp (lit_bytes ''tmp'') [], VDir dv (lit_bytes ''dev'') []]"

definition base_ready :: "(nat \<times> nat) set \<Rightarrow> memory \<Rightarrow> (nat \<times> nat) set \<Rightarrow> u32 \<Rightarrow> vtree list \<Rightarrow> 'a vfs_scheme \<Rightarrow> bool" where
  "base_ready L0 m0 L p ts s \<longleftrightarrow> (\<exists>K. base_inv L0 m0 K L ts s) \<and> p \<in> tptr ` set ts
     \<and> file_bytes (mem s) p (length readme_text) \<inter> (live_bytes L0 \<union> unmanaged) = {}
     \<and> file_bytes (mem s) p (length readme_text) \<subseteq> live_bytes L
     \<and> file_at (mem s) (fn_addr s Virtual_read) p (lit_bytes readme_text)
     \<and> (\<forall>q \<in> set (vfs_root s # map tptr ts).
          file_bytes (mem s) p (length readme_text) \<inter> {unat q ..< unat q + 456} = {})"

lemma add_readme:
  fixes s :: "'a vfs_scheme"
  assumes inv: "base_inv L0 m0 K L ts s" and K: "640 \<le> K"
  obtains p s1 L' where "vfs_create_virtual_file ''readme.txt'' (Some readme_text) s = kret (p, s1)"
    "base_ready L0 m0 L' p (VFile p (lit_bytes ''readme.txt'') # ts) (add_to_root p msg s1)" "vfs_keeps s (add_to_root p msg s1)"
proof -
  let ?t = "\<lambda>p. VFile p (lit_bytes ''readme.txt'')"
  have room: "has_room s K L" and own: "owned L 456 (vfs_root s # map tptr ts)" using inv by (simp_all add: base_inv_def)
  have len: "length readme_text = 39" by (simp add: readme_text_def)
  have r: "request (of_nat (length readme_text) + 1) = 56" by (simp add: len request_def)
  have name: "lit_ok ''readme.txt''" by (simp add: lit_ok_def lit_bytes_def)
  obtain p s1 n L' where c: "vfs_create_virtual_file ''readme.txt'' (Some readme_text) s = kret (p, s1)"
    "has_room s1 (K - 496 - 56) L'" "insert (unat p, n) L \<subseteq> L'" "456 \<le> n"
    "{unat p ..< unat p + n} \<inter> (live_bytes L \<union> unmanaged) = {}" "kept L (mem s) (mem s1)"
    "leaf_ok (mem s1) (?t p)" "file_at (mem s1) (fn_addr s Virtual_read) p (lit_bytes readme_text)"
    "file_bytes (mem s1) p (length readme_text) \<inter> (live_bytes (insert (unat p, n) L) \<union> unmanaged) = {}"
    "vfs_keeps s s1" "vfs_root s1 = vfs_root s" "file_bytes (mem s1) p (length readme_text) \<subseteq> live_bytes L'"
    by (rule create_virtual_file_room [OF room name, of readme_text, unfolded r]) (use K len in auto)
  have c3: "insert (unat (tptr (?t p)), n) L \<subseteq> L'" "{unat (tptr (?t p)) ..< unat (tptr (?t p)) + n} \<inter> (live_bytes L \<union> unmanaged) = {}"
    using c(3,5) by simp_all
  note add = base_inv_add [OF inv c(2) c3(1) c(4) c3(2) c(6,7,11), where msg = msg, unfolded tptr.simps]
  let ?s = "add_to_root p msg s1"
  have keeps: "vfs_keeps s ?s" "vfs_root ?s = vfs_root s" "fn_addr ?s = fn_addr s"
    using c(10,11) by (simp_all add: vfs_keeps_def add_to_root_def printk_def on_hw_def Let_def)
  have nodes: "{unat q ..< unat q + 456} \<subseteq> live_bytes (insert (unat p, n) L)" if "q \<in> set (vfs_root s # p # map tptr ts)" for q
    using that own c(4) by (fastforce simp: owned_def intro: live_bytesI)
  have out: "file_bytes (mem s1) p (length readme_text) \<inter> {unat q ..< unat q + 456} = {}"
    if "q \<in> set (vfs_root s # p # map tptr ts)" for q using nodes [OF that] c(9) by blast
  have same: "mem ?s x = mem s1 x" if "x \<in> file_bytes (mem s1) p (length (lit_bytes readme_text))" for x
    using that out [of p] out [of "vfs_root s"] by (intro add(2)) auto
  note f = file_at_frame [OF c(8) same add(3) add(3)]
  have "live_bytes L0 \<subseteq> live_bytes (insert (unat p, n) L)" using inv by (intro live_bytes_mono) (auto simp: base_inv_def)
  then have old: "file_bytes (mem s1) p (length readme_text) \<inter> (live_bytes L0 \<union> unmanaged) = {}" using c(9) by blast
  have "base_ready L0 m0 L' p (?t p # ts) ?s"
    unfolding base_ready_def using add(1) f out keeps old c(12) by auto
  then show thesis using that [OF c(1)] keeps(1) by blast
qed

lemma base_dirs_ready:
  fixes s :: "'a vfs_scheme"
  assumes room: "has_room s K L" and K: "2600 \<le> K" and root: "vfs_root s = 0"
  obtains s' L' p4 p3 p2 p1 where "vfs_create_base_dirs s = kret s'" "base_ready L (mem s) L' p4 (base_nodes p4 p3 p2 p1) s'" "vfs_keeps s s'"
proof -
  have lits: "lit_ok ''dev''" "lit_ok ''tmp''" "lit_ok ''home''" by (simp_all add: lit_ok_def lit_bytes_def)
  obtain r s0 L0 where r: "vfs_create_virtual_dir ''/'' s = kret (r, s0)" "base_inv L (mem s) (K - 472) L0 [] (s0\<lparr>vfs_root := r\<rparr>)"
    "vfs_keeps s s0" by (rule create_root [OF room]) (use K in auto)
  define s1 where "s1 = printk ''[VFS] Created virtual root directory\<newline>'' [] (s0\<lparr>vfs_root := r\<rparr>)"
  have inv1: "base_inv L (mem s) (K - 472) L0 [] s1" using r(2) by (simp add: s1_def printk_def on_hw_def)
  obtain s2 L2 p1 where s2: "add_dir ''dev'' ''[VFS] Created /dev directory\<newline>'' s1 = kret s2"
    "base_inv L (mem s) (K - 472 - 472) L2 [VDir p1 (lit_bytes ''dev'') []] s2" "vfs_keeps s1 s2"
    by (rule add_dir_step [OF inv1 _ lits(1)]) (use K in auto)
  obtain s3 L3 p2 where s3: "add_dir ''tmp'' ''[VFS] Created /tmp directory\<newline>'' s2 = kret s3"
    "base_inv L (mem s) (K - 472 - 472 - 472) L3 [VDir p2 (lit_bytes ''tmp'') [], VDir p1 (lit_bytes ''dev'') []] s3" "vfs_keeps s2 s3"
    by (rule add_dir_step [OF s2(2) _ lits(2)]) (use K in auto)
  obtain s4 L4 p3 where s4: "add_dir ''home'' ''[VFS] Created /home directory\<newline>'' s3 = kret s4"
    "base_inv L (mem s) (K - 472 - 472 - 472 - 472) L4
       [VDir p3 (lit_bytes ''home'') [], VDir p2 (lit_bytes ''tmp'') [], VDir p1 (lit_bytes ''dev'') []] s4" "vfs_keeps s3 s4"
    by (rule add_dir_step [OF s3(2) _ lits(3)]) (use K in auto)
  obtain p4 s5 L5 where s5: "vfs_create_virtual_file ''readme.txt'' (Some readme_text) s4 = kret (p4, s5)"
    "base_ready L (mem s) L5 p4 (VFile p4 (lit_bytes ''readme.txt'') # [VDir p3 (lit_bytes ''home'') [], VDir p2 (lit_bytes ''tmp'') [],
       VDir p1 (lit_bytes ''dev'') []]) (add_to_root p4 ''[VFS] Created /readme.txt test file\<newline>'' s5)"
    "vfs_keeps s4 (add_to_root p4 ''[VFS] Created /readme.txt test file\<newline>'' s5)"
    by (rule add_readme [OF s4(2)]) (use K in auto)
  have run: "vfs_create_base_dirs s = kret (add_to_root p4 ''[VFS] Created /readme.txt test file\<newline>'' s5)"
    unfolding vfs_create_base_dirs_def by (simp only: root r(1) s2(1) s3(1) s4(1) s5(1) kbind_kret prod.case if_True simp_thms flip: s1_def)
  have "vfs_keeps s s1" using r(3) by (simp add: s1_def vfs_keeps_def printk_def on_hw_def)
  then have keeps: "vfs_keeps s (add_to_root p4 ''[VFS] Created /readme.txt test file\<newline>'' s5)"
    using s2(3) s3(3) s4(3) s5(3) by (simp add: vfs_keeps_def)
  show thesis by (rule that [OF run _ keeps, of L5 p4 p3 p2 p1]) (use s5(2) in \<open>simp add: base_nodes_def\<close>)
qed

text \<open>Giving the directories their operations.\<close>

lemma set_children_ops_run:
  fixes s :: "'a vfs_scheme"
  assumes "chain (mem s) 284 child (map tptr ts)" "\<forall>t \<in> set ts. leaf_ok (mem s) t" "distinct (map tptr ts)"
    "\<And>p q. p \<in> set (map tptr ts) \<Longrightarrow> q \<in> set (map tptr ts) \<Longrightarrow> p \<noteq> q \<Longrightarrow> unat p + 456 \<le> unat q \<or> unat q + 456 \<le> unat p"
  shows "\<exists>m'. set_children_ops child s = Some (s\<lparr>mem := m'\<rparr>)
    \<and> (\<forall>x. (\<forall>t \<in> set ts. x \<notin> {unat (tptr t) + 448 ..< unat (tptr t) + 456}) \<longrightarrow> m' x = mem s x)
    \<and> (\<forall>t \<in> set ts. node_finddir m' (tptr t) = (case t of VDir p nm us \<Rightarrow> fn_addr s Virtual_finddir | VFile p nm \<Rightarrow> 0))"
  using assms
proof (induction ts arbitrary: child s)
  case Nil
  then show ?case by (subst set_children_ops.simps) (auto intro!: exI [of _ "mem s"])
next
  case (Cons t ts)
  let ?p = "tptr t"
  have child: "child = ?p" "?p \<noteq> 0" "chain (mem s) 284 (node_next_sibling (mem s) ?p) (map tptr ts)"
    using Cons.prems(1) by (auto simp: node_next_sibling_def)
  have apart: "unat q + 456 \<le> unat ?p \<or> unat ?p + 456 \<le> unat q" if "q \<in> set (map tptr ts)" for q
  proof -
    have "q \<noteq> ?p" using Cons.prems(3) that by (simp only: list.map distinct.simps) blast
    then show ?thesis using that by (intro Cons.prems(4)) auto
  qed
  define m1 where "m1 = (case t of VDir p nm us \<Rightarrow> mem (set_dir_ops p s) | VFile p nm \<Rightarrow> mem s)"
  have m1: "m1 x = mem s x" if "x \<notin> {unat ?p + 448 ..< unat ?p + 456}" for x
    using that by (cases t) (auto simp: m1_def set_dir_ops_def wr32_other)
  have same: "node_same (mem s) m1 q" if "q \<in> set (map tptr ts)" for q
    unfolding node_same_def using apart [OF that] by (intro ballI m1) auto
  have fin: "node_finddir m1 ?p = (case t of VDir p nm us \<Rightarrow> fn_addr s Virtual_finddir | VFile p nm \<Rightarrow> 0)"
    using Cons.prems(2) by (cases t) (auto simp: m1_def set_dir_ops_def node_finddir_def)
  have next1: "node_next_sibling m1 ?p = node_next_sibling (mem s) ?p"
    unfolding node_next_sibling_def by (intro rd32_cong m1) auto
  have step: "set_children_ops child s = set_children_ops (node_next_sibling (mem s) ?p) (s\<lparr>mem := m1\<rparr>)"
    using Cons.prems(2) child(2) next1 unfolding child(1)
    by (subst set_children_ops.simps) (cases t; simp add: Let_def m1_def set_dir_ops_def)
  have ch1: "chain m1 284 (node_next_sibling (mem s) ?p) (map tptr ts)"
    using child(3) chain_cong [of "map tptr ts" m1 284 "mem s"] node_same_rd32 [OF same, of _ 284] by simp
  have lf1: "\<forall>u \<in> set ts. leaf_ok m1 u"
  proof
    fix u assume u: "u \<in> set ts"
    show "leaf_ok m1 u" by (rule leaf_ok_same [of "mem s"]) (use Cons.prems(2) u same in \<open>auto intro: node_same_leaf\<close>)
  qed
  obtain m' where m': "set_children_ops (node_next_sibling (mem s) ?p) (s\<lparr>mem := m1\<rparr>) = Some (s\<lparr>mem := m'\<rparr>)"
      "\<And>x. (\<forall>t \<in> set ts. x \<notin> {unat (tptr t) + 448 ..< unat (tptr t) + 456}) \<Longrightarrow> m' x = m1 x"
      "\<forall>t \<in> set ts. node_finddir m' (tptr t) = (case t of VDir p nm us \<Rightarrow> fn_addr s Virtual_finddir | VFile p nm \<Rightarrow> 0)"
  proof -
    have fa: "fn_addr (s\<lparr>mem := m1\<rparr>) = fn_addr s" "s\<lparr>mem := m1, mem := m2\<rparr> = s\<lparr>mem := m2\<rparr>" for m2 by simp_all
    show thesis
      using that Cons.IH [of "s\<lparr>mem := m1\<rparr>" "node_next_sibling (mem s) ?p", unfolded fa] ch1 lf1 Cons.prems(3,4) by auto
  qed
  have "node_finddir m' ?p = node_finddir m1 ?p"
    unfolding node_finddir_def using apart by (intro rd32_cong m'(2)) fastforce
  moreover have "m' x = mem s x" if "\<forall>t \<in> set (t # ts). x \<notin> {unat (tptr t) + 448 ..< unat (tptr t) + 456}" for x
    using that m'(2) m1 by simp
  ultimately show ?case using step m'(1,3) fin by (intro exI [of _ m']) simp
qed

lemma base_tree:
  assumes base: "base_dir m root ts" and dirs: "\<And>p nm us. VDir p nm us \<in> set ts \<Longrightarrow> us = []"
    and apart: "\<And>p q. p \<in> set (root # map tptr ts) \<Longrightarrow> q \<in> set (root # map tptr ts) \<Longrightarrow> p \<noteq> q \<Longrightarrow>
      unat p + 456 \<le> unat q \<or> unat q + 456 \<le> unat p" and dist: "distinct (root # map tptr ts)"
    and out: "\<And>x. (\<forall>q \<in> set (root # map tptr ts). x \<notin> {unat q + 448 ..< unat q + 456}) \<Longrightarrow> m' x = m x"
    and ops: "node_finddir m' root = f" "\<forall>t \<in> set ts. node_finddir m' (tptr t) = (case t of VDir p nm us \<Rightarrow> f | VFile p nm \<Rightarrow> 0)"
  shows "tree_at m' f (VDir root [47] ts)"
proof -
  have low: "m' (unat q + i) = m (unat q + i)" if "q \<in> set (root # map tptr ts)" "i < 448" for q i
  proof (rule out, rule ballI)
    fix q' assume q': "q' \<in> set (root # map tptr ts)"
    show "unat q + i \<notin> {unat q' + 448 ..< unat q' + 456}" using apart [OF that(1) q'] that(2) by (cases "q = q'") auto
  qed
  have rd: "rd32 m' (unat q + k) = rd32 m (unat q + k)" if "q \<in> set (root # map tptr ts)" "k + 4 \<le> 448" for q k
    using low [OF that(1)] that(2) by (intro rd32_cong) (simp add: add.assoc)
  have name: "cstr m' (unat q) nm = cstr m (unat q) nm" if "q \<in> set (root # map tptr ts)" "length nm \<le> 255" for q nm
    using low [OF that(1)] that(2) by (intro cstr_cong) simp
  have ch: "chain m' 284 p0 (map tptr ts) = chain m 284 p0 (map tptr ts)" for p0
    by (rule chain_cong) (use rd in auto)
  have leaf: "tree_at m' f t" if t: "t \<in> set ts" for t
  proof -
    have q: "tptr t \<in> set (root # map tptr ts)" using t by auto
    show ?thesis
    proof (cases t)
      case (VDir p nm us)
      then show ?thesis using base t q dirs [of p nm us] ops(2) name [OF q] rd [OF q]
        by (fastforce simp: base_dir_def node_type_def node_children_def)
    next
      case (VFile p nm)
      then show ?thesis using base t q ops(2) name [OF q] by (fastforce simp: base_dir_def)
    qed
  qed
  then show ?thesis using base ops(1) ch name [of root "[47]"] rd [of root]
    by (simp add: base_dir_def node_type_def node_children_def)
qed

definition base_root :: "u32 \<Rightarrow> u32 \<Rightarrow> u32 \<Rightarrow> u32 \<Rightarrow> u32 \<Rightarrow> vtree" where
  "base_root root readme home tmp dv = VDir root [47] (base_nodes readme home tmp dv)"

text \<open>The last step of \<open>vfs_init\<close>, on the root and its children.\<close>

lemma set_ops_tree:
  fixes s :: "'a vfs_scheme"
  assumes inv: "base_inv L0 m0 K L ts s" and dirs: "\<And>p nm us. VDir p nm us \<in> set ts \<Longrightarrow> us = []"
  obtains m' where "(let s4 = set_dir_ops (vfs_root s) s in set_children_ops (node_children (mem s4) (vfs_root s4)) s4) = Some (s\<lparr>mem := m'\<rparr>)"
    "tree_at m' (fn_addr s Virtual_finddir) (VDir (vfs_root s) [47] ts)"
    "\<And>x. (\<forall>q \<in> set (vfs_root s # map tptr ts). x \<notin> {unat q + 448 ..< unat q + 456}) \<Longrightarrow> m' x = mem s x"
proof -
  let ?r = "vfs_root s" and ?f = "fn_addr s Virtual_finddir"
  have i: "has_room s K L" "owned L 456 (?r # map tptr ts)" "base_dir (mem s) ?r ts" using inv by (simp_all add: base_inv_def)
  note apart = kheap.owned_disjoint [OF has_room_rep [OF i(1)] i(2)]
  have dist: "distinct (?r # map tptr ts)" using i(2) by (simp add: owned_def)
  have child: "q \<in> set (map tptr ts) \<Longrightarrow> unat q + 456 \<le> unat ?r \<or> unat ?r + 456 \<le> unat q" for q
    using dist by (intro apart) force+
  define m4 where "m4 = mem (set_dir_ops ?r s)"
  have m4: "m4 x = mem s x" if "x \<notin> {unat ?r + 448 ..< unat ?r + 456}" for x
    using that by (auto simp: m4_def set_dir_ops_def wr32_other)
  have same4: "node_same (mem s) m4 q" if q: "q \<in> set (map tptr ts)" for q
    unfolding node_same_def using child [OF q] by (intro ballI m4) auto
  have "node_children m4 ?r = node_children (mem s) ?r" unfolding node_children_def by (intro rd32_cong m4) auto
  then have ch4: "chain m4 284 (node_children m4 ?r) (map tptr ts)"
    using i(3) chain_cong [of "map tptr ts" m4 284 "mem s"] node_same_rd32 [OF same4, of _ 284] by (simp add: base_dir_def)
  have lf4: "\<forall>t \<in> set ts. leaf_ok m4 t"
    using i(3) same4 by (auto simp: base_dir_def intro!: leaf_ok_same [of "mem s" _ m4] node_same_leaf)
  have s4: "set_dir_ops ?r s = s\<lparr>mem := m4\<rparr>" by (simp add: m4_def set_dir_ops_def)
  have fa: "fn_addr (s\<lparr>mem := m4\<rparr>) = fn_addr s" "s\<lparr>mem := m4, mem := m\<rparr> = s\<lparr>mem := m\<rparr>" for m by simp_all
  obtain m5 where m5: "set_children_ops (node_children m4 ?r) (s\<lparr>mem := m4\<rparr>) = Some (s\<lparr>mem := m5\<rparr>)"
    "\<And>x. (\<forall>t \<in> set ts. x \<notin> {unat (tptr t) + 448 ..< unat (tptr t) + 456}) \<Longrightarrow> m5 x = m4 x"
    "\<forall>t \<in> set ts. node_finddir m5 (tptr t) = (case t of VDir p nm us \<Rightarrow> ?f | VFile p nm \<Rightarrow> 0)"
    using set_children_ops_run [of "s\<lparr>mem := m4\<rparr>" "node_children m4 ?r" ts, unfolded fa] ch4 lf4 dist apart by auto
  have out: "m5 x = mem s x" if "\<forall>q \<in> set (?r # map tptr ts). x \<notin> {unat q + 448 ..< unat q + 456}" for x
    using that m5(2) [of x] m4 [of x] by simp
  have "m5 (unat ?r + 452 + k) = m4 (unat ?r + 452 + k)" if "k < 4" for k
    using child that by (intro m5(2)) fastforce
  then have "node_finddir m5 ?r = node_finddir m4 ?r" unfolding node_finddir_def by (intro rd32_cong)
  then have root5: "node_finddir m5 ?r = ?f" by (simp add: m4_def set_dir_ops_def node_finddir_def)
  have "tree_at m5 ?f (VDir ?r [47] ts)"
    by (rule base_tree [OF i(3) dirs apart dist out root5 m5(3)])
  then show thesis using that [of m5] m5(1) out by (simp add: Let_def s4)
qed

lemma base_ready_file:
  assumes ready: "base_ready L0 m0 L p ts s"
    and out: "\<And>x. (\<forall>q \<in> set (vfs_root s # map tptr ts). x \<notin> {unat q + 448 ..< unat q + 456}) \<Longrightarrow> m' x = mem s x"
  shows "file_at m' (fn_addr s Virtual_read) p (lit_bytes readme_text)"
    "file_bytes m' p (length readme_text) \<inter> (live_bytes L0 \<union> unmanaged) = {}" "file_bytes m' p (length readme_text) \<subseteq> live_bytes L"
proof -
  let ?ps = "vfs_root s # map tptr ts"
  from ready obtain K where "base_inv L0 m0 K L ts s" by (auto simp: base_ready_def)
  moreover from ready have p: "p \<in> set ?ps" and fl: "file_at (mem s) (fn_addr s Virtual_read) p (lit_bytes readme_text)"
    and fb: "\<And>q. q \<in> set ?ps \<Longrightarrow> file_bytes (mem s) p (length readme_text) \<inter> {unat q ..< unat q + 456} = {}"
    by (auto simp: base_ready_def)
  ultimately have i: "has_room s K L" "owned L 456 ?ps" by (simp_all add: base_inv_def)
  note apart = kheap.owned_disjoint [OF has_room_rep [OF i(1)] i(2) p]
  have same: "m' x = mem s x" if x: "x \<in> file_bytes (mem s) p (length (lit_bytes readme_text))" for x
  proof (rule out, rule ballI)
    fix q assume "q \<in> set ?ps"
    from fb [OF this] x have "x \<notin> {unat q ..< unat q + 456}" unfolding length_lit_bytes by blast
    then show "x \<notin> {unat q + 448 ..< unat q + 456}" by auto
  qed
  have low: "m' (unat p + k) = mem s (unat p + k)" if "k < 448" for k
  proof (rule out, rule ballI)
    fix q assume q: "q \<in> set ?ps"
    show "unat p + k \<notin> {unat q + 448 ..< unat q + 456}" using apart [OF q] that by (cases "q = p") auto
  qed
  have "rd32 m' (unat p + 264) = rd32 (mem s) (unat p + 264)" "rd32 m' (unat p + 440) = rd32 (mem s) (unat p + 440)"
    by (rule rd32_cong; simp add: add.assoc low)+
  note f = file_at_frame [OF fl same this]
  have "file_bytes m' p n = file_bytes (mem s) p n" for n by (rule f(2))
  then show "file_bytes m' p (length readme_text) \<inter> (live_bytes L0 \<union> unmanaged) = {}"
    "file_bytes m' p (length readme_text) \<subseteq> live_bytes L"
    using ready by (simp_all add: base_ready_def)
  show "file_at m' (fn_addr s Virtual_read) p (lit_bytes readme_text)" by (rule f(1))
qed

lemma vfs_init_tree:
  fixes s :: "'a vfs_scheme"
  assumes room: "has_room s K L" and K: "2600 \<le> K"
  obtains s' L' root readme home tmp dv where "vfs_init s = kret s'" "heap_rep s' L'" "L \<subseteq> L'" "kept L (mem s) (mem s')"
    "vfs_root s' = root" "vfs_keeps s s'" "tree_at (mem s') (fn_addr s' Virtual_finddir) (base_root root readme home tmp dv)"
    "footprint (base_root root readme home tmp dv) \<inter> (live_bytes L \<union> unmanaged) = {}"
    "file_at (mem s') (fn_addr s' Virtual_read) readme (lit_bytes readme_text)"
    "file_bytes (mem s') readme (length readme_text) \<inter> (live_bytes L \<union> unmanaged) = {}"
    "footprint (base_root root readme home tmp dv) \<union> file_bytes (mem s') readme (length readme_text) \<subseteq> live_bytes L'"
proof -
  define s2 where "s2 = (printk ''[VFS] Initializing Virtual File System...\<newline>'' [] s)\<lparr>vfs_root := 0,
    mounts := replicate 16 vfs_mount_zero, mount_count := 0\<rparr>"
  have s2: "has_room s2 K L" "vfs_root s2 = 0" "mem s2 = mem s" "vfs_keeps s s2"
    using room by (simp_all add: s2_def has_room_def heap_abs_def printk_def on_hw_def vfs_keeps_def)
  obtain s3 L' p4 p3 p2 p1 where s3: "vfs_create_base_dirs s2 = kret s3" "base_ready L (mem s2) L' p4 (base_nodes p4 p3 p2 p1) s3"
    "vfs_keeps s2 s3" by (rule base_dirs_ready [OF s2(1) K s2(2)])
  let ?ts = "base_nodes p4 p3 p2 p1" and ?r = "vfs_root s3"
  from s3(2) obtain K' where inv: "base_inv L (mem s) K' L' ?ts s3" by (auto simp: base_ready_def s2(3))
  then have i: "has_room s3 K' L'" "L \<subseteq> L'" "kept L (mem s) (mem s3)" "owned L' 456 (?r # map tptr ?ts)"
      "fresh_nodes L (?r # map tptr ?ts)" "?r \<noteq> 0" by (simp_all add: base_inv_def base_dir_def)
  obtain m5 where m5: "(let s4 = set_dir_ops ?r s3 in set_children_ops (node_children (mem s4) (vfs_root s4)) s4) = Some (s3\<lparr>mem := m5\<rparr>)"
    "tree_at m5 (fn_addr s3 Virtual_finddir) (VDir ?r [47] ?ts)"
    "\<And>x. (\<forall>q \<in> set (?r # map tptr ?ts). x \<notin> {unat q + 448 ..< unat q + 456}) \<Longrightarrow> m5 x = mem s3 x"
    by (rule set_ops_tree [OF inv]) (auto simp: base_nodes_def)
  define s' where "s' = printk ''[VFS] VFS initialized with virtual filesystem\<newline>'' [] (s3\<lparr>mem := m5\<rparr>)"
  have s': "mem s' = m5" "vfs_root s' = ?r" "fn_addr s' = fn_addr s3" "vfs_keeps s s'"
    using s2(4) s3(3) by (simp_all add: s'_def printk_def on_hw_def vfs_keeps_def)
  have nodes: "m5 x = mem s3 x" if "\<forall>q \<in> set (?r # map tptr ?ts). x \<notin> {unat q ..< unat q + 456}" for x
    using that by (intro m5(3)) auto
  have fp: "footprint (VDir ?r [47] ?ts) = (\<Union>q \<in> set (?r # map tptr ?ts). {unat q ..< unat q + 456})"
    by (auto simp: base_nodes_def)
  have fresh: "footprint (VDir ?r [47] ?ts) \<inter> (live_bytes L \<union> unmanaged) = {}"
    unfolding fp using i(5) by (auto simp: fresh_nodes_def)
  have own: "footprint (VDir ?r [47] ?ts) \<subseteq> live_bytes L'"
    unfolding fp using i(4) by (fastforce simp: owned_def intro: live_bytesI)
  have "has_room (s3\<lparr>mem := m5\<rparr>) K' L'"
  proof (rule has_room_put [OF i(1)], rule nodes, rule ballI)
    fix x q assume x: "x \<notin> live_bytes L' \<union> unmanaged" and q: "q \<in> set (?r # map tptr ?ts)"
    show "x \<notin> {unat q ..< unat q + 456}" using x i(4) q by (fastforce simp: owned_def intro: live_bytesI)
  qed
  then have rep: "heap_rep s' L'" using has_room_rep by (fastforce simp: s'_def printk_def on_hw_def heap_rep_def heap_abs_def)
  have "m5 x = mem s3 x" if "x \<in> live_bytes L \<union> unmanaged" for x
    using that fresh unfolding fp by (intro nodes) blast
  then have keep: "kept L (mem s) m5" using i(3) by (simp add: kept_def)
  have run: "vfs_init s = kret s'"
    unfolding vfs_init_def Let_def [of "printk _ _ _"] Let_def [of "_\<lparr>vfs_root := 0, mounts := _, mount_count := 0\<rparr>"]
      s2_def [symmetric] s3(1) kbind_kret
    using i(6) m5(1) by (simp add: s'_def Let_def)
  note fl = base_ready_file [OF s3(2) m5(3)]
  have tree: "tree_at (mem s') (fn_addr s' Virtual_finddir) (base_root ?r p4 p3 p2 p1)"
    "footprint (base_root ?r p4 p3 p2 p1) \<inter> (live_bytes L \<union> unmanaged) = {}"
    "footprint (base_root ?r p4 p3 p2 p1) \<union> file_bytes (mem s') p4 (length readme_text) \<subseteq> live_bytes L'"
    using m5(2) fresh own fl(3) unfolding base_root_def s'(1,3) by blast+
  show thesis by (rule that [OF run rep i(2) _ s'(2,4) tree(1,2) _ _ tree(3)]) (use keep fl s' in simp_all)
qed

section \<open>Reading a virtual file\<close>

definition sub_bytes :: "nat \<Rightarrow> nat \<Rightarrow> 'b list \<Rightarrow> 'b list" where
  "sub_bytes offset n bytes = take n (drop offset bytes)"

lemma virtual_read_step:
  fixes s :: "'a vfs_scheme"
  assumes fl: "file_at (mem s) f p bytes" "length bytes < 2 ^ 31" and p: "p \<noteq> 0" "buffer \<noteq> 0"
    and nowrap: "unat offset + unat sz < 2 ^ 32"
    and sep: "{unat buffer ..< unat buffer + unat sz} \<inter> file_bytes (mem s) p (length bytes) = {}"
  defines "part \<equiv> sub_bytes (unat offset) (unat sz) bytes"
  shows "\<exists>m'. vfs_virtual_read p offset sz buffer s = kret (int (length part), s\<lparr>mem := m'\<rparr>)
    \<and> map (\<lambda>i. m' (unat buffer + i)) [0..<length part] = part
    \<and> (\<forall>x. x \<notin> {unat buffer ..< unat buffer + length part} \<longrightarrow> m' x = mem s x)"
proof -
  let ?m = "mem s" let ?d = "node_inode ?m p" let ?c = "data_content ?m ?d"
  have d: "?d \<noteq> 0" "?c \<noteq> 0" "unat (data_size ?m ?d) = length bytes" "unat ?c + length bytes < 2 ^ 32"
    and eq: "map (\<lambda>i. ?m (unat ?c + i)) [0..<length bytes] = bytes"
    using fl by (simp_all add: file_at_def unsigned_of_nat take_bit_nat_eq_self)
  have bytes: "?m (unat ?c + i) = bytes ! i" if "i < length bytes" for i
    using arg_cong [OF eq, of "\<lambda>xs. xs ! i"] that by simp
  have len: "length part = min (length bytes - unat offset) (unat sz)" by (simp add: part_def sub_bytes_def)
  show ?thesis
  proof (cases "length bytes \<le> unat offset")
    case True
    then have "part = []" by (simp add: part_def sub_bytes_def)
    then show ?thesis using True p d by (intro exI [of _ ?m]) (simp add: vfs_virtual_read_def Let_def word_le_nat_alt)
  next
    case False
    define n where "n = (if data_size ?m ?d < offset + sz then data_size ?m ?d - offset else sz)"
    have "unat (data_size ?m ?d - offset) = length bytes - unat offset"
      using False d(3) by (subst unat_sub) (simp_all add: word_le_nat_alt)
    then have n: "unat n = length part" using False nowrap d(3) by (auto simp: n_def len word_less_nat_alt unat_add_u32)
    have c: "unat (?c + offset) = unat ?c + unat offset" using False d(4) by (intro unat_add_u32) simp
    have sep': "{unat buffer ..< unat buffer + length part} \<inter> {unat ?c + unat offset ..< unat ?c + unat offset + length part} = {}"
    proof -
      have "{unat ?c + unat offset ..< unat ?c + unat offset + length part} \<subseteq> file_bytes ?m p (length bytes)"
        using False by (auto simp: file_bytes_def len)
      moreover have "{unat buffer ..< unat buffer + length part} \<subseteq> {unat buffer ..< unat buffer + unat sz}" by (auto simp: len)
      ultimately show ?thesis using sep by blast
    qed
    have "sint n = int (length part)" using n fl(2) len by (subst sint_small) auto
    then have "vfs_virtual_read p offset sz buffer s = kret (int (length part),
        s\<lparr>mem := memcpy ?m (unat buffer) (unat ?c + unat offset) (length part)\<rparr>)"
      using p d False by (simp add: vfs_virtual_read_def Let_def word_le_nat_alt c n flip: n_def)
    moreover have "map (\<lambda>i. memcpy ?m (unat buffer) (unat ?c + unat offset) (length part) (unat buffer + i)) [0..<length part] = part"
    proof (rule nth_equalityI)
      fix i assume i: "i < length (map (\<lambda>i. memcpy ?m (unat buffer) (unat ?c + unat offset) (length part) (unat buffer + i)) [0..<length part])"
      then have "?m (unat ?c + (unat offset + i)) = bytes ! (unat offset + i)" by (intro bytes) (auto simp: len)
      then show "map (\<lambda>i. memcpy ?m (unat buffer) (unat ?c + unat offset) (length part) (unat buffer + i)) [0..<length part] ! i = part ! i"
        using i False by (simp add: memcpy_disjoint [OF sep'] add.assoc) (simp add: part_def sub_bytes_def)
    qed simp
    ultimately show ?thesis using memcpy_disjoint [OF sep'] by auto
  qed
qed

text \<open>
  When the sum of offset and size wraps around, the bound has no effect: the whole size is copied, from
  an offset inside the file far beyond its end.
\<close>

lemma unat_add_wrap:
  fixes a b :: u32
  assumes "2 ^ 32 \<le> unat a + unat b"
  shows "unat (a + b) = unat a + unat b - 2 ^ 32"
proof -
  have "unat a + unat b - 2 ^ 32 < 2 ^ 32" using unsigned_less [of a, where 'a = nat] unsigned_less [of b, where 'a = nat] by simp
  then show ?thesis using assms unfolding unat_word_ariths by (simp add: le_mod_geq)
qed

lemma virtual_read_wrap:
  fixes s :: "'a vfs_scheme"
  assumes fl: "file_at (mem s) f p bytes" "length bytes < 2 ^ 31" and p: "p \<noteq> 0" "buffer \<noteq> 0"
    and wrap: "2 ^ 32 \<le> unat offset + unat sz" "unat offset < length bytes"
  shows "vfs_virtual_read p offset sz buffer s = kret (sint sz, s\<lparr>mem := memcpy (mem s) (unat buffer)
      (unat (data_content (mem s) (node_inode (mem s) p) + offset)) (unat sz)\<rparr>)"
proof -
  let ?m = "mem s" let ?d = "node_inode ?m p"
  have d: "?d \<noteq> 0" "data_content ?m ?d \<noteq> 0" "unat (data_size ?m ?d) = length bytes"
    using fl by (simp_all add: file_at_def unsigned_of_nat take_bit_nat_eq_self)
  have "unat (offset + sz) < length bytes"
    unfolding unat_add_wrap [OF wrap(1)] using wrap unsigned_less [of sz, where 'a = nat] by simp
  then have "\<not> data_size ?m ?d < offset + sz" "\<not> data_size ?m ?d \<le> offset"
    unfolding word_less_nat_alt word_le_nat_alt d(3) using wrap(2) by simp_all
  then show ?thesis using p d(1,2) unfolding vfs_virtual_read_def Let_def by (simp only: if_False de_Morgan_disj simp_thms)
qed

section \<open>From the start to the contents of a file\<close>

lemma split_readme: "split_slash (lit_bytes ''readme.txt'') = [lit_bytes ''readme.txt'']"
  by (simp add: lit_bytes_def)

lemma lookup_readme: "lookup_path (base_root root readme home tmp dv) [lit_bytes ''readme.txt''] = Some (VFile readme (lit_bytes ''readme.txt''))"
  by (simp add: base_root_def base_nodes_def)

text \<open>Resolving the path of the file in the initial tree.\<close>

lemma resolve_readme:
  fixes s :: "'a vfs_scheme"
  assumes linked: "vfs_linked s" and root: "vfs_root s = root"
    and tree: "tree_at (mem s) (fn_addr s Virtual_finddir) (base_root root readme home tmp dv)"
    and path: "cstr (mem s) path (47 # lit_bytes ''readme.txt'')" "0 < path" "0 < path_copy s"
      "{path .. path + 11} \<inter> {path_copy s .. path_copy s + 255} = {}"
    and apart: "footprint (base_root root readme home tmp dv) \<inter> {path_copy s .. path_copy s + 255} = {}"
  obtains m' where "vfs_resolve_path path s = kret (readme, s\<lparr>mem := m'\<rparr>)" "\<And>x. x \<notin> {path_copy s .. path_copy s + 255} \<Longrightarrow> m' x = mem s x"
proof -
  let ?t = "base_root root readme home tmp dv" and ?name = "lit_bytes ''readme.txt''"
  have name: "length ?name = 10" by (simp add: lit_bytes_def)
  have "vfs_root s = tptr ?t" by (simp add: base_root_def root)
  from resolve_path_step [OF _ tree this path(1,2) _ apart] obtain m' where
    "vfs_resolve_path path s = kret (if ?name = [] then tptr ?t else case lookup_path ?t (split_slash (take 255 ?name)) of None \<Rightarrow> 0 | Some t' \<Rightarrow> tptr t',
       s\<lparr>mem := m'\<rparr>)" "\<forall>x. x \<notin> {path_copy s .. path_copy s + 255} \<longrightarrow> m' x = mem s x"
    using linked path(3,4) name by (auto simp: vfs_linked_def)
  moreover have "?name \<noteq> []" using name by (metis list.size(3) zero_neq_numeral)
  ultimately show ?thesis by (intro that [of m']) (simp_all add: split_readme lookup_readme)
qed

text \<open>
  C35. The initial tree. On a sound heap with a free block of 2600 bytes \<open>vfs_init\<close> succeeds; the path
  "/readme.txt" then resolves to a node, and \<open>vfs_read\<close> of that node at any offset delivers the bytes of
  the text of the file from there on, as many as there are and as the buffer takes, and returns their
  number. The memory of the callers (their heap blocks and what is not heap) is unchanged, but for the
  local copy of the path and the buffer. The sum of offset and size must be below \<open>2 ^ 32\<close>.
\<close>

theorem vfs_init_readme:
  fixes s :: "'a vfs_scheme"
  assumes room: "has_room s K L" "2600 \<le> K" and linked: "vfs_linked s"
    and path: "cstr (mem s) path (47 # lit_bytes ''readme.txt'')" "0 < path" "{path .. path + 11} \<subseteq> live_bytes L \<union> unmanaged"
    and copy: "0 < path_copy s" "{path_copy s .. path_copy s + 255} \<subseteq> live_bytes L \<union> unmanaged"
      "{path .. path + 11} \<inter> {path_copy s .. path_copy s + 255} = {}"
    and buffer: "buffer \<noteq> 0" "{unat buffer ..< unat buffer + unat sz} \<subseteq> live_bytes L \<union> unmanaged" "unat offset + unat sz < 2 ^ 32"
  defines "part \<equiv> sub_bytes (unat offset) (unat sz) (lit_bytes readme_text)"
  shows "\<exists>s1 node m2 m3. vfs_init s = kret s1 \<and> vfs_resolve_path path s1 = kret (node, s1\<lparr>mem := m2\<rparr>) \<and> node \<noteq> 0
    \<and> vfs_read node offset sz buffer (s1\<lparr>mem := m2\<rparr>) = kret (int (length part), s1\<lparr>mem := m3\<rparr>)
    \<and> map (\<lambda>i. m3 (unat buffer + i)) [0..<length part] = part
    \<and> (\<forall>x \<in> live_bytes L \<union> unmanaged.
         x \<notin> {path_copy s .. path_copy s + 255} \<union> {unat buffer ..< unat buffer + length part} \<longrightarrow> m3 x = mem s x)"
proof -
  obtain s1 L' root readme home tmp dv where s1: "vfs_init s = kret s1" "kept L (mem s) (mem s1)" "vfs_root s1 = root" "vfs_keeps s s1"
    and tree: "tree_at (mem s1) (fn_addr s1 Virtual_finddir) (base_root root readme home tmp dv)"
      "footprint (base_root root readme home tmp dv) \<inter> (live_bytes L \<union> unmanaged) = {}"
    and fl: "file_at (mem s1) (fn_addr s1 Virtual_read) readme (lit_bytes readme_text)"
      "file_bytes (mem s1) readme (length readme_text) \<inter> (live_bytes L \<union> unmanaged) = {}"
    by (rule vfs_init_tree [OF room])
  let ?t = "base_root root readme home tmp dv" and ?name = "lit_bytes ''readme.txt''" and ?pc = "{path_copy s .. path_copy s + 255}"
  have keeps: "fn_addr s1 = fn_addr s" "path_copy s1 = path_copy s" using s1(4) by (simp_all add: vfs_keeps_def)
  have name: "length ?name = 10" by (simp add: lit_bytes_def)
  have path1: "cstr (mem s1) path (47 # ?name)"
    using path(1) by (subst cstr_cong [where m' = "mem s"]) (use path(3) s1(2) name in \<open>auto simp: kept_def subset_iff\<close>)
  obtain m2 where m2: "vfs_resolve_path path s1 = kret (readme, s1\<lparr>mem := m2\<rparr>)" "\<And>x. x \<notin> ?pc \<Longrightarrow> m2 x = mem s1 x"
    by (rule resolve_readme [OF _ s1(3) tree(1) path1 path(2), unfolded keeps]) (use linked copy tree(2) keeps in \<open>auto simp: vfs_linked_def\<close>)
  have nz: "readme \<noteq> 0" using tree(1) by (simp add: base_root_def base_nodes_def)
  have node: "{unat readme ..< unat readme + 456} \<inter> ?pc = {}"
  proof -
    have "{unat readme ..< unat readme + 456} \<subseteq> footprint ?t" by (auto simp: base_root_def base_nodes_def)
    then show ?thesis using tree(2) copy(2) by blast
  qed
  have rd: "rd32 m2 (unat readme + k) = rd32 (mem s1) (unat readme + k)" if "k + 4 \<le> 456" for k
    using node that by (intro rd32_cong m2(2)) (auto simp: disjoint_iff)
  have same: "m2 x = mem s1 x" if "x \<in> file_bytes (mem s1) readme (length (lit_bytes readme_text))" for x
    using that fl(2) copy(2) by (intro m2(2)) auto
  note f2 = file_at_frame [OF fl(1) same rd rd]
  have fl2: "file_at (mem (s1\<lparr>mem := m2\<rparr>)) (fn_addr s1 Virtual_read) readme (lit_bytes readme_text)"
    and fb2: "file_bytes m2 readme (length (lit_bytes readme_text)) = file_bytes (mem s1) readme (length (lit_bytes readme_text))"
    using f2(1) by (simp, intro f2(2)) simp_all
  have "{unat buffer ..< unat buffer + unat sz} \<inter> file_bytes (mem (s1\<lparr>mem := m2\<rparr>)) readme (length (lit_bytes readme_text)) = {}"
    using fb2 fl(2) buffer(2) by auto
  from virtual_read_step [OF fl2 _ nz buffer(1,3) this, folded part_def] obtain m3 where
    m3: "vfs_virtual_read readme offset sz buffer (s1\<lparr>mem := m2\<rparr>) = kret (int (length part), s1\<lparr>mem := m3\<rparr>)"
      "map (\<lambda>i. m3 (unat buffer + i)) [0..<length part] = part"
      "\<And>x. x \<notin> {unat buffer ..< unat buffer + length part} \<Longrightarrow> m3 x = m2 x"
    by (auto simp: readme_text_def)
  have "vfs_read readme offset sz buffer (s1\<lparr>mem := m2\<rparr>) = kret (int (length part), s1\<lparr>mem := m3\<rparr>)"
    using fl2 linked nz buffer(1) m3(1) keeps
    by (auto simp: vfs_read_def call_read_def Let_def file_at_def vfs_linked_def inj_def)
  moreover have "m3 x = mem s x" if "x \<in> live_bytes L \<union> unmanaged" "x \<notin> ?pc \<union> {unat buffer ..< unat buffer + length part}" for x
    using that m3(3) m2(2) s1(2) by (simp add: kept_def)
  ultimately show ?thesis using s1(1) m2(1) nz m3(2) by blast
qed

text \<open>The state of the example: an empty heap, the path in the memory below it.\<close>

definition boot_example :: vfs where
  "boot_example = vfs_boot fn_example 0x3000 0x2000 ((ide_example disk_content)\<lparr>
     mem := wr8 (wr32 (wr32 (wr32 (mem paging_ready) 0x1000 0x6165722F) 0x1004 0x2E656D64) 0x1008 0x747874) 0x100C 0,
     heap_initialized := heap_initialized paging_ready, heap_start := heap_start paging_ready\<rparr>)"

lemma boot_example_heap: "has_room boot_example 0x100000 {}"
proof -
  define s0 where "s0 = boot_example\<lparr>mem := mem paging_ready\<rparr>"
  have "heap_abs s0 [(HEAP_SIZE, True)]"
    using paging_ready_heap by (simp add: heap_abs_def s0_def boot_example_def vfs_boot_def ide.defs vfs.defs)
  then have "has_room s0 0x100000 {}" by (auto simp: has_room_def intro!: exI [of _ "[(HEAP_SIZE, True)]"])
  from has_room_put [OF this, of "mem boot_example"] show ?thesis
    by (simp add: s0_def) (auto simp: boot_example_def vfs_boot_def ide.defs vfs.defs wr8_apply wr32_other unmanaged_def)
qed

theorem vfs_init_readme_witness:
  "\<exists>s1 node m2 m3. vfs_init boot_example = kret s1 \<and> vfs_resolve_path 0x1000 s1 = kret (node, s1\<lparr>mem := m2\<rparr>)
    \<and> vfs_read node 11 6 0x4000 (s1\<lparr>mem := m2\<rparr>) = kret (6, s1\<lparr>mem := m3\<rparr>)
    \<and> map (\<lambda>i. m3 (0x4000 + i)) [0, 1, 2, 3, 4, 5] = lit_bytes ''KFS-6!''"
proof -
  have part: "sub_bytes 11 6 (lit_bytes readme_text) = lit_bytes ''KFS-6!''"
    by (simp add: sub_bytes_def readme_text_def lit_bytes_def)
  have f: "fn_addr boot_example = fn_example" "path_copy boot_example = 0x2000"
    by (simp_all add: boot_example_def vfs_boot_def ide.defs vfs.defs)
  have "cstr (mem boot_example) 0x1000 (47 # lit_bytes ''readme.txt'')"
    by (simp add: boot_example_def vfs_boot_def ide.defs vfs.defs lit_bytes_def wr8_apply wr32_def)
  moreover have "{0x1000 .. 0x1000 + 11} \<subseteq> live_bytes {} \<union> unmanaged" "{0x2000 .. 0x2000 + 255} \<subseteq> live_bytes {} \<union> unmanaged"
    "{unat (0x4000 :: u32) ..< unat (0x4000 :: u32) + unat (6 :: u32)} \<subseteq> live_bytes {} \<union> unmanaged"
    "{0x1000 .. 0x1000 + 11} \<inter> {0x2000 .. 0x2000 + 255} = ({} :: nat set)" by (auto simp: unmanaged_def)
  ultimately obtain s1 node m2 m3 where "vfs_init boot_example = kret s1" "vfs_resolve_path 0x1000 s1 = kret (node, s1\<lparr>mem := m2\<rparr>)"
      "vfs_read node 11 6 0x4000 (s1\<lparr>mem := m2\<rparr>) = kret (6, s1\<lparr>mem := m3\<rparr>)"
      "map (\<lambda>i. m3 (0x4000 + i)) [0, 1, 2, 3, 4, 5] = lit_bytes ''KFS-6!''"
    using vfs_init_readme [OF boot_example_heap _ fn_example_linked [OF f(1)], of "0x1000" "0x4000" 6 11] part
    by (auto simp: f)
  then show ?thesis by blast
qed

end
