(* ===== verification/KFS_Vmalloc.thy ===== *)
theory KFS_Vmalloc
  imports KFS_Vfs_Init
begin

text \<open>
  The allocator of virtual memory (\<open>src/vmalloc.c\<close>): a linked list of block headers on the kernel heap
  that describes the addresses from 256 MB to 512 MB. The headers are read and written in memory at the
  offsets of \<open>vmem_block_t\<close>. The lemmas are in \<open>KFS_Vmalloc_Blocks\<close>.
\<close>

section \<open>Block headers\<close>

abbreviation (input) VMEM_START :: u32 where "VMEM_START \<equiv> 0x10000000"
abbreviation (input) VMEM_SIZE :: u32 where "VMEM_SIZE \<equiv> 0x10000000"
abbreviation (input) VMEM_MAGIC :: u32 where "VMEM_MAGIC \<equiv> 0xCAFEBABE"
abbreviation (input) VMEM_HEADER_SIZE :: u32 where "VMEM_HEADER_SIZE \<equiv> 24"

definition vmem_size :: "memory \<Rightarrow> u32 \<Rightarrow> u32" where "vmem_size m p = rd32 m (unat p)"
definition vmem_is_free :: "memory \<Rightarrow> u32 \<Rightarrow> bool" where "vmem_is_free m p \<longleftrightarrow> m (unat p + 4) \<noteq> 0"
definition vmem_virt_addr :: "memory \<Rightarrow> u32 \<Rightarrow> u32" where "vmem_virt_addr m p = rd32 m (unat p + 8)"
definition vmem_next :: "memory \<Rightarrow> u32 \<Rightarrow> u32" where "vmem_next m p = rd32 m (unat p + 16)"

text \<open>Assignments to all fields of a header, in the order of the code; the link may depend on the memory.\<close>

definition vmem_fill :: "memory \<Rightarrow> u32 \<Rightarrow> u32 \<Rightarrow> u32 \<Rightarrow> (memory \<Rightarrow> u32) \<Rightarrow> memory" where
  "vmem_fill m p sz virt nxt =
     (let m1 = wr32 m (unat p) sz;
          m2 = wr8 m1 (unat p + 4) 1;
          m3 = wr32 m2 (unat p + 8) virt;
          m4 = wr32 m3 (unat p + 12) 0;
          m5 = wr32 m4 (unat p + 16) (nxt m4)
      in wr32 m5 (unat p + 20) VMEM_MAGIC)"

section \<open>The allocator\<close>

record vmem = vfs +
  vmem_head :: u32
  vmem_initialized :: bool
  vmem_allocated :: u32
  vmem_freed :: u32

definition vmem_boot :: "vfs \<Rightarrow> vmem" where
  "vmem_boot s = vfs.extend s (vmem.fields 0 False 0 0)"

definition vmalloc_init :: "'a vmem_scheme \<Rightarrow> 'a vmem_scheme kresult" where
  "vmalloc_init s =
     (if vmem_initialized s then kret s
      else kbind (kmalloc VMEM_HEADER_SIZE s) (\<lambda>(p, s1).
        if p = 0 then kernel_panic ''Failed to initialize virtual memory allocator''
        else kret (kernel_info ''Virtual memory allocator initialized''
               (s1\<lparr>mem := vmem_fill (mem s1) p VMEM_SIZE VMEM_START (\<lambda>_. 0), vmem_head := p, vmem_initialized := True\<rparr>))))"

partial_function (option) find_free_vmem_block :: "memory \<Rightarrow> u32 \<Rightarrow> u32 \<Rightarrow> u32 option" where
  "find_free_vmem_block m sz current =
     (if current = 0 then Some 0
      else if vmem_is_free m current \<and> sz \<le> vmem_size m current then Some current
      else find_free_vmem_block m sz (vmem_next m current))"

text \<open>The loop that takes physical pages from the kernel heap; whether it has succeeded. Nothing keeps the pointers.\<close>

fun take_pages :: "nat \<Rightarrow> 'a vmem_scheme \<Rightarrow> (bool \<times> 'a vmem_scheme) kresult" where
  "take_pages 0 s = kret (True, s)"
| "take_pages (Suc n) s = kbind (kmalloc PAGE_SIZE s) (\<lambda>(page, s1).
     if page = 0 then kret (False, kernel_warning ''vmalloc: Failed to allocate physical memory'' s1)
     else take_pages n s1)"

definition split_vmem :: "u32 \<Rightarrow> u32 \<Rightarrow> u32 \<Rightarrow> 'a vmem_scheme \<Rightarrow> 'a vmem_scheme kresult" where
  "split_vmem block virt sz s =
     (if vmem_size (mem s) block < VMEM_SIZE
      then kbind (kmalloc VMEM_HEADER_SIZE s) (\<lambda>(p, s1).
        if p \<noteq> 0
        then let m1 = vmem_fill (mem s1) p (VMEM_SIZE - sz) (virt + sz) (\<lambda>m. vmem_next m block)
             in kret (s1\<lparr>mem := wr32 m1 (unat block + 16) p\<rparr>)
        else kret s1)
      else kret s)"

definition vmalloc :: "u32 \<Rightarrow> 'a vmem_scheme \<Rightarrow> (u32 \<times> 'a vmem_scheme) kresult" where
  "vmalloc sz0 s0 =
     kbind (if vmem_initialized s0 then kret s0 else vmalloc_init s0) (\<lambda>s.
       if sz0 = 0 then kret (0, s)
       else
         let sz = (sz0 + PAGE_SIZE - 1) AND NOT (PAGE_SIZE - 1)
         in kbind (klift (find_free_vmem_block (mem s) sz (vmem_head s))) (\<lambda>block.
              if block = 0 then kret (0, kernel_warning ''vmalloc: Out of virtual memory'' s)
              else
                let virt = vmem_virt_addr (mem s) block
                in kbind (take_pages (unat (sz div PAGE_SIZE)) s) (\<lambda>(ok, s1).
                     if \<not> ok then kret (0, s1)
                     else
                       let m2 = wr32 (wr8 (mem s1) (unat block + 4) 0) (unat block) sz
                       in kbind (split_vmem block virt sz (s1\<lparr>mem := m2\<rparr>)) (\<lambda>s3.
                            kret (virt, s3\<lparr>vmem_allocated := vmem_allocated s3 + sz\<rparr>)))))"

text \<open>The search of \<open>vfree\<close> and that of \<open>vsize\<close>, which also finds free blocks.\<close>

partial_function (option) find_vmem :: "bool \<Rightarrow> memory \<Rightarrow> u32 \<Rightarrow> u32 \<Rightarrow> u32 option" where
  "find_vmem used m addr current =
     (if current = 0 then Some 0
      else if vmem_virt_addr m current = addr \<and> (used \<longrightarrow> \<not> vmem_is_free m current) then Some current
      else find_vmem used m addr (vmem_next m current))"

partial_function (option) merge_vmem :: "u32 \<Rightarrow> 'a vmem_scheme \<Rightarrow> 'a vmem_scheme kresult" where
  "merge_vmem scan s =
     (if scan = 0 \<or> vmem_next (mem s) scan = 0 then kret s
      else if vmem_is_free (mem s) scan \<and> vmem_is_free (mem s) (vmem_next (mem s) scan)
      then
        let temp = vmem_next (mem s) scan;
            m1 = wr32 (mem s) (unat scan) (vmem_size (mem s) scan + vmem_size (mem s) temp);
            m2 = wr32 m1 (unat scan + 16) (vmem_next m1 temp)
        in kbind (kfree temp (s\<lparr>mem := m2\<rparr>)) (\<lambda>s1. merge_vmem scan s1)
      else merge_vmem (vmem_next (mem s) scan) s)"

definition vfree :: "u32 \<Rightarrow> 'a vmem_scheme \<Rightarrow> 'a vmem_scheme kresult" where
  "vfree ptr s =
     (if ptr = 0 then kret s
      else kbind (klift (find_vmem True (mem s) ptr (vmem_head s))) (\<lambda>current.
        if current = 0 then kret (kernel_warning ''vfree: Invalid pointer'' s)
        else
          let m1 = wr8 (mem s) (unat current + 4) 1
          in merge_vmem (vmem_head s) (s\<lparr>mem := m1, vmem_freed := vmem_freed s + vmem_size m1 current\<rparr>)))"

definition vsize :: "u32 \<Rightarrow> 'a vmem_scheme \<Rightarrow> u32 kresult" where
  "vsize ptr s =
     (if ptr = 0 then kret 0
      else kbind (klift (find_vmem False (mem s) ptr (vmem_head s))) (\<lambda>current.
        kret (if current = 0 then 0 else vmem_size (mem s) current)))"

partial_function (option) count_vmem :: "memory \<Rightarrow> u32 \<Rightarrow> int \<Rightarrow> int \<Rightarrow> (int \<times> int) option" where
  "count_vmem m current n k =
     (if current = 0 then Some (n, k)
      else count_vmem m (vmem_next m current) (i32 (n + 1)) (if vmem_is_free m current then i32 (k + 1) else k))"

definition vmalloc_stats :: "'a vmem_scheme \<Rightarrow> 'a vmem_scheme kresult" where
  "vmalloc_stats s =
     (let s1 = printk ''\<newline>=== Virtual Memory Statistics ===\<newline>'' [] s;
          s2 = printk ''Virtual start:    0x%x\<newline>'' [KUInt VMEM_START] s1;
          s3 = printk ''Virtual size:     %d MB\<newline>'' [KInt 256] s2;
          s4 = printk ''Total allocated:  %d bytes\<newline>'' [KInt (sint (vmem_allocated s3))] s3;
          s5 = printk ''Total freed:      %d bytes\<newline>'' [KInt (sint (vmem_freed s4))] s4;
          s6 = printk ''Currently used:   %d bytes\<newline>'' [KInt (sint (vmem_allocated s5 - vmem_freed s5))] s5
      in kbind (klift (count_vmem (mem s6) (vmem_head s6) 0 0)) (\<lambda>(n, k).
           let s7 = printk ''Total blocks:     %d\<newline>'' [KInt n] s6;
               s8 = printk ''Free blocks:      %d\<newline>'' [KInt k] s7
           in kret (printk ''\<newline>'' [] s8)))"

end
