(* ===== verification/KFS_Vmalloc_Blocks.thy ===== *)
theory KFS_Vmalloc_Blocks
  imports KFS_Vmalloc
begin

text \<open>
  The allocator of virtual memory refines first fit and merging on a list of blocks. The list shows what
  goes wrong: the rest of a split block has the wrong size, and live blocks overlap.
\<close>

section \<open>The list of blocks\<close>

text \<open>A block: its header, size, virtual address, and whether it is free.\<close>

type_synonym vblk = "u32 \<times> u32 \<times> u32 \<times> bool"

fun vblk_at :: "memory \<Rightarrow> vblk \<Rightarrow> bool" where
  "vblk_at m (p, n, v, fr) \<longleftrightarrow> vmem_size m p = n \<and> vmem_virt_addr m p = v \<and> (vmem_is_free m p \<longleftrightarrow> fr)"

definition vlist_at :: "memory \<Rightarrow> u32 \<Rightarrow> vblk list \<Rightarrow> bool" where
  "vlist_at m p bs \<longleftrightarrow> chain m 16 p (map fst bs) \<and> (\<forall>b \<in> set bs. vblk_at m b)"

definition vmem_ok :: "(nat \<times> nat) set \<Rightarrow> vblk list \<Rightarrow> 'a vmem_scheme \<Rightarrow> bool" where
  "vmem_ok L bs s \<longleftrightarrow> vmem_initialized s \<and> vlist_at (mem s) (vmem_head s) bs \<and> owned L 24 (map fst bs)"

text \<open>First fit, as the code does it: the rest of a split block gets the size of all virtual memory less the request.\<close>

fun vm_alloc :: "u32 \<Rightarrow> u32 \<Rightarrow> vblk list \<Rightarrow> (u32 \<times> vblk list) option" where
  "vm_alloc n q [] = None"
| "vm_alloc n q ((p, k, v, fr) # bs) =
     (if fr \<and> n \<le> k then Some (v, (p, n, v, False) # (if n < VMEM_SIZE then [(q, VMEM_SIZE - n, v + n, True)] else []) @ bs)
      else map_option (apsnd ((#) (p, k, v, fr))) (vm_alloc n q bs))"

fun vm_mark :: "u32 \<Rightarrow> vblk list \<Rightarrow> vblk list option" where
  "vm_mark a [] = None"
| "vm_mark a ((p, k, v, fr) # bs) = (if v = a \<and> \<not> fr then Some ((p, k, v, True) # bs) else map_option ((#) (p, k, v, fr)) (vm_mark a bs))"

fun vm_merge :: "vblk list \<Rightarrow> vblk list" where
  "vm_merge [] = []"
| "vm_merge [b] = [b]"
| "vm_merge ((p, k, v, fr) # (p', k', v', fr') # bs) =
     (if fr \<and> fr' then vm_merge ((p, k + k', v, True) # bs) else (p, k, v, fr) # vm_merge ((p', k', v', fr') # bs))"

section \<open>Memory lemmas\<close>

definition vsame :: "memory \<Rightarrow> memory \<Rightarrow> u32 \<Rightarrow> bool" where
  "vsame m m' p \<longleftrightarrow> (\<forall>x \<in> {unat p ..< unat p + 24}. m' x = m x)"

lemma vsame_rd32: "vsame m m' p \<Longrightarrow> off + 4 \<le> 24 \<Longrightarrow> rd32 m' (unat p + off) = rd32 m (unat p + off)"
  by (rule rd32_cong) (simp add: vsame_def add.assoc)

lemma vsame_fields:
  assumes "vsame m m' p"
  shows "vmem_size m' p = vmem_size m p" "vmem_virt_addr m' p = vmem_virt_addr m p" "vmem_is_free m' p = vmem_is_free m p"
    "vmem_next m' p = vmem_next m p"
  using vsame_rd32 [OF assms, of 0] vsame_rd32 [OF assms, of 8] vsame_rd32 [OF assms, of 16] assms
  by (simp_all add: vmem_size_def vmem_virt_addr_def vmem_next_def vmem_is_free_def vsame_def)

lemma vblk_at_same: "vsame m m' (fst b) \<Longrightarrow> vblk_at m' b = vblk_at m b"
  by (cases b) (simp add: vsame_fields)

lemma vlist_at_same: "(\<And>b. b \<in> set bs \<Longrightarrow> vsame m m' (fst b)) \<Longrightarrow> vlist_at m' p bs = vlist_at m p bs"
proof -
  assume same: "\<And>b. b \<in> set bs \<Longrightarrow> vsame m m' (fst b)"
  then have "chain m' 16 p (map fst bs) = chain m 16 p (map fst bs)"
    by (intro chain_cong) (auto intro!: vsame_rd32)
  moreover have "vblk_at m' b = vblk_at m b" if "b \<in> set bs" for b using same [OF that] by (rule vblk_at_same)
  ultimately show ?thesis by (simp add: vlist_at_def)
qed

lemma vlist_at_simps [simp]:
  "vlist_at m p [] \<longleftrightarrow> p = 0"
  "vlist_at m p (b # bs) \<longleftrightarrow> p = fst b \<and> p \<noteq> 0 \<and> vblk_at m b \<and> vlist_at m (vmem_next m p) bs"
  by (auto simp: vlist_at_def vmem_next_def)

lemma find_free_vlist:
  "vlist_at m p bs \<Longrightarrow> find_free_vmem_block m n p =
     Some (case find (\<lambda>(p, k, v, fr). fr \<and> n \<le> k) bs of None \<Rightarrow> 0 | Some b \<Rightarrow> fst b)"
proof (induction bs arbitrary: p)
  case Nil
  then show ?case by (simp add: find_free_vmem_block.simps)
next
  case (Cons b bs)
  then show ?case by (cases b) (subst find_free_vmem_block.simps, simp)
qed

lemma find_vmem_vlist:
  "vlist_at m p bs \<Longrightarrow> find_vmem used m a p =
     Some (case find (\<lambda>(p, k, v, fr). v = a \<and> (used \<longrightarrow> \<not> fr)) bs of None \<Rightarrow> 0 | Some b \<Rightarrow> fst b)"
proof (induction bs arbitrary: p)
  case Nil
  then show ?case by (simp add: find_vmem.simps)
next
  case (Cons b bs)
  then show ?case by (cases b; cases used) (subst find_vmem.simps, simp)+
qed

lemma vm_alloc_find:
  "vm_alloc n q bs = None \<longleftrightarrow> find (\<lambda>(p, k, v, fr). fr \<and> n \<le> k) bs = None"
  by (induction bs) auto

lemma vm_alloc_first:
  assumes "find (\<lambda>(p, k, v, fr). fr \<and> n \<le> k) bs = Some (p, k, v, fr)"
  shows "\<exists>xs ys. bs = xs @ (p, k, v, True) # ys \<and> (\<forall>q. vm_alloc n q bs =
    Some (v, xs @ (p, n, v, False) # (if n < VMEM_SIZE then [(q, VMEM_SIZE - n, v + n, True)] else []) @ ys))"
  using assms
proof (induction bs)
  case (Cons b bs)
  obtain p' k' v' fr' where b: "b = (p', k', v', fr')" by (cases b)
  show ?case
  proof (cases "fr' \<and> n \<le> k'")
    case True
    then show ?thesis using Cons.prems by (intro exI [of _ "[]"] exI [of _ bs]) (auto simp: b)
  next
    case False
    then have "find (\<lambda>(p, k, v, fr). fr \<and> n \<le> k) bs = Some (p, k, v, fr)" using Cons.prems by (auto simp: b)
    from Cons.IH [OF this] obtain xs ys where "bs = xs @ (p, k, v, True) # ys" "\<forall>q. vm_alloc n q bs =
      Some (v, xs @ (p, n, v, False) # (if n < VMEM_SIZE then [(q, VMEM_SIZE - n, v + n, True)] else []) @ ys)" by blast
    then show ?thesis using False by (intro exI [of _ "b # xs"] exI [of _ ys]) (auto simp: b)
  qed
qed simp

text \<open>Changing one block of the list, with a new block behind it.\<close>

lemma vlist_at_replace:
  assumes "vlist_at m p (xs @ b # ys)" "\<And>c. c \<in> set xs \<Longrightarrow> vsame m m' (fst c)" "zs \<noteq> []" "fst (hd zs) = fst b" "vlist_at m' (fst b) zs"
  shows "vlist_at m' p (xs @ zs)"
  using assms
proof (induction xs arbitrary: p)
  case Nil
  then show ?case by simp
next
  case (Cons c xs)
  have "vlist_at m' (vmem_next m p) (xs @ zs)" using Cons.prems by (intro Cons.IH) auto
  moreover have "vsame m m' (fst c)" using Cons.prems(2) by simp
  ultimately show ?case using Cons.prems(1) vblk_at_same [of m m' c] vsame_fields(4) [of m m' "fst c"] by auto
qed


lemma vlist_at_suffix: "vlist_at m h (xs @ b # ys) \<Longrightarrow> vlist_at m (fst b) (b # ys)"
  by (induction xs arbitrary: h) auto

section \<open>Steps on the heap\<close>

lemma has_room_less: "has_room s K L \<Longrightarrow> K' \<le> K \<Longrightarrow> has_room s K' L"
  unfolding has_room_def using le_trans by blast

lemma more_vmem:
  fixes s s' :: "'a vmem_scheme"
  assumes "kheap.more s' = kheap.more s"
  shows "vmem_head s' = vmem_head s" "vmem_initialized s' = vmem_initialized s" "vmem_allocated s' = vmem_allocated s"
  using assms by (cases s; cases s'; simp)+

lemma kept_mono: "kept L m m' \<Longrightarrow> L0 \<subseteq> L \<Longrightarrow> kept L0 m m'"
  using live_bytes_mono unfolding kept_def by blast

lemma kept_vsame: "kept L m m' \<Longrightarrow> owned L 24 ps \<Longrightarrow> p \<in> set ps \<Longrightarrow> vsame m m' p"
  by (fastforce simp: vsame_def kept_def owned_def intro: live_bytesI)

lemma kept_vlist: "kept L m m' \<Longrightarrow> owned L 24 (map fst bs) \<Longrightarrow> vlist_at m' p bs = vlist_at m p bs"
  by (rule vlist_at_same, rule kept_vsame [of L _ _ "map fst bs"]) auto

lemma take_pages_room:
  fixes s :: "'a vmem_scheme"
  assumes "has_room s K L" "n * 4112 + 32 \<le> K"
  shows "\<exists>s' L'. take_pages n s = kret (True, s') \<and> has_room s' (K - n * 4112) L' \<and> L \<subseteq> L' \<and> kept L (mem s) (mem s')
    \<and> kheap.more s' = kheap.more s"
  using assms
proof (induction n arbitrary: s K L)
  case 0
  then show ?case by (auto simp: kept_def)
next
  case (Suc n)
  have r: "request PAGE_SIZE = 4112" by (simp add: request_def)
  obtain p s1 len where al: "kmalloc PAGE_SIZE s = kret (p, s1)" "p \<noteq> 0" "has_room s1 (K - 4112) (insert (unat p, len) L)" "kept L (mem s) (mem s1)"
    by (rule kmalloc_room [OF Suc.prems(1), of PAGE_SIZE, unfolded r]) (use Suc.prems(2) in auto)
  have "n * 4112 + 32 \<le> K - 4112" using Suc.prems(2) by simp
  from Suc.IH [OF al(3) this] obtain s' L' where s': "take_pages n s1 = kret (True, s')" "has_room s' (K - 4112 - n * 4112) L'"
    "insert (unat p, len) L \<subseteq> L'" "kept (insert (unat p, len) L) (mem s1) (mem s')" "kheap.more s' = kheap.more s1" by auto
  have "kept L (mem s) (mem s')" using al(4) kept_mono [OF s'(4)] by (auto intro: kept_trans)
  with s' al kmalloc_more [OF al(1)] show ?case by (intro exI [of _ s'] exI [of _ L']) (simp add: add.commute)
qed

lemma vmem_fill_apply:
  "x < unat p \<or> unat p + 24 \<le> x \<Longrightarrow> vmem_fill m p k v f x = m x"
  by (auto simp: vmem_fill_def Let_def wr32_other wr8_apply)

lemma vmem_fill_fields:
  "vmem_size (vmem_fill m p k v f) p = k" "vmem_virt_addr (vmem_fill m p k v f) p = v" "vmem_is_free (vmem_fill m p k v f) p"
  by (simp_all add: vmem_fill_def Let_def vmem_size_def vmem_virt_addr_def vmem_is_free_def rd32_wr32_other rd32_wr8_other wr32_other wr8_apply)

lemma vmem_fill_next:
  assumes "unat b + 24 \<le> unat p \<or> unat p + 24 \<le> unat b"
  shows "vmem_next (vmem_fill m p k v (\<lambda>m. vmem_next m b)) p = vmem_next m b"
  using assms by (auto simp: vmem_fill_def Let_def vmem_next_def rd32_wr32_other rd32_wr8_other)

lemma vmem_fill_next_const: "vmem_next (vmem_fill m p k v (\<lambda>_. q)) p = q"
  by (simp add: vmem_fill_def Let_def vmem_next_def rd32_wr32_other)

text \<open>Taking a header from the heap and filling it.\<close>

lemma new_header:
  fixes s :: "'a kheap_scheme"
  assumes room: "has_room s K L" and K: "72 \<le> K"
  obtains p s' len where "kmalloc VMEM_HEADER_SIZE s = kret (p, s')" "p \<noteq> 0" "24 \<le> len" "kheap.more s' = kheap.more s"
    "{unat p ..< unat p + len} \<inter> (live_bytes L \<union> unmanaged) = {}" "kept L (mem s) (mem s')"
    "\<And>k v f. has_room (s'\<lparr>mem := vmem_fill (mem s') p k v f\<rparr>) (K - 40) (insert (unat p, len) L)
       \<and> kept L (mem s) (vmem_fill (mem s') p k v f)"
proof -
  have r: "request VMEM_HEADER_SIZE = 40" by (simp add: request_def)
  obtain p s' len where al: "kmalloc VMEM_HEADER_SIZE s = kret (p, s')" "p \<noteq> 0" "unat VMEM_HEADER_SIZE \<le> len"
      "has_room s' (K - 40) (insert (unat p, len) L)" "{unat p ..< unat p + len} \<inter> (live_bytes L \<union> unmanaged) = {}"
      "kept L (mem s) (mem s')"
    by (rule kmalloc_room [OF room, of VMEM_HEADER_SIZE, unfolded r]) (use K in auto)
  have "has_room (s'\<lparr>mem := vmem_fill (mem s') p k v f\<rparr>) (K - 40) (insert (unat p, len) L)" for k v f
    using al(3) by (intro has_room_put [OF al(4)] vmem_fill_apply) (auto simp: live_bytes_insert)
  moreover have "kept L (mem s) (vmem_fill (mem s') p k v f)" for k v f
  proof -
    have "vmem_fill (mem s') p k v f x = mem s' x" if "x \<in> live_bytes L \<union> unmanaged" for x
    proof (rule vmem_fill_apply)
      have "x \<notin> {unat p ..< unat p + len}" using that al(5) by blast
      then show "x < unat p \<or> unat p + 24 \<le> x" using al(3) by auto
    qed
    then show ?thesis using al(6) by (simp add: kept_def)
  qed
  ultimately show thesis using al kmalloc_more [OF al(1)] by (intro that [of p s' len]) auto
qed

text \<open>The header of the first block that fits, after the allocation; its neighbours are as before.\<close>

lemma vblk_set_used:
  assumes "m' = wr32 (wr8 m (unat p + 4) 0) (unat p) n"
  shows "vmem_size m' p = n" "vmem_virt_addr m' p = vmem_virt_addr m p" "vmem_next m' p = vmem_next m p" "\<not> vmem_is_free m' p"
    "x < unat p \<or> unat p + 24 \<le> x \<Longrightarrow> m' x = m x"
  using assms by (auto simp: vmem_size_def vmem_virt_addr_def vmem_next_def vmem_is_free_def rd32_wr32_other rd32_wr8_other wr32_other wr8_apply)

lemma vsame_apart: "(\<And>x. x < unat p \<or> unat p + 24 \<le> x \<Longrightarrow> m' x = m x) \<Longrightarrow> unat q + 24 \<le> unat p \<or> unat p + 24 \<le> unat q \<Longrightarrow> vsame m m' q"
  unfolding vsame_def by auto

lemma split_vmem_step:
  fixes s :: "'a vmem_scheme"
  assumes room: "has_room s K L" "72 \<le> K" and own: "owned L 24 (map fst (xs @ (p, n, v, False) # ys))"
    and list: "vlist_at (mem s) h (xs @ (p, n, v, False) # ys)"
  shows "\<exists>s' q L'. split_vmem p v n s = kret s' \<and> has_room s' (K - 40) L' \<and> L \<subseteq> L' \<and> kheap.more s' = kheap.more s
    \<and> owned L' 24 (map fst (xs @ (p, n, v, False) # (if n < VMEM_SIZE then [(q, VMEM_SIZE - n, v + n, True)] else []) @ ys))
    \<and> vlist_at (mem s') h (xs @ (p, n, v, False) # (if n < VMEM_SIZE then [(q, VMEM_SIZE - n, v + n, True)] else []) @ ys)"
proof (cases "n < VMEM_SIZE")
  case False
  have "vmem_size (mem s) p = n" using list by (auto simp: vlist_at_def)
  moreover have "has_room s (K - 40) L" using room(1) by (rule has_room_less) simp
  ultimately show ?thesis using False own list by (intro exI [of _ s] exI [of _ 0] exI [of _ L]) (auto simp: split_vmem_def)
next
  case True
  obtain q s1 len where q: "kmalloc VMEM_HEADER_SIZE s = kret (q, s1)" "q \<noteq> 0" "24 \<le> len" "kheap.more s1 = kheap.more s"
    "{unat q ..< unat q + len} \<inter> (live_bytes L \<union> unmanaged) = {}" "kept L (mem s) (mem s1)"
    and fill: "\<And>k v f. has_room (s1\<lparr>mem := vmem_fill (mem s1) q k v f\<rparr>) (K - 40) (insert (unat q, len) L)
       \<and> kept L (mem s) (vmem_fill (mem s1) q k v f)" by (rule new_header [OF room]) blast
  define m1 where "m1 = vmem_fill (mem s1) q (VMEM_SIZE - n) (v + n) (\<lambda>m. vmem_next m p)"
  define m2 where "m2 = wr32 m1 (unat p + 16) q"
  let ?L = "insert (unat q, len) L" and ?bs = "xs @ (p, n, v, False) # ys"
  have m1: "has_room (s1\<lparr>mem := m1\<rparr>) (K - 40) ?L" "kept L (mem s) m1" using fill by (simp_all add: m1_def)
  have new: "q \<notin> set (map fst ?bs)" by (rule kheap.new_not_old [OF q(5) _ q(3) own]) simp
  have own1: "owned ?L 24 (map fst (xs @ (p, n, v, False) # (q, VMEM_SIZE - n, v + n, True) # ys))"
    using own new q(3) by (auto simp: owned_def)
  note apart = kheap.owned_disjoint [OF has_room_rep [OF m1(1)] own1]
  have m2: "m2 x = m1 x" if "x < unat p \<or> unat p + 24 \<le> x" for x using that by (auto simp: m2_def wr32_other)
  have old: "vlist_at m1 h ?bs" using kept_vlist [OF m1(2) own] list by simp
  have same: "vsame m1 m2 r" if "r \<in> set (map fst xs @ q # map fst ys)" for r
  proof (rule vsame_apart [OF m2], assumption)
    have "r \<noteq> p" using that own1 by (auto simp: owned_def)
    then show "unat r + 24 \<le> unat p \<or> unat p + 24 \<le> unat r" using that by (intro apart) auto
  qed
  have pq: "unat p + 24 \<le> unat q \<or> unat q + 24 \<le> unat p" using new by (intro apart) auto
  have "vmem_next m1 q = vmem_next (mem s1) p" unfolding m1_def by (rule vmem_fill_next [OF pq])
  also have "\<dots> = vmem_next m1 p"
    by (rule vsame_fields(4) [symmetric], rule vsame_apart [of q])  (use pq in \<open>auto simp: m1_def vmem_fill_apply\<close>)
  finally have next_q: "vmem_next m1 q = vmem_next m1 p" .
  have suf: "vlist_at m1 p ((p, n, v, False) # ys)" using vlist_at_suffix [OF old] by simp
  have zs: "vlist_at m2 p ((p, n, v, False) # (q, VMEM_SIZE - n, v + n, True) # ys)"
  proof -
    have "vmem_size m2 p = vmem_size m1 p" "vmem_virt_addr m2 p = vmem_virt_addr m1 p" "vmem_is_free m2 p = vmem_is_free m1 p" "vmem_next m2 p = q"
      by (simp_all add: m2_def vmem_size_def vmem_virt_addr_def vmem_is_free_def vmem_next_def rd32_wr32_other wr32_other)
    moreover have "vblk_at m2 (q, VMEM_SIZE - n, v + n, True)" "vmem_next m2 q = vmem_next m1 p"
      using vblk_at_same [of m1 m2 "(q, VMEM_SIZE - n, v + n, True)"] vsame_fields(4) [of m1 m2 q] same [of q] next_q vmem_fill_fields
      by (simp_all add: m1_def)
    moreover have "vlist_at m2 (vmem_next m1 p) ys = vlist_at m1 (vmem_next m1 p) ys" by (rule vlist_at_same) (use same in auto)
    ultimately show ?thesis using suf q(2) by simp
  qed
  have "vlist_at m2 h (xs @ (p, n, v, False) # (q, VMEM_SIZE - n, v + n, True) # ys)"
    by (rule vlist_at_replace [OF old]) (use same zs in auto)
  moreover have "has_room (s1\<lparr>mem := m2\<rparr>) (K - 40) ?L"
  proof -
    have "m2 x = m1 x" if "x \<notin> live_bytes ?L \<union> unmanaged" for x
      using that own by (intro m2) (fastforce simp: owned_def intro: live_bytesI)
    then show ?thesis using has_room_put [OF m1(1), of m2] by simp
  qed
  moreover have "split_vmem p v n s = kret (s1\<lparr>mem := m2\<rparr>)"
    using list True q(1,2) by (simp add: split_vmem_def vlist_at_def m1_def m2_def)
  ultimately show ?thesis using True own1 q(4) by (intro exI [of _ "s1\<lparr>mem := m2\<rparr>"] exI [of _ q] exI [of _ ?L]) auto
qed

definition page_round :: "u32 \<Rightarrow> u32" where
  "page_round n = (n + PAGE_SIZE - 1) AND NOT (PAGE_SIZE - 1)"

lemma vmalloc_eq:
  assumes "vmem_initialized s" "sz \<noteq> 0"
  shows "vmalloc sz s = kbind (klift (find_free_vmem_block (mem s) (page_round sz) (vmem_head s))) (\<lambda>block.
    if block = 0 then kret (0, kernel_warning ''vmalloc: Out of virtual memory'' s)
    else kbind (take_pages (unat (page_round sz div PAGE_SIZE)) s) (\<lambda>(ok, s1).
      if \<not> ok then kret (0, s1)
      else kbind (split_vmem block (vmem_virt_addr (mem s) block) (page_round sz)
          (s1\<lparr>mem := wr32 (wr8 (mem s1) (unat block + 4) 0) (unat block) (page_round sz)\<rparr>)) (\<lambda>s3.
        kret (vmem_virt_addr (mem s) block, s3\<lparr>vmem_allocated := vmem_allocated s3 + page_round sz\<rparr>))))"
  using assms unfolding vmalloc_def page_round_def Let_def by (simp only: if_True if_False kbind_kret)

lemma owned_append_less: "owned L n (xs @ ys) \<Longrightarrow> owned L n ys"
  by (auto simp: owned_def)

text \<open>The request with its rounding and the pages and the header it takes from the kernel heap.\<close>

lemma vmalloc_step:
  fixes s :: "'a vmem_scheme"
  assumes room: "has_room s K L" "unat (page_round sz div PAGE_SIZE) * 4112 + 72 \<le> K" and ok: "vmem_ok L bs s" and sz: "sz \<noteq> 0"
  shows "if vm_alloc (page_round sz) 0 bs = None
    then vmalloc sz s = kret (0, kernel_warning ''vmalloc: Out of virtual memory'' s)
    else \<exists>q a bs' s' L'. vm_alloc (page_round sz) q bs = Some (a, bs') \<and> vmalloc sz s = kret (a, s')
      \<and> has_room s' (K - unat (page_round sz div PAGE_SIZE) * 4112 - 40) L' \<and> L \<subseteq> L' \<and> vmem_ok L' bs' s'"
proof -
  define n where "n = page_round sz"
  let ?k = "unat (n div PAGE_SIZE)"
  have list: "vlist_at (mem s) (vmem_head s) bs" and own: "owned L 24 (map fst bs)" and init: "vmem_initialized s"
    using ok by (simp_all add: vmem_ok_def)
  note found = find_free_vlist [OF list, of n]
  show ?thesis
  proof (cases "find (\<lambda>(p, k, v, fr). fr \<and> n \<le> k) bs")
    case None
    then show ?thesis using found vm_alloc_find [of n 0 bs] by (simp add: vmalloc_eq [OF init sz] del: message_simps flip: n_def)
  next
    case (Some b)
    obtain p k v fr where b: "b = (p, k, v, fr)" by (cases b)
    obtain xs ys where bs: "bs = xs @ (p, k, v, True) # ys"
      and al: "\<And>q. vm_alloc n q bs = Some (v, xs @ (p, n, v, False) # (if n < VMEM_SIZE then [(q, VMEM_SIZE - n, v + n, True)] else []) @ ys)"
      using vm_alloc_first [OF Some [unfolded b]] by blast
    have blk: "p \<noteq> 0" "vmem_virt_addr (mem s) p = v" using list vlist_at_suffix [of "mem s" "vmem_head s" xs "(p, k, v, True)" ys] by (auto simp: bs)
    obtain s1 L1 where s1: "take_pages ?k s = kret (True, s1)" "has_room s1 (K - ?k * 4112) L1" "L \<subseteq> L1" "kept L (mem s) (mem s1)"
      "kheap.more s1 = kheap.more s" using take_pages_room [OF room(1), of ?k] room(2) by (auto simp flip: n_def)
    define m2 where "m2 = wr32 (wr8 (mem s1) (unat p + 4) 0) (unat p) n"
    note m2 = vblk_set_used [OF m2_def]
    have own1: "owned L1 24 (map fst bs)" by (rule owned_mono [OF own s1(3)])
    have list1: "vlist_at (mem s1) (vmem_head s) (xs @ (p, k, v, True) # ys)"
      using kept_vlist [OF s1(4) own] list bs by simp
    have same: "vsame (mem s1) m2 r" if "r \<in> set (map fst xs @ map fst ys)" for r
    proof (rule vsame_apart [OF m2(5)], assumption)
      have "r \<noteq> p" using that own by (auto simp: owned_def bs)
      then show "unat r + 24 \<le> unat p \<or> unat p + 24 \<le> unat r"
        using that by (intro kheap.owned_disjoint [OF has_room_rep [OF s1(2)] own1]) (auto simp: bs)
    qed
    have list2: "vlist_at m2 (vmem_head s) (xs @ (p, n, v, False) # ys)"
    proof (rule vlist_at_replace [OF list1])
      have "vlist_at (mem s1) (vmem_next (mem s1) p) ys" "vmem_virt_addr (mem s1) p = v" using vlist_at_suffix [OF list1] by auto
      moreover have "vlist_at m2 (vmem_next (mem s1) p) ys = vlist_at (mem s1) (vmem_next (mem s1) p) ys"
        by (rule vlist_at_same) (use same in auto)
      ultimately show "vlist_at m2 (fst (p, k, v, True)) ((p, n, v, False) # ys)" using m2 blk(1) by simp
    qed (use same in auto)
    have room2: "has_room (s1\<lparr>mem := m2\<rparr>) (K - ?k * 4112) L1"
    proof (rule has_room_put [OF s1(2)], rule m2(5))
      fix x assume "x \<notin> live_bytes L1 \<union> unmanaged"
      then show "x < unat p \<or> unat p + 24 \<le> x" using own1 by (fastforce simp: owned_def bs intro: live_bytesI)
    qed
    have own2: "owned L1 24 (map fst (xs @ (p, n, v, False) # ys))" using own1 by (simp add: bs)
    let ?bs = "\<lambda>q. xs @ (p, n, v, False) # (if n < VMEM_SIZE then [(q, VMEM_SIZE - n, v + n, True)] else []) @ ys"
    have k: "72 \<le> K - ?k * 4112" using room(2) by (simp flip: n_def)
    obtain s3 q L3 where s3: "split_vmem p v n (s1\<lparr>mem := m2\<rparr>) = kret s3" "has_room s3 (K - ?k * 4112 - 40) L3" "L1 \<subseteq> L3"
      "kheap.more s3 = kheap.more (s1\<lparr>mem := m2\<rparr>)" "owned L3 24 (map fst (?bs q))" "vlist_at (mem s3) (vmem_head s) (?bs q)"
      using split_vmem_step [OF room2 _ own2, of "vmem_head s"] list2 k by auto
    let ?s' = "s3\<lparr>vmem_allocated := vmem_allocated s3 + n\<rparr>"
    have more: "vmem_head s3 = vmem_head s" "vmem_initialized s3"
      using more_vmem [OF s1(5)] more_vmem [OF s3(4)] init by simp_all
    have run: "vmalloc sz s = kret (v, ?s')"
      using found Some blk s1(1) s3(1) by (simp add: vmalloc_eq [OF init sz] b m2_def flip: n_def)
    have "vmem_ok L3 (?bs q) ?s'" using s3(5,6) more by (simp add: vmem_ok_def)
    moreover have "has_room ?s' (K - ?k * 4112 - 40) L3" using s3(2) by (simp add: has_room_def heap_abs_def)
    ultimately have "\<exists>q a bs' s' L'. vm_alloc n q bs = Some (a, bs') \<and> vmalloc sz s = kret (a, s')
      \<and> has_room s' (K - ?k * 4112 - 40) L' \<and> L \<subseteq> L' \<and> vmem_ok L' bs' s'"
      using al [of q] run s1(3) s3(3) by blast
    then show ?thesis using al [of 0] by (simp flip: n_def)
  qed
qed

section \<open>Freeing\<close>

lemma amark_room: "(sz, True) \<in> set bs \<Longrightarrow> (sz, True) \<in> set (amark b a bs)"
  by (induction b a bs rule: amark.induct) auto

lemma amerge_room: "(sz, True) \<in> set bs \<Longrightarrow> \<exists>sz' \<ge> sz. (sz', True) \<in> set (amerge bs)"
proof (induction bs arbitrary: sz rule: amerge_induct)
  case (join s1 s2 bs)
  show ?case
  proof (cases "(sz, True) \<in> set bs")
    case True
    then show ?thesis using join.IH [of sz] by simp
  next
    case False
    then have "sz \<le> s1 + s2" using join.prems by auto
    then show ?thesis using join.IH [of "s1 + s2"] by (auto intro: le_trans)
  qed
qed auto

lemma kfree_room:
  assumes room: "has_room s K L" and live: "(unat p, len) \<in> L"
  obtains s' where "kfree p s = kret s'" "has_room s' K (L - {(unat p, len)})" "kept L (mem s) (mem s')"
proof -
  from room obtain bs sz where bs: "heap_abs s bs" "L = live bs" "(sz, True) \<in> set bs" "K \<le> sz" by (auto simp: has_room_def)
  from live bs(2) have live': "(unat p, len) \<in> live bs" by simp
  from kfree_step [OF bs(1) live'] obtain m' where m':
    "kfree p s = kret (s\<lparr>mem := m', total_freed := total_freed s + of_nat len\<rparr>)"
    "heap_abs (s\<lparr>mem := m'\<rparr>) (afree (unat p - 16) HEAP_START bs)"
    "\<And>x. x \<notin> headers HEAP_START bs \<Longrightarrow> m' x = mem s x" by auto
  have "live (afree (unat p - 16) HEAP_START bs) = L - {(unat p, len)}"
    using live_afree [OF live' heap_absD(5) [OF bs(1)]] bs(2) by simp
  moreover obtain sz' where "sz \<le> sz'" "(sz', True) \<in> set (afree (unat p - 16) HEAP_START bs)"
    using amerge_room [OF amark_room [OF bs(3)]] by (auto simp: afree_def)
  ultimately have "has_room (s\<lparr>mem := m', total_freed := total_freed s + of_nat len\<rparr>) K (L - {(unat p, len)})"
    unfolding has_room_def using m'(2) coalesced_afree bs(4)
    by (intro exI [of _ "afree (unat p - 16) HEAP_START bs"] exI [of _ sz']) (simp add: heap_abs_def)
  moreover have "kept L (mem s) m'" using m'(3) kfree_live_bytes [OF bs(1)] bs(2) by (simp add: kept_def)
  ultimately show thesis using that m'(1) by simp
qed

lemma vm_merge_first: "ys \<noteq> [] \<Longrightarrow> vm_merge ys \<noteq> [] \<and> fst (hd (vm_merge ys)) = fst (hd ys)"
  by (induction ys rule: vm_merge.induct) auto

lemma merge_one:
  assumes "m2 = wr32 (wr32 m (unat p) n) (unat p + 16) q"
  shows "vmem_size m2 p = n" "vmem_virt_addr m2 p = vmem_virt_addr m p" "vmem_next m2 p = q" "vmem_is_free m2 p = vmem_is_free m p"
    "x < unat p \<or> unat p + 24 \<le> x \<Longrightarrow> m2 x = m x"
  using assms by (auto simp: vmem_size_def vmem_virt_addr_def vmem_next_def vmem_is_free_def rd32_wr32_other wr32_other)

text \<open>What a pass over the list from one block on leaves of the memory and the heap.\<close>

definition merged :: "(nat \<times> nat) set \<Rightarrow> (nat \<times> nat) set \<Rightarrow> u32 list \<Rightarrow> 'a vmem_scheme \<Rightarrow> 'a vmem_scheme \<Rightarrow> bool" where
  "merged L L' ps s s' \<longleftrightarrow> L' \<subseteq> L \<and> kheap.more s' = kheap.more s \<and> (\<forall>b \<in> L. (\<forall>q \<in> set ps. fst b \<noteq> unat q) \<longrightarrow> b \<in> L')
     \<and> (\<forall>x \<in> live_bytes L' \<union> unmanaged. (\<forall>q \<in> set ps. x \<notin> {unat q ..< unat q + 24}) \<longrightarrow> mem s' x = mem s x)"

lemma vm_merge_sub: "set (map fst (vm_merge ys)) \<subseteq> set (map fst ys)"
  by (induction ys rule: vm_merge.induct) auto

lemma merged_owned:
  assumes "merged L L' ps s s'" "owned L' 24 qs" "owned L 24 (p # ps)" "set qs \<subseteq> set ps"
  shows "owned L' 24 (p # qs)"
proof -
  from assms(3) obtain len where len: "24 \<le> len" "(unat p, len) \<in> L" "p \<notin> set ps" by (auto simp: owned_def)
  have "unat p \<noteq> unat q" if "q \<in> set ps" for q using that len(3) word_of_nat_unat by metis
  then have "(unat p, len) \<in> L'" using assms(1) len(2) by (fastforce simp: merged_def)
  then show ?thesis using assms(2,4) len by (auto simp: owned_def)
qed

lemma merged_vsame:
  assumes "merged L L' ps s s'" "owned L 24 (p # ps)" "has_room s K L"
  shows "vsame (mem s) (mem s') p"
proof -
  from merged_owned [OF assms(1) _ assms(2), of "[]"] obtain len where len: "24 \<le> len" "(unat p, len) \<in> L'" by (auto simp: owned_def)
  show ?thesis unfolding vsame_def
  proof
    fix x assume x: "x \<in> {unat p ..< unat p + 24}"
    have "x \<notin> {unat q ..< unat q + 24}" if "q \<in> set ps" for q
      using kheap.owned_disjoint [OF has_room_rep [OF assms(3)] assms(2), of p q] that x assms(2) by (fastforce simp: owned_def)
    moreover have "x \<in> live_bytes L'" using x len by (auto intro: live_bytesI)
    ultimately show "mem s' x = mem s x" using assms(1) by (simp add: merged_def)
  qed
qed

text \<open>One merge of two free neighbours.\<close>

lemma merge_join:
  fixes s :: "'a vmem_scheme"
  assumes room: "has_room s K L" and own: "owned L 24 (q # q' # map fst bs)"
    and list: "vlist_at (mem s) q ((q, k, v, True) # (q', k', v', True) # bs)"
  obtains s1 len where "merge_vmem q s = merge_vmem q s1" "has_room s1 K (L - {(unat q', len)})"
    "owned (L - {(unat q', len)}) 24 (q # map fst bs)" "vlist_at (mem s1) q ((q, k + k', v, True) # bs)"
    "kheap.more s1 = kheap.more s" "\<And>x. x \<in> live_bytes L \<union> unmanaged \<Longrightarrow> x \<notin> {unat q ..< unat q + 24} \<Longrightarrow> mem s1 x = mem s x"
proof -
  have l: "q \<noteq> 0" "vmem_size (mem s) q = k" "vmem_virt_addr (mem s) q = v" "vmem_is_free (mem s) q"
      "vmem_next (mem s) q = q'" "q' \<noteq> 0" "vmem_size (mem s) q' = k'" "vmem_is_free (mem s) q'" "vlist_at (mem s) (vmem_next (mem s) q') bs"
    using list by auto
  note apart = kheap.owned_disjoint [OF has_room_rep [OF room] own]
  have dist: "q \<noteq> q'" "q \<notin> set (map fst bs)" "q' \<notin> set (map fst bs)" using own by (auto simp: owned_def)
  define m2 where "m2 = wr32 (wr32 (mem s) (unat q) (k + k')) (unat q + 16) (vmem_next (mem s) q')"
  note m2 = merge_one [OF m2_def]
  have room2: "has_room (s\<lparr>mem := m2\<rparr>) K L"
  proof (rule has_room_put [OF room], rule m2(5))
    fix x assume "x \<notin> live_bytes L \<union> unmanaged"
    then show "x < unat q \<or> unat q + 24 \<le> x" using own by (fastforce simp: owned_def intro: live_bytesI)
  qed
  obtain len where len: "24 \<le> len" "(unat q', len) \<in> L" using own by (auto simp: owned_def)
  obtain s1 where s1: "kfree q' (s\<lparr>mem := m2\<rparr>) = kret s1" "has_room s1 K (L - {(unat q', len)})" "kept L m2 (mem s1)"
    by (rule kfree_room [OF room2 len(2)]) simp
  have "vmem_next (wr32 (mem s) (unat q) (k + k')) q' = vmem_next (mem s) q'"
    unfolding vmem_next_def using apart [of q q'] dist(1) by (intro rd32_wr32_other) auto
  then have run: "merge_vmem q s = merge_vmem q s1"
    using l s1(1) by (subst merge_vmem.simps) (simp add: Let_def m2_def)
  have qs: "unat q' \<noteq> unat r" if "r \<in> set (q # map fst bs)" for r
  proof -
    have "q' \<noteq> r" using that dist by auto
    then show ?thesis by (metis word_of_nat_unat)
  qed
  have own1: "owned (L - {(unat q', len)}) 24 (q # map fst bs)"
  proof -
    have "\<exists>n \<ge> 24. (unat r, n) \<in> L - {(unat q', len)}" if "r \<in> set (q # map fst bs)" for r
      using own that qs [OF that] by (fastforce simp: owned_def)
    then show ?thesis using own by (simp add: owned_def)
  qed
  have same: "vsame m2 (mem s1) r" if "r \<in> set (q # map fst bs)" for r
    by (rule kept_vsame [OF s1(3) own]) (use that in auto)
  have "vsame (mem s) (mem s1) r" if "r \<in> set (map fst bs)" for r
  proof -
    have "vsame (mem s) m2 r" by (rule vsame_apart [OF m2(5)], assumption) (use apart [of r q] that dist in auto)
    then show ?thesis using same [of r] that by (simp add: vsame_def)
  qed
  then have "vlist_at (mem s1) (vmem_next (mem s) q') bs = vlist_at (mem s) (vmem_next (mem s) q') bs"
    by (intro vlist_at_same) auto
  then have list1: "vlist_at (mem s1) q ((q, k + k', v, True) # bs)" using l m2 vsame_fields [OF same, of q] by simp
  have "mem s1 x = mem s x" if "x \<in> live_bytes L \<union> unmanaged" "x \<notin> {unat q ..< unat q + 24}" for x
    using that s1(3) m2(5) [of x] by (auto simp: kept_def)
  then show thesis using that [OF run s1(2) own1 list1] kfree_more [OF s1(1)] by simp
qed

lemma merge_vmem_step:
  fixes s :: "'a vmem_scheme"
  assumes "has_room s K L" "owned L 24 (map fst ys)" "vlist_at (mem s) p ys"
  shows "\<exists>s' L'. merge_vmem p s = kret s' \<and> has_room s' K L' \<and> vlist_at (mem s') p (vm_merge ys) \<and> owned L' 24 (map fst (vm_merge ys))
    \<and> merged L L' (map fst ys) s s'"
  using assms
proof (induction ys arbitrary: p s L rule: vm_merge.induct)
  case 1
  then show ?case by (intro exI [of _ s] exI [of _ L]) (auto simp: merge_vmem.simps merged_def)
next
  case (2 b)
  then show ?case by (intro exI [of _ s] exI [of _ L]) (auto simp: merge_vmem.simps merged_def)
next
  case (3 q k v fr q' k' v' fr' bs)
  let ?tail = "(q', k', v', fr') # bs"
  have l: "p = q" "q \<noteq> 0" "vmem_is_free (mem s) q = fr" "vmem_next (mem s) q = q'" "q' \<noteq> 0" "vmem_is_free (mem s) q' = fr'"
      "vlist_at (mem s) q' ?tail" "vmem_size (mem s) q = k" "vmem_virt_addr (mem s) q = v"
    using "3.prems"(3) by auto
  have own: "owned L 24 (q # map fst ?tail)" using "3.prems"(2) by simp
  show ?case
  proof (cases "fr \<and> fr'")
    case False
    have "owned L 24 (map fst ?tail)" using own by (auto simp: owned_def)
    from "3.IH"(2) [OF False "3.prems"(1) this l(7)] obtain s' L' where s': "merge_vmem q' s = kret s'" "has_room s' K L'"
      "vlist_at (mem s') q' (vm_merge ?tail)" "owned L' 24 (map fst (vm_merge ?tail))" "merged L L' (map fst ?tail) s s'" by blast
    have run: "merge_vmem p s = kret s'" using False l s'(1) by (subst merge_vmem.simps) auto
    have eq: "vm_merge ((q, k, v, fr) # ?tail) = (q, k, v, fr) # vm_merge ?tail" using False by auto
    have "vsame (mem s) (mem s') q" by (rule merged_vsame [OF s'(5) own "3.prems"(1)])
    then have "vlist_at (mem s') p ((q, k, v, fr) # vm_merge ?tail)" using l s'(3) by (simp add: vsame_fields)
    moreover have "owned L' 24 (map fst ((q, k, v, fr) # vm_merge ?tail))"
      using merged_owned [OF s'(5,4) own vm_merge_sub] by simp
    moreover have "merged L L' (map fst ((q, k, v, fr) # ?tail)) s s'" using s'(5) by (simp add: merged_def)
    ultimately show ?thesis unfolding eq using run s'(2) by blast
  next
    case True
    have two: "vlist_at (mem s) q ((q, k, v, True) # (q', k', v', True) # bs)" using "3.prems"(3) True l(1) by auto
    have own2: "owned L 24 (q # q' # map fst bs)" using own by simp
    obtain s1 len where s1: "merge_vmem q s = merge_vmem q s1" "has_room s1 K (L - {(unat q', len)})"
      "owned (L - {(unat q', len)}) 24 (q # map fst bs)" "vlist_at (mem s1) q ((q, k + k', v, True) # bs)" "kheap.more s1 = kheap.more s"
      "\<And>x. x \<in> live_bytes L \<union> unmanaged \<Longrightarrow> x \<notin> {unat q ..< unat q + 24} \<Longrightarrow> mem s1 x = mem s x"
      by (rule merge_join [OF "3.prems"(1) own2 two]) blast
    have "owned (L - {(unat q', len)}) 24 (map fst ((q, k + k', v, True) # bs))" using s1(3) by simp
    from "3.IH"(1) [OF True s1(2) this s1(4)] obtain s' L' where s': "merge_vmem q s1 = kret s'" "has_room s' K L'"
      "vlist_at (mem s') q (vm_merge ((q, k + k', v, True) # bs))" "owned L' 24 (map fst (vm_merge ((q, k + k', v, True) # bs)))"
      "merged (L - {(unat q', len)}) L' (map fst ((q, k + k', v, True) # bs)) s1 s'" by blast
    have sub: "L' \<subseteq> L - {(unat q', len)}" and old: "\<forall>x \<in> live_bytes L' \<union> unmanaged. (\<forall>r \<in> set (q # map fst bs). x \<notin> {unat r ..< unat r + 24}) \<longrightarrow> mem s' x = mem s1 x"
      and live: "\<forall>b \<in> L - {(unat q', len)}. (\<forall>r \<in> set (q # map fst bs). fst b \<noteq> unat r) \<longrightarrow> b \<in> L'"
      using s'(5) by (simp_all add: merged_def)
    have "live_bytes L' \<subseteq> live_bytes L" using sub by (intro live_bytes_mono) blast
    then have "mem s' x = mem s x" if "x \<in> live_bytes L' \<union> unmanaged" "\<forall>r \<in> set (q # q' # map fst bs). x \<notin> {unat r ..< unat r + 24}" for x
      using that old s1(6) [of x] by auto
    then have "merged L L' (map fst ((q, k, v, fr) # ?tail)) s s'"
      using s'(5) s1(5) sub live by (auto simp: merged_def)
    then show ?thesis using True s1(1) s'(1-4) l(1) by (intro exI [of _ s'] exI [of _ L']) simp
  qed
qed

lemma vm_mark_find:
  "vm_mark a bs = None \<longleftrightarrow> find (\<lambda>(p, k, v, fr). v = a \<and> \<not> fr) bs = None"
  by (induction bs) auto

lemma vm_mark_first:
  assumes "find (\<lambda>(p, k, v, fr). v = a \<and> \<not> fr) bs = Some (p, k, v, fr)"
  shows "\<exists>xs ys. bs = xs @ (p, k, a, False) # ys \<and> vm_mark a bs = Some (xs @ (p, k, a, True) # ys)"
  using assms
proof (induction bs)
  case (Cons b bs)
  obtain p' k' v' fr' where b: "b = (p', k', v', fr')" by (cases b)
  show ?case
  proof (cases "v' = a \<and> \<not> fr'")
    case True
    then show ?thesis using Cons.prems by (intro exI [of _ "[]"] exI [of _ bs]) (auto simp: b)
  next
    case False
    then have "find (\<lambda>(p, k, v, fr). v = a \<and> \<not> fr) bs = Some (p, k, v, fr)" using Cons.prems by (auto simp: b)
    from Cons.IH [OF this] obtain xs ys where "bs = xs @ (p, k, a, False) # ys" "vm_mark a bs = Some (xs @ (p, k, a, True) # ys)" by blast
    then show ?thesis using False by (intro exI [of _ "b # xs"] exI [of _ ys]) (auto simp: b)
  qed
qed simp

lemma vfree_step:
  fixes s :: "'a vmem_scheme"
  assumes room: "has_room s K L" and ok: "vmem_ok L bs s" and a: "a \<noteq> 0"
  shows "case vm_mark a bs of None \<Rightarrow> vfree a s = kret (kernel_warning ''vfree: Invalid pointer'' s)
    | Some bs1 \<Rightarrow> \<exists>s' L'. vfree a s = kret s' \<and> has_room s' K L' \<and> L' \<subseteq> L \<and> vmem_ok L' (vm_merge bs1) s'"
proof -
  have list: "vlist_at (mem s) (vmem_head s) bs" and own: "owned L 24 (map fst bs)" and init: "vmem_initialized s"
    using ok by (simp_all add: vmem_ok_def)
  note found = find_vmem_vlist [OF list, of True a, simplified]
  show ?thesis
  proof (cases "find (\<lambda>(p, k, v, fr). v = a \<and> \<not> fr) bs")
    case None
    then show ?thesis using found vm_mark_find [of a bs] a by (simp add: vfree_def)
  next
    case (Some b)
    obtain p k v fr where b: "b = (p, k, v, fr)" by (cases b)
    obtain xs ys where bs: "bs = xs @ (p, k, a, False) # ys" and mark: "vm_mark a bs = Some (xs @ (p, k, a, True) # ys)"
      using vm_mark_first [OF Some [unfolded b]] by blast
    define m1 where "m1 = wr8 (mem s) (unat p + 4) 1"
    have m1: "m1 x = mem s x" if "x < unat p \<or> unat p + 24 \<le> x" for x using that by (auto simp: m1_def wr8_apply)
    have blk: "p \<noteq> 0" "vlist_at (mem s) p ((p, k, a, False) # ys)" using vlist_at_suffix [of "mem s" "vmem_head s" xs "(p, k, a, False)" ys] list by (auto simp: bs)
    have same: "vsame (mem s) m1 r" if "r \<in> set (map fst xs @ map fst ys)" for r
    proof (rule vsame_apart [OF m1], assumption)
      have "r \<noteq> p" using that own by (auto simp: owned_def bs)
      then show "unat r + 24 \<le> unat p \<or> unat p + 24 \<le> unat r"
        using that by (intro kheap.owned_disjoint [OF has_room_rep [OF room] own]) (auto simp: bs)
    qed
    have fields: "vmem_size m1 p = vmem_size (mem s) p" "vmem_virt_addr m1 p = vmem_virt_addr (mem s) p" "vmem_next m1 p = vmem_next (mem s) p" "vmem_is_free m1 p"
      by (simp_all add: m1_def vmem_size_def vmem_virt_addr_def vmem_next_def vmem_is_free_def rd32_wr8_other wr8_apply)
    have list1: "vlist_at m1 (vmem_head s) (xs @ (p, k, a, True) # ys)"
    proof (rule vlist_at_replace [OF list [unfolded bs]])
      have "vlist_at m1 (vmem_next (mem s) p) ys = vlist_at (mem s) (vmem_next (mem s) p) ys" by (rule vlist_at_same) (use same in auto)
      then show "vlist_at m1 (fst (p, k, a, False)) ((p, k, a, True) # ys)" using blk fields by simp
    qed (use same in auto)
    let ?s1 = "s\<lparr>mem := m1, vmem_freed := vmem_freed s + vmem_size m1 p\<rparr>"
    have "has_room (s\<lparr>mem := m1\<rparr>) K L"
    proof (rule has_room_put [OF room], rule m1)
      fix x assume "x \<notin> live_bytes L \<union> unmanaged"
      then show "x < unat p \<or> unat p + 24 \<le> x" using own by (fastforce simp: owned_def bs intro: live_bytesI)
    qed
    then have room1: "has_room ?s1 K L" by (simp add: has_room_def heap_abs_def)
    have own1: "owned L 24 (map fst (xs @ (p, k, a, True) # ys))" using own by (simp add: bs)
    obtain s' L' where s': "merge_vmem (vmem_head s) ?s1 = kret s'" "has_room s' K L'" "vlist_at (mem s') (vmem_head s) (vm_merge (xs @ (p, k, a, True) # ys))"
      "owned L' 24 (map fst (vm_merge (xs @ (p, k, a, True) # ys)))" "merged L L' (map fst (xs @ (p, k, a, True) # ys)) ?s1 s'"
      using merge_vmem_step [OF room1 own1, of "vmem_head s"] list1 by auto
    have more: "vmem_head s' = vmem_head s" "vmem_initialized s'" "L' \<subseteq> L"
      using s'(5) more_vmem [of s' ?s1] init by (simp_all add: merged_def)
    have "vfree a s = kret s'" using found Some a blk(1) s'(1) by (simp add: vfree_def Let_def b m1_def)
    then show ?thesis using s'(2-4) more mark by (auto simp: vmem_ok_def)
  qed
qed

lemma vmalloc_init_step:
  fixes s :: "'a vmem_scheme"
  assumes room: "has_room s K L" "72 \<le> K" and fresh: "\<not> vmem_initialized s"
  obtains s' p L' where "vmalloc_init s = kret s'" "has_room s' (K - 40) L'" "L \<subseteq> L'" "vmem_ok L' [(p, VMEM_SIZE, VMEM_START, True)] s'"
proof (rule new_header [OF room])
  fix p s1 len assume al: "kmalloc VMEM_HEADER_SIZE s = kret (p, s1)" "p \<noteq> 0" "24 \<le> len"
    and fill: "\<And>k v f. has_room (s1\<lparr>mem := vmem_fill (mem s1) p k v f\<rparr>) (K - 40) (insert (unat p, len) L)
       \<and> kept L (mem s) (vmem_fill (mem s1) p k v f)"
  let ?s' = "kernel_info ''Virtual memory allocator initialized''
    (s1\<lparr>mem := vmem_fill (mem s1) p VMEM_SIZE VMEM_START (\<lambda>_. 0), vmem_head := p, vmem_initialized := True\<rparr>)"
  have "vmalloc_init s = kret ?s'" using fresh al(1,2) by (simp add: vmalloc_init_def)
  moreover have "has_room ?s' (K - 40) (insert (unat p, len) L)" using fill by (simp add: has_room_def heap_abs_def)
  moreover have "vmem_ok (insert (unat p, len) L) [(p, VMEM_SIZE, VMEM_START, True)] ?s'"
    using al(2,3) by (auto simp: vmem_ok_def owned_def vmem_fill_fields vmem_fill_next_const)
  ultimately show thesis by (intro that [of ?s' "insert (unat p, len) L" p]) auto
qed

section \<open>Two live blocks at one address\<close>

lemma page_round_page: "page_round 4096 = 4096"
  by (simp add: page_round_def)

lemma vmalloc_page:
  fixes s :: "'a vmem_scheme"
  assumes room: "has_room s K L" "4184 \<le> K" and ok: "vmem_ok L bs s" and al: "\<And>q. vm_alloc 4096 q bs = Some (a, bs' q)"
  obtains q s' L' where "vmalloc 4096 s = kret (a, s')" "has_room s' (K - 4152) L'" "vmem_ok L' (bs' q) s'"
proof -
  have k: "unat (page_round 4096 div PAGE_SIZE) = 1" by (simp add: page_round_page)
  from vmalloc_step [OF room(1) _ ok, of 4096, unfolded k page_round_page al] room(2) obtain q s' L' where
    "vmalloc 4096 s = kret (a, s')" "has_room s' (K - 4152) L'" "vmem_ok L' (bs' q) s'" by auto
  then show thesis by (rule that)
qed

text \<open>
  C36. \<open>vmalloc\<close> hands out addresses that are in use. The rest of a block that is split gets the size of the
  whole virtual memory less the request, whatever the size of the block was. After two allocations of
  a page each, freeing the first and allocating it again leaves a free block that begins at the
  address of the second page, and the next allocation returns that address although the page there has
  not been freed.
\<close>

theorem vmalloc_overlap:
  fixes s :: "'a vmem_scheme"
  assumes room: "has_room s K L" "17000 \<le> K" and fresh: "\<not> vmem_initialized s"
  shows "\<exists>s1 s2 s3 s4 s5. vmalloc 4096 s = kret (0x10000000, s1) \<and> vmalloc 4096 s1 = kret (0x10001000, s2)
    \<and> vfree 0x10000000 s2 = kret s3 \<and> vmalloc 4096 s3 = kret (0x10000000, s4) \<and> vmalloc 4096 s4 = kret (0x10001000, s5)"
proof -
  obtain s0 p L0 where s0: "vmalloc_init s = kret s0" "has_room s0 (K - 40) L0" "vmem_ok L0 [(p, VMEM_SIZE, VMEM_START, True)] s0"
    by (rule vmalloc_init_step [OF room(1) _ fresh]) (use room(2) in auto)
  have start: "vmalloc 4096 s = vmalloc 4096 s0"
    using fresh s0(1,3) by (simp add: vmalloc_def vmem_ok_def)
  obtain q s1 L1 where s1: "vmalloc 4096 s0 = kret (0x10000000, s1)" "has_room s1 (K - 40 - 4152) L1"
    "vmem_ok L1 [(p, 4096, 0x10000000, False), (q, 0xFFFF000, 0x10001000, True)] s1"
    by (rule vmalloc_page [OF s0(2) _ s0(3)]) (use room(2) in auto)
  obtain r s2 L2 where s2: "vmalloc 4096 s1 = kret (0x10001000, s2)" "has_room s2 (K - 40 - 4152 - 4152) L2"
    "vmem_ok L2 [(p, 4096, 0x10000000, False), (q, 4096, 0x10001000, False), (r, 0xFFFF000, 0x10002000, True)] s2"
    by (rule vmalloc_page [OF s1(2) _ s1(3)]) (use room(2) in auto)
  obtain s3 L3 where s3: "vfree 0x10000000 s2 = kret s3" "has_room s3 (K - 40 - 4152 - 4152) L3"
    "vmem_ok L3 [(p, 4096, 0x10000000, True), (q, 4096, 0x10001000, False), (r, 0xFFFF000, 0x10002000, True)] s3"
    using vfree_step [OF s2(2,3), of "0x10000000"] by auto
  obtain t s4 L4 where s4: "vmalloc 4096 s3 = kret (0x10000000, s4)" "has_room s4 (K - 40 - 4152 - 4152 - 4152) L4"
    "vmem_ok L4 [(p, 4096, 0x10000000, False), (t, 0xFFFF000, 0x10001000, True), (q, 4096, 0x10001000, False), (r, 0xFFFF000, 0x10002000, True)] s4"
    by (rule vmalloc_page [OF s3(2) _ s3(3)]) (use room(2) in auto)
  obtain u s5 L5 where s5: "vmalloc 4096 s4 = kret (0x10001000, s5)" "has_room s5 (K - 40 - 4152 - 4152 - 4152 - 4152) L5"
    "vmem_ok L5 [(p, 4096, 0x10000000, False), (t, 4096, 0x10001000, False), (u, 0xFFFF000, 0x10002000, True),
       (q, 4096, 0x10001000, False), (r, 0xFFFF000, 0x10002000, True)] s5"
    by (rule vmalloc_page [OF s4(2) _ s4(3)]) (use room(2) in auto)
  show ?thesis using start s1(1) s2(1) s3(1) s4(1) s5(1) by auto
qed

theorem vmalloc_overlap_witness:
  "\<exists>s1 s2 s3 s4 s5. vmalloc 4096 (vmem_boot boot_example) = kret (0x10000000, s1) \<and> vmalloc 4096 s1 = kret (0x10001000, s2)
    \<and> vfree 0x10000000 s2 = kret s3 \<and> vmalloc 4096 s3 = kret (0x10000000, s4) \<and> vmalloc 4096 s4 = kret (0x10001000, s5)"
proof (rule vmalloc_overlap)
  show "has_room (vmem_boot boot_example) 0x100000 {}"
    using boot_example_heap by (simp add: has_room_def heap_abs_def vmem_boot_def vfs.defs vmem.defs)
  show "\<not> vmem_initialized (vmem_boot boot_example)" by (simp add: vmem_boot_def vfs.defs vmem.defs)
qed simp

end
