(* ===== verification/KFS_Debug.thy ===== *)
theory KFS_Debug
  imports KFS_Vmalloc_Blocks
begin

text \<open>
  Inspection of the stack (\<open>src/stack.c\<close>) and the report of a panic (\<open>src/panic.c\<close>): what they print. The
  processor's registers are those at the call, since the frames of C functions are not modelled. The
  lemmas show that a trace of frames ends and what it visits.
\<close>

section \<open>The stack\<close>

text \<open>The linker places the stack; its bounds are constants of the state.\<close>

record debug = vmem +
  stack_bottom :: u32
  stack_top :: u32

definition debug_boot :: "u32 \<Rightarrow> u32 \<Rightarrow> vmem \<Rightarrow> debug" where
  "debug_boot bottom top_addr s = vmem.extend s (debug.fields bottom top_addr)"

definition get_stack_pointer :: "'a interrupts_scheme \<Rightarrow> u32" where
  "get_stack_pointer s = r_esp (regs s)"

definition get_base_pointer :: "'a interrupts_scheme \<Rightarrow> u32" where
  "get_base_pointer s = r_ebp (regs s)"

definition prints :: "(string \<times> karg list) list \<Rightarrow> 'a machine_scheme \<Rightarrow> 'a machine_scheme" where
  "prints = fold (\<lambda>(fmt, args). printk fmt args)"

definition stack_print :: "'a debug_scheme \<Rightarrow> 'a debug_scheme option" where
  "stack_print s =
     (let esp = get_stack_pointer s; ebp = get_base_pointer s; stack_start = stack_bottom s; stack_end = stack_top s;
          s1 = prints [(''\<newline>=== Kernel Stack Information ===\<newline>'', []),
                 (''Stack Bottom (Start): 0x%x\<newline>'', [KUInt stack_start]),
                 (''Stack Top (End):      0x%x\<newline>'', [KUInt stack_end]),
                 (''Stack Size:           %d bytes\<newline>'', [KInt (sint (stack_end - stack_start))]),
                 (''Current ESP:          0x%x\<newline>'', [KUInt esp]),
                 (''Current EBP:          0x%x\<newline>'', [KUInt ebp]),
                 (''Stack Used:           %d bytes\<newline>'', [KInt (sint (stack_end - esp))]),
                 (''Stack Free:           %d bytes\<newline>'', [KInt (sint (esp - stack_start))])] s;
          total_size = stack_end - stack_start;
          used_size = stack_end - esp
      in map_option (\<lambda>percentage. prints [(''Stack Usage:          %d%%\<newline>'', [KInt (sint percentage)]),
                 (''\<newline>Stack Growth (grows downward):\<newline>'', []),
                 (''  High Memory [0x%x] <-- Stack Top\<newline>'', [KUInt stack_end]),
                 (''               |\<newline>'', []),
                 (''               | Free Space\<newline>'', []),
                 (''               |\<newline>'', []),
                 (''  ESP -------> [0x%x] <-- Current Position\<newline>'', [KUInt esp]),
                 (''               |\<newline>'', []),
                 (''               | Used Space\<newline>'', []),
                 (''               |\<newline>'', []),
                 (''  Low Memory  [0x%x] <-- Stack Bottom\<newline>'', [KUInt stack_start]),
                 (''\<newline>'', [])] s1) (udiv (used_size * 100) total_size))"

text \<open>The loop over the frames; the first argument is the number of frames that may still be visited.\<close>

fun frames_loop :: "nat \<Rightarrow> u32 \<Rightarrow> int \<Rightarrow> 'a debug_scheme \<Rightarrow> int \<times> 'a debug_scheme" where
  "frames_loop 0 ebp k s = (k, s)"
| "frames_loop (Suc n) ebp k s =
     (if ebp = 0 then (k, s)
      else if ebp < stack_bottom s \<or> stack_top s \<le> ebp
      then (k, printk ''Frame %d: Invalid EBP (0x%x) - outside stack bounds\<newline>'' [KInt k, KUInt ebp] s)
      else
        let eip = rd32 (mem s) (unat ebp + 4);
            prev_ebp = rd32 (mem s) (unat ebp);
            s1 = prints [(''Frame %d:\<newline>'', [KInt k]), (''  EBP: 0x%x\<newline>'', [KUInt ebp]),
                   (''  Return Address: 0x%x\<newline>'', [KUInt eip]), (''  Previous EBP: 0x%x\<newline>'', [KUInt prev_ebp])] s
        in if prev_ebp = 0 \<or> prev_ebp = ebp then (k, s1)
           else frames_loop n prev_ebp (k + 1) s1)"

definition stack_print_frames :: "int \<Rightarrow> 'a debug_scheme \<Rightarrow> 'a debug_scheme" where
  "stack_print_frames max_frames s =
     (let s1 = printk ''\<newline>=== Stack Trace ===\<newline>'' [] s;
          (k, s2) = frames_loop (nat max_frames) (get_base_pointer s) 0 s1;
          s3 = (if k = 0 then printk ''No stack frames to display\<newline>'' [] s2 else s2)
      in printk ''\<newline>'' [] s3)"

section \<open>The report of a panic\<close>

record register_state =
  rs_eax :: u32
  rs_ebx :: u32
  rs_ecx :: u32
  rs_edx :: u32
  rs_esi :: u32
  rs_edi :: u32
  rs_ebp :: u32
  rs_esp :: u32
  rs_eip :: u32
  rs_eflags :: u32
  rs_cs :: u16
  rs_ds :: u16
  rs_es :: u16
  rs_fs :: u16
  rs_gs :: u16
  rs_ss :: u16

text \<open>
  The inline assembly acts on the registers of the state; what the compiler keeps in them between two
  statements is not modelled. \<open>pc\<close> is the address of the label whose call is popped, \<open>ss\<close> the stack segment.
\<close>

definition registers_clean :: "'a interrupts_scheme \<Rightarrow> 'a interrupts_scheme" where
  "registers_clean s = s\<lparr>regs := (regs s)\<lparr>r_eax := 0, r_ebx := 0, r_ecx := 0, r_edx := 0, r_esi := 0, r_edi := 0\<rparr>\<rparr>"

definition registers_save :: "u32 \<Rightarrow> u16 \<Rightarrow> 'a interrupts_scheme \<Rightarrow> register_state" where
  "registers_save pc ss s =
     (let r = regs s in
      \<lparr>rs_eax = r_eax r, rs_ebx = r_ebx r, rs_ecx = r_ecx r, rs_edx = r_edx r, rs_esi = r_esi r, rs_edi = r_edi r,
       rs_ebp = r_ebp r, rs_esp = r_esp r, rs_eip = pc, rs_eflags = r_eflags r, rs_cs = ucast (r_cs r), rs_ds = ucast (r_ds r),
       rs_es = ucast (r_es r), rs_fs = ucast (r_fs r), rs_gs = ucast (r_gs r), rs_ss = ss\<rparr>)"

definition registers_restore :: "register_state \<Rightarrow> 'a interrupts_scheme \<Rightarrow> 'a interrupts_scheme" where
  "registers_restore st s = s\<lparr>regs := (regs s)\<lparr>r_ds := ucast (rs_ds st), r_es := ucast (rs_es st), r_fs := ucast (rs_fs st),
     r_gs := ucast (rs_gs st), r_eax := rs_eax st, r_ebx := rs_ebx st, r_ecx := rs_ecx st, r_edx := rs_edx st,
     r_esi := rs_esi st, r_edi := rs_edi st, r_ebp := rs_ebp st\<rparr>\<rparr>"

definition registers_print :: "register_state \<Rightarrow> 'a machine_scheme \<Rightarrow> 'a machine_scheme" where
  "registers_print r = prints
     [(''Register State:\<newline>'', []),
      (''  EAX=0x%x  EBX=0x%x  ECX=0x%x  EDX=0x%x\<newline>'', [KUInt (rs_eax r), KUInt (rs_ebx r), KUInt (rs_ecx r), KUInt (rs_edx r)]),
      (''  ESI=0x%x  EDI=0x%x  EBP=0x%x  ESP=0x%x\<newline>'', [KUInt (rs_esi r), KUInt (rs_edi r), KUInt (rs_ebp r), KUInt (rs_esp r)]),
      (''  EIP=0x%x  EFLAGS=0x%x\<newline>'', [KUInt (rs_eip r), KUInt (rs_eflags r)]),
      (''  CS=0x%x  DS=0x%x  ES=0x%x  FS=0x%x  GS=0x%x  SS=0x%x\<newline>'',
        [KUInt (ucast (rs_cs r)), KUInt (ucast (rs_ds r)), KUInt (ucast (rs_es r)), KUInt (ucast (rs_fs r)),
         KUInt (ucast (rs_gs r)), KUInt (ucast (rs_ss r))])]"

abbreviation (input) STACK_SAVE_SIZE :: nat where "STACK_SAVE_SIZE \<equiv> 256"

record stack_snapshot =
  snap_data :: "u32 list"
  snap_size :: u32
  snap_esp :: u32
  snap_ebp :: u32

text \<open>The words that are copied; the others keep what the local variable held.\<close>

fun snapshot_loop :: "memory \<Rightarrow> u32 \<Rightarrow> u32 \<Rightarrow> nat list \<Rightarrow> u32 list \<Rightarrow> u32 list" where
  "snapshot_loop m esp ebp [] d = d"
| "snapshot_loop m esp ebp (i # is) d =
     (if esp + 4 * of_nat i < ebp + 0x1000 then snapshot_loop m esp ebp is (d[i := rd32 m (unat (esp + 4 * of_nat i))]) else d)"

definition stack_save_snapshot :: "stack_snapshot \<Rightarrow> 'a interrupts_scheme \<Rightarrow> stack_snapshot" where
  "stack_save_snapshot snapshot s =
     (let esp = r_esp (regs s); ebp = r_ebp (regs s) in
      \<lparr>snap_data = snapshot_loop (mem s) esp ebp [0..<STACK_SAVE_SIZE] (snap_data snapshot),
       snap_size = of_nat STACK_SAVE_SIZE, snap_esp = esp, snap_ebp = ebp\<rparr>)"

definition stack_print_snapshot :: "stack_snapshot \<Rightarrow> 'a machine_scheme \<Rightarrow> 'a machine_scheme" where
  "stack_print_snapshot snapshot s =
     (let s1 = prints [(''\<newline>Stack Snapshot:\<newline>'', []),
                 (''  ESP: 0x%x\<newline>'', [KUInt (snap_esp snapshot)]),
                 (''  EBP: 0x%x\<newline>'', [KUInt (snap_ebp snapshot)]),
                 (''  Size: %d dwords\<newline>\<newline>'', [KInt (sint (snap_size snapshot))]),
                 (''  Stack Contents (first 32 dwords):\<newline>'', [])] s;
          s2 = fold (\<lambda>i s. printk ''0x%x '' [KUInt (snap_data snapshot ! i)]
                   (if i mod 4 = 0 then printk ''\<newline>  0x%x: '' [KUInt (snap_esp snapshot + of_nat i * 4)] s else s))
                 [0..<min 32 (unat (snap_size snapshot))] s1
      in printk ''\<newline>'' [] s2)"

text \<open>The machine with its last screen, before the processor halts for good; \<open>junk\<close> is what the local snapshot held.\<close>

definition kernel_panic_with_registers ::
  "stack_snapshot \<Rightarrow> string \<Rightarrow> register_state option \<Rightarrow> 'a interrupts_scheme \<Rightarrow> 'a interrupts_scheme" where
  "kernel_panic_with_registers junk message r s =
     (let s1 = interrupts_disable s;
          stack = stack_save_snapshot junk s1;
          s2 = on_hw (vga_set_color VGA_COLOR_WHITE VGA_COLOR_RED) (on_hw vga_clear s1);
          s3 = prints [(''\<newline>\<newline>'', []), (''  *** KERNEL PANIC ***  \<newline>'', []), (''\<newline>'', [])] s2;
          s4 = on_hw (vga_set_color VGA_COLOR_LIGHT_GREY VGA_COLOR_BLACK) s3;
          s5 = prints [(''A fatal error has occurred and the kernel must stop.\<newline>\<newline>'', []), (''Error: %s\<newline>\<newline>'', [KStr (Some message)])] s4;
          s6 = (case r of None \<Rightarrow> s5 | Some rs \<Rightarrow> registers_print rs s5);
          s7 = stack_print_snapshot stack s6
      in registers_clean (printk ''\<newline>System halted. Cleaning registers...\<newline>'' [] s7))"

text \<open>What \<open>kernel_panic\<close> leaves; the other components only see that it does not return.\<close>

definition panic_report :: "stack_snapshot \<Rightarrow> u32 \<Rightarrow> u16 \<Rightarrow> string \<Rightarrow> 'a interrupts_scheme \<Rightarrow> 'a interrupts_scheme" where
  "panic_report junk pc ss message s = kernel_panic_with_registers junk message (Some (registers_save pc ss s)) s"

section \<open>Lemmas: traces\<close>

lemma prints_mem [simp]: "mem (prints ps s) = mem s"
  by (induction ps arbitrary: s) (auto simp: prints_def)

text \<open>The trace changes no memory and visits at most the given number of frames; the counter is that of the last one.\<close>

lemma frames_loop_bound:
  "frames_loop n ebp k s = (k', s') \<Longrightarrow> mem s' = mem s \<and> k \<le> k' \<and> k' \<le> k + int n"
proof (induction n arbitrary: ebp k s)
  case (Suc n)
  show ?case
  proof (cases "ebp = 0 \<or> ebp < stack_bottom s \<or> stack_top s \<le> ebp \<or> rd32 (mem s) (unat ebp) \<in> {0, ebp}")
    case True
    then show ?thesis using Suc.prems by (auto simp: Let_def split: if_splits)
  next
    case False
    then obtain s1 where "frames_loop n (rd32 (mem s) (unat ebp)) (k + 1) s1 = (k', s')" "mem s1 = mem s"
      using Suc.prems by (auto simp: Let_def split: if_splits)
    from Suc.IH [OF this(1)] this(2) show ?thesis by simp
  qed
qed simp

text \<open>A stack with exactly one frame is reported twice over: the frame, and that there is none.\<close>

lemma one_frame_not_counted:
  assumes "ebp \<noteq> 0" "stack_bottom s \<le> ebp" "ebp < stack_top s" "rd32 (mem s) (unat ebp) = 0" "0 < n"
  shows "fst (frames_loop n ebp 0 s) = 0"
  using assms by (cases n) (auto simp: Let_def)

text \<open>What is saved is restored, apart from the stack pointer, the flags and the code segment; selectors have 16 bits.\<close>

lemma registers_roundtrip:
  assumes "\<forall>x \<in> {r_ds (regs s), r_es (regs s), r_fs (regs s), r_gs (regs s)}. x < 0x10000"
  shows "regs (registers_restore (registers_save pc ss s) s') = (regs s)\<lparr>r_esp := r_esp (regs s'), r_eip := r_eip (regs s'),
    r_eflags := r_eflags (regs s'), r_cs := r_cs (regs s')\<rparr>"
proof -
  have "ucast (ucast x :: u16) = x" if "x < 0x10000" for x :: u32
    using that by (simp add: word_uint_eq_iff word_less_def unsigned_ucast_eq unsigned_take_bit_eq take_bit_int_eq_self)
  then show ?thesis using assms by (cases "regs s"; cases "regs s'") (simp add: registers_restore_def registers_save_def Let_def)
qed

lemma prints_regs [simp]: "regs (prints ps s) = regs s"
  by (induction ps arbitrary: s) (auto simp: prints_def)

lemma fold_kept: "(\<And>i s. i \<in> set is \<Longrightarrow> g (f i s) = g s) \<Longrightarrow> g (fold f is s) = g s"
  by (induction "is" arbitrary: s) auto

lemma stack_print_snapshot_kept [simp]:
  "mem (stack_print_snapshot sn s) = mem s" "regs (stack_print_snapshot sn t) = regs t"
  by (simp_all add: stack_print_snapshot_def Let_def) (subst fold_kept; simp)+

text \<open>A panic leaves the memory as it is, the general registers cleared and the interrupts disabled.\<close>

lemma panic_report_state:
  "mem (panic_report junk pc ss message s) = mem s" "r_eax (regs (panic_report junk pc ss message s)) = 0"
  "\<not> bit (r_eflags (regs (panic_report junk pc ss message s))) 9"
  by (simp_all add: panic_report_def kernel_panic_with_registers_def registers_clean_def registers_print_def interrupts_disable_def bit_simps Let_def)

end
