(* ===== verification/KFS_Shell.thy ===== *)
theory KFS_Shell
  imports KFS_Debug
begin

text \<open>
  The shell (\<open>src/shell.c\<close>, \<open>include/shell.h\<close>): the line editor, the command line parser, the table of
  commands, every command, the login screen and the main loop. The command line is parsed in place in
  a copy on the stack, and the arguments are pointers into it. The addresses of local and static arrays
  and of functions that are stored or passed are constants of the state. The keys to come are an
  argument of the loops that wait for them: the values \<open>keyboard_getchar\<close> returns in turn. The lemmas
  are in \<open>KFS_Shell_Lines\<close>.
\<close>

section \<open>State\<close>

abbreviation (input) VGA_COLOR_DARK_GREY :: u8 where "VGA_COLOR_DARK_GREY \<equiv> 8"
abbreviation (input) VGA_COLOR_LIGHT_BLUE :: u8 where "VGA_COLOR_LIGHT_BLUE \<equiv> 9"
abbreviation (input) VGA_COLOR_LIGHT_GREEN :: u8 where "VGA_COLOR_LIGHT_GREEN \<equiv> 10"
abbreviation (input) SHELL_BUFFER_SIZE :: nat where "SHELL_BUFFER_SIZE \<equiv> 256"
abbreviation (input) SHELL_MAX_ARGS :: nat where "SHELL_MAX_ARGS \<equiv> 16"
abbreviation (input) KEY_BACKSPACE :: int where "KEY_BACKSPACE \<equiv> 8"
abbreviation (input) KEY_F4 :: int where "KEY_F4 \<equiv> 0x83"

datatype shell_fn = Test_signal_handler | Test_process_entry | Test_process_signal_handler | Shell_process_entry

record shell = debug +
  shell_buffer :: nat
  shell_buffer_pos :: int
  current_uid :: u32
  cmd_copy :: nat
  full_path :: nat
  superblock_buffer :: u32
  hello_msg :: u32
  shell_code :: "shell_fn \<Rightarrow> u32"

text \<open>The statics before anything runs; the arguments are the addresses.\<close>

definition shell_boot :: "nat \<Rightarrow> nat \<Rightarrow> nat \<Rightarrow> u32 \<Rightarrow> u32 \<Rightarrow> (shell_fn \<Rightarrow> u32) \<Rightarrow> debug \<Rightarrow> shell" where
  "shell_boot buffer copy path sb msg code s = debug.extend s (shell.fields buffer 0 0 copy path sb msg code)"

text \<open>Printing in a colour, and back to grey.\<close>

definition set_fg :: "u8 \<Rightarrow> 'a machine_scheme \<Rightarrow> 'a machine_scheme" where
  "set_fg c = on_hw (vga_set_color c VGA_COLOR_BLACK)"

definition say :: "u8 \<Rightarrow> string \<Rightarrow> karg list \<Rightarrow> 'a machine_scheme \<Rightarrow> 'a machine_scheme" where
  "say c fmt args s = set_fg VGA_COLOR_LIGHT_GREY (printk fmt args (set_fg c s))"

definition print_lines :: "string list \<Rightarrow> 'a machine_scheme \<Rightarrow> 'a machine_scheme" where
  "print_lines = fold (\<lambda>t. printk t [])"

section \<open>The command line\<close>

definition shell_init :: "'a shell_scheme \<Rightarrow> 'a shell_scheme" where
  "shell_init s = s\<lparr>shell_buffer_pos := 0, mem := wr8 (mem s) (shell_buffer s) 0\<rparr>"

definition shell_prompt :: "'a machine_scheme \<Rightarrow> 'a machine_scheme" where
  "shell_prompt s = printk ''$ '' [] (say VGA_COLOR_LIGHT_GREEN ''kfs'' [] s)"

text \<open>The loop of \<open>shell_parse_args\<close>: the position, \<open>in_arg\<close> and the arguments found so far.\<close>

partial_function (option) parse_loop :: "nat \<Rightarrow> memory \<Rightarrow> nat \<Rightarrow> bool \<Rightarrow> nat list \<Rightarrow> (memory \<times> nat list) option" where
  "parse_loop max_args m p in_arg argv =
     (if m p = 0 \<or> max_args \<le> length argv then Some (m, argv)
      else if m p = 32 \<or> m p = 9 \<or> m p = 10
      then parse_loop max_args (if in_arg then wr8 m p 0 else m) (p + 1) False argv
      else parse_loop max_args m (p + 1) True (if in_arg then argv else argv @ [p]))"

definition shell_parse_args :: "memory \<Rightarrow> nat \<Rightarrow> nat \<Rightarrow> (memory \<times> nat list) option" where
  "shell_parse_args m cmdline max_args = parse_loop max_args m cmdline False []"

section \<open>Information\<close>

datatype shell_handler = Cmd_help | Cmd_clear | Cmd_stack | Cmd_stacktrace | Cmd_gdt | Cmd_idt | Cmd_mem | Cmd_kmalloc_stats
  | Cmd_vmalloc_stats | Cmd_memtest | Cmd_panic | Cmd_signal | Cmd_syscall | Cmd_process | Cmd_fork | Cmd_psignal
  | Cmd_mmap | Cmd_cat | Cmd_pwd | Cmd_cd | Cmd_ls | Cmd_mount | Cmd_umount | Cmd_login | Cmd_whoami | Cmd_reboot
  | Cmd_halt | Cmd_echo | Cmd_about

definition commands :: "(string \<times> string \<times> shell_handler) list" where
  "commands =
     [(''help'', ''Display this help message'', Cmd_help), (''clear'', ''Clear the screen'', Cmd_clear),
      (''stack'', ''Display kernel stack information'', Cmd_stack), (''stacktrace'', ''Display stack trace'', Cmd_stacktrace),
      (''gdt'', ''Display GDT information'', Cmd_gdt), (''idt'', ''Display IDT information'', Cmd_idt),
      (''mem'', ''Display memory information'', Cmd_mem), (''kstats'', ''Display kernel heap statistics'', Cmd_kmalloc_stats),
      (''vstats'', ''Display virtual memory statistics'', Cmd_vmalloc_stats), (''memtest'', ''Test memory allocation'', Cmd_memtest),
      (''panic'', ''Trigger a kernel panic'', Cmd_panic), (''signal'', ''Test signal system'', Cmd_signal),
      (''syscall'', ''Test syscall system'', Cmd_syscall), (''process'', ''Test process system'', Cmd_process),
      (''fork'', ''Test fork syscall'', Cmd_fork), (''psignal'', ''Test process signal'', Cmd_psignal),
      (''mmap'', ''Test mmap syscall'', Cmd_mmap), (''cat'', ''Display file contents'', Cmd_cat),
      (''pwd'', ''Print working directory'', Cmd_pwd), (''cd'', ''Change directory'', Cmd_cd),
      (''ls'', ''List directory contents'', Cmd_ls), (''mount'', ''Mount a filesystem (BONUS)'', Cmd_mount),
      (''umount'', ''Unmount a filesystem (BONUS)'', Cmd_umount), (''login'', ''Login as a user (BONUS)'', Cmd_login),
      (''whoami'', ''Show current user (BONUS)'', Cmd_whoami), (''reboot'', ''Reboot the system'', Cmd_reboot),
      (''halt'', ''Halt the system'', Cmd_halt), (''echo'', ''Echo arguments'', Cmd_echo),
      (''about'', ''About this kernel'', Cmd_about)]"

definition cmd_help :: "'a machine_scheme \<Rightarrow> 'a machine_scheme" where
  "cmd_help s =
     (let s1 = say VGA_COLOR_LIGHT_CYAN ''\<newline>Available Commands:\<newline>'' [] s;
          s2 = fold (\<lambda>(name, description, handler) s.
                 let s1 = printk ''  %s'' [KStr (Some name)] (set_fg VGA_COLOR_LIGHT_GREEN s);
                     s2 = (printk '' '' [] ^^ (12 - length name)) s1
                 in printk '' - %s\<newline>'' [KStr (Some description)] (set_fg VGA_COLOR_LIGHT_GREY s2)) commands s1
      in printk ''\<newline>'' [] s2)"

definition cmd_clear :: "'a machine_scheme \<Rightarrow> 'a machine_scheme" where
  "cmd_clear = on_hw vga_clear"

definition cmd_stack :: "'a debug_scheme \<Rightarrow> 'a debug_scheme kresult" where
  "cmd_stack s = klift (stack_print s)"

text \<open>The number at the start of an argument; the sum wraps like \<open>int\<close>.\<close>

partial_function (option) parse_int :: "memory \<Rightarrow> nat \<Rightarrow> int \<Rightarrow> int option" where
  "parse_int m p acc =
     (if 48 \<le> m p \<and> m p \<le> 57 then parse_int m (p + 1) (i32 (acc * 10 + (uint (m p) - 48))) else Some acc)"

definition cmd_stacktrace :: "nat list \<Rightarrow> 'a debug_scheme \<Rightarrow> 'a debug_scheme kresult" where
  "cmd_stacktrace argv s =
     (if 1 < length argv
      then kbind (klift (parse_int (mem s) (argv ! 1) 0)) (\<lambda>n. kret (stack_print_frames (if n = 0 then 10 else n) s))
      else kret (stack_print_frames 10 s))"

definition cmd_gdt :: "'a gdt_scheme \<Rightarrow> 'a gdt_scheme" where
  "cmd_gdt = gdt_print_info"

text \<open>The wait for the keyboard controller.\<close>

partial_function (option) reboot_wait :: "hardware \<Rightarrow> hardware option" where
  "reboot_wait h = (let (good, h') = inb 0x64 h in if good AND 0x02 \<noteq> 0 then reboot_wait h' else Some h')"

text \<open>After the reset, and after a halt without interrupts, nothing of the kernel runs any more.\<close>

definition cmd_reboot :: "'a machine_scheme \<Rightarrow> 'a machine_scheme kresult" where
  "cmd_reboot s =
     (let s1 = say VGA_COLOR_LIGHT_BROWN ''Rebooting system...\<newline>'' [] s
      in kbind (klift (reboot_wait (hw s1))) (\<lambda>h. let s2 = s1\<lparr>hw := outb 0x64 0xFE h\<rparr> in None))"

definition cmd_halt :: "'a machine_scheme \<Rightarrow> 'a machine_scheme kresult" where
  "cmd_halt s = (let s1 = say VGA_COLOR_LIGHT_BROWN ''System halted. You can now power off.\<newline>'' [] s in None)"

text \<open>Printing the string at an address.\<close>

definition print_at :: "string \<Rightarrow> nat \<Rightarrow> 'a machine_scheme \<Rightarrow> 'a machine_scheme kresult" where
  "print_at fmt p s = kbind (klift (text_at (mem s) p)) (\<lambda>t. kret (printk fmt [KStr (Some t)] s))"

definition say_at :: "u8 \<Rightarrow> string \<Rightarrow> nat \<Rightarrow> 'a machine_scheme \<Rightarrow> 'a machine_scheme kresult" where
  "say_at c fmt p s = kbind (klift (text_at (mem s) p)) (\<lambda>t. kret (say c fmt [KStr (Some t)] s))"

definition cmd_echo :: "nat list \<Rightarrow> 'a machine_scheme \<Rightarrow> 'a machine_scheme kresult" where
  "cmd_echo argv s =
     kbind (kfold (\<lambda>i s. kbind (print_at ''%s'' (argv ! i) s) (\<lambda>s1.
              kret (if i < length argv - 1 then printk '' '' [] s1 else s1))) [1..<length argv] s)
       (\<lambda>s1. kret (printk ''\<newline>'' [] s1))"

definition cmd_about :: "'a machine_scheme \<Rightarrow> 'a machine_scheme" where
  "cmd_about s = print_lines
     [''\<newline>Kernel From Scratch - Fourth Subject\<newline>'', ''A minimal 32-bit x86 kernel with:\<newline>'',
      ''  - Interrupt Descriptor Table (IDT)\<newline>'', ''  - CPU Exception Handlers (0x00-0x13)\<newline>'',
      ''  - Hardware Interrupts (PIC)\<newline>'', ''  - Signal-callback system\<newline>'', ''  - Syscall infrastructure (INT 0x80)\<newline>'',
      ''  - Global Descriptor Table (GDT)\<newline>'', ''  - Memory paging and allocators\<newline>'', ''  - Kernel panic handling\<newline>'',
      ''  - Interactive debug shell\<newline>'', ''\<newline>Architecture: i386 (x86)\<newline>'', ''Boot Loader: GRUB Multiboot\<newline>'',
      ''No standard library dependencies\<newline>'', ''\<newline>'']
     (say VGA_COLOR_LIGHT_CYAN ''\<newline>=== KFS_4: Interrupt System ===\<newline>'' [] s)"

definition cmd_mem :: "'a machine_scheme \<Rightarrow> 'a machine_scheme" where
  "cmd_mem = prints
     [(''\<newline>=== Memory System Overview ===\<newline>'', []), (''Page size: %d bytes\<newline>'', [KInt 4096]),
      (''Pages per table: %d\<newline>'', [KInt 1024]), (''Pages per directory: %d\<newline>'', [KInt 1024]),
      (''Virtual address space: 4 GB\<newline>'', []), (''\<newline>Memory regions:\<newline>'', []),
      (''  Kernel heap:     0x00500000 - 0x00600000 (1 MB)\<newline>'', []),
      (''  Virtual memory:  0x10000000 - 0x20000000 (256 MB)\<newline>'', []),
      (''\<newline>Type 'kstats' for kernel heap statistics\<newline>'', []), (''Type 'vstats' for virtual memory statistics\<newline>\<newline>'', [])]"

definition cmd_kmalloc_stats :: "'a kheap_scheme \<Rightarrow> 'a kheap_scheme kresult" where
  "cmd_kmalloc_stats = kmalloc_stats"

definition cmd_vmalloc_stats :: "'a vmem_scheme \<Rightarrow> 'a vmem_scheme kresult" where
  "cmd_vmalloc_stats = vmalloc_stats"

definition cmd_idt :: "'a interrupts_scheme \<Rightarrow> 'a interrupts_scheme" where
  "cmd_idt = idt_print_info"

section \<open>Tests of the kernel\<close>

definition title :: "string \<Rightarrow> 'a machine_scheme \<Rightarrow> 'a machine_scheme" where
  "title t = say VGA_COLOR_LIGHT_CYAN t []"

definition cmd_memtest :: "'a vmem_scheme \<Rightarrow> 'a vmem_scheme kresult" where
  "cmd_memtest s =
     (let s1 = printk ''\<newline>Testing kmalloc...\<newline>'' [] (title ''\<newline>=== Memory Allocation Test ===\<newline>'' s) in
      kbind (kmalloc 1024 s1) (\<lambda>(ptr1, s2).
      kbind (kmalloc 2048 (printk ''  Allocated 1024 bytes at 0x%x\<newline>'' [KUInt ptr1] s2)) (\<lambda>(ptr2, s3).
      kbind (kmalloc 512 (printk ''  Allocated 2048 bytes at 0x%x\<newline>'' [KUInt ptr2] s3)) (\<lambda>(ptr3, s4).
      kbind (kfree ptr2 (prints [(''  Allocated 512 bytes at 0x%x\<newline>'', [KUInt ptr3]), (''\<newline>Testing kfree...\<newline>'', [])] s4)) (\<lambda>s5.
      kbind (vmalloc 8192 (prints [(''  Freed 0x%x\<newline>'', [KUInt ptr2]), (''\<newline>Testing vmalloc...\<newline>'', [])] s5)) (\<lambda>(vptr1, s6).
      kbind (vmalloc 16384 (printk ''  Allocated 8192 bytes at 0x%x\<newline>'' [KUInt vptr1] s6)) (\<lambda>(vptr2, s7).
      kbind (kmalloc_stats (prints [(''  Allocated 16384 bytes at 0x%x\<newline>'', [KUInt vptr2]), (''\<newline>Current memory state:\<newline>'', [])] s7)) (\<lambda>s8.
      kbind (vmalloc_stats s8) (\<lambda>s9.
        kret (say VGA_COLOR_LIGHT_GREEN ''Memory test completed successfully!\<newline>\<newline>'' [] s9))))))))))"

definition cmd_panic :: "'a machine_scheme \<Rightarrow> 'a machine_scheme kresult" where
  "cmd_panic s = (let s1 = say VGA_COLOR_LIGHT_BROWN ''Triggering kernel panic...\<newline>'' [] s in kernel_panic ''Test panic from shell'')"

definition test_signal_handler :: "int \<Rightarrow> 'a machine_scheme \<Rightarrow> 'a machine_scheme" where
  "test_signal_handler sig = say VGA_COLOR_GREEN ''\<newline>[SIGNAL] Handler called for signal %d (%s)\<newline>'' [KInt sig, KStr (Some (signal_name sig))]"

definition test_process_signal_handler :: "int \<Rightarrow> 'a machine_scheme \<Rightarrow> 'a machine_scheme" where
  "test_process_signal_handler sig = say VGA_COLOR_GREEN ''\<newline>[PSIGNAL] Process received signal %d\<newline>'' [KInt sig]"

text \<open>The code at the address of a handler; no other handlers are ever registered.\<close>

definition call_handler :: "u32 \<Rightarrow> int \<Rightarrow> 'a shell_scheme \<Rightarrow> 'a shell_scheme kresult" where
  "call_handler h sig s =
     (if h = shell_code s Test_signal_handler then kret (test_signal_handler sig s)
      else if h = shell_code s Test_process_signal_handler then kret (test_process_signal_handler sig s)
      else None)"

definition cmd_signal :: "'a shell_scheme \<Rightarrow> 'a shell_scheme kresult" where
  "cmd_signal s =
     (let s1 = printk ''Registering handler for SIGINT (2)...\<newline>'' [] (title ''\<newline>=== Signal System Test ===\<newline>'' s);
          (r1, s2) = signal_register 2 (shell_code s1 Test_signal_handler) s1;
          (r2, s3) = signal_raise 2 (printk ''Raising SIGINT...\<newline>'' [] s2)
      in kbind (signal_process_pending call_handler (printk ''Processing pending signals...\<newline>'' [] s3)) (\<lambda>s4.
           kret (printk ''\<newline>Signal test completed!\<newline>\<newline>'' [] s4)))"

text \<open>\<open>INT 0x80\<close> with the given registers; the handler of that vector is the dispatcher of system calls.\<close>

definition int80 :: "(cpu \<Rightarrow> cpu) \<Rightarrow> 'a shell_scheme \<Rightarrow> 'a shell_scheme kresult" where
  "int80 set_regs s = isr_noerrcode (with_syscalls (\<lambda>_ _ _. None)) 128 (s\<lparr>regs := set_regs (regs s)\<rparr>)"

definition cmd_syscall :: "'a shell_scheme \<Rightarrow> 'a shell_scheme kresult" where
  "cmd_syscall s =
     (let s1 = prints [(''Testing syscalls via INT 0x80...\<newline>\<newline>'', []), (''Test 1: sys_write (SYS_WRITE = 1)\<newline>'', [])]
                 (title ''\<newline>=== Syscall System Test ===\<newline>'' s)
      in kbind (int80 (\<lambda>r. r\<lparr>r_eax := 1, r_ebx := 1, r_ecx := hello_msg s1, r_edx := 22\<rparr>) s1) (\<lambda>s2.
           let s3 = prints [(''  Result: %d bytes written\<newline>\<newline>'', [KInt (sint (r_eax (regs s2)))]), (''Test 2: sys_exit (SYS_EXIT = 0)\<newline>'', [])] s2
           in kbind (int80 (\<lambda>r. r\<lparr>r_eax := 0, r_ebx := 42\<rparr>) s3) (\<lambda>s4. kret (printk ''\<newline>Syscall test completed!\<newline>\<newline>'' [] s4))))"

text \<open>The entry of the test process: the loop in between counts to a million and does nothing else.\<close>

definition test_process_entry :: "'a procs_scheme \<Rightarrow> 'a procs_scheme kresult" where
  "test_process_entry s =
     (let cur_pid = (case process_get_current s of None \<Rightarrow> 0 | Some p \<Rightarrow> sint (pid (proc s p)));
          s1 = printk ''[PROCESS] Test process running! PID: %d\<newline>'' [KInt cur_pid] s;
          s2 = printk ''[PROCESS] Test process exiting\<newline>'' [] s1
      in process_exit (process_get_current s2) 42 s2)"

definition state_num :: "process_state \<Rightarrow> int" where
  "state_num st = (case st of PROCESS_STATE_UNUSED \<Rightarrow> 0 | PROCESS_STATE_RUNNING \<Rightarrow> 1 | PROCESS_STATE_READY \<Rightarrow> 2
     | PROCESS_STATE_BLOCKED \<Rightarrow> 3 | PROCESS_STATE_ZOMBIE \<Rightarrow> 4)"

definition cmd_process :: "'a shell_scheme \<Rightarrow> 'a shell_scheme kresult" where
  "cmd_process s =
     (let s1 = printk ''Creating a test process...\<newline>'' [] (title ''\<newline>=== Process System Test ===\<newline>'' s)
      in kbind (process_create (shell_code s1 Test_process_entry) 0 s1) (\<lambda>(pp, s2).
           let s3 = (case pp of
                 Some p \<Rightarrow> prints [(''  PID: %d\<newline>'', [KInt (sint (pid (proc s2 p)))]), (''  UID: %d\<newline>'', [KInt (sint (uid (proc s2 p)))]),
                     (''  State: %d\<newline>'', [KInt (state_num (state (proc s2 p)))]),
                     (''  Kernel stack: 0x%x\<newline>'', [KUInt (kernel_stack (proc s2 p))]),
                     (''  User stack: 0x%x\<newline>'', [KUInt (user_stack (proc s2 p))])]
                     (say VGA_COLOR_GREEN ''Process created successfully!\<newline>'' [] s2)
               | None \<Rightarrow> say VGA_COLOR_LIGHT_RED ''Failed to create process!\<newline>'' [] s2)
           in kret (printk ''\<newline>Process test completed!\<newline>\<newline>'' [] s3)))"

definition cmd_fork :: "'a shell_scheme \<Rightarrow> 'a shell_scheme kresult" where
  "cmd_fork s =
     (let s1 = printk ''Creating parent process...\<newline>'' [] (title ''\<newline>=== Fork System Test ===\<newline>'' s)
      in kbind (process_create (shell_code s1 Test_process_entry) 0 s1) (\<lambda>(pp, s2).
           case pp of None \<Rightarrow> kret (say VGA_COLOR_LIGHT_RED ''Failed to create parent process!\<newline>'' [] s2)
           | Some p \<Rightarrow>
               let s3 = prints [(''Parent process created (PID: %d)\<newline>'', [KInt (sint (pid (proc s2 p)))]), (''\<newline>Forking parent process...\<newline>'', [])] s2
               in kbind (process_fork (Some p) s3) (\<lambda>(cc, s4).
                    let s5 = (case cc of
                          Some c \<Rightarrow> prints [(''  Parent PID: %d\<newline>'', [KInt (sint (pid (proc s4 p)))]), (''  Child PID:  %d\<newline>'', [KInt (sint (pid (proc s4 c)))]),
                              (''  Child parent: %d\<newline>'', [KInt (case parent (proc s4 c) of None \<Rightarrow> 0 | Some q \<Rightarrow> sint (pid (proc s4 q)))])]
                              (say VGA_COLOR_GREEN ''Fork successful!\<newline>'' [] s4)
                        | None \<Rightarrow> say VGA_COLOR_LIGHT_RED ''Fork failed!\<newline>'' [] s4)
                    in kret (printk ''\<newline>Fork test completed!\<newline>\<newline>'' [] s5))))"

definition cmd_psignal :: "'a shell_scheme \<Rightarrow> 'a shell_scheme kresult" where
  "cmd_psignal s =
     (let s1 = printk ''Creating test process...\<newline>'' [] (title ''\<newline>=== Process Signal Test ===\<newline>'' s)
      in kbind (process_create (shell_code s1 Test_process_entry) 0 s1) (\<lambda>(pp, s2).
           case pp of None \<Rightarrow> kret (say VGA_COLOR_LIGHT_RED ''Failed to create process!\<newline>'' [] s2)
           | Some p \<Rightarrow>
               let s3 = prints [(''Process created (PID: %d)\<newline>'', [KInt (sint (pid (proc s2 p)))]), (''Registering signal handler for SIGINT (2)...\<newline>'', [])] s2;
                   (r1, s4) = process_signal_register (Some p) 2 (shell_code s3 Test_process_signal_handler) s3
               in kbind (process_signal_send (Some p) 2 (printk ''Sending SIGINT to process...\<newline>'' [] s4)) (\<lambda>(r2, s5).
                  kbind (process_signal_process call_handler (Some p) (printk ''Processing pending signals...\<newline>'' [] s5)) (\<lambda>s6.
                    kret (say VGA_COLOR_GREEN ''\<newline>Process signal test completed!\<newline>\<newline>'' [] s6)))))"

definition print_section :: "string \<Rightarrow> process_section \<Rightarrow> 'a machine_scheme \<Rightarrow> 'a machine_scheme" where
  "print_section fmt sec = printk fmt [KUInt (start_addr sec), KInt (sint (sec_size sec)), KUInt (sec_flags sec)]"

definition cmd_mmap :: "'a shell_scheme \<Rightarrow> 'a shell_scheme kresult" where
  "cmd_mmap s =
     (let s1 = printk ''Creating test process...\<newline>'' [] (title ''\<newline>=== Memory Mapping (mmap) Test ===\<newline>'' s)
      in kbind (process_create (shell_code s1 Test_process_entry) 0 s1) (\<lambda>(pp, s2).
           case pp of None \<Rightarrow> kret (say VGA_COLOR_LIGHT_RED ''Failed to create process!\<newline>'' [] s2)
           | Some p \<Rightarrow>
               let s3 = prints [(''Process created (PID: %d)\<newline>'', [KInt (sint (pid (proc s2 p)))]),
                          (''Initial heap: 0x%x - 0x%x\<newline>'', [KUInt (p_heap_start (proc s2 p)), KUInt (p_heap_end (proc s2 p))]),
                          (''\<newline>Mapping 8KB with mmap...\<newline>'', [])] s2
               in kbind (process_mmap (Some p) 0 8192 0x3 0x22 s3) (\<lambda>(mapped, s4).
                    if mapped = -1 then kret (say VGA_COLOR_LIGHT_RED ''mmap failed!\<newline>'' [] s4)
                    else
                      let s5 = prints [(''  Mapped at: 0x%x\<newline>'', [KUInt mapped]), (''  New heap end: 0x%x\<newline>'', [KUInt (p_heap_end (proc s4 p))]),
                                 (''\<newline>Testing brk (grow heap by 4KB)...\<newline>'', [])] (say VGA_COLOR_GREEN ''mmap successful!\<newline>'' [] s4)
                      in kbind (process_brk (Some p) (p_heap_end (proc s5 p) + 4096) s5) (\<lambda>(result, s6).
                           let s7 = (if result \<noteq> -1
                                 then printk ''  New brk: 0x%x\<newline>'' [KUInt (word_of_int result)] (say VGA_COLOR_GREEN ''brk successful!\<newline>'' [] s6)
                                 else say VGA_COLOR_LIGHT_RED ''brk failed!\<newline>'' [] s6);
                               q = proc s7 p;
                               s8 = print_section ''  .text:   0x%x (size: %d, flags: 0x%x)\<newline>'' (text_section q) (printk ''\<newline>Process Memory Layout:\<newline>'' [] s7);
                               s9 = print_section ''  .rodata: 0x%x (size: %d, flags: 0x%x)\<newline>'' (rodata_section q) s8;
                               s10 = print_section ''  .data:   0x%x (size: %d, flags: 0x%x)\<newline>'' (data_section q) s9;
                               s11 = print_section ''  .bss:    0x%x (size: %d, flags: 0x%x)\<newline>'' (bss_section q) s10;
                               s12 = prints [(''  heap:    0x%x - 0x%x\<newline>'', [KUInt (p_heap_start q), KUInt (p_heap_end q)]),
                                       (''  stack:   0x%x\<newline>'', [KUInt (user_stack q)])] s11
                           in kret (say VGA_COLOR_GREEN ''\<newline>Memory mapping test completed!\<newline>\<newline>'' [] s12)))))"

section \<open>Files\<close>

text \<open>
  A string that is not in the modelled memory (the working directory in a process structure, a literal)
  is put into the local path buffer for the call.
\<close>

definition put_text :: "memory \<Rightarrow> nat \<Rightarrow> string \<Rightarrow> memory" where
  "put_text m a t = store_struct m a (\<lambda>i. if i < length t then lit_bytes t ! i else 0) (length t + 1)"

definition resolve_text :: "string \<Rightarrow> 'a shell_scheme \<Rightarrow> (u32 \<times> 'a shell_scheme) kresult" where
  "resolve_text t s = vfs_resolve_path (full_path s) (s\<lparr>mem := put_text (mem s) (full_path s) t\<rparr>)"

definition arg_text :: "memory \<Rightarrow> str_arg \<Rightarrow> string option" where
  "arg_text m a = (case a of Ptr p \<Rightarrow> text_at m p | Lit t \<Rightarrow> Some t)"

text \<open>The working directory, and a relative path below it as \<open>snprintf\<close> leaves it in 256 bytes.\<close>

definition shell_pwd :: "'a procs_scheme \<Rightarrow> string" where
  "shell_pwd s = (case process_get_pwd (process_get_current s) s of None \<Rightarrow> ''/'' | Some t \<Rightarrow> t)"

definition below_pwd :: "string \<Rightarrow> 'a procs_scheme \<Rightarrow> string" where
  "below_pwd t s = take 255 (if shell_pwd s = ''/'' then ''/'' @ t else shell_pwd s @ ''/'' @ t)"

definition resolve_path_from_pwd :: "str_arg \<Rightarrow> 'a shell_scheme \<Rightarrow> (u32 \<times> 'a shell_scheme) kresult" where
  "resolve_path_from_pwd path s =
     kbind (klift (arg_text (mem s) path)) (\<lambda>t.
       if take 1 t = ''/'' then (case path of Ptr p \<Rightarrow> vfs_resolve_path p s | Lit u \<Rightarrow> resolve_text u s)
       else resolve_text (below_pwd t s) s)"

definition cmd_cat :: "nat list \<Rightarrow> 'a shell_scheme \<Rightarrow> 'a shell_scheme kresult" where
  "cmd_cat argv s =
     (if length argv < 2 then kret (say VGA_COLOR_LIGHT_RED ''Usage: cat <file>\<newline>'' [] s)
      else kbind (resolve_path_from_pwd (Ptr (argv ! 1)) s) (\<lambda>(fil, s1).
        if fil = 0 then say_at VGA_COLOR_LIGHT_RED ''cat: %s: No such file or directory\<newline>'' (argv ! 1) s1
        else if node_type (mem s1) fil \<noteq> VFS_FILE_TYPE_REGULAR
        then say_at VGA_COLOR_LIGHT_RED ''cat: %s: Not a regular file\<newline>'' (argv ! 1) s1
        else kbind (vfs_open fil 0 s1) (\<lambda>(r, s2).
          if r \<noteq> 0 then say_at VGA_COLOR_LIGHT_RED ''cat: %s: Cannot open file\<newline>'' (argv ! 1) s2
          else kbind (kmalloc (node_size (mem s2) fil + 1) s2) (\<lambda>(buffer, s3).
            if buffer = 0 then vfs_close fil (say VGA_COLOR_LIGHT_RED ''cat: Cannot allocate buffer\<newline>'' [] s3)
            else kbind (vfs_read fil 0 (node_size (mem s3) fil) buffer s3) (\<lambda>(bytes_read, s4).
              if bytes_read < 0
              then kbind (say_at VGA_COLOR_LIGHT_RED ''cat: %s: Read error\<newline>'' (argv ! 1) s4) (\<lambda>s5. kbind (kfree buffer s5) (vfs_close fil))
              else kbind (print_at ''%s'' (unat buffer) (s4\<lparr>mem := wr8 (mem s4) (unat buffer + nat bytes_read) 0\<rparr>)) (\<lambda>s5.
                     kbind (kfree buffer s5) (vfs_close fil)))))))"

definition cmd_pwd :: "'a procs_scheme \<Rightarrow> 'a procs_scheme" where
  "cmd_pwd s = printk ''%s\<newline>'' [KStr (Some (shell_pwd s))] s"

definition cmd_cd :: "nat list \<Rightarrow> 'a shell_scheme \<Rightarrow> 'a shell_scheme kresult" where
  "cmd_cd argv s =
     (let path = (if length argv < 2 then Lit ''/'' else Ptr (argv ! 1)) in
      kbind (klift (arg_text (mem s) path)) (\<lambda>t.
      kbind (resolve_path_from_pwd path s) (\<lambda>(node, s1).
        if node = 0 then kret (say VGA_COLOR_LIGHT_RED ''cd: %s: No such file or directory\<newline>'' [KStr (Some t)] s1)
        else if node_type (mem s1) node \<noteq> VFS_FILE_TYPE_DIRECTORY
        then kret (say VGA_COLOR_LIGHT_RED ''cd: %s: Not a directory\<newline>'' [KStr (Some t)] s1)
        else
          let full = (if take 1 t = ''/'' then take 255 t else below_pwd t s1) in
          case process_get_current s1 of
            Some p \<Rightarrow>
              let (r, s2) = process_set_pwd (Some p) (Some full) s1
              in kret (if r \<noteq> 0 then say VGA_COLOR_LIGHT_RED ''cd: Cannot change directory\<newline>'' [] s2 else s2)
          | None \<Rightarrow> kret (say VGA_COLOR_LIGHT_RED ''cd: No current process\<newline>'' [] s1))))"

text \<open>One entry of a listing, and the loop over the entries.\<close>

definition ls_entry :: "u32 \<Rightarrow> 'a machine_scheme \<Rightarrow> 'a machine_scheme kresult" where
  "ls_entry node s =
     (let t = node_type (mem s) node in
      kbind (print_at ''  %s'' (unat node)
              (set_fg (if t = VFS_FILE_TYPE_DIRECTORY then VGA_COLOR_LIGHT_BLUE else VGA_COLOR_LIGHT_GREY) s)) (\<lambda>s1.
        let s2 = (if t = VFS_FILE_TYPE_DIRECTORY then printk ''/'' [] s1 else s1);
            s3 = (if t = VFS_FILE_TYPE_REGULAR
                  then printk '' (%d bytes)'' [KInt (sint (node_size (mem s2) node))] (set_fg VGA_COLOR_DARK_GREY s2) else s2)
        in kret (printk ''\<newline>'' [] s3)))"

partial_function (option) ls_loop :: "u32 \<Rightarrow> u32 \<Rightarrow> 'a shell_scheme \<Rightarrow> 'a shell_scheme kresult" where
  "ls_loop node index s =
     kbind (vfs_readdir node index s) (\<lambda>(dentry, s1).
       if dentry = 0 then kret s1
       else if cstr (mem s1) (unat dentry) [46] \<or> cstr (mem s1) (unat dentry) [46, 46] then ls_loop node (index + 1) s1
       else kbind (ls_entry dentry s1) (\<lambda>s2. ls_loop node (index + 1) s2))"

definition cmd_ls :: "nat list \<Rightarrow> 'a shell_scheme \<Rightarrow> 'a shell_scheme kresult" where
  "cmd_ls argv s =
     (let path = (if length argv < 2 then Lit (shell_pwd s) else Ptr (argv ! 1)) in
      kbind (klift (arg_text (mem s) path)) (\<lambda>t.
      kbind (resolve_path_from_pwd path s) (\<lambda>(node, s1).
        if node = 0 then kret (say VGA_COLOR_LIGHT_RED ''ls: %s: No such file or directory\<newline>'' [KStr (Some t)] s1)
        else if node_type (mem s1) node \<noteq> VFS_FILE_TYPE_DIRECTORY
        then kret (say VGA_COLOR_LIGHT_RED ''ls: %s: Not a directory\<newline>'' [KStr (Some t)] s1)
        else kbind (ls_loop node 0 (printk ''\<newline>'' [] s1)) (\<lambda>s2.
               kret (printk ''\<newline>'' [] (set_fg VGA_COLOR_LIGHT_GREY s2))))))"

text \<open>The device names of \<open>mount\<close>.\<close>

definition mount_devices :: "(string \<times> ide_channel \<times> ide_drive) list" where
  "mount_devices = [(''hda0'', IDE_CHANNEL_PRIMARY, IDE_DRIVE_MASTER_IDX), (''hda1'', IDE_CHANNEL_PRIMARY, IDE_DRIVE_SLAVE_IDX),
     (''hdb0'', IDE_CHANNEL_SECONDARY, IDE_DRIVE_MASTER_IDX), (''hdb1'', IDE_CHANNEL_SECONDARY, IDE_DRIVE_SLAVE_IDX)]"

text \<open>Two strings in a message.\<close>

definition say_at2 :: "u8 \<Rightarrow> string \<Rightarrow> nat \<Rightarrow> nat \<Rightarrow> 'a machine_scheme \<Rightarrow> 'a machine_scheme kresult" where
  "say_at2 c fmt p q s =
     kbind (klift (text_at (mem s) p)) (\<lambda>t. kbind (klift (text_at (mem s) q)) (\<lambda>u. kret (say c fmt [KStr (Some t), KStr (Some u)] s)))"

definition cmd_mount :: "nat list \<Rightarrow> 'a shell_scheme \<Rightarrow> 'a shell_scheme kresult" where
  "cmd_mount argv s =
     (if length argv < 2
      then kret (print_lines
        [''  mount                  - Show all mounted filesystems\<newline>'', ''  mount <device> <path>  - Mount device at path\<newline>'',
         ''  Example: mount hda1 /mnt\<newline>\<newline>'', ''Available devices:\<newline>'', ''  hda0 - Primary Master (IDE 0:0)\<newline>'',
         ''  hda1 - Primary Slave (IDE 0:1)\<newline>'', ''  hdb0 - Secondary Master (IDE 1:0)\<newline>'', ''  hdb1 - Secondary Slave (IDE 1:1)\<newline>'']
        (say VGA_COLOR_LIGHT_CYAN ''Usage:\<newline>'' [] s))
      else if length argv = 1
      then kret (print_lines [''\<newline>Mounted filesystems:\<newline>'', ''  / - Virtual root filesystem\<newline>'', ''\<newline>''] s)
      else if length argv < 3
      then kret (printk ''Usage: mount <device> <path>\<newline>'' [] (say VGA_COLOR_LIGHT_RED ''mount: Missing mount point\<newline>'' [] s))
      else
        let device = argv ! 1; path = argv ! 2 in
        case find (\<lambda>(name, channel, drv). cstr (mem s) device (lit_bytes name)) mount_devices of
          None \<Rightarrow> say_at VGA_COLOR_LIGHT_RED ''mount: Unknown device '%s'\<newline>'' device s
        | Some (name, channel, drv) \<Rightarrow>
            kbind (kmalloc (of_nat EXT2_FS_SIZE) s) (\<lambda>(fs, s1).
              if fs = 0 then kret (say VGA_COLOR_LIGHT_RED ''mount: Out of memory\<newline>'' [] s1)
              else kbind (ext2_init (superblock_buffer s1) fs channel drv s1) (\<lambda>(result, s2).
                if result \<noteq> 0
                then kbind (say_at VGA_COLOR_LIGHT_RED ''mount: No EXT2 filesystem on %s\<newline>'' device s2) (kfree fs)
                else kbind (vfs_mount_at path fs s2) (\<lambda>(r, s3).
                  if r \<noteq> 0
                  then kbind (say_at2 VGA_COLOR_LIGHT_RED ''mount: Failed to mount %s at %s\<newline>'' device path s3) (kfree fs)
                  else say_at2 VGA_COLOR_GREEN ''mount: Successfully mounted %s at %s\<newline>'' device path s3))))"

definition cmd_umount :: "nat list \<Rightarrow> 'a shell_scheme \<Rightarrow> 'a shell_scheme kresult" where
  "cmd_umount argv s =
     (if length argv < 2 then kret (say VGA_COLOR_LIGHT_RED ''Usage: umount <path>\<newline>'' [] s)
      else if cstr (mem s) (argv ! 1) [47] then kret (say VGA_COLOR_LIGHT_RED ''umount: Cannot unmount root filesystem\<newline>'' [] s)
      else kbind (vfs_unmount (argv ! 1) s) (\<lambda>(r, s1).
        if r \<noteq> 0 then say_at VGA_COLOR_LIGHT_RED ''umount: Failed to unmount %s\<newline>'' (argv ! 1) s1
        else say_at VGA_COLOR_GREEN ''umount: Successfully unmounted %s\<newline>'' (argv ! 1) s1))"

section \<open>Users\<close>

definition users :: "(string \<times> string \<times> u32) list" where
  "users = [(''root'', ''root'', 0), (''admin'', ''admin'', 1), (''user'', ''user'', 1000), (''guest'', ''guest'', 1001)]"

text \<open>The current process gets the user.\<close>

definition become :: "u32 \<Rightarrow> 'a shell_scheme \<Rightarrow> 'a shell_scheme" where
  "become n s = (case process_get_current s of None \<Rightarrow> s | Some p \<Rightarrow> upd_proc p (\<lambda>q. q\<lparr>uid := n\<rparr>) s)"

definition cmd_login :: "nat list \<Rightarrow> 'a shell_scheme \<Rightarrow> 'a shell_scheme kresult" where
  "cmd_login argv s =
     (if length argv < 2
      then kret (print_lines [''Available users: root, admin, user, guest\<newline>'', ''Password for all users is same as username\<newline>'']
        (say VGA_COLOR_LIGHT_CYAN ''Usage: login <username>\<newline>'' [] s))
      else
        let username = argv ! 1; password = (if 3 \<le> length argv then argv ! 2 else username) in
        case find (\<lambda>(name, pw, n). cstr (mem s) username (lit_bytes name)) users of
          Some (name, pw, n) \<Rightarrow>
            if cstr (mem s) password (lit_bytes pw)
            then kbind (klift (text_at (mem s) username)) (\<lambda>t.
                   kret (become n (say VGA_COLOR_GREEN ''Login successful! Welcome %s (UID: %d)\<newline>'' [KStr (Some t), KInt (sint n)]
                     (s\<lparr>current_uid := n\<rparr>))))
            else kret (say VGA_COLOR_LIGHT_RED ''Login failed: Incorrect password\<newline>'' [] s)
        | None \<Rightarrow> say_at VGA_COLOR_LIGHT_RED ''Login failed: User '%s' not found\<newline>'' username s)"

definition cmd_whoami :: "'a shell_scheme \<Rightarrow> 'a shell_scheme" where
  "cmd_whoami s =
     (case find (\<lambda>(name, pw, n). n = current_uid s) users of
        Some (name, pw, n) \<Rightarrow> printk ''%s (UID: %d)\<newline>'' [KStr (Some name), KInt (sint (current_uid s))] s
      | None \<Rightarrow> printk ''unknown (UID: %d)\<newline>'' [KInt (sint (current_uid s))] s)"

section \<open>Running a command\<close>

definition run_handler :: "shell_handler \<Rightarrow> nat list \<Rightarrow> 'a shell_scheme \<Rightarrow> 'a shell_scheme kresult" where
  "run_handler h argv s = (case h of
     Cmd_help \<Rightarrow> kret (cmd_help s) | Cmd_clear \<Rightarrow> kret (cmd_clear s) | Cmd_stack \<Rightarrow> cmd_stack s
   | Cmd_stacktrace \<Rightarrow> cmd_stacktrace argv s | Cmd_gdt \<Rightarrow> kret (cmd_gdt s) | Cmd_idt \<Rightarrow> kret (cmd_idt s) | Cmd_mem \<Rightarrow> kret (cmd_mem s)
   | Cmd_kmalloc_stats \<Rightarrow> cmd_kmalloc_stats s | Cmd_vmalloc_stats \<Rightarrow> cmd_vmalloc_stats s | Cmd_memtest \<Rightarrow> cmd_memtest s
   | Cmd_panic \<Rightarrow> cmd_panic s | Cmd_signal \<Rightarrow> cmd_signal s | Cmd_syscall \<Rightarrow> cmd_syscall s | Cmd_process \<Rightarrow> cmd_process s
   | Cmd_fork \<Rightarrow> cmd_fork s | Cmd_psignal \<Rightarrow> cmd_psignal s | Cmd_mmap \<Rightarrow> cmd_mmap s | Cmd_cat \<Rightarrow> cmd_cat argv s
   | Cmd_pwd \<Rightarrow> kret (cmd_pwd s) | Cmd_cd \<Rightarrow> cmd_cd argv s | Cmd_ls \<Rightarrow> cmd_ls argv s | Cmd_mount \<Rightarrow> cmd_mount argv s
   | Cmd_umount \<Rightarrow> cmd_umount argv s | Cmd_login \<Rightarrow> cmd_login argv s | Cmd_whoami \<Rightarrow> kret (cmd_whoami s)
   | Cmd_reboot \<Rightarrow> cmd_reboot s | Cmd_halt \<Rightarrow> cmd_halt s | Cmd_echo \<Rightarrow> cmd_echo argv s | Cmd_about \<Rightarrow> kret (cmd_about s))"

definition shell_process_command :: "nat \<Rightarrow> 'a shell_scheme \<Rightarrow> 'a shell_scheme kresult" where
  "shell_process_command command s =
     (if command = 0 \<or> mem s command = 0 \<or> mem s command = 10 then kret s
      else
        let m1 = strncpy (mem s) (cmd_copy s) command (SHELL_BUFFER_SIZE - 1);
            m2 = wr8 m1 (cmd_copy s + (SHELL_BUFFER_SIZE - 1)) 0
        in kbind (klift (shell_parse_args m2 (cmd_copy s) SHELL_MAX_ARGS)) (\<lambda>(m3, argv).
             let s1 = s\<lparr>mem := m3\<rparr> in
             if argv = [] then kret s1
             else case find (\<lambda>(name, description, h). cstr m3 (argv ! 0) (lit_bytes name)) commands of
               Some (name, description, h) \<Rightarrow> run_handler h argv s1
             | None \<Rightarrow> kbind (say_at VGA_COLOR_LIGHT_RED ''Unknown command: %s\<newline>'' (argv ! 0) s1) (\<lambda>s2.
                 kret (printk ''Type 'help' for a list of available commands.\<newline>'' [] s2))))"

section \<open>Line editing\<close>

text \<open>Moving the cursor back over a character and erasing it.\<close>

definition erase_char :: "hardware \<Rightarrow> hardware" where
  "erase_char h =
     (let (row, col) = vga_get_cursor_position h in
      if 0 < col then vga_set_cursor_position row (col - 1) (vga_putchar 32 (vga_set_cursor_position row (col - 1) h)) else h)"

definition set_shell_char :: "int \<Rightarrow> u8 \<Rightarrow> 'a shell_scheme \<Rightarrow> 'a shell_scheme" where
  "set_shell_char pos c s = s\<lparr>mem := wr8 (mem s) (shell_buffer s + nat pos) c\<rparr>"

definition shell_handle_input :: "int \<Rightarrow> 'a shell_scheme \<Rightarrow> 'a shell_scheme kresult" where
  "shell_handle_input c s =
     (let pos = shell_buffer_pos s in
      if c = KEY_BACKSPACE then
        kret (if 0 < pos then on_hw erase_char (set_shell_char (pos - 1) 0 (s\<lparr>shell_buffer_pos := pos - 1\<rparr>)) else s)
      else if c = 10 then
        kbind (shell_process_command (shell_buffer s) (set_shell_char pos 0 (on_hw (vga_putchar 10) s))) (\<lambda>s1.
          kret (shell_prompt (set_shell_char 0 0 (s1\<lparr>shell_buffer_pos := 0\<rparr>))))
      else if 32 \<le> c \<and> c \<le> 126 \<and> pos < int SHELL_BUFFER_SIZE - 1 then
        kret (on_hw (vga_putchar (word_of_int c))
          (set_shell_char (pos + 1) 0 (set_shell_char pos (word_of_int c) (s\<lparr>shell_buffer_pos := pos + 1\<rparr>))))
      else kret s)"

section \<open>Login and main loop\<close>

text \<open>The local variables of \<open>shell_login\<close>: what has been typed, and whether it is the password.\<close>

record login =
  username :: "u8 list"
  password :: "u8 list"
  entering_password :: bool

definition login_zero :: login where
  "login_zero = \<lparr>username = [], password = [], entering_password = False\<rparr>"

definition ask :: "string \<Rightarrow> 'a machine_scheme \<Rightarrow> 'a machine_scheme" where
  "ask t = say VGA_COLOR_LIGHT_CYAN t []"

text \<open>A key: whether the login is complete, the variables and the state.\<close>

definition login_key :: "int \<Rightarrow> login \<Rightarrow> 'a shell_scheme \<Rightarrow> bool \<times> login \<times> 'a shell_scheme" where
  "login_key c l s =
     (if \<not> entering_password l then
        (if c = 10 then
           (if username l \<noteq> [] then (False, l\<lparr>entering_password := True\<rparr>, ask ''Password: '' (printk ''\<newline>'' [] s))
            else (False, l, ask ''Username: '' (printk ''\<newline>'' [] s)))
         else if c = KEY_BACKSPACE then
           (if username l \<noteq> [] then (False, l\<lparr>username := butlast (username l)\<rparr>, on_hw erase_char s) else (False, l, s))
         else if 32 \<le> c \<and> c \<le> 126 \<and> length (username l) < 31 then
           (False, l\<lparr>username := username l @ [word_of_int c]\<rparr>, on_hw (vga_putchar (word_of_int c)) s)
         else (False, l, s))
      else
        (if c = 10 then
           let s1 = printk ''\<newline>\<newline>'' [] s in
           case find (\<lambda>(name, pw, n). lit_bytes name = username l \<and> lit_bytes pw = password l) users of
             Some (name, pw, n) \<Rightarrow>
               (True, l, become n (say VGA_COLOR_GREEN ''Login successful! Welcome %s\<newline>\<newline>'' [KStr (Some (map (\<lambda>b. char_of (unat b)) (username l)))]
                  (s1\<lparr>current_uid := n\<rparr>)))
           | None \<Rightarrow> (False, login_zero, ask ''Username: '' (say VGA_COLOR_LIGHT_RED ''Login failed! Invalid username or password\<newline>\<newline>'' [] s1))
         else if c = KEY_BACKSPACE then
           (if password l \<noteq> [] then (False, l\<lparr>password := butlast (password l)\<rparr>, on_hw erase_char s) else (False, l, s))
         else if 32 \<le> c \<and> c \<le> 126 \<and> length (password l) < 31 then
           (False, l\<lparr>password := password l @ [word_of_int c]\<rparr>, on_hw (vga_putchar 42) s)
         else (False, l, s)))"

text \<open>The loop over the keys to come: the keys left over, or \<open>None\<close> while it still waits.\<close>

fun login_loop :: "int list \<Rightarrow> login \<Rightarrow> 'a shell_scheme \<Rightarrow> (int list \<times> 'a shell_scheme) option" where
  "login_loop [] l s = None"
| "login_loop (c # cs) l s =
     (if c = 0 then login_loop cs l s
      else case login_key c l s of (ok, l', s') \<Rightarrow> if ok then Some (cs, s') else login_loop cs l' s')"

definition shell_login :: "int list \<Rightarrow> 'a shell_scheme \<Rightarrow> (int list \<times> 'a shell_scheme) option" where
  "shell_login ks s =
     (let s1 = on_hw (vga_set_color VGA_COLOR_WHITE VGA_COLOR_BLUE) (on_hw vga_clear s);
          s2 = set_fg VGA_COLOR_LIGHT_GREY (print_lines [''============================================\<newline>'',
                 ''            KFS Login Screen                \<newline>'', ''============================================\<newline>''] s1);
          s3 = print_lines [''\<newline>'', ''Available users: root, admin, user, guest\<newline>'', ''Default password = username\<newline>\<newline>''] s2
      in login_loop ks login_zero (ask ''Username: '' s3))"

definition shell_create_process :: "'a shell_scheme \<Rightarrow> 'a shell_scheme kresult" where
  "shell_create_process s =
     kbind (process_create (shell_code s Shell_process_entry) 0 s) (\<lambda>(pp, s1).
       kret (case pp of None \<Rightarrow> s1 | Some p \<Rightarrow> process_set_current (Some p) s1))"

definition shell_welcome :: "'a machine_scheme \<Rightarrow> 'a machine_scheme" where
  "shell_welcome s =
     (let s1 = set_fg VGA_COLOR_LIGHT_GREY (print_lines [''============================================\<newline>'',
                 ''       KFS_4 - Interrupt System Shell      \<newline>'', ''============================================\<newline>'']
                 (on_hw (vga_set_color VGA_COLOR_WHITE VGA_COLOR_BLUE) s));
          s2 = say VGA_COLOR_LIGHT_CYAN ''Welcome to the KFS Debug Shell!\<newline>'' [] (printk ''\<newline>'' [] s1)
      in print_lines [''Type 'help' for a list of commands.\<newline>'', ''Type 'panic', 'signal', 'syscall', 'idt' to test.\<newline>'',
           ''Press Alt+F1 to Alt+F4 to switch screens.\<newline>\<newline>''] s2)"

text \<open>Switching screens (\<open>src/kernel.c\<close>).\<close>

definition handle_screen_switch :: "int \<Rightarrow> 'a screens_scheme \<Rightarrow> 'a screens_scheme" where
  "handle_screen_switch screen_num s =
     (if screen_num < int MAX_SCREENS then screen_switch screen_num (screen_save s) else s)"

text \<open>The main loop: the state in which it waits when the keys are used up.\<close>

fun shell_loop :: "int list \<Rightarrow> 'a shell_scheme \<Rightarrow> 'a shell_scheme kresult" where
  "shell_loop [] s = kret s"
| "shell_loop (c # cs) s =
     (if c = 0 then shell_loop cs s
      else if KEY_F1 \<le> c \<and> c \<le> KEY_F4 then shell_loop cs (handle_screen_switch (c - KEY_F1) s)
      else kbind (shell_handle_input c s) (shell_loop cs))"

definition shell_run :: "int list \<Rightarrow> 'a shell_scheme \<Rightarrow> 'a shell_scheme kresult" where
  "shell_run ks s =
     kbind (shell_create_process (shell_init s)) (\<lambda>s1.
     kbind (klift (shell_login ks s1)) (\<lambda>(rest, s2).
       shell_loop rest (shell_prompt (shell_welcome s2))))"

end
