(* ===== verification/KFS_Shell_Lines.thy ===== *)
theory KFS_Shell_Lines
  imports KFS_Shell
begin

text \<open>
  The command line of the shell: splitting it into arguments in place refines a splitter of lists, the
  line editor keeps the edited line in its buffer and never leaves it, and the login screen lets pass
  exactly those who type the name and the password of a user.
\<close>

section \<open>Splitting a line\<close>

definition is_blank :: "u8 \<Rightarrow> bool" where
  "is_blank c \<longleftrightarrow> c = 32 \<or> c = 9 \<or> c = 10"

text \<open>The words of a line; the last argument that fits is the whole rest of the line.\<close>

fun split_args :: "nat \<Rightarrow> u8 list \<Rightarrow> u8 list list" where
  "split_args 0 line = []"
| "split_args (Suc n) line = (case dropWhile is_blank line of [] \<Rightarrow> []
     | r \<Rightarrow> if n = 0 then [r] else takeWhile (\<lambda>c. \<not> is_blank c) r # split_args n (dropWhile (\<lambda>c. \<not> is_blank c) r))"

lemma split_args_Nil [simp]: "split_args n [] = []"
  by (cases n) auto

lemma split_args_blank: "is_blank c \<Longrightarrow> split_args n (c # line) = split_args n line"
  by (cases n) auto

lemma split_args_word:
  "\<not> is_blank c \<Longrightarrow> split_args (Suc n) (c # line) =
     (if n = 0 then [c # line] else (c # takeWhile (\<lambda>c. \<not> is_blank c) line) # split_args n (dropWhile (\<lambda>c. \<not> is_blank c) line))"
  by simp

declare split_args.simps(2) [simp del]

text \<open>
  The two states of the parser, between words and inside one. \<open>parsed\<close> says that the arguments \<open>new\<close> have
  been added, that they are the given strings, and that only the line has changed.
\<close>

definition parsed :: "memory \<Rightarrow> nat \<Rightarrow> nat \<Rightarrow> nat list \<Rightarrow> u8 list list \<Rightarrow> (memory \<times> nat list) option \<Rightarrow> memory \<Rightarrow> bool" where
  "parsed m p n argv args res m' \<longleftrightarrow> (\<exists>new. res = Some (m', argv @ new) \<and> list_all2 (cstr m') new args)
     \<and> (\<forall>x. x \<notin> {p ..< p + n} \<longrightarrow> m' x = m x)"

lemma parse_loop_line:
  assumes "cstr m p line"
  shows "\<exists>m'. parsed m p (length line) argv (split_args (k - length argv) line) (parse_loop k m p False argv) m'"
    and "length argv < k \<Longrightarrow> \<exists>m'. parsed m p (length line) argv (split_args (k - length argv) (dropWhile (\<lambda>c. \<not> is_blank c) line))
        (parse_loop k m p True argv) m' \<and> cstr m' p (takeWhile (\<lambda>c. \<not> is_blank c) line)"
  using assms
proof (induction line arbitrary: m p argv)
  case Nil
  {
    case 1
    then show ?case by (intro exI [of _ m]) (simp add: parsed_def parse_loop.simps)
  next
    case 2
    then show ?case by (intro exI [of _ m]) (simp add: parsed_def parse_loop.simps)
  }
next
  case (Cons c line)
  have blank: "(m p = 32 \<or> m p = 9 \<or> m p = 10) = is_blank c" if "cstr m p (c # line)" for m p
    using that by (auto simp: is_blank_def)
  {
    case 1
    note prem = 1
    show ?case
    proof (cases "k \<le> length argv")
      case True
      then show ?thesis by (intro exI [of _ m]) (simp add: parsed_def parse_loop.simps)
    next
      case False
      then obtain n where n: "k - length argv = Suc n" by (cases "k - length argv") auto
      show ?thesis
      proof (cases "is_blank c")
        case True
        have "parse_loop k m p False argv = parse_loop k m (p + 1) False argv"
          using prem True False blank [OF prem] by (subst parse_loop.simps) auto
        moreover obtain m' where "parsed m (p + 1) (length line) argv (split_args (k - length argv) line) (parse_loop k m (p + 1) False argv) m'"
          using Cons.IH(1) prem by fastforce
        ultimately show ?thesis using True by (intro exI [of _ m']) (auto simp: parsed_def split_args_blank)
      next
        case nb: False
        have run: "parse_loop k m p False argv = parse_loop k m (p + 1) True (argv @ [p])"
          using prem nb False blank [OF prem] by (subst parse_loop.simps) auto
        show ?thesis
        proof (cases "n = 0")
          case True
          then have "k \<le> length (argv @ [p])" using n by simp
          then have "parse_loop k m (p + 1) True (argv @ [p]) = Some (m, argv @ [p])" by (subst parse_loop.simps) simp
          then show ?thesis using prem nb True n unfolding run
            by (intro exI [of _ m]) (simp add: parsed_def split_args_word)
        next
          case n0: False
          then have len: "length (argv @ [p]) < k" "k - length (argv @ [p]) = n" using n by auto
          obtain m' where m': "parsed m (p + 1) (length line) (argv @ [p]) (split_args n (dropWhile (\<lambda>c. \<not> is_blank c) line))
              (parse_loop k m (p + 1) True (argv @ [p])) m'" "cstr m' (p + 1) (takeWhile (\<lambda>c. \<not> is_blank c) line)"
            using Cons.IH(2) [OF len(1), of m "p + 1"] prem len(2) by auto
          moreover have "m' p = c" "c \<noteq> 0" using m'(1) prem by (auto simp: parsed_def)
          ultimately show ?thesis using nb n0 n unfolding run
            by (intro exI [of _ m']) (auto simp: parsed_def split_args_word)
        qed
      qed
    qed
  next
    case 2
    show ?case
    proof (cases "is_blank c")
      case True
      let ?m1 = "wr8 m p 0"
      have "parse_loop k m p True argv = parse_loop k ?m1 (p + 1) False argv"
        using 2 True blank [of m p] by (subst parse_loop.simps) auto
      moreover have "cstr ?m1 (p + 1) line" using 2 by (subst cstr_cong [where m' = m]) (auto simp: wr8_apply)
      then obtain m' where "parsed ?m1 (p + 1) (length line) argv (split_args (k - length argv) line) (parse_loop k ?m1 (p + 1) False argv) m'"
        using Cons.IH(1) by fastforce
      ultimately show ?thesis using True by (intro exI [of _ m']) (auto simp: parsed_def split_args_blank wr8_apply)
    next
      case False
      have "parse_loop k m p True argv = parse_loop k m (p + 1) True argv"
        using 2 False blank [of m p] by (subst parse_loop.simps) auto
      moreover obtain m' where "parsed m (p + 1) (length line) argv (split_args (k - length argv) (dropWhile (\<lambda>c. \<not> is_blank c) line))
          (parse_loop k m (p + 1) True argv) m'" "cstr m' (p + 1) (takeWhile (\<lambda>c. \<not> is_blank c) line)"
        using Cons.IH(2) [of argv m "p + 1"] 2 by auto
      ultimately show ?thesis using False 2 by (intro exI [of _ m']) (auto simp: parsed_def)
    qed
  }
qed

lemma parse_args_step:
  assumes "cstr m p line"
  obtains m' argv where "shell_parse_args m p k = Some (m', argv)" "list_all2 (cstr m') argv (split_args k line)"
    "\<And>x. x \<notin> {p ..< p + length line} \<Longrightarrow> m' x = m x"
  using parse_loop_line(1) [OF assms, of "[]" k] unfolding parsed_def shell_parse_args_def by auto

text \<open>The words of a line that has fewer than the maximal number of them.\<close>

function line_words :: "u8 list \<Rightarrow> u8 list list" where
  "line_words [] = []"
| "line_words (c # cs) = (if is_blank c then line_words cs
     else (c # takeWhile (\<lambda>c. \<not> is_blank c) cs) # line_words (dropWhile (\<lambda>c. \<not> is_blank c) cs))"
  by pat_completeness auto
termination by (relation "measure length") (auto simp: less_Suc_eq_le length_dropWhile_le)

lemma split_args_words: "length (line_words line) < n \<Longrightarrow> split_args n line = line_words line"
proof (induction line arbitrary: n rule: line_words.induct)
  case (2 c cs)
  show ?case
  proof (cases "is_blank c")
    case True
    then show ?thesis using 2 by (simp add: split_args_blank)
  next
    case False
    then obtain k where "n = Suc (Suc k)" using "2.prems" by (cases n; cases "n - 1") auto
    then show ?thesis using False 2 by (simp add: split_args_word)
  qed
qed simp

text \<open>
  C37. Splitting the command line. \<open>shell_parse_args\<close> ends for every C string and cuts it in place: the
  arguments it returns are C strings, namely the words of the line in order, without the blanks between
  them, when there are fewer than the maximal number. Otherwise the last argument is the rest of the
  line, blanks included. It writes nothing outside the line.
\<close>

theorem shell_parse_args_words:
  assumes "cstr m p line"
  shows "\<exists>m' argv. shell_parse_args m p k = Some (m', argv) \<and> list_all2 (cstr m') argv (split_args k line)
    \<and> (length (line_words line) < k \<longrightarrow> split_args k line = line_words line) \<and> (\<forall>x. x \<notin> {p ..< p + length line} \<longrightarrow> m' x = m x)"
  by (rule parse_args_step [OF assms, of k]) (use split_args_words in blast)

theorem shell_parse_args_words_witness:
  "\<exists>m' argv. shell_parse_args (put_text (\<lambda>_. 0) 0x1000 ''cat  /a b '') 0x1000 16 = Some (m', argv)
    \<and> list_all2 (cstr m') argv [lit_bytes ''cat'', lit_bytes ''/a'', lit_bytes ''b'']"
proof -
  have "cstr (put_text (\<lambda>_. 0) 0x1000 ''cat  /a b '') 0x1000 (lit_bytes ''cat  /a b '')"
    by (simp add: put_text_def store_struct_def lit_bytes_def)
  moreover have "line_words (lit_bytes ''cat  /a b '') = [lit_bytes ''cat'', lit_bytes ''/a'', lit_bytes ''b'']"
    by (simp add: lit_bytes_def is_blank_def)
  ultimately show ?thesis using shell_parse_args_words [of _ "0x1000" "lit_bytes ''cat  /a b ''" 16] by fastforce
qed

section \<open>Editing a line\<close>

text \<open>What a key does to a line of at most \<open>k\<close> characters.\<close>

definition edit_key :: "nat \<Rightarrow> int \<Rightarrow> u8 list \<Rightarrow> u8 list" where
  "edit_key k c line = (if c = 8 then butlast line
     else if 32 \<le> c \<and> c \<le> 126 \<and> length line < k then line @ [word_of_int c] else line)"

text \<open>The buffer holds a line, and the position is its end.\<close>

definition line_ok :: "u8 list \<Rightarrow> 'a shell_scheme \<Rightarrow> bool" where
  "line_ok line s \<longleftrightarrow> length line \<le> 255 \<and> shell_buffer_pos s = int (length line) \<and> cstr (mem s) (shell_buffer s) line"

definition outside_buffer :: "'a shell_scheme \<Rightarrow> 'a shell_scheme \<Rightarrow> bool" where
  "outside_buffer s s' \<longleftrightarrow> shell_buffer s' = shell_buffer s \<and> (\<forall>x. x \<notin> {shell_buffer s .. shell_buffer s + 255} \<longrightarrow> mem s' x = mem s x)"

lemma key_byte:
  assumes "32 \<le> c" "c \<le> 126"
  shows "(word_of_int c :: u8) \<noteq> 0"
proof
  assume "(word_of_int c :: u8) = 0"
  then have "uint (word_of_int c :: u8) = 0" by simp
  then show False using assms by (simp add: uint_word_of_int_eq take_bit_int_eq_self)
qed

lemma cstr_put:
  assumes "cstr m p line" "c \<noteq> 0"
  shows "cstr (wr8 (wr8 m (p + length line) c) (p + length line + 1) 0) p (line @ [c])"
  using assms by (auto simp: cstr_iff wr8_apply nth_append)

lemma cstr_drop_last:
  assumes "cstr m p line" "line \<noteq> []"
  shows "cstr (wr8 m (p + (length line - 1)) 0) p (butlast line)"
  using assms by (auto simp: cstr_iff wr8_apply nth_butlast)

lemma handle_input_edit:
  assumes ok: "line_ok line s" and c: "c \<noteq> 10"
  shows "\<exists>s'. shell_handle_input c s = kret s' \<and> line_ok (edit_key 255 c line) s' \<and> outside_buffer s s'"
proof -
  have l: "length line \<le> 255" "shell_buffer_pos s = int (length line)" "cstr (mem s) (shell_buffer s) line"
    using ok by (simp_all add: line_ok_def)
  consider (erase) "c = 8" "line \<noteq> []" | (put) "32 \<le> c" "c \<le> 126" "length line < 255"
    | (none) "c = 8 \<and> line = [] \<or> c \<noteq> 8 \<and> \<not> (32 \<le> c \<and> c \<le> 126 \<and> length line < 255)" by force
  then show ?thesis
  proof cases
    case erase
    let ?s' = "on_hw erase_char (set_shell_char (int (length line) - 1) 0 (s\<lparr>shell_buffer_pos := int (length line) - 1\<rparr>))"
    have n: "nat (int (length line) - 1) = length line - 1" by simp
    have "shell_handle_input c s = kret ?s'" using erase l(2) by (simp add: shell_handle_input_def Let_def)
    moreover have "line_ok (edit_key 255 c line) ?s'"
      using erase l cstr_drop_last [OF l(3) erase(2)] by (auto simp: line_ok_def edit_key_def set_shell_char_def on_hw_def n of_nat_diff Suc_leI)
    moreover have "outside_buffer s ?s'" using l(1) by (auto simp: outside_buffer_def set_shell_char_def on_hw_def wr8_apply n)
    ultimately show ?thesis by blast
  next
    case put
    let ?s' = "on_hw (vga_putchar (word_of_int c)) (set_shell_char (int (length line) + 1) 0
      (set_shell_char (int (length line)) (word_of_int c) (s\<lparr>shell_buffer_pos := int (length line) + 1\<rparr>)))"
    have n: "nat (int (length line) + 1) = length line + 1" by simp
    have "shell_handle_input c s = kret ?s'" using put c l(2) by (simp add: shell_handle_input_def Let_def)
    moreover have "line_ok (edit_key 255 c line) ?s'"
      using put cstr_put [OF l(3) key_byte [OF put(1,2)]] by (auto simp: line_ok_def edit_key_def set_shell_char_def on_hw_def n add.assoc)
    moreover have "outside_buffer s ?s'" using put by (auto simp: outside_buffer_def set_shell_char_def on_hw_def wr8_apply n)
    ultimately show ?thesis by blast
  next
    case none
    then have "shell_handle_input c s = kret s" "edit_key 255 c line = line" using c l(2) by (auto simp: shell_handle_input_def edit_key_def Let_def)
    then show ?thesis using ok by (auto simp: outside_buffer_def)
  qed
qed

text \<open>The keys F1 to F4 switch screens, and 0 is no key: the loop leaves the line alone.\<close>

lemma handle_screen_switch_fields [simp]:
  fixes s :: "'a shell_scheme"
  shows "mem (handle_screen_switch n s) = mem s" "shell_buffer (handle_screen_switch n s) = shell_buffer s"
    "shell_buffer_pos (handle_screen_switch n s) = shell_buffer_pos s"
  by (simp_all add: handle_screen_switch_def screen_switch_def screen_save_def screen_restore_def Let_def split: prod.split)

lemma loop_key_edit:
  assumes "line_ok line s" "c \<noteq> 10"
  obtains s1 where "\<And>ks. shell_loop (c # ks) s = shell_loop ks s1" "line_ok (edit_key 255 c line) s1" "outside_buffer s s1"
proof (cases "c = 0 \<or> KEY_F1 \<le> c \<and> c \<le> KEY_F4")
  case True
  then have "edit_key 255 c line = line" by (auto simp: edit_key_def)
  then show thesis
    using that [of "if c = 0 then s else handle_screen_switch (c - KEY_F1) s"] True assms(1)
    by (auto simp: line_ok_def outside_buffer_def)
next
  case False
  then show thesis using handle_input_edit [OF assms] that by auto
qed

lemma shell_loop_edit:
  assumes "line_ok line s" "10 \<notin> set ks"
  shows "\<exists>s'. shell_loop ks s = kret s' \<and> line_ok (fold (edit_key 255) ks line) s' \<and> outside_buffer s s'"
  using assms
proof (induction ks arbitrary: line s)
  case Nil
  then show ?case by (simp add: outside_buffer_def)
next
  case (Cons c ks)
  obtain s1 where s1: "\<And>ks. shell_loop (c # ks) s = shell_loop ks s1" "line_ok (edit_key 255 c line) s1" "outside_buffer s s1"
    by (rule loop_key_edit [OF Cons.prems(1), of c]) (use Cons.prems(2) in auto)
  from Cons.IH [OF s1(2)] Cons.prems(2) obtain s' where
    s': "shell_loop ks s1 = kret s'" "line_ok (fold (edit_key 255) ks (edit_key 255 c line)) s'" "outside_buffer s1 s'" by auto
  have "outside_buffer s s'" using s1(3) s'(3) by (simp add: outside_buffer_def)
  then show ?case using s1(1) s'(1,2) by auto
qed

text \<open>
  C38. Line editing. From \<open>shell_init\<close> on, and for every sequence of keys without Enter (which runs the
  line as a command), screen switches by F1 to F4 included, the buffer of the shell is a C string, namely
  the line these keys edit (printable characters are appended while there is room, Backspace takes the last
  one away, every other key leaves it), and the position is its length. The position never passes 255, and
  until Enter nothing outside the 256 bytes of the buffer is written.
\<close>

theorem shell_line_editing:
  assumes "10 \<notin> set ks"
  shows "\<exists>s'. shell_loop ks (shell_init s) = kret s' \<and> cstr (mem s') (shell_buffer s) (fold (edit_key 255) ks [])
    \<and> shell_buffer_pos s' = int (length (fold (edit_key 255) ks [])) \<and> length (fold (edit_key 255) ks []) \<le> 255
    \<and> (\<forall>x. x \<notin> {shell_buffer s .. shell_buffer s + 255} \<longrightarrow> mem s' x = mem s x)"
proof -
  have "line_ok [] (shell_init s)" by (simp add: line_ok_def shell_init_def wr8_apply)
  from shell_loop_edit [OF this assms] obtain s' where
    "shell_loop ks (shell_init s) = kret s'" "line_ok (fold (edit_key 255) ks []) s'" "outside_buffer (shell_init s) s'" by blast
  then show ?thesis by (auto simp: line_ok_def outside_buffer_def shell_init_def wr8_apply)
qed

theorem shell_line_editing_witness:
  "\<forall>s :: shell. \<exists>s'. shell_loop [108, 120, 0x81, 8, 0, 115] (shell_init s) = kret s' \<and> cstr (mem s') (shell_buffer s) (lit_bytes ''ls'')"
proof
  fix s :: shell
  show "\<exists>s'. shell_loop [108, 120, 0x81, 8, 0, 115] (shell_init s) = kret s' \<and> cstr (mem s') (shell_buffer s) (lit_bytes ''ls'')"
    using shell_line_editing [of "[108, 120, 0x81, 8, 0, 115]" s] by (simp add: edit_key_def lit_bytes_def del: shell_loop.simps) blast
qed

section \<open>Logging in\<close>

definition typed :: "int list \<Rightarrow> u8 list" where
  "typed ks = fold (edit_key 31) ks []"

lemma after_enter: "10 \<in> set ks \<Longrightarrow> length (tl (dropWhile (\<lambda>c. c \<noteq> 10) ks)) < length (ks :: int list)"
  by (induction ks) (auto simp: less_Suc_eq)

text \<open>
  The login screen by lines: a line with a name (empty ones are skipped), a line with a password, and
  again from the start unless they are those of a user.
\<close>

function login_lines :: "int list \<Rightarrow> (int list \<times> u32) option" where
  "login_lines ks =
     (if 10 \<notin> set ks then None
      else let name = typed (takeWhile (\<lambda>c. c \<noteq> 10) ks); ks1 = tl (dropWhile (\<lambda>c. c \<noteq> 10) ks) in
        if name = [] then login_lines ks1
        else if 10 \<notin> set ks1 then None
        else let pw = typed (takeWhile (\<lambda>c. c \<noteq> 10) ks1); ks2 = tl (dropWhile (\<lambda>c. c \<noteq> 10) ks1) in
          case find (\<lambda>(u, p, n). lit_bytes u = name \<and> lit_bytes p = pw) users of
            Some (u, p, n) \<Rightarrow> Some (ks2, n)
          | None \<Rightarrow> login_lines ks2)"
  by pat_completeness auto
termination
proof (relation "measure length", goal_cases)
  case (2 ks name ks1)
  then show ?case using after_enter [of ks] by simp
next
  case (3 ks name ks1 pw ks2)
  then show ?case using after_enter [of ks] after_enter [of ks1] by simp
qed simp

declare login_lines.simps [simp del]

text \<open>Two states that differ in the devices only.\<close>

definition only_hw :: "'a machine_scheme \<Rightarrow> 'a machine_scheme \<Rightarrow> bool" where
  "only_hw s s' \<longleftrightarrow> s' = s\<lparr>hw := hw s'\<rparr>"

lemma only_hw_update [simp]: "only_hw s (s'\<lparr>hw := h\<rparr>) = only_hw s s'"
  by (cases s; cases s') (simp add: only_hw_def)

lemma only_hw_on_hw [simp]: "only_hw s (on_hw f s') = only_hw s s'"
  by (simp add: on_hw_def)

lemma only_hw_refl [simp]: "only_hw s s"
  by (simp add: only_hw_def)

lemma only_hw_trans: "only_hw s s1 \<Longrightarrow> only_hw s1 s2 \<Longrightarrow> only_hw s s2"
  by (cases s; cases s1; cases s2) (simp add: only_hw_def)

lemma only_hw_printk [simp]: "only_hw s (printk fmt args s') = only_hw s s'"
  by (simp add: printk_def)

lemma only_hw_say [simp]: "only_hw s (say c fmt args s') = only_hw s s'" "only_hw s (ask t s') = only_hw s s'" "only_hw s (set_fg c s') = only_hw s s'"
  by (simp_all add: say_def ask_def set_fg_def)

lemma only_hw_print_lines [simp]: "only_hw s (print_lines ts s') = only_hw s s'"
  by (induction ts arbitrary: s') (simp_all add: print_lines_def)

text \<open>A key that is not Enter edits the name or the password.\<close>

definition login_edit :: "int \<Rightarrow> login \<Rightarrow> login" where
  "login_edit c l = (if entering_password l then l\<lparr>password := edit_key 31 c (password l)\<rparr> else l\<lparr>username := edit_key 31 c (username l)\<rparr>)"

lemma login_key_edit: "c \<noteq> 10 \<Longrightarrow> \<exists>s'. login_key c l s = (False, login_edit c l, s') \<and> only_hw s s'"
  by (cases l) (simp add: login_key_def login_edit_def edit_key_def)

lemma login_loop_edit:
  "10 \<notin> set ks \<Longrightarrow> \<exists>s'. login_loop (ks @ rest) l s = login_loop rest (fold login_edit ks l) s' \<and> only_hw s s'"
proof (induction ks arbitrary: l s)
  case Nil
  then show ?case by auto
next
  case (Cons c ks)
  show ?case
  proof (cases "c = 0")
    case True
    then have "login_edit c l = l" by (simp add: login_edit_def edit_key_def)
    then show ?thesis using Cons True by simp
  next
    case False
    from login_key_edit [of c l s] Cons.prems obtain s1 where s1: "login_key c l s = (False, login_edit c l, s1)" "only_hw s s1" by auto
    from Cons.IH [of "login_edit c l" s1] Cons.prems obtain s' where
      "login_loop (ks @ rest) (login_edit c l) s1 = login_loop rest (fold login_edit ks (login_edit c l)) s'" "only_hw s1 s'" by auto
    then show ?thesis using False s1 only_hw_trans by auto
  qed
qed

lemma login_edit_name: "fold login_edit ks \<lparr>username = u, password = p, entering_password = False\<rparr>
    = \<lparr>username = fold (edit_key 31) ks u, password = p, entering_password = False\<rparr>"
  by (induction ks arbitrary: u) (simp_all add: login_edit_def)

lemma login_edit_password: "fold login_edit ks \<lparr>username = u, password = p, entering_password = True\<rparr>
    = \<lparr>username = u, password = fold (edit_key 31) ks p, entering_password = True\<rparr>"
  by (induction ks arbitrary: p) (simp_all add: login_edit_def)

lemma until_enter:
  "10 \<notin> set us \<Longrightarrow> takeWhile (\<lambda>c. c \<noteq> 10) (us @ 10 # rest) = us"
  "10 \<notin> set us \<Longrightarrow> dropWhile (\<lambda>c. c \<noteq> 10) (us @ 10 # rest) = 10 # (rest :: int list)"
  by (induction us) auto

lemma split_enter:
  assumes "10 \<in> set ks"
  obtains us rest where "ks = us @ 10 # rest" "10 \<notin> set us"
    "takeWhile (\<lambda>c. c \<noteq> 10) ks = us" "tl (dropWhile (\<lambda>c. c \<noteq> 10) ks) = (rest :: int list)"
  using split_list_first [OF assms] until_enter by (metis list.sel(3))

text \<open>What the screen has done, given what the lines say.\<close>

definition logged_in :: "'a shell_scheme \<Rightarrow> (int list \<times> u32) option \<Rightarrow> (int list \<times> 'a shell_scheme) option \<Rightarrow> bool" where
  "logged_in s lines res \<longleftrightarrow> (case lines of None \<Rightarrow> res = None
     | Some (rest, n) \<Rightarrow> \<exists>s'. res = Some (rest, become n (s'\<lparr>current_uid := n\<rparr>)) \<and> only_hw s s')"

lemma logged_in_trans: "only_hw s s1 \<Longrightarrow> logged_in s1 lines res \<Longrightarrow> logged_in s lines res"
  by (auto simp: logged_in_def only_hw_trans split: option.splits)

lemma login_loop_no_enter: "10 \<notin> set ks \<Longrightarrow> login_loop ks l s = None"
  using login_loop_edit [of ks "[]" l s] by auto

lemma uid_hw: "s\<lparr>current_uid := n, hw := h\<rparr> = s\<lparr>hw := h, current_uid := n\<rparr>"
  by (cases s) simp

lemma login_password_line:
  fixes s :: "'a shell_scheme"
  assumes "10 \<notin> set us" and IH: "\<And>s :: 'a shell_scheme. find (\<lambda>(u, p, n). lit_bytes u = name \<and> lit_bytes p = typed us) users = None \<Longrightarrow>
      logged_in s (login_lines rest) (login_loop rest login_zero s)"
  shows "logged_in s (case find (\<lambda>(u, p, n). lit_bytes u = name \<and> lit_bytes p = typed us) users of
      Some (u, p, n) \<Rightarrow> Some (rest, n) | None \<Rightarrow> login_lines rest)
    (login_loop (us @ 10 # rest) \<lparr>username = name, password = [], entering_password = True\<rparr> s)"
proof -
  from login_loop_edit [OF assms(1), of "10 # rest" _ s] obtain s1 where
    "login_loop (us @ 10 # rest) \<lparr>username = name, password = [], entering_password = True\<rparr> s
      = login_loop (10 # rest) \<lparr>username = name, password = typed us, entering_password = True\<rparr> s1" "only_hw s s1"
    unfolding typed_def login_edit_password [symmetric] by blast
  note run = this
  show ?thesis
  proof (cases "find (\<lambda>(u, p, n). lit_bytes u = name \<and> lit_bytes p = typed us) users")
    case None
    let ?s2 = "ask ''Username: '' (say VGA_COLOR_LIGHT_RED ''Login failed! Invalid username or password\<newline>\<newline>'' [] (printk ''\<newline>\<newline>'' [] s1))"
    have "login_loop (us @ 10 # rest) \<lparr>username = name, password = [], entering_password = True\<rparr> s = login_loop rest login_zero ?s2"
      using run(1) None by (simp add: login_key_def del: message_simps)
    moreover have "only_hw s ?s2" using run(2) by simp
    ultimately show ?thesis using logged_in_trans [OF _ IH [OF None]] None by (simp del: message_simps)
  next
    case (Some q)
    obtain u p n where q: "q = (u, p, n)" by (cases q)
    let ?s2 = "say VGA_COLOR_GREEN ''Login successful! Welcome %s\<newline>\<newline>'' [KStr (Some (map (\<lambda>b. char_of (unat b)) name))] (printk ''\<newline>\<newline>'' [] s1)"
    have "login_loop (us @ 10 # rest) \<lparr>username = name, password = [], entering_password = True\<rparr> s
        = Some (rest, become n (?s2\<lparr>current_uid := n\<rparr>))"
      using run(1) Some q by (simp add: login_key_def say_def set_fg_def uid_hw)
    moreover have "only_hw s ?s2" using run(2) by simp
    ultimately show ?thesis using Some q by (auto simp: logged_in_def)
  qed
qed

lemma login_loop_lines: "logged_in (s :: 'a shell_scheme) (login_lines ks) (login_loop ks login_zero s)"
proof (induction ks arbitrary: s rule: login_lines.induct)
  case (1 ks)
  show ?case
  proof (cases "10 \<in> set ks")
    case False
    then show ?thesis by (subst login_lines.simps) (simp add: logged_in_def login_loop_no_enter)
  next
    case True
    obtain us ks1 where us: "ks = us @ 10 # ks1" "10 \<notin> set us"
      "takeWhile (\<lambda>c. c \<noteq> 10) ks = us" "tl (dropWhile (\<lambda>c. c \<noteq> 10) ks) = ks1" by (rule split_enter [OF True])
    from login_loop_edit [OF us(2), of "10 # ks1" login_zero s] obtain s1 where
      s1: "login_loop ks login_zero s = login_loop (10 # ks1) \<lparr>username = typed us, password = [], entering_password = False\<rparr> s1" "only_hw s s1"
      unfolding typed_def login_zero_def login_edit_name us(1) by blast
    show ?thesis
    proof (cases "typed us = []")
      case empty: True
      let ?s2 = "ask ''Username: '' (printk ''\<newline>'' [] s1)"
      have "login_loop ks login_zero s = login_loop ks1 login_zero ?s2"
        using s1(1) empty by (simp add: login_key_def login_zero_def del: message_simps)
      moreover have "login_lines ks = login_lines ks1" using True us empty by (subst login_lines.simps) simp
      moreover have "only_hw s ?s2" using s1(2) by simp
      ultimately show ?thesis using 1(1) [OF _ refl refl] True us empty logged_in_trans by fastforce
    next
      case name: False
      let ?s2 = "ask ''Password: '' (printk ''\<newline>'' [] s1)"
      let ?l = "\<lparr>username = typed us, password = [], entering_password = True\<rparr>"
      have run: "login_loop ks login_zero s = login_loop ks1 ?l ?s2"
        using s1(1) name by (simp add: login_key_def del: message_simps)
      have hw: "only_hw s ?s2" using s1(2) by simp
      show ?thesis
      proof (cases "10 \<in> set ks1")
        case False
        then have "login_lines ks = None" using True us name by (subst login_lines.simps) simp
        then show ?thesis using run False by (simp add: logged_in_def login_loop_no_enter)
      next
        case enter: True
        obtain ps ks2 where ps: "ks1 = ps @ 10 # ks2" "10 \<notin> set ps"
          "takeWhile (\<lambda>c. c \<noteq> 10) ks1 = ps" "tl (dropWhile (\<lambda>c. c \<noteq> 10) ks1) = ks2" by (rule split_enter [OF enter])
        have lines: "login_lines ks = (case find (\<lambda>(u, p, n). lit_bytes u = typed us \<and> lit_bytes p = typed ps) users of
            Some (u, p, n) \<Rightarrow> Some (ks2, n) | None \<Rightarrow> login_lines ks2)"
          unfolding login_lines.simps [of ks] us(3,4) Let_def ps(3,4) using True name enter by simp
        have again: "logged_in s (login_lines ks2) (login_loop ks2 login_zero s)"
          if "find (\<lambda>(u, p, n). lit_bytes u = typed us \<and> lit_bytes p = typed ps) users = None" for s :: "'a shell_scheme"
          using 1(2) [OF _ refl refl _ _ refl refl] True name enter that unfolding us(3,4) ps(3,4) by simp
        have "logged_in ?s2 (login_lines ks) (login_loop (ps @ 10 # ks2) ?l ?s2)"
          unfolding lines by (rule login_password_line [OF ps(2)]) (rule again)
        then show ?thesis unfolding run ps(1) by (rule logged_in_trans [OF hw])
      qed
    qed
  qed
qed

text \<open>
  C39. The login screen. For every sequence of keys, \<open>shell_login\<close> does what its lines say: it returns
  exactly if, after attempts that fail and empty names, the name and the password of a user have been
  typed on two lines, it returns right after them, sets the current user and that of the current process
  to this user, and changes nothing else but the screen.
\<close>

theorem shell_login_lines:
  "case login_lines ks of None \<Rightarrow> shell_login ks s = None
   | Some (rest, n) \<Rightarrow> (\<exists>h. shell_login ks s = Some (rest, become n (s\<lparr>hw := h, current_uid := n\<rparr>)))"
proof -
  obtain s0 where s0: "shell_login ks s = login_loop ks login_zero s0" "only_hw s s0"
    unfolding shell_login_def Let_def using that by (simp del: message_simps)
  have hw: "\<exists>h. s'\<lparr>current_uid := n\<rparr> = s\<lparr>hw := h, current_uid := n\<rparr>" if "only_hw s s'" for s' n
    using that unfolding only_hw_def by (intro exI [of _ "hw s'"]) metis
  have "logged_in s (login_lines ks) (shell_login ks s)"
    using logged_in_trans [OF s0(2) login_loop_lines] unfolding s0(1) .
  then show ?thesis unfolding logged_in_def by (auto split: option.splits dest: hw) (metis hw)
qed

section \<open>Commands\<close>

lemma find_cstr:
  assumes "cstr m p (lit_bytes t)"
  shows "find (\<lambda>(u, x, y). cstr m p (lit_bytes u)) xs = find (\<lambda>(u, x, y). lit_bytes u = lit_bytes t) xs"
  using assms by (intro find_cong refl) (auto dest: cstr_unique)

text \<open>A command of one word and arguments reaches its handler with the arguments as C strings.\<close>

lemma process_command_step:
  assumes line: "cstr (mem s) command line" "length line \<le> 255" "command \<noteq> 0"
    and apart: "command + length line < cmd_copy s \<or> cmd_copy s + 256 \<le> command"
    and words: "line_words line = lit_bytes name # args" "length args < 15" "find (\<lambda>(u, d, h). lit_bytes u = lit_bytes name) commands = Some (name, d, h)"
      "hd line \<noteq> 10"
  obtains m argv where "shell_process_command command s = run_handler h argv (s\<lparr>mem := m\<rparr>)"
    "list_all2 (cstr m) argv (lit_bytes name # args)" "\<And>x. x \<notin> {cmd_copy s ..< cmd_copy s + 256} \<Longrightarrow> m x = mem s x"
proof -
  let ?m2 = "wr8 (strncpy (mem s) (cmd_copy s) command 255) (cmd_copy s + 255) 0"
  have "cstr ?m2 (cmd_copy s) line"
    using cstr_nth [OF line(1)] cstr_end [OF line(1)] line(2) apart
    by (auto simp: cstr_iff wr8_apply strncpy_cstr [OF line(1)])
  then obtain m3 argv where run: "shell_parse_args ?m2 (cmd_copy s) 16 = Some (m3, argv)" "list_all2 (cstr m3) argv (split_args 16 line)"
    "\<And>x. x \<notin> {cmd_copy s ..< cmd_copy s + length line} \<Longrightarrow> m3 x = ?m2 x" by (rule parse_args_step [of _ _ _ 16]) (rule that)
  have args: "list_all2 (cstr m3) argv (lit_bytes name # args)" using run(2) split_args_words [of line 16] words(1,2) by simp
  then obtain p ps where argv: "argv = p # ps" "cstr m3 p (lit_bytes name)" by (auto simp: list_all2_Cons2)
  have ne: "line \<noteq> []" using words(1) by auto
  then have "mem s command \<noteq> 0" "mem s command \<noteq> 10" using line(1) words(4) by (cases line; auto)+
  then have "shell_process_command command s = run_handler h argv (s\<lparr>mem := m3\<rparr>)"
    using line(3) run(1) argv words(3) by (simp add: shell_process_command_def klift_def find_cstr [OF argv(2)])
  moreover have "m3 x = mem s x" if "x \<notin> {cmd_copy s ..< cmd_copy s + 256}" for x
    using that run(3) [of x] line(2) apart by (auto simp: wr8_apply strncpy_cstr [OF line(1)])
  ultimately show ?thesis using args that by blast
qed

lemma text_at_cstr:
  assumes "cstr m p t" "length t < 2 ^ 32"
  obtains u where "text_at m p = Some u"
  using that unfolding text_at_def strlen_cstr [OF assms] option.map by blast

text \<open>The users have their names as passwords, and no two have the same name.\<close>

lemma find_user:
  assumes "(name, pw, n) \<in> set users"
  shows "find (\<lambda>(u, x, y). lit_bytes u = lit_bytes name) users = Some (name, pw, n)" "pw = name"
proof -
  have "(name, pw, n) = (''root'', ''root'', 0) \<or> (name, pw, n) = (''admin'', ''admin'', 1)
      \<or> (name, pw, n) = (''user'', ''user'', 1000) \<or> (name, pw, n) = (''guest'', ''guest'', 1001)"
    using assms unfolding users_def by simp
  then show "find (\<lambda>(u, x, y). lit_bytes u = lit_bytes name) users = Some (name, pw, n)" "pw = name"
    by (elim disjE; simp add: users_def lit_bytes_def)+
qed

lemma cmd_login_step:
  assumes user: "(name, pw, n) \<in> set users" and "cstr (mem s) u (lit_bytes name)"
  shows "\<exists>h. cmd_login [c, u] s = kret (become n (s\<lparr>hw := h, current_uid := n\<rparr>))"
proof -
  have "length (lit_bytes name) < 2 ^ 32" using user by (auto simp: users_def lit_bytes_def)
  then obtain t where "text_at (mem s) u = Some t" by (rule text_at_cstr [OF assms(2)])
  then show ?thesis using find_user [OF user] assms(2)
    by (auto simp: cmd_login_def find_cstr [OF assms(2)] klift_def say_def set_fg_def uid_hw)
qed

text \<open>
  C40. The \<open>login\<close> command. The password of each of the four users of the table is their name, and a
  password that is not given is taken to be the name: whoever is at the prompt becomes any of these users,
  the superuser included, by the command \<open>login\<close> with the name alone. The command
  line goes through the parser and the table of commands, and nothing but the copy of the command line,
  the screen, the current user and the user of the current process changes.
\<close>

theorem login_without_password:
  assumes "(name, pw, n) \<in> set users" and "cstr (mem s) command (lit_bytes (''login '' @ name))" "command \<noteq> 0"
    and "command + 256 \<le> cmd_copy s \<or> cmd_copy s + 256 \<le> command"
  shows "pw = name \<and> (\<exists>m h. shell_process_command command s = kret (become n (s\<lparr>mem := m, hw := h, current_uid := n\<rparr>))
    \<and> (\<forall>x. x \<notin> {cmd_copy s ..< cmd_copy s + 256} \<longrightarrow> m x = mem s x))"
proof (rule conjI)
  show "pw = name" using assms(1) by (auto simp: users_def)
next
  let ?line = "lit_bytes (''login '' @ name)"
  have words: "line_words ?line = lit_bytes ''login'' # [lit_bytes name]" "length ?line \<le> 255" "hd ?line \<noteq> 10"
    using assms(1) by (auto simp: users_def lit_bytes_def is_blank_def)
  have find: "find (\<lambda>(u, d, h). lit_bytes u = lit_bytes ''login'') commands = Some (''login'', ''Login as a user (BONUS)'', Cmd_login)"
    by (simp add: commands_def lit_bytes_def)
  have apart: "command + length ?line < cmd_copy s \<or> cmd_copy s + 256 \<le> command"
    using assms(1,4) by (auto simp: users_def lit_bytes_def)
  obtain m argv where run: "shell_process_command command s = run_handler Cmd_login argv (s\<lparr>mem := m\<rparr>)"
    "list_all2 (cstr m) argv (lit_bytes ''login'' # [lit_bytes name])" "\<And>x. x \<notin> {cmd_copy s ..< cmd_copy s + 256} \<Longrightarrow> m x = mem s x"
    by (rule process_command_step [OF assms(2) words(2) assms(3) apart words(1) _ find words(3)]) auto
  from run(2) obtain c u where "argv = [c, u]" "cstr m u (lit_bytes name)" by (auto simp: list_all2_Cons2)
  then show "\<exists>m h. shell_process_command command s = kret (become n (s\<lparr>mem := m, hw := h, current_uid := n\<rparr>))
      \<and> (\<forall>x. x \<notin> {cmd_copy s ..< cmd_copy s + 256} \<longrightarrow> m x = mem s x)"
    using run(1,3) cmd_login_step [OF assms(1), of "s\<lparr>mem := m\<rparr>" u c] by (auto simp: run_handler_def)
qed

definition shell_example :: shell where
  "shell_example = (shell_boot 0x8000 0x9000 0xA000 0xB000 0xC000 (\<lambda>_. 0) (debug_boot 0xD000 0xE000 (vmem_boot boot_example)))
     \<lparr>mem := put_text (\<lambda>_. 0) 0x8000 ''login root'', current_uid := 1001\<rparr>"

theorem login_without_password_witness:
  "\<exists>m h. shell_process_command 0x8000 shell_example = kret (become 0 (shell_example\<lparr>mem := m, hw := h, current_uid := 0\<rparr>))"
proof -
  have "cstr (mem shell_example) 0x8000 (lit_bytes (''login '' @ ''root''))"
    by (simp add: shell_example_def put_text_def store_struct_def lit_bytes_def)
  moreover have "cmd_copy shell_example = 0x9000"
    by (simp add: shell_example_def shell_boot_def debug_boot_def vmem_boot_def shell.defs debug.defs vmem.defs vfs.defs)
  ultimately show ?thesis using login_without_password [of "''root''" "''root''" 0 shell_example "0x8000"]
    by (auto simp: users_def)
qed

end
