(* ===== verification/KFS_Kernel.thy ===== *)
theory KFS_Kernel
  imports KFS_Shell_Lines
begin

text \<open>
  The entry of the kernel (\<open>src/kernel.c\<close>): the order in which the components are initialised, the four
  screens, and the shell. The state adds the keyboard and the addresses the initialisations take: those of
  the tables, of the assembly stubs and of the literal \<open>"/"\<close>. The interrupts that arrive after they are
  enabled are not part of the sequence; the keys they deliver are the argument of the shell.
\<close>

section \<open>State\<close>

abbreviation (input) VGA_COLOR_CYAN :: u8 where "VGA_COLOR_CYAN \<equiv> 3"
abbreviation (input) VGA_COLOR_LIGHT_MAGENTA :: u8 where "VGA_COLOR_LIGHT_MAGENTA \<equiv> 13"

record kernel = shell +
  kbd :: keyboard
  gdt_table :: u32
  idt_table :: u32
  isr_addr :: "nat \<Rightarrow> u32"
  irq_addr :: "nat \<Rightarrow> u32"
  slash_literal :: nat

definition kernel_boot :: "keyboard \<Rightarrow> u32 \<Rightarrow> u32 \<Rightarrow> (nat \<Rightarrow> u32) \<Rightarrow> (nat \<Rightarrow> u32) \<Rightarrow> nat \<Rightarrow> shell \<Rightarrow> kernel" where
  "kernel_boot k gdt idt isr irq slash s = shell.extend s (kernel.fields k gdt idt isr irq slash)"

section \<open>Screens\<close>

definition display_welcome :: "'a machine_scheme \<Rightarrow> 'a machine_scheme" where
  "display_welcome s =
     (let s1 = on_hw (vga_set_color VGA_COLOR_WHITE VGA_COLOR_BLUE) (on_hw vga_clear s);
          s2 = print_lines [''============================================\<newline>'', ''         KFS_5 - Process System             \<newline>'',
                 ''============================================\<newline>''] s1;
          s3 = print_lines [''\<newline>'', ''Welcome to KFS_4!\<newline>\<newline>''] (set_fg VGA_COLOR_LIGHT_GREY s2);
          s4 = print_lines [''  [X] Interrupt Descriptor Table (IDT)\<newline>'', ''  [X] CPU Exception Handlers (0x00-0x13)\<newline>'',
                 ''  [X] Hardware Interrupts (PIC)\<newline>'', ''  [X] Signal-callback system\<newline>'', ''  [X] Signal scheduling\<newline>'',
                 ''  [X] Register cleaning on panic\<newline>'', ''  [X] Stack saving on panic\<newline>'',
                 ''  [X] Keyboard interrupt handler (IRQ1)\<newline>\<newline>''] (say VGA_COLOR_GREEN ''Mandatory Features:\<newline>'' [] s3);
          s5 = print_lines [''  [X] Syscall infrastructure (INT 0x80)\<newline>'', ''  [X] Multiple keyboard layouts (QWERTY/AZERTY/QWERTZ)\<newline>'',
                 ''  [X] get_line() function\<newline>'', ''  [X] Full KFS_3 features (GDT, Paging, Memory)\<newline>\<newline>'']
                 (say VGA_COLOR_CYAN ''Bonus Features:\<newline>'' [] s4);
          s6 = print_lines [''  - help: Display available commands\<newline>'', ''  - clear: Clear the screen\<newline>'',
                 ''  - stack [test|info]: Stack operations\<newline>'', ''  - reboot: Reboot the system\<newline>'',
                 ''  - mem [info]: Memory information\<newline>'', ''  - panic: Trigger a kernel panic\<newline>'',
                 ''  - signal: Test signal system\<newline>'', ''  - syscall: Test syscall system\<newline>'',
                 ''  - idt: Show interrupt information\<newline>\<newline>''] (say VGA_COLOR_LIGHT_BROWN ''Shell Commands:\<newline>'' [] s5);
          s7 = print_lines [''  - Alt+F1/F2/F3/F4: Switch screens\<newline>'', ''  - Backspace: Delete character\<newline>'',
                 ''  - Enter: Execute command\<newline>\<newline>''] (say VGA_COLOR_LIGHT_BROWN ''Keyboard:\<newline>'' [] s6)
      in printk ''> '' [] s7)"

text \<open>The contents of the other three screens.\<close>

definition info_screen :: "'a machine_scheme \<Rightarrow> 'a machine_scheme" where
  "info_screen s =
     print_lines [''Kernel: KFS_1\<newline>'', ''Architecture: i386 (x86)\<newline>'', ''Boot loader: GRUB\<newline>'',
       ''Video mode: VGA Text Mode 80x25\<newline>'', ''Compiler: GCC\<newline>'', ''Assembler: NASM\<newline>\<newline>'', ''Features:\<newline>'',
       ''  - Multiboot compliant\<newline>'', ''  - Custom linker script\<newline>'', ''  - No standard library\<newline>'',
       ''  - Standalone kernel\<newline>\<newline>'', ''Press Alt+F1 to return to main screen\<newline>'']
     (say VGA_COLOR_LIGHT_CYAN ''=== Screen 1: System Information ===\<newline>\<newline>'' [] (on_hw vga_clear s))"

definition printf_screen :: "'a machine_scheme \<Rightarrow> 'a machine_scheme" where
  "printf_screen s =
     (let s1 = say VGA_COLOR_LIGHT_MAGENTA ''=== Screen 2: Printf Test ===\<newline>\<newline>'' [] (on_hw vga_clear s);
          s2 = prints [(''Testing printf formats:\<newline>\<newline>'', []), (''String: %s\<newline>'', [KStr (Some ''Hello, World!'')]),
                 (''Character: %c\<newline>'', [KChar 75]), (''Decimal: %d\<newline>'', [KInt 42]), (''Negative: %d\<newline>'', [KInt (- 42)]),
                 (''Unsigned: %u\<newline>'', [KUInt 4294967295]), (''Hexadecimal: %x\<newline>'', [KUInt 0xDEADBEEF]), (''Percent: %%\<newline>\<newline>'', [])] s1
      in printk ''Press Alt+F1 to return to main screen\<newline>'' [] (say VGA_COLOR_GREEN ''All tests passed!\<newline>\<newline>'' [] s2))"

definition color_names :: "string list" where
  "color_names = [''Black'', ''Blue'', ''Green'', ''Cyan'', ''Red'', ''Magenta'', ''Brown'', ''Light Grey'',
     ''Dark Grey'', ''Light Blue'', ''Light Green'', ''Light Cyan'', ''Light Red'', ''Light Magenta'', ''Yellow'', ''White'']"

definition color_screen :: "'a machine_scheme \<Rightarrow> 'a machine_scheme" where
  "color_screen s =
     (let s1 = printk ''=== Screen 3: Color Test ===\<newline>\<newline>'' [] (on_hw vga_clear s);
          s2 = fold (\<lambda>i s. let s1 = printk ''%s '' [KStr (Some (color_names ! i))] (set_fg (of_nat i) s)
                            in if (i + 1) mod 2 = 0 then printk ''\<newline>'' [] s1 else s1) [0..<16] s1
      in printk ''\<newline>\<newline>Press Alt+F1 to return to main screen\<newline>'' [] (set_fg VGA_COLOR_LIGHT_GREY s2))"

definition init_screens :: "'a screens_scheme \<Rightarrow> 'a screens_scheme" where
  "init_screens s =
     (let s1 = screen_save (display_welcome (screen_init s));
          s2 = screen_save (info_screen (screen_switch 1 s1));
          s3 = screen_save (printf_screen (screen_switch 2 s2));
          s4 = screen_save (color_screen (screen_switch 3 s3))
      in screen_switch 0 s4)"

section \<open>Initialisation\<close>

text \<open>Mounting the file system of the primary master, if it has one.\<close>

definition mount_primary :: "'a kernel_scheme \<Rightarrow> 'a kernel_scheme kresult" where
  "mount_primary s =
     kbind (kmalloc (of_nat EXT2_FS_SIZE) s) (\<lambda>(ext2_fs, s1).
       if ext2_fs = 0 then kret s1
       else kbind (ext2_init (superblock_buffer s1) ext2_fs IDE_CHANNEL_PRIMARY IDE_DRIVE_MASTER_IDX s1) (\<lambda>(result, s2).
         if result = 0
         then kbind (vfs_mount_at (slash_literal s2) ext2_fs
                (say VGA_COLOR_GREEN ''[VFS] EXT2 filesystem detected and mounted at /\<newline>'' [] s2)) (\<lambda>(r, s3).
                ext2_print_info ext2_fs s3)
         else kfree ext2_fs (say VGA_COLOR_LIGHT_BROWN ''[VFS] No EXT2 filesystem found on primary master\<newline>'' [] s2)))"

text \<open>Everything \<open>kmain\<close> does before the shell runs.\<close>

definition kernel_init :: "'a kernel_scheme \<Rightarrow> 'a kernel_scheme kresult" where
  "kernel_init s =
     (let s1 = gdt_init (gdt_table s) (on_hw vga_init s);
          s2 = syscall_init (signal_init (idt_init (isr_addr s1) (irq_addr s1) (idt_table s1) s1))
      in kbind (paging_enable (paging_init s2)) (\<lambda>s3.
         kbind (vmalloc_init (kmalloc_init s3)) (\<lambda>s4.
           let s5 = socket_init (process_init s4);
               s6 = ide_init (say VGA_COLOR_LIGHT_CYAN ''[INIT] Initializing IDE disk driver...\<newline>'' [] s5);
               s7 = say VGA_COLOR_LIGHT_CYAN ''[INIT] Initializing EXT2 filesystem...\<newline>'' [] s6
           in kbind (vfs_init (say VGA_COLOR_LIGHT_CYAN ''[INIT] Initializing Virtual File System (VFS)...\<newline>'' [] s7)) (\<lambda>s8.
              kbind (mount_primary s8) (\<lambda>s9.
              kbind (klift (timer_init TIMER_FREQUENCY s9)) (\<lambda>s10.
                let s11 = s10\<lparr>kbd := keyboard_init (kbd s10)\<rparr>
                in kret (init_screens (interrupts_enable (keyboard_enable_interrupts s11)))))))))"

definition kmain :: "int list \<Rightarrow> 'a kernel_scheme \<Rightarrow> 'a kernel_scheme kresult" where
  "kmain ks s = kbind (kernel_init s) (shell_run ks)"

end
