(* ===== verification/KFS_Boot.thy ===== *)
theory KFS_Boot
  imports KFS_Kernel
begin

text \<open>
  The initialisation of the kernel as a whole: what each step of \<open>kernel_init\<close> leaves of the state the later
  ones rely on, and that the sequence ends with a sound heap, the file system, the handlers and the first
  screen in place when there is no disk.
\<close>

section \<open>What the initialisations leave alone\<close>

definition boot_keeps :: "'a kernel_scheme \<Rightarrow> 'a kernel_scheme \<Rightarrow> bool" where
  "boot_keeps s s' \<longleftrightarrow> mem s' = mem s \<and> heap_initialized s' = heap_initialized s \<and> heap_start s' = heap_start s
     \<and> kernel_directory s' = kernel_directory s \<and> current_directory s' = current_directory s
     \<and> vmem_initialized s' = vmem_initialized s \<and> vfs_root s' = vfs_root s \<and> fn_addr s' = fn_addr s \<and> path_copy s' = path_copy s
     \<and> dev (hw s') = dev (hw s) \<and> interrupt_handlers s' = interrupt_handlers s \<and> ide_devices s' = ide_devices s"

lemma boot_keeps_trans [trans]: "boot_keeps s s1 \<Longrightarrow> boot_keeps s1 s2 \<Longrightarrow> boot_keeps s s2"
  by (simp add: boot_keeps_def)

lemma boot_keeps_refl: "boot_keeps s s"
  by (simp add: boot_keeps_def)

lemma boot_keeps_hw: "dev h = dev (hw s) \<Longrightarrow> boot_keeps s (s\<lparr>hw := h\<rparr>)"
  by (simp add: boot_keeps_def)

lemma boot_keeps_only_hw: "only_hw s s' \<Longrightarrow> dev (hw s') = dev (hw s) \<Longrightarrow> boot_keeps s s'"
  using boot_keeps_hw [of "hw s'" s] unfolding only_hw_def by metis

lemma vga_dev [simp]:
  "dev (vga_clear h) = dev h" "dev (vga_set_color f b h) = dev h" "dev (vga_init h) = dev h"
  by (simp_all add: vga_clear_def vga_set_color_def vga_init_def vga_update_cursor_eq vga_enable_cursor_def inb_def outb_def Let_def)

lemma say_dev [simp]: "dev (hw (say c fmt args s)) = dev (hw s)"
  by (simp add: say_def set_fg_def)

lemma print_lines_dev [simp]: "dev (hw (print_lines ts s)) = dev (hw s)"
  by (induction ts arbitrary: s) (simp_all add: print_lines_def)

lemma boot_say: "boot_keeps s (say c fmt args s)" "boot_keeps s (printk fmt args s)" "boot_keeps s (kernel_info t s)"
  by (simp_all add: boot_keeps_def say_def set_fg_def)

lemma boot_vga_init: "boot_keeps s (on_hw vga_init s)"
  by (simp add: boot_keeps_def)

lemma boot_gdt: "boot_keeps s (gdt_init t s)"
  by (simp add: boot_keeps_def gdt_init_def gdt_set_gate_def gdt_flush_def Let_def)

lemma boot_signal: "boot_keeps s (signal_init s)"
  by (simp add: boot_keeps_def signal_init_def)

lemma boot_syscall: "boot_keeps (s\<lparr>interrupt_handlers := (interrupt_handlers s)[128 := Some Syscall_dispatcher]\<rparr>) (syscall_init s)"
  by (simp add: boot_keeps_def syscall_init_def syscall_register_def idt_register_handler_def Let_def)

lemma pic_dev [simp]: "dev (pic_init h) = dev h" "dev (pic_disable_all h) = dev h" "dev (pic_unmask_irq n h) = dev h"
  by (simp_all add: pic_init_def pic_disable_all_def pic_unmask_irq_def pic_wait_def inb_def outb_def Let_def split: prod.splits)

lemma boot_gates: "boot_keeps s (fold (\<lambda>n. idt_set_gate (f n) (h n) 8 fl) ns s)"
  by (rule fold_invariant [where P = "boot_keeps s" and Q = "\<lambda>_. True"]) (simp_all add: boot_keeps_def idt_set_gate_def)

lemma boot_idt: "boot_keeps (s\<lparr>interrupt_handlers := replicate 256 None\<rparr>) (idt_init isr irq t s)"
proof -
  let ?s2 = "on_hw pic_init (s\<lparr>idt_limit := 2047, idt_base := t, idt_entries := replicate IDT_ENTRIES idt_entry_zero,
                 interrupt_handlers := replicate IDT_ENTRIES None\<rparr>)"
  let ?s3 = "fold (\<lambda>n. idt_set_gate (of_nat n) (isr n) 0x08 (IDT_INTERRUPT OR IDT_RING0)) [0..<20] ?s2"
  let ?s4 = "fold (\<lambda>n. idt_set_gate (of_nat (32 + n)) (irq n) 0x08 (IDT_INTERRUPT OR IDT_RING0)) [0..<16] ?s3"
  have "boot_keeps (s\<lparr>interrupt_handlers := replicate 256 None\<rparr>) ?s2" by (simp add: boot_keeps_def)
  also have "boot_keeps ?s2 ?s3" by (rule boot_gates)
  also have "boot_keeps ?s3 ?s4" by (rule boot_gates)
  also have "boot_keeps ?s4 (on_hw pic_disable_all (idt_set_gate 128 (isr 128) 0x08 (IDT_INTERRUPT OR IDT_RING3) ?s4))"
    by (simp add: boot_keeps_def idt_set_gate_def)
  finally show ?thesis unfolding idt_init_def Let_def .
qed

lemma boot_tables: "boot_keeps s (process_init s)" "boot_keeps s (socket_init s)" "boot_keeps s (interrupts_enable s)" "boot_keeps s (s\<lparr>kbd := k\<rparr>)"
  by (simp_all add: boot_keeps_def process_init_def socket_init_def interrupts_enable_def)

lemma boot_keyboard: "boot_keeps (s\<lparr>interrupt_handlers := (interrupt_handlers s)[33 := Some Keyboard_irq_handler]\<rparr>) (keyboard_enable_interrupts s)"
  by (simp add: boot_keeps_def keyboard_enable_interrupts_def idt_register_handler_def)

lemma boot_timer:
  "case timer_init TIMER_FREQUENCY s of None \<Rightarrow> False
   | Some s' \<Rightarrow> boot_keeps (s\<lparr>interrupt_handlers := (interrupt_handlers s)[32 := Some Timer_irq_handler]\<rparr>) s'"
  by (simp add: boot_keeps_def timer_init_def idt_register_handler_def outb_def Let_def)

section \<open>Disks\<close>

lemma wait_ready_dev: "dev (snd (wait_ready_loop n base h)) = dev h"
  by (induction n arbitrary: h) (simp_all add: inb_def Let_def)

lemma wait_drq_dev: "dev (snd (wait_drq_loop n base h)) = dev h"
  by (induction n arbitrary: h) (simp_all add: inb_def Let_def)

lemma inw_words_dev: "dev (snd (inw_words n base h)) = dev h"
proof (induction n arbitrary: h)
  case (Suc n)
  from Suc [of "h\<lparr>hist := Inw base # hist h\<rparr>"] show ?case by (auto simp: inw_def Let_def split: prod.splits)
qed simp

lemma ide_dev:
  "dev (snd (ide_wait_ready base h)) = dev h" "dev (snd (ide_wait_drq base h)) = dev h" "dev (snd (ide_read_status base h)) = dev h"
  by (simp_all only: ide_wait_ready_def ide_wait_drq_def wait_ready_dev wait_drq_dev) (simp add: ide_read_status_def inb_def)

lemma select_dev: "dev (ide_select_drive base drv h) = dev h"
  by (simp add: ide_select_drive_def inb_def outb_def eval_nat_numeral)

text \<open>What identification changes: one entry of the table of devices.\<close>

definition identified :: "ide_channel \<Rightarrow> ide_drive \<Rightarrow> 'a kernel_scheme \<Rightarrow> 'a kernel_scheme \<Rightarrow> bool" where
  "identified c d s s' \<longleftrightarrow> (\<exists>x. boot_keeps (s\<lparr>ide_devices := (ide_devices s)[dev_idx c d := x]\<rparr>) s')"

lemma identified_upd: "identified c d s s' \<Longrightarrow> identified c d s (upd_device c d f s')"
  unfolding identified_def by (auto simp: boot_keeps_def upd_device_def)

lemma identified_hw: "identified c d s s' \<Longrightarrow> dev h = dev (hw s') \<Longrightarrow> identified c d s (s'\<lparr>hw := h\<rparr>)"
  unfolding identified_def by (auto simp: boot_keeps_def)

lemma identified_refl: "identified c d s s"
  unfolding identified_def by (auto simp: boot_keeps_def intro!: exI [of _ "ide_devices s ! dev_idx c d"])

lemma identified_printk: "identified c d s s' \<Longrightarrow> identified c d s (printk fmt args s')"
  unfolding identified_def by (auto simp: boot_keeps_def)

lemma identified_if: "(b \<Longrightarrow> identified c d s x) \<Longrightarrow> (\<not> b \<Longrightarrow> identified c d s y) \<Longrightarrow> identified c d s (if b then x else y)"
  by simp

lemma outb_dev: "dev (outb p v h) = dev h"
  by (simp add: outb_def)

lemma identify_keeps: "identified c d s (snd (ide_identify c d s))"
  unfolding ide_identify_def Let_def case_prod_beta if_distrib [of snd] snd_conv
  by (intro identified_if identified_upd identified_hw identified_printk identified_refl)
    (simp_all only: ide_dev inw_words_dev select_dev outb_dev upd_device_def ide.simps machine.simps refl)

lemma identify_absent:
  assumes "\<And>h. dev (hw s) h 0x1F7 = 0" "length (ide_devices s) = 4"
  shows "\<not> exists (ide_devices (snd (ide_identify IDE_CHANNEL_PRIMARY IDE_DRIVE_MASTER_IDX s)) ! 0)"
  using assms by (simp add: ide_identify_def Let_def ide_read_status_def inb_def outb_dev select_dev upd_device_def dev_idx_def)

lemma identified_devices:
  assumes "identified c d s s'"
  shows "length (ide_devices s') = length (ide_devices s)" "i \<noteq> dev_idx c d \<Longrightarrow> ide_devices s' ! i = ide_devices s ! i"
    "boot_keeps (s\<lparr>ide_devices := ds\<rparr>) (s'\<lparr>ide_devices := ds\<rparr>)"
  using assms by (auto simp: identified_def boot_keeps_def)

lemma boot_print_device: "boot_keeps s s' \<Longrightarrow> boot_keeps s (print_device a b d s')"
  by (simp add: print_device_def boot_keeps_def Let_def)

lemma boot_ide:
  assumes "\<And>h. dev (hw s) h 0x1F7 = 0"
  shows "\<exists>ds. boot_keeps (s\<lparr>ide_devices := ds\<rparr>) (ide_init s) \<and> \<not> exists (ds ! 0)"
proof -
  define s2 where "s2 = (printk ''[IDE] Initializing IDE controller...\<newline>'' [] s)\<lparr>ide_devices := replicate 4 ide_device_zero\<rparr>"
  define s3 where "s3 = snd (ide_identify IDE_CHANNEL_PRIMARY IDE_DRIVE_MASTER_IDX s2)"
  define s4 where "s4 = snd (ide_identify IDE_CHANNEL_PRIMARY IDE_DRIVE_SLAVE_IDX s3)"
  define s5 where "s5 = snd (ide_identify IDE_CHANNEL_SECONDARY IDE_DRIVE_MASTER_IDX s4)"
  define s6 where "s6 = snd (ide_identify IDE_CHANNEL_SECONDARY IDE_DRIVE_SLAVE_IDX s5)"
  note i3 = identify_keeps [of IDE_CHANNEL_PRIMARY IDE_DRIVE_MASTER_IDX s2, folded s3_def]
  note i4 = identify_keeps [of IDE_CHANNEL_PRIMARY IDE_DRIVE_SLAVE_IDX s3, folded s4_def]
  note i5 = identify_keeps [of IDE_CHANNEL_SECONDARY IDE_DRIVE_MASTER_IDX s4, folded s5_def]
  note i6 = identify_keeps [of IDE_CHANNEL_SECONDARY IDE_DRIVE_SLAVE_IDX s5, folded s6_def]
  have absent: "\<not> exists (ide_devices s3 ! 0)"
    unfolding s3_def by (rule identify_absent) (use assms in \<open>simp_all add: s2_def\<close>)
  have "ide_devices s6 ! 0 = ide_devices s3 ! 0"
    using identified_devices(2) [OF i4, of 0] identified_devices(2) [OF i5, of 0] identified_devices(2) [OF i6, of 0]
    by (simp add: dev_idx_def)
  then have "\<not> exists (ide_devices s6 ! 0)" using absent by simp
  moreover have "boot_keeps (s\<lparr>ide_devices := ide_devices s6\<rparr>) (ide_init s)"
  proof -
    let ?d = "ide_devices s6"
    note k = identified_devices(3)
    have "boot_keeps (s\<lparr>ide_devices := ?d\<rparr>) (s2\<lparr>ide_devices := ?d\<rparr>)" by (simp add: boot_keeps_def s2_def)
    then have "boot_keeps (s\<lparr>ide_devices := ?d\<rparr>) (s6\<lparr>ide_devices := ?d\<rparr>)"
      by (rule boot_keeps_trans [OF boot_keeps_trans [OF boot_keeps_trans [OF boot_keeps_trans [OF _ k [OF i3]] k [OF i4]] k [OF i5]] k [OF i6]])
    also have "boot_keeps (s6\<lparr>ide_devices := ?d\<rparr>) s6" by (simp add: boot_keeps_def)
    also have "boot_keeps s6 (ide_print_devices s6)"
      unfolding ide_print_devices_def Let_def by (intro boot_print_device boot_say)
    also have "boot_keeps (ide_print_devices s6) (ide_init s)"
      unfolding ide_init_def Let_def s2_def [symmetric] s3_def [symmetric] s4_def [symmetric] s5_def [symmetric] s6_def [symmetric]
      by (rule boot_say)
    finally show ?thesis .
  qed
  ultimately show ?thesis by blast
qed

section \<open>Memory\<close>

lemma boot_paging:
  assumes "kernel_directory s \<noteq> 0"
  shows "\<exists>s' m. paging_enable (paging_init s) = kret s' \<and> boot_keeps (s\<lparr>mem := m, current_directory := kernel_directory s\<rparr>) s'"
  using assms by (auto simp: paging_enable_def paging_init_def Let_def boot_keeps_def intro!: exI)

lemma kmalloc_init_dev: "dev (hw (kmalloc_init s)) = dev (hw s)"
  by (simp add: kmalloc_init_def Let_def)

lemma kmalloc_init_room: "\<not> heap_initialized s \<Longrightarrow> has_room (kmalloc_init s) HEAP_SIZE {}"
  using kmalloc_init_abs [of s] unfolding has_room_def by (intro exI [of _ "[(HEAP_SIZE, True)]"]) auto

lemma kmalloc_keeps: "kmalloc n s = kret (p, s') \<Longrightarrow> vfs_keeps s s' \<and> vfs_root s' = vfs_root s \<and> dev (hw s') = dev (hw s)"
  using more_vfs [OF kmalloc_more] kmalloc_dev by (fastforce simp: vfs_keeps_def)

lemma kfree_keeps: "kfree p s = kret s' \<Longrightarrow> vfs_keeps s s' \<and> vfs_root s' = vfs_root s \<and> dev (hw s') = dev (hw s)"
  using more_vfs [OF kfree_more] kfree_dev by (fastforce simp: vfs_keeps_def)

lemma vmalloc_init_keeps: "vmalloc_init s = kret s' \<Longrightarrow> vfs_keeps s s' \<and> dev (hw s') = dev (hw s)"
  unfolding vmalloc_init_def
  by (auto simp: kbind_eq_kret vfs_keeps_def split: if_splits dest!: kmalloc_keeps)

lemma boot_heap:
  fixes s :: "'a kernel_scheme"
  assumes "\<not> heap_initialized s" "\<not> vmem_initialized s"
  obtains s' L where "vmalloc_init (kmalloc_init s) = kret s'" "has_room s' 0xFFFD8 L" "vfs_keeps s s'" "dev (hw s') = dev (hw s)"
proof -
  have more: "kheap.more (kmalloc_init s) = kheap.more s" by simp
  note room = kmalloc_init_room [OF assms(1)]
  have fresh: "\<not> vmem_initialized (kmalloc_init s)" using more_vmem(2) [OF more] assms(2) by simp
  obtain s' p L where s': "vmalloc_init (kmalloc_init s) = kret s'" "has_room s' (HEAP_SIZE - 40) L"
    by (rule vmalloc_init_step [OF room _ fresh]) auto
  moreover have "vfs_keeps s (kmalloc_init s)" using more_vfs [OF more] by (simp add: vfs_keeps_def)
  ultimately show thesis using that vmalloc_init_keeps [OF s'(1)] by (simp add: vfs_keeps_def kmalloc_init_dev)
qed

section \<open>Screens\<close>

lemma only_hwE:
  assumes "only_hw s s'"
  obtains h where "s' = s\<lparr>hw := h\<rparr>"
  using assms unfolding only_hw_def by blast

text \<open>What drawing the screens leaves alone: the state of the other components and the registers.\<close>

definition screens_keep :: "'a kernel_scheme \<Rightarrow> 'a kernel_scheme \<Rightarrow> bool" where
  "screens_keep s s' \<longleftrightarrow> boot_keeps s s' \<and> regs s' = regs s"

lemma screens_keep_trans: "screens_keep s s1 \<Longrightarrow> screens_keep s1 s2 \<Longrightarrow> screens_keep s s2"
  unfolding screens_keep_def using boot_keeps_trans by auto

lemma screens_keep_drawn: "only_hw s s' \<Longrightarrow> dev (hw s') = dev (hw s) \<Longrightarrow> screens_keep s s'"
  unfolding screens_keep_def by (auto intro: boot_keeps_only_hw elim!: only_hwE)

lemma print_dev:
  "dev (hw (printk fmt args s)) = dev (hw s)" "dev (hw (set_fg c s)) = dev (hw s)"
  "dev (hw (on_hw vga_clear s)) = dev (hw s)" "dev (hw (on_hw (vga_set_color f b) s)) = dev (hw s)"
  by (simp_all add: set_fg_def)

lemma color_fold:
  "only_hw s (fold (\<lambda>i s. let s1 = printk ''%s '' [KStr (Some (color_names ! i))] (set_fg (of_nat i) s)
     in if (i + 1) mod 2 = 0 then printk ''\<newline>'' [] s1 else s1) is s0) = only_hw s s0"
  "dev (hw (fold (\<lambda>i s. let s1 = printk ''%s '' [KStr (Some (color_names ! i))] (set_fg (of_nat i) s)
     in if (i + 1) mod 2 = 0 then printk ''\<newline>'' [] s1 else s1) is s0)) = dev (hw s0)"
  by (induction "is" arbitrary: s0) (simp_all add: print_dev Let_def del: message_simps)

lemma drawn:
  "only_hw s (display_welcome s)" "dev (hw (display_welcome s)) = dev (hw s)"
  "only_hw s (info_screen s)" "dev (hw (info_screen s)) = dev (hw s)"
  "only_hw s (printf_screen s)" "dev (hw (printf_screen s)) = dev (hw s)"
  by (simp_all add: display_welcome_def info_screen_def printf_screen_def prints_def print_dev Let_def del: message_simps)

lemma color_drawn: "only_hw s (color_screen s)" "dev (hw (color_screen s)) = dev (hw s)"
  unfolding color_screen_def Let_def
  by (simp_all only: only_hw_printk only_hw_say only_hw_on_hw only_hw_refl color_fold [unfolded Let_def] print_dev)

lemma vga_cursor_dev: "dev (vga_set_cursor_position r c h) = dev h"
  by (simp add: vga_set_cursor_position_def vga_update_cursor_eq Let_def)

lemma screen_ops_keep: "screens_keep s (screen_init s)" "screens_keep s (screen_save s)" "screens_keep s (screen_switch n s)"
  by (auto simp: screens_keep_def boot_keeps_def screen_init_def screen_save_def screen_switch_def screen_restore_def vga_cursor_dev split: prod.splits)

lemma screen_switch_current: "current_screen (screen_switch 0 s) = 0"
  by (simp add: screen_switch_def screen_restore_def split: prod.splits)

lemma init_screens_keep: "screens_keep s (init_screens s)" "current_screen (init_screens s) = 0"
proof -
  note d = screens_keep_drawn [OF drawn(1,2)] screens_keep_drawn [OF drawn(3,4)] screens_keep_drawn [OF drawn(5,6)] screens_keep_drawn [OF color_drawn]
  have step: "screens_keep s (screen_save (draw (screen_switch n s1)))" if "screens_keep s s1" "\<And>s. screens_keep s (draw s)" for s1 draw n
    by (rule screens_keep_trans [OF screens_keep_trans [OF screens_keep_trans [OF that(1) screen_ops_keep(3)] that(2)] screen_ops_keep(2)])
  note first = screens_keep_trans [OF screens_keep_trans [OF screen_ops_keep(1) d(1)] screen_ops_keep(2)]
  show "screens_keep s (init_screens s)"
    unfolding init_screens_def Let_def
    by (rule screens_keep_trans [OF step [OF step [OF step [OF first d(2)] d(3)] d(4)] screen_ops_keep(3)])
  show "current_screen (init_screens s) = 0" unfolding init_screens_def Let_def by (rule screen_switch_current)
qed

section \<open>Mounting without a disk\<close>

lemma ext2_init_no_disk:
  fixes s :: "'a kernel_scheme"
  assumes no: "\<not> exists (ide_devices s ! 0)"
  shows "\<exists>s'. ext2_init buf fs IDE_CHANNEL_PRIMARY IDE_DRIVE_MASTER_IDX s = kret (-1, s') \<and> (\<exists>m h. s' = s\<lparr>mem := m, hw := h\<rparr>
      \<and> (\<forall>x. x \<notin> {unat fs ..< unat fs + 444} \<longrightarrow> m x = mem s x))"
proof -
  let ?m = "wr32 (wr32 (memset (mem s) (unat fs) 0 EXT2_FS_SIZE) (unat fs) 0) (unat fs + 4) 0"
  have "fs_channel fs ?m = IDE_CHANNEL_PRIMARY" "fs_drive fs ?m = IDE_DRIVE_MASTER_IDX"
    by (simp_all add: fs_channel_def fs_drive_def rd32_wr32_other)
  moreover have "?m x = mem s x" if "x \<notin> {unat fs ..< unat fs + 444}" for x
    using that by (auto simp: wr32_other memset_apply)
  ultimately show ?thesis
    using no by (auto simp: ext2_init_def Let_def ext2_read_superblock_def ide_read_sectors_def dev_idx_def intro!: exI)
qed

lemma mount_no_disk:
  fixes s :: "'a kernel_scheme"
  assumes rep: "heap_rep s L" and no: "\<not> exists (ide_devices s ! 0)"
  obtains s' where "mount_primary s = kret s'" "heap_rep s' L" "kept L (mem s) (mem s')" "vfs_keeps s s'" "vfs_root s' = vfs_root s"
proof -
  have n: "(of_nat EXT2_FS_SIZE :: u32) \<noteq> 0" "unat (of_nat EXT2_FS_SIZE :: u32) + 19 < 2 ^ 32" "unat (of_nat EXT2_FS_SIZE :: u32) = 444" by simp_all
  from kmalloc_rep [OF rep n(1,2)] obtain p s1 where al: "kmalloc (of_nat EXT2_FS_SIZE) s = kret (p, s1)"
    and out: "if p = 0 then heap_rep s1 L \<and> mem s1 = mem s else \<exists>len \<ge> 444. heap_rep s1 (insert (unat p, len) L)
       \<and> {unat p ..< unat p + len} \<inter> (live_bytes L \<union> unmanaged) = {} \<and> (\<forall>x \<in> live_bytes L \<union> unmanaged. mem s1 x = mem s x)"
    unfolding n(3) by blast
  note k1 = kmalloc_keeps [OF al]
  show thesis
  proof (cases "p = 0")
    case True
    then have "mount_primary s = kret s1" using al by (simp add: mount_primary_def)
    then show ?thesis by (rule that) (use True out k1 in \<open>simp_all add: kept_def\<close>)
  next
    case False
    with out obtain len where len: "444 \<le> len" "heap_rep s1 (insert (unat p, len) L)"
      "{unat p ..< unat p + len} \<inter> (live_bytes L \<union> unmanaged) = {}" "kept L (mem s) (mem s1)" by (auto simp: kept_def)
    have "\<not> exists (ide_devices s1 ! 0)" using no k1 by (simp add: vfs_keeps_def)
    from ext2_init_no_disk [OF this, of "superblock_buffer s1" p] obtain m h where
      ini: "ext2_init (superblock_buffer s1) p IDE_CHANNEL_PRIMARY IDE_DRIVE_MASTER_IDX s1 = kret (-1, s1\<lparr>mem := m, hw := h\<rparr>)"
      and m: "\<And>x. x \<notin> {unat p ..< unat p + 444} \<Longrightarrow> m x = mem s1 x" by auto
    let ?s2 = "say VGA_COLOR_LIGHT_BROWN ''[VFS] No EXT2 filesystem found on primary master\<newline>'' [] (s1\<lparr>mem := m, hw := h\<rparr>)"
    have rep2: "heap_rep ?s2 (insert (unat p, len) L)"
    proof -
      have "heap_rep (s1\<lparr>mem := m\<rparr>) (insert (unat p, len) L)"
        by (rule heap_rep_put [OF len(2)], rule m) (use len(1) in \<open>auto simp: live_bytes_insert\<close>)
      then show ?thesis by (simp add: say_def set_fg_def heap_rep_def heap_abs_def)
    qed
    from kfree_rep [OF rep2, of p len] obtain s3 where s3: "kfree p ?s2 = kret s3" "heap_rep s3 (insert (unat p, len) L - {(unat p, len)})"
      "\<forall>x \<in> live_bytes (insert (unat p, len) L) \<union> unmanaged. mem s3 x = mem ?s2 x" by auto
    have "unat p \<in> {unat p ..< unat p + len}" using len(1) by simp
    then have "unat p \<notin> live_bytes L" using len(3) by blast
    then have "(unat p, len) \<notin> L" using len(1) live_bytesI [of "unat p" len L "unat p"] by auto
    then have rep3: "heap_rep s3 L" using s3(2) by simp
    have run: "mount_primary s = kret s3"
      using al False ini s3(1) by (simp add: mount_primary_def del: message_simps)
    have "mem s3 x = mem s x" if x: "x \<in> live_bytes L \<union> unmanaged" for x
    proof -
      have "x \<notin> {unat p ..< unat p + len}" using x len(3) by blast
      then have "x \<notin> {unat p ..< unat p + 444}" using len(1) by auto
      then show ?thesis using s3(3) x m len(4) by (simp add: live_bytes_insert kept_def say_def set_fg_def)
    qed
    then have "kept L (mem s) (mem s3)" by (simp add: kept_def)
    then show ?thesis by (rule that [OF run rep3]) (use kfree_keeps [OF s3(1)] k1 in \<open>simp_all add: vfs_keeps_def say_def set_fg_def\<close>)
  qed
qed

section \<open>The boot\<close>

lemma boot_keeps_room: "boot_keeps s s' \<Longrightarrow> has_room s' K L = has_room s K L"
  by (simp add: boot_keeps_def has_room_def heap_abs_def)

lemma boot_keeps_rep: "boot_keeps s s' \<Longrightarrow> heap_rep s' L = heap_rep s L"
  by (simp add: boot_keeps_def heap_rep_def heap_abs_def)

text \<open>The tables, before there is any memory to allocate.\<close>

lemma boot_first:
  fixes s :: "'a kernel_scheme"
  assumes dir: "kernel_directory s \<noteq> 0"
  obtains s3 where "paging_enable (paging_init (syscall_init (signal_init (let s1 = gdt_init (gdt_table s) (on_hw vga_init s)
      in idt_init (isr_addr s1) (irq_addr s1) (idt_table s1) s1)))) = kret s3"
    "heap_initialized s3 = heap_initialized s" "vmem_initialized s3 = vmem_initialized s" "fn_addr s3 = fn_addr s" "dev (hw s3) = dev (hw s)"
    "path_copy s3 = path_copy s" "interrupt_handlers s3 = (replicate 256 None)[128 := Some Syscall_dispatcher]"
proof -
  let ?s1 = "gdt_init (gdt_table s) (on_hw vga_init s)"
  let ?s2 = "idt_init (isr_addr ?s1) (irq_addr ?s1) (idt_table ?s1) ?s1"
  let ?s3 = "syscall_init (signal_init ?s2)"
  note k = boot_keeps_trans [OF boot_vga_init [of s] boot_gdt [of _ "gdt_table s"]]
    boot_idt [of ?s1 "isr_addr ?s1" "irq_addr ?s1" "idt_table ?s1"] boot_signal [of ?s2] boot_syscall [of "signal_init ?s2"]
  have "kernel_directory ?s3 \<noteq> 0" using k dir by (simp add: boot_keeps_def)
  from boot_paging [OF this] obtain s4 m where s4: "paging_enable (paging_init ?s3) = kret s4"
    "boot_keeps (?s3\<lparr>mem := m, current_directory := kernel_directory ?s3\<rparr>) s4" by blast
  show thesis by (rule that [of s4]) (use s4 k in \<open>simp_all add: boot_keeps_def Let_def\<close>)
qed

text \<open>The devices, after the file system is there.\<close>

lemma boot_last:
  fixes s :: "'a kernel_scheme"
  obtains s10 s' where "timer_init TIMER_FREQUENCY s = Some s10"
    "s' = init_screens (interrupts_enable (keyboard_enable_interrupts (s10\<lparr>kbd := keyboard_init (kbd s10)\<rparr>)))"
    "boot_keeps (s\<lparr>interrupt_handlers := (interrupt_handlers s)[32 := Some Timer_irq_handler, 33 := Some Keyboard_irq_handler]\<rparr>) s'"
    "current_screen s' = 0" "bit (r_eflags (regs s')) 9"
proof -
  from boot_timer [of s] obtain s10 where s10: "timer_init TIMER_FREQUENCY s = Some s10"
    "boot_keeps (s\<lparr>interrupt_handlers := (interrupt_handlers s)[32 := Some Timer_irq_handler]\<rparr>) s10" by (auto split: option.splits)
  let ?s11 = "s10\<lparr>kbd := keyboard_init (kbd s10)\<rparr>"
  let ?s13 = "interrupts_enable (keyboard_enable_interrupts ?s11)"
  note k = boot_tables(4) [of s10 "keyboard_init (kbd s10)"] boot_keyboard [of ?s11] boot_tables(3) [of "keyboard_enable_interrupts ?s11"]
    init_screens_keep(1) [of ?s13, unfolded screens_keep_def]
  have "boot_keeps (s\<lparr>interrupt_handlers := (interrupt_handlers s)[32 := Some Timer_irq_handler, 33 := Some Keyboard_irq_handler]\<rparr>) (init_screens ?s13)"
    using s10(2) k by (simp add: boot_keeps_def)
  moreover have "bit (r_eflags (regs (init_screens ?s13))) 9"
    using k(4) by (simp add: interrupts_enable_def bit_simps)
  ultimately show thesis using that [OF s10(1) refl] init_screens_keep(2) by blast
qed

text \<open>The tree of the file system survives what keeps the blocks of the heap.\<close>

definition tree_ready :: "memory \<Rightarrow> (vfs_fn \<Rightarrow> u32) \<Rightarrow> u32 \<Rightarrow> bool" where
  "tree_ready m f root \<longleftrightarrow> (\<exists>readme home tmp dv. tree_at m (f Virtual_finddir) (base_root root readme home tmp dv)
     \<and> file_at m (f Virtual_read) readme (lit_bytes readme_text))"

lemma tree_kept:
  assumes kept: "kept L m m'" and own: "footprint (base_root root readme home tmp dv) \<union> file_bytes m readme (length readme_text) \<subseteq> live_bytes L"
    and tree: "tree_at m (f Virtual_finddir) (base_root root readme home tmp dv)" and fl: "file_at m (f Virtual_read) readme (lit_bytes readme_text)"
  shows "tree_ready m' f root"
proof -
  have same: "m' x = m x" if "x \<in> footprint (base_root root readme home tmp dv) \<union> file_bytes m readme (length readme_text)" for x
    using kept own that by (auto simp: kept_def)
  have node: "{unat readme ..< unat readme + 456} \<subseteq> footprint (base_root root readme home tmp dv)"
    by (auto simp: base_root_def base_nodes_def)
  have rd: "rd32 m' (unat readme + k) = rd32 m (unat readme + k)" if "k + 4 \<le> 456" for k
  proof (rule rd32_cong)
    fix i :: nat assume "i < 4"
    then have "unat readme + k + i \<in> {unat readme ..< unat readme + 456}" using that by auto
    with node show "m' (unat readme + k + i) = m (unat readme + k + i)" by (intro same) blast
  qed
  have "tree_at m' (f Virtual_finddir) (base_root root readme home tmp dv)" by (rule tree_at_cong [OF tree]) (use same in blast)
  moreover have "file_at m' (f Virtual_read) readme (lit_bytes readme_text)"
    by (rule file_at_frame(1) [OF fl _ rd rd]) (use same in auto)
  ultimately show ?thesis unfolding tree_ready_def by blast
qed

text \<open>The heaps, the disk driver and the file system.\<close>

lemma boot_files:
  fixes s :: "'a kernel_scheme"
  assumes fresh: "\<not> heap_initialized s" "\<not> vmem_initialized s" and no: "\<And>h. dev (hw s) h 0x1F7 = 0"
  obtains s4 s8 s9 L where "vmalloc_init (kmalloc_init s) = kret s4"
    "vfs_init (say VGA_COLOR_LIGHT_CYAN ''[INIT] Initializing Virtual File System (VFS)...\<newline>'' []
      (say VGA_COLOR_LIGHT_CYAN ''[INIT] Initializing EXT2 filesystem...\<newline>'' []
      (ide_init (say VGA_COLOR_LIGHT_CYAN ''[INIT] Initializing IDE disk driver...\<newline>'' [] (socket_init (process_init s4)))))) = kret s8"
    "mount_primary s8 = kret s9" "heap_rep s9 L" "tree_ready (mem s9) (fn_addr s9) (vfs_root s9)" "interrupt_handlers s9 = interrupt_handlers s"
proof -
  obtain s4 L4 where s4: "vmalloc_init (kmalloc_init s) = kret s4" "has_room s4 0xFFFD8 L4" "vfs_keeps s s4" "dev (hw s4) = dev (hw s)"
    by (rule boot_heap [OF fresh])
  define s5 where "s5 = say VGA_COLOR_LIGHT_CYAN ''[INIT] Initializing IDE disk driver...\<newline>'' [] (socket_init (process_init s4))"
  have k5: "boot_keeps s4 s5"
    unfolding s5_def by (rule boot_keeps_trans [OF boot_keeps_trans [OF boot_tables(1,2)] boot_say(1)])
  have "dev (hw s5) h 0x1F7 = 0" for h using no k5 s4(4) by (simp add: boot_keeps_def)
  from boot_ide [OF this] obtain ds where ds: "boot_keeps (s5\<lparr>ide_devices := ds\<rparr>) (ide_init s5)" "\<not> exists (ds ! 0)" by blast
  define s7 where "s7 = say VGA_COLOR_LIGHT_CYAN ''[INIT] Initializing Virtual File System (VFS)...\<newline>'' []
    (say VGA_COLOR_LIGHT_CYAN ''[INIT] Initializing EXT2 filesystem...\<newline>'' [] (ide_init s5))"
  have k7: "boot_keeps (s5\<lparr>ide_devices := ds\<rparr>) s7"
    unfolding s7_def by (rule boot_keeps_trans [OF boot_keeps_trans [OF ds(1) boot_say(1)] boot_say(1)])
  have "has_room (s5\<lparr>ide_devices := ds\<rparr>) 0xFFFD8 L4"
    using s4(2) boot_keeps_room [OF k5] by (simp add: has_room_def heap_abs_def)
  then have room7: "has_room s7 0xFFFD8 L4" using boot_keeps_room [OF k7] by simp
  obtain s8 L8 root readme home tmp dv where s8: "vfs_init s7 = kret s8" "heap_rep s8 L8" "vfs_root s8 = root" "vfs_keeps s7 s8"
    and tree: "tree_at (mem s8) (fn_addr s8 Virtual_finddir) (base_root root readme home tmp dv)"
      "file_at (mem s8) (fn_addr s8 Virtual_read) readme (lit_bytes readme_text)"
      "footprint (base_root root readme home tmp dv) \<union> file_bytes (mem s8) readme (length readme_text) \<subseteq> live_bytes L8"
    by (rule vfs_init_tree [OF room7]) auto
  have f8: "ide_devices s8 = ds" "interrupt_handlers s8 = interrupt_handlers s"
    using s8(4) k7 k5 s4(3) by (simp_all add: vfs_keeps_def boot_keeps_def)
  obtain s9 where s9: "mount_primary s8 = kret s9" "heap_rep s9 L8" "kept L8 (mem s8) (mem s9)" "vfs_keeps s8 s9" "vfs_root s9 = vfs_root s8"
    by (rule mount_no_disk [OF s8(2)]) (use f8(1) ds(2) in auto)
  have "tree_ready (mem s9) (fn_addr s9) (vfs_root s9)"
    using tree_kept [OF s9(3) tree(3,1,2)] s9(4,5) s8(3) by (simp add: vfs_keeps_def)
  then show thesis
    by (intro that [OF s4(1) s8(1) [unfolded s7_def s5_def] s9(1,2)]) (use f8(2) s9(4) in \<open>simp_all add: vfs_keeps_def\<close>)
qed

text \<open>
  C4. The kernel boots without a disk. From the static variables as the loader leaves them, and with no
  drive at the primary controller (its status register reads 0), every initialisation of \<open>kmain\<close> returns,
  none stops the machine, and then: the heap is sound, the tree of the file system is in memory with the
  contents of its file, the handlers of the timer, the keyboard and the system calls are installed,
  interrupts are enabled, and the first screen is shown.
\<close>

theorem kernel_boots:
  fixes s :: "'a kernel_scheme"
  assumes fresh: "\<not> heap_initialized s" "\<not> vmem_initialized s" and dir: "kernel_directory s \<noteq> 0"
    and no: "\<And>h. dev (hw s) h 0x1F7 = 0"
  shows "\<exists>s' L. kernel_init s = kret s' \<and> heap_rep s' L \<and> tree_ready (mem s') (fn_addr s') (vfs_root s')
    \<and> interrupt_handlers s' ! 32 = Some Timer_irq_handler \<and> interrupt_handlers s' ! 33 = Some Keyboard_irq_handler
    \<and> interrupt_handlers s' ! 128 = Some Syscall_dispatcher \<and> bit (r_eflags (regs s')) 9 \<and> current_screen s' = 0"
proof -
  obtain s3 where s3: "paging_enable (paging_init (syscall_init (signal_init (let s1 = gdt_init (gdt_table s) (on_hw vga_init s)
      in idt_init (isr_addr s1) (irq_addr s1) (idt_table s1) s1)))) = kret s3"
    and f3: "heap_initialized s3 = heap_initialized s" "vmem_initialized s3 = vmem_initialized s"
      "dev (hw s3) = dev (hw s)" "interrupt_handlers s3 = (replicate 256 None)[128 := Some Syscall_dispatcher]"
    by (rule boot_first [OF dir])
  have pre: "\<not> heap_initialized s3" "\<not> vmem_initialized s3" "\<And>h. dev (hw s3) h 0x1F7 = 0" using fresh no f3 by simp_all
  obtain s4 s8 s9 L where s9: "vmalloc_init (kmalloc_init s3) = kret s4"
    "vfs_init (say VGA_COLOR_LIGHT_CYAN ''[INIT] Initializing Virtual File System (VFS)...\<newline>'' []
      (say VGA_COLOR_LIGHT_CYAN ''[INIT] Initializing EXT2 filesystem...\<newline>'' []
      (ide_init (say VGA_COLOR_LIGHT_CYAN ''[INIT] Initializing IDE disk driver...\<newline>'' [] (socket_init (process_init s4)))))) = kret s8"
    "mount_primary s8 = kret s9" and f9: "heap_rep s9 L" "tree_ready (mem s9) (fn_addr s9) (vfs_root s9)" "interrupt_handlers s9 = interrupt_handlers s3"
    by (rule boot_files [OF pre])
  obtain s10 s' where s': "timer_init TIMER_FREQUENCY s9 = Some s10"
    "s' = init_screens (interrupts_enable (keyboard_enable_interrupts (s10\<lparr>kbd := keyboard_init (kbd s10)\<rparr>)))"
    and k': "boot_keeps (s9\<lparr>interrupt_handlers := (interrupt_handlers s9)[32 := Some Timer_irq_handler, 33 := Some Keyboard_irq_handler]\<rparr>) s'"
    and last: "current_screen s' = 0" "bit (r_eflags (regs s')) 9" by (rule boot_last)
  have run: "kernel_init s = kret s'"
    unfolding kernel_init_def Let_def s3 [unfolded Let_def] kbind_kret s9 s'(1) klift_Some s'(2) ..
  have "heap_rep s' L" using boot_keeps_rep [OF k'] f9(1) by (simp add: heap_rep_def heap_abs_def)
  moreover have "tree_ready (mem s') (fn_addr s') (vfs_root s')" using k' f9(2) by (simp add: boot_keeps_def)
  moreover have "interrupt_handlers s' = (replicate 256 None)[128 := Some Syscall_dispatcher, 32 := Some Timer_irq_handler, 33 := Some Keyboard_irq_handler]"
    using k' f9(3) f3(4) by (simp add: boot_keeps_def)
  then have "interrupt_handlers s' ! 32 = Some Timer_irq_handler" "interrupt_handlers s' ! 33 = Some Keyboard_irq_handler"
    "interrupt_handlers s' ! 128 = Some Syscall_dispatcher" by simp_all
  ultimately show ?thesis using run last by blast
qed

text \<open>The state in which the loader enters the kernel, on a machine whose devices answer every read with 0.\<close>

definition kernel_example :: kernel where
  "kernel_example = kernel_boot keyboard_boot 0x20000 0x21000 (\<lambda>n. 0x22000 + of_nat n) (\<lambda>n. 0x23000 + of_nat n) 0x24000
     (shell_boot 0x8000 0x9000 0xA000 0xB000 0xC000 (\<lambda>_. 0) (debug_boot 0xD000 0xE000 (vmem_boot (vfs_boot fn_example 0x3000 0x2000
       (ide_boot (gdt_boot (mouse_boot (scrollback_boot (screens_boot (signals_boot (syscalls_boot (timer_boot
         (interrupts_boot cpu_example (sockets_boot (procs_boot (paging_boot power_on 0x10000 0x11000 0x12000))))))))))))))))"

lemmas boot_defs = kernel_boot_def shell_boot_def debug_boot_def vmem_boot_def vfs_boot_def ide_boot_def gdt_boot_def mouse_boot_def
  scrollback_boot_def screens_boot_def signals_boot_def syscalls_boot_def timer_boot_def interrupts_boot_def sockets_boot_def
  procs_boot_def paging_boot_def kernel.defs shell.defs debug.defs vmem.defs vfs.defs ide.defs gdt.defs mouse.defs scrollback.defs
  screens.defs signals.defs syscalls.defs timer.defs interrupts.defs sockets.defs procs.defs paging.defs

lemma kernel_example_fields:
  "\<not> heap_initialized kernel_example" "\<not> vmem_initialized kernel_example" "kernel_directory kernel_example = 0x10000"
  "hw kernel_example = power_on"
  by (simp_all add: kernel_example_def boot_defs)

theorem kernel_boots_witness:
  "\<exists>s' L. kernel_init kernel_example = kret s' \<and> heap_rep s' L \<and> tree_ready (mem s') (fn_addr s') (vfs_root s') \<and> current_screen s' = 0"
  using kernel_boots [of kernel_example] by (auto simp: kernel_example_fields power_on_def)

end
