(* ===== verification/Spec2Isabelle.thy ===== *)
theory Spec2Isabelle
  imports KFS_Lifecycle KFS_Boot
begin

text \<open>
  Verification of the KFS kernel, a small operating system for i386 PCs written in C.

  \<^bold>\<open>The program.\<close> The boot loader enters \<open>kmain\<close> (\<open>src/kernel.c\<close>), which sets up the screen, the
  segment and interrupt tables, signals, system calls, paging, the heaps, processes, sockets, the disk, the
  file system, the timer, the keyboard and four screens and then runs a shell. Everything runs in ring 0
  and in one address space; the only concurrency is that of interrupt handlers with the code they
  interrupt. The parts interact as follows: \<open>printk\<close> draws on the VGA text screen and is called from everywhere; paging and processes
  take their memory from the kernel heap; sockets keep their messages on the heap and ask the process
  table for the current process; the timer interrupt calls the scheduler; the assembly stubs of
  \<open>src/interrupt.s\<close> connect the processor's interrupts to the C handlers. The virtual file system keeps its
  nodes on the heap and calls them through function pointers; ext2 nodes read the disk through the IDE
  driver; the shell calls every other part.

  \<^bold>\<open>State.\<close> The state of the machine is one extensible record. Each component extends the record of the
  component below it with its own static variables, and its operations are functions on every
  extension of that record, so that they apply unchanged to the states of the components above:
  \<open>machine\<close> (byte memory and hardware), \<open>kheap\<close>, \<open>paging\<close>, \<open>procs\<close>, \<open>sockets\<close>, \<open>interrupts\<close> (with the
  processor's registers), \<open>timer\<close>, \<open>syscalls\<close>, \<open>signals\<close>, \<open>screens\<close>, \<open>scrollback\<close>, \<open>mouse\<close>, \<open>gdt\<close>, \<open>ide\<close>, \<open>vfs\<close>, \<open>vmem\<close>,
  \<open>debug\<close>, \<open>shell\<close>, \<open>kernel\<close>. The keyboard is a record of its own, which only \<open>kernel\<close> holds. Each record has a
  constant with the values of the static variables before anything runs (\<open>kheap_boot\<close> and so on). The C
  pointers are 32-bit words into the byte memory; structures that live on the heap (heap blocks, page
  tables, signal entries, socket messages, file system nodes) are read and written there at the offsets
  the compiler gives them. Static tables (processes, sockets,
  descriptors) are lists, and pointers to their elements are indices. Machine integers keep their
  width. Devices are an argument: a function that answers each port read from the history of port
  accesses.

  \<^bold>\<open>Effects.\<close> A kernel operation returns \<open>kret x\<close>, or \<open>kernel_panic msg\<close> when the code stops the machine,
  or \<open>None\<close> when it does not return or does something C leaves undefined. Loops over linked structures
  are \<open>partial_function (option)\<close>, so that not returning is the value \<open>None\<close>; a theorem that such a loop
  returns is stated as such. Loops that wait for interrupts take the number of interrupts to come
  (\<open>timer_wait\<close>) or the keys to come (\<open>keyboard_getline\<close>, the shell) as an argument. Function pointers are
  constructors of a datatype where a table holds them, and addresses given by the state where memory
  holds them; the code of handlers that only callers know is an argument.

  \<^bold>\<open>Theories.\<close>
  \<^item> \<open>KFS_Prelude\<close>: machine integers, kernel results, memory with little-endian accesses.
  \<^item> \<open>KFS_String\<close> (\<open>src/string.c\<close>): the C string routines over memory, \<open>snprintf\<close> included.
  \<^item> \<open>KFS_Console\<close> (\<open>src/vga.c\<close>, \<open>src/printf.c\<close>, \<open>include/io.h\<close>, the messages of \<open>src/panic.c\<close>): the screen, the
    cursor, number formatting. Lemmas: the cursor stays on the screen, a printed number reads back.
  \<^item> \<open>KFS_Allocator\<close>, \<open>KFS_Kmalloc\<close> (\<open>src/kmalloc.c\<close>): an abstract first-fit allocator as a locale, and the
    boundary-tagged heap in memory that refines it. Theorems: soundness of every run of allocations whose
    sizes do not wrap around, frees of allocated blocks, double frees and writes outside headers and free
    blocks; refinement of \<open>kmalloc\<close> and \<open>kfree\<close>, disjointness, and what happens when the size computation
    does wrap around.
  \<^item> \<open>KFS_Queue\<close>: bounded FIFO queues as a locale, interpreted on the keyboard buffer and on the accept
    queue of a socket.
  \<^item> \<open>KFS_Pic\<close> (\<open>src/pic.c\<close>): the interrupt controllers by their port accesses.
  \<^item> \<open>KFS_Keyboard\<close> (\<open>src/keyboard.c\<close>): scancode tables, ring buffer, interrupt handler, line editing.
  \<^item> \<open>KFS_Paging\<close> (\<open>src/paging.c\<close>): directories and tables in memory, and the translation they define; what
    unaligned page frames expose to user mode, and what destroying a directory does.
  \<^item> \<open>KFS_Process\<close> (\<open>src/process.c\<close>): the process table and every operation on it; \<open>KFS_Scheduler\<close>: round
    robin, one running process, no starvation; \<open>KFS_Lifecycle\<close>: sending and delivering signals.
  \<^item> \<open>KFS_Socket\<close> (\<open>src/socket.c\<close>): connections, accept queue, message queues.
  \<^item> \<open>KFS_Interrupt\<close> (\<open>src/idt.c\<close>, \<open>src/interrupt.s\<close>): gates, stubs, frames, the dispatcher.
  \<^item> \<open>KFS_Timer\<close> (\<open>src/timer.c\<close>): ticks, preemption, waiting.
  \<^item> \<open>KFS_Syscall\<close> (\<open>src/syscall.c\<close>): the table, the dispatcher on the interrupt frame, the calls. Theorems: which
    call each number runs, and that no number ever arrives through \<open>INT 0x80\<close>.
  \<^item> \<open>KFS_Signal\<close> (\<open>src/signal.c\<close>): immediate and deferred delivery of kernel signals.
  \<^item> \<open>KFS_Screen\<close> (\<open>src/screen.c\<close>): four screens, refined to four independent ones. \<open>KFS_Scrollback\<close>
    (\<open>src/scrollback.c\<close>), \<open>KFS_Mouse\<close> (\<open>src/mouse.c\<close>): looking back, the packets of the mouse.
  \<^item> \<open>KFS_Gdt\<close> (\<open>src/gdt.c\<close>, \<open>gdt_flush\<close> of \<open>src/boot.s\<close>): descriptors.
  \<^item> \<open>KFS_Ide\<close> (\<open>src/ide.c\<close>): identification and transfer of sectors against a model of a drive that is busy for
    a bounded time, requests data only while words of a command are outstanding and obeys the sector count;
    and that a drive cannot be reached while an absent one is selected.
  \<^item> \<open>KFS_Ext2\<close> (\<open>src/ext2.c\<close>): the operations; \<open>KFS_Ext2_Files\<close>: what a read of a file delivers, through direct
    and indirect blocks;
    \<open>KFS_Ext2_Dirs\<close>: directory search, and the overrun by the group descriptors.
  \<^item> \<open>KFS_Vfs\<close> (\<open>src/vfs.c\<close>): the operations; \<open>KFS_Vfs_Paths\<close>: trees in memory, and path resolution as a walk down
    the tree; \<open>KFS_Vfs_Nodes\<close>: making nodes; \<open>KFS_Vfs_Init\<close>: the tree \<open>vfs_init\<close> builds and a file read from it.
  \<^item> \<open>KFS_Vmalloc\<close> (\<open>src/vmalloc.c\<close>): the operations; \<open>KFS_Vmalloc_Blocks\<close>: their effect on the list of blocks, and
    that blocks in use overlap.
  \<^item> \<open>KFS_Debug\<close> (\<open>src/stack.c\<close>, \<open>src/panic.c\<close>): stack traces, saved registers, the report of a panic.
  \<^item> \<open>KFS_Shell\<close> (\<open>src/shell.c\<close>): line editor, parser, every command, login, main loop; \<open>KFS_Shell_Lines\<close>: the
    parser refines a splitter of lists, the editor keeps the edited line, the login screen is described by
    its lines, and the \<open>login\<close> command with a name alone logs in each user of the table.
  \<^item> \<open>KFS_Kernel\<close> (\<open>src/kernel.c\<close>): the order of initialisation and the contents of the screens. \<open>KFS_Boot\<close>:
    without a disk the whole initialisation succeeds, with a sound heap, the file system, the interrupt
    handlers and the first screen in place at its end.

  \<^bold>\<open>Bounds.\<close> The tables have the sizes of the code (256 processes, 256 sockets, 256 gates, 255 pending
  keys). The theorems about the heap hold for the heap of \<open>kmalloc_init\<close>, 1 MB from 5 MB on. The driver polls
  the status of a drive at most 10000 times; the theorems about transfers assume a drive that answers
  within fewer reads.

  \<^bold>\<open>Not modelled.\<close> The translation of addresses by the memory management unit while the kernel runs: the
  kernel identity-maps the memory it uses, and the page tables are verified as data. Caches and
  the processor's reaction to bad segment selectors. The boot loader's data and \<open>boot.s\<close> apart from
  \<open>gdt_flush\<close>. The C stack of handlers below the interrupt frame, and what the compiler keeps in registers
  between statements of inline assembly. Interrupts that arrive while \<open>kmain\<close> and the shell run are not
  interleaved with their steps; the interrupt handlers are verified on their own.
\<close>

end
